(* ===== verification/Prelude.thy ===== *)
theory Prelude
  imports
    Main
    "HOL-Library.Char_ord"
    "HOL-Library.List_Lexorder"
    "HOL-Library.Product_Lexorder"
    "HOL-Library.Multiset"
begin

text \<open>
  The vocabulary shared by the components: Go strings (byte sequences, ordered bytewise),
  Go maps as association lists, the slice sorts, decimal rendering, 64-bit wrap-around and
  Go's truncating division, with the list lemmas the component proofs use.

  A Go \<open>string\<close> is a sequence of bytes and so is an Isabelle \<open>string\<close>; \<open><\<close> on both is
  bytewise lexicographic (theories \<open>Char_ord\<close> and \<open>List_Lexorder\<close>). A Go map is an
  association list: a lookup takes the first binding, and the order of the list stands for
  the unspecified iteration order, so a definition that ranges over a map and a theorem
  that does not fix the list say together that the result does not depend on that order.
  \<open>time.Duration\<close> and \<open>time.Time\<close> are integers (nanoseconds); where a product of them
  could leave the 64-bit range the model wraps explicitly with \<open>wrap64\<close>.
\<close>

named_theorems go_simps \<open>evaluation of the Go vocabulary\<close>

type_synonym duration = int
type_synonym 'v gomap = "(string \<times> 'v) list"


section \<open>Durations and 64-bit integers\<close>

definition nanosecond :: duration where "nanosecond = 1"
definition millisecond :: duration where "millisecond = 1000000"
definition second :: duration where "second = 1000000000"
definition minute :: duration where "minute = 60 * second"
definition hour :: duration where "hour = 60 * minute"

lemmas duration_defs [go_simps] =
  nanosecond_def millisecond_def second_def minute_def hour_def

definition wrap64 :: "int \<Rightarrow> int" where
  "wrap64 x = (x + 2 ^ 63) mod 2 ^ 64 - 2 ^ 63"

definition in_int64 :: "int \<Rightarrow> bool" where
  "in_int64 x \<longleftrightarrow> - (2 ^ 63) \<le> x \<and> x < 2 ^ 63"

lemma wrap64_id: "in_int64 x \<Longrightarrow> wrap64 x = x"
  by (simp add: wrap64_def in_int64_def)

lemma wrap64_range: "in_int64 (wrap64 x)"
proof -
  have "0 \<le> (x + 2 ^ 63) mod 2 ^ 64" "(x + 2 ^ 63) mod 2 ^ 64 < 2 ^ 64"
    by simp_all
  then show ?thesis by (simp add: wrap64_def in_int64_def)
qed

text \<open>\<open>Time.Sub\<close> saturates.\<close>

definition time_sub :: "int \<Rightarrow> int \<Rightarrow> duration" where
  "time_sub a b = max (- (2 ^ 63)) (min (2 ^ 63 - 1) (a - b))"

lemma in_int64_nonneg_le: "0 \<le> x \<Longrightarrow> x \<le> y \<Longrightarrow> in_int64 y \<Longrightarrow> in_int64 x"
  by (simp add: in_int64_def)

text \<open>Go's integer division truncates towards zero.\<close>

definition quot :: "int \<Rightarrow> int \<Rightarrow> int" where
  "quot a b = sgn a * sgn b * (\<bar>a\<bar> div \<bar>b\<bar>)"

lemma quot_nonneg: "0 \<le> a \<Longrightarrow> 0 < b \<Longrightarrow> quot a b = a div b"
  by (cases "a = 0") (simp_all add: quot_def)


section \<open>Strings\<close>

definition has_prefix :: "string \<Rightarrow> string \<Rightarrow> bool" where
  "has_prefix s p \<longleftrightarrow> take (length p) s = p"

definition trim_prefix :: "string \<Rightarrow> string \<Rightarrow> string" where
  "trim_prefix s p = (if has_prefix s p then drop (length p) s else s)"

definition has_suffix :: "string \<Rightarrow> string \<Rightarrow> bool" where
  "has_suffix s p \<longleftrightarrow> length p \<le> length s \<and> drop (length s - length p) s = p"

fun join :: "string list \<Rightarrow> string \<Rightarrow> string" where
  "join [] sep = []"
| "join [x] sep = x"
| "join (x # y # xs) sep = x @ sep @ join (y # xs) sep"

lemma has_prefix_append [simp]: "has_prefix (p @ s) p"
  by (simp add: has_prefix_def)

lemma has_prefix_iff: "has_prefix s p \<longleftrightarrow> (\<exists>r. s = p @ r)"
  unfolding has_prefix_def by (metis append_eq_conv_conj append_take_drop_id)

lemma trim_prefix_append [simp]: "trim_prefix (p @ s) p = s"
  by (simp add: trim_prefix_def)

fun contains :: "string \<Rightarrow> string \<Rightarrow> bool" where
  "contains [] p \<longleftrightarrow> p = []"
| "contains (c # s) p \<longleftrightarrow> has_prefix (c # s) p \<or> contains s p"

lemma contains_iff: "contains s p \<longleftrightarrow> (\<exists>u v. s = u @ p @ v)"
proof (induction s)
  case (Cons c s)
  have "(\<exists>u v. c # s = u @ p @ v) \<longleftrightarrow> (\<exists>v. c # s = p @ v) \<or> (\<exists>u v. s = u @ p @ v)"
    by (metis append_Cons append_Nil neq_Nil_conv list.inject)
  then show ?case by (simp add: has_prefix_iff Cons.IH)
qed simp

text \<open>Where an occurrence can lie in a string with a known character in it.\<close>

lemma contains_split:
  "contains (a @ c # b) p \<longleftrightarrow> contains a p \<or> contains b p \<or>
     (\<exists>s t. p = s @ c # t \<and> (\<exists>u. a = u @ s) \<and> has_prefix b t)"
proof -
  have "(\<exists>u v. a @ c # b = u @ p @ v) \<longleftrightarrow> (\<exists>u v. a = u @ p @ v) \<or> (\<exists>u v. b = u @ p @ v) \<or>
     (\<exists>s t. p = s @ c # t \<and> (\<exists>u. a = u @ s) \<and> (\<exists>v. b = t @ v))" (is "?l \<longleftrightarrow> ?r")
  proof
    assume ?l
    then obtain u v where "a @ c # b = u @ p @ v" by blast
    then consider (1) w where "a = u @ w" "w @ c # b = p @ v" | (2) w where "u = a @ w" "c # b = w @ p @ v"
      by (auto simp: append_eq_append_conv2)
    then show ?r
    proof cases
      case 1
      then consider (3) x where "w = p @ x" | (4) x where "p = w @ x" "c # b = x @ v"
        by (auto simp: append_eq_append_conv2)
      then show ?r
      proof cases
        case 3
        with 1 show ?r by auto
      next
        case 4
        then show ?r
        proof (cases x)
          case Nil
          with 1 4 have "a = u @ p @ []" by simp
          then show ?r by blast
        next
          case (Cons d t)
          with 4 have "p = w @ c # t" "b = t @ v" by auto
          with 1 show ?r by blast
        qed
      qed
    next
      case 2
      show ?r
      proof (cases w)
        case Nil
        with 2 have e: "c # b = p @ v" by simp
        show ?r
        proof (cases p)
          case Nil
          then have "a = a @ p @ []" by simp
          then show ?r by blast
        next
          case (Cons d t)
          with e have "p = [] @ c # t" "b = t @ v" by auto
          then show ?r by blast
        qed
      next
        case (Cons d t)
        with 2 have "b = t @ p @ v" by simp
        then show ?r by blast
      qed
    qed
  next
    assume ?r
    then show ?l by (elim disjE exE conjE) (simp_all, (metis append_Cons append_assoc)+)
  qed
  then show ?thesis by (simp only: contains_iff has_prefix_iff)
qed

lemma contains_set: "contains s p \<Longrightarrow> set p \<subseteq> set s"
  by (auto simp: contains_iff)

text \<open>\<open>strings.Split\<close> at a one-byte separator.\<close>

fun split_on :: "char \<Rightarrow> string \<Rightarrow> string list" where
  "split_on sep [] = [[]]"
| "split_on sep (c # s) =
     (if c = sep then [] # split_on sep s
      else case split_on sep s of w # ws \<Rightarrow> (c # w) # ws | [] \<Rightarrow> [[c]])"

lemma split_on_none: "sep \<notin> set s \<Longrightarrow> split_on sep s = [s]"
  by (induction s) auto

lemma split_on_append: "sep \<notin> set w \<Longrightarrow> split_on sep (w @ sep # s) = w # split_on sep s"
  by (induction w) auto

lemma split_on_join:
  "\<forall>w\<in>set ws. sep \<notin> set w \<Longrightarrow> ws \<noteq> [] \<Longrightarrow> split_on sep (join ws [sep]) = ws"
  by (induction ws "[sep]" rule: join.induct) (simp_all add: split_on_none split_on_append)

text \<open>\<open>strings.TrimSpace\<close> and \<open>strings.ToLower\<close> on ASCII text.\<close>

definition is_space :: "char \<Rightarrow> bool" where
  "is_space c \<longleftrightarrow> of_char c \<in> {9, 10, 11, 12, 13, 32 :: nat}"

definition trim_space :: "string \<Rightarrow> string" where
  "trim_space s = rev (dropWhile is_space (rev (dropWhile is_space s)))"

definition lower_char :: "char \<Rightarrow> char" where
  "lower_char c = (let n = (of_char c :: nat) in if 65 \<le> n \<and> n \<le> 90 then char_of (n + 32) else c)"

definition to_lower :: "string \<Rightarrow> string" where
  "to_lower = map lower_char"

lemma trim_space_id: "\<forall>c\<in>set s. \<not> is_space c \<Longrightarrow> trim_space s = s"
proof -
  assume a: "\<forall>c\<in>set s. \<not> is_space c"
  have dw: "dropWhile is_space t = t" if "\<forall>c\<in>set t. \<not> is_space c" for t using that by (cases t) auto
  show ?thesis using dw [OF a] dw [of "rev s"] a by (simp add: trim_space_def)
qed

text \<open>\<open>strings.Fields\<close> on ASCII text, with the word read so far reversed, and the text after the last
  occurrence of a character.\<close>

fun words_of :: "string \<Rightarrow> string \<Rightarrow> string list" where
  "words_of cur [] = (if cur = [] then [] else [rev cur])"
| "words_of cur (c # s) =
     (if is_space c then (if cur = [] then words_of [] s else rev cur # words_of [] s) else words_of (c # cur) s)"

definition after_last :: "char \<Rightarrow> string \<Rightarrow> string" where
  "after_last c s = rev (takeWhile (\<lambda>d. d \<noteq> c) (rev s))"

text \<open>\<open>%d\<close> and \<open>strconv.Itoa\<close>.\<close>

definition digit :: "nat \<Rightarrow> char" where
  "digit d = char_of (48 + d)"

fun show_nat :: "nat \<Rightarrow> string" where
  "show_nat n = (if n < 10 then [digit n] else show_nat (n div 10) @ [digit (n mod 10)])"

declare show_nat.simps [simp del]

definition itoa :: "int \<Rightarrow> string" where
  "itoa i = (if i < 0 then CHR ''-'' # show_nat (nat (- i)) else show_nat (nat i))"

text \<open>Reading decimal digits back.\<close>

definition is_digit :: "char \<Rightarrow> bool" where
  "is_digit c \<longleftrightarrow> 48 \<le> (of_char c :: nat) \<and> (of_char c :: nat) \<le> 57"

definition digits_val :: "string \<Rightarrow> nat" where
  "digits_val ds = foldl (\<lambda>v c. 10 * v + (of_char c - 48)) 0 ds"

text \<open>\<open>strconv.Atoi\<close>: an optional sign and decimal digits, in range.\<close>

definition atoi :: "string \<Rightarrow> int option" where
  "atoi s =
     (let neg = has_prefix s ''-'';
          ds = (if neg \<or> has_prefix s ''+'' then tl s else s);
          v = (if neg then - int (digits_val ds) else int (digits_val ds))
      in if ds \<noteq> [] \<and> list_all is_digit ds \<and> in_int64 v then Some v else None)"

lemma digit_inj: "d < 10 \<Longrightarrow> e < 10 \<Longrightarrow> digit d = digit e \<Longrightarrow> d = e"
proof -
  assume "d < 10" "e < 10" "digit d = digit e"
  then have "(of_char (char_of (48 + d)) :: nat) = of_char (char_of (48 + e))"
    by (simp add: digit_def)
  with \<open>d < 10\<close> \<open>e < 10\<close> show ?thesis
    by (simp add: of_char_of)
qed

lemma of_char_digit: "d < 10 \<Longrightarrow> of_char (digit d) = 48 + d"
  by (simp add: digit_def of_char_of)

lemma show_nat_chars: "c \<in> set (show_nat n) \<Longrightarrow> \<exists>d<10. c = digit d"
proof (induction n rule: show_nat.induct)
  case (1 n)
  show ?case
  proof (cases "n < 10")
    case True
    with "1.prems" show ?thesis by (auto simp: show_nat.simps [of n])
  next
    case False
    with "1.prems" have "c \<in> set (show_nat (n div 10)) \<or> c = digit (n mod 10)"
      by (auto simp: show_nat.simps [of n])
    then show ?thesis
    proof
      assume "c \<in> set (show_nat (n div 10))"
      with False show ?thesis using "1.IH" by blast
    next
      assume "c = digit (n mod 10)"
      moreover have "n mod 10 < 10" by simp
      ultimately show ?thesis by blast
    qed
  qed
qed

lemma show_nat_ne: "show_nat n \<noteq> []"
  by (subst show_nat.simps) simp

lemma show_nat_inj: "show_nat m = show_nat n \<Longrightarrow> m = n"
proof (induction m arbitrary: n rule: show_nat.induct)
  case (1 m)
  have single: "show_nat k = [digit k]" if "k < 10" for k
    using that by (simp add: show_nat.simps [of k])
  have many: "show_nat k = show_nat (k div 10) @ [digit (k mod 10)]" if "\<not> k < 10" for k
    using that by (simp add: show_nat.simps [of k])
  show ?case
  proof (cases "m < 10"; cases "n < 10")
    assume "m < 10" "n < 10"
    with "1.prems" show ?thesis by (simp add: single digit_inj)
  next
    assume "m < 10" "\<not> n < 10"
    with "1.prems" show ?thesis
      using show_nat_ne [of "n div 10"] by (simp add: single many)
  next
    assume "\<not> m < 10" "n < 10"
    with "1.prems" show ?thesis
      using show_nat_ne [of "m div 10"] by (simp add: single many)
  next
    assume big: "\<not> m < 10" "\<not> n < 10"
    with "1.prems" have "show_nat (m div 10) = show_nat (n div 10)"
      and "digit (m mod 10) = digit (n mod 10)"
      by (simp_all add: many)
    then have "m div 10 = n div 10" and "m mod 10 = n mod 10"
      using big "1.IH" digit_inj by (auto)
    then show ?thesis by (metis div_mult_mod_eq)
  qed
qed

lemma itoa_chars: "c \<in> set (itoa i) \<Longrightarrow> c = CHR ''-'' \<or> (\<exists>d<10. c = digit d)"
  by (auto simp: itoa_def dest: show_nat_chars split: if_splits)

lemma digit_neq: "d < 10 \<Longrightarrow> (of_char c :: nat) < 48 \<Longrightarrow> c \<noteq> digit d"
  using of_char_digit [of d] by auto

lemma itoa_no_slash: "CHR ''/'' \<notin> set (itoa i)"
  using itoa_chars [of "CHR ''/''" i] digit_neq [of _ "CHR ''/''"] by auto

lemma show_nat_no_minus: "CHR ''-'' # xs \<noteq> show_nat n"
proof
  assume "CHR ''-'' # xs = show_nat n"
  then have "CHR ''-'' \<in> set (show_nat n)" by (metis list.set_intros(1))
  then obtain d where "d < 10" "CHR ''-'' = digit d" by (blast dest: show_nat_chars)
  then show False using digit_neq [of d "CHR ''-''"] by simp
qed

lemma itoa_inj: "itoa i = itoa j \<Longrightarrow> i = j"
  by (auto simp: itoa_def show_nat_no_minus show_nat_no_minus [symmetric]
      dest!: show_nat_inj split: if_splits)

lemma is_digit_digit: "d < 10 \<Longrightarrow> is_digit (digit d)"
  by (simp add: is_digit_def of_char_digit)

lemma digits_val_show_nat: "digits_val (show_nat n) = n"
proof (induction n rule: show_nat.induct)
  case (1 n)
  then show ?case
    by (cases "n < 10")
      (simp_all add: show_nat.simps [of n] digits_val_def of_char_digit)
qed

lemma takeWhile_show_nat: "takeWhile is_digit (show_nat n) = show_nat n"
  by (auto simp: takeWhile_eq_all_conv is_digit_digit dest!: show_nat_chars)

lemma show_nat_hd: "hd (show_nat n) \<noteq> CHR ''-'' \<and> hd (show_nat n) \<noteq> CHR ''+'' \<and> \<not> is_space (hd (show_nat n))"
proof -
  obtain d where "d < 10" and "hd (show_nat n) = digit d"
    using show_nat_chars [of "hd (show_nat n)" n] show_nat_ne [of n] by auto
  then show ?thesis
    by (auto simp: is_space_def of_char_digit dest: digit_neq [of d "CHR ''-''"] digit_neq [of d "CHR ''+''"])
qed

lemma atoi_itoa: "in_int64 (int n) \<Longrightarrow> atoi (itoa (int n)) = Some (int n)"
proof -
  assume r: "in_int64 (int n)"
  have h: "\<not> has_prefix (show_nat n) ''-''" "\<not> has_prefix (show_nat n) ''+''"
    using show_nat_hd [of n] show_nat_ne [of n] by (cases "show_nat n"; simp add: has_prefix_def)+
  have "list_all is_digit (show_nat n)" by (auto simp: list_all_iff is_digit_digit dest!: show_nat_chars)
  then show ?thesis using h r show_nat_ne by (simp add: atoi_def itoa_def digits_val_show_nat Let_def)
qed


section \<open>Maps as association lists\<close>

text \<open>\<open>m[k]\<close> of a \<open>map[string]int64\<close>: the zero value where the key is absent.\<close>

definition mget :: "int gomap \<Rightarrow> string \<Rightarrow> int" where
  "mget m k = (case map_of m k of None \<Rightarrow> 0 | Some v \<Rightarrow> v)"

text \<open>\<open>m[k] = v\<close>, in place for a key that is present.\<close>

fun mput :: "('k \<times> 'v) list \<Rightarrow> 'k \<Rightarrow> 'v \<Rightarrow> ('k \<times> 'v) list" where
  "mput [] k v = [(k, v)]"
| "mput ((k', v') # m) k v = (if k' = k then (k, v) # m else (k', v') # mput m k v)"

text \<open>\<open>m[k]++\<close> on a \<open>map[string]int\<close>.\<close>

definition mincr :: "'k \<Rightarrow> ('k \<times> int) list \<Rightarrow> ('k \<times> int) list" where
  "mincr k m = mput m k (case map_of m k of None \<Rightarrow> 1 | Some n \<Rightarrow> n + 1)"

definition tally :: "'k list \<Rightarrow> ('k \<times> int) list" where
  "tally ks = fold mincr ks []"

lemma map_of_mput [simp]: "map_of (mput m k v) = (map_of m)(k \<mapsto> v)"
  by (induction m) (auto simp: fun_eq_iff)

lemma keys_mput: "fst ` set (mput m k v) = insert k (fst ` set m)"
proof (induction m)
  case (Cons a m)
  then show ?case by (cases a) (simp add: insert_commute)
qed simp

lemma distinct_mput: "distinct (map fst m) \<Longrightarrow> distinct (map fst (mput m k v))"
  by (induction m) (auto simp: keys_mput simp flip: image_set)

lemma keys_mincr [simp]: "fst ` set (mincr k m) = insert k (fst ` set m)"
  by (simp add: mincr_def keys_mput)

lemma distinct_mincr: "distinct (map fst m) \<Longrightarrow> distinct (map fst (mincr k m))"
  by (simp add: mincr_def distinct_mput)

lemma keys_fold_mincr: "fst ` set (fold mincr ks m) = set ks \<union> fst ` set m"
  by (induction ks arbitrary: m) auto

lemma distinct_fold_mincr:
  "distinct (map fst m) \<Longrightarrow> distinct (map fst (fold mincr ks m))"
  by (induction ks arbitrary: m) (auto intro: distinct_mincr)

lemma map_of_fold_mincr:
  "map_of (fold mincr ks m) k =
     (if k \<in> set ks then Some (int (count_list ks k) + (case map_of m k of None \<Rightarrow> 0 | Some n \<Rightarrow> n))
      else map_of m k)"
  by (induction ks arbitrary: m) (auto simp: mincr_def split: option.splits)

lemma keys_tally [simp]: "fst ` set (tally ks) = set ks"
  by (simp add: tally_def keys_fold_mincr)

lemma distinct_tally [simp]: "distinct (map fst (tally ks))"
  by (simp add: tally_def distinct_fold_mincr)

lemma map_of_tally:
  "map_of (tally ks) k = (if k \<in> set ks then Some (int (count_list ks k)) else None)"
  by (simp add: tally_def map_of_fold_mincr)

lemma mget_tally: "mget (tally ks) k = int (count_list ks k)"
  by (auto simp: mget_def map_of_tally count_list_0_iff)

lemma tally_mem: "(k, n) \<in> set (tally ks) \<longleftrightarrow> k \<in> set ks \<and> n = int (count_list ks k)"
  using map_of_eq_Some_iff [OF distinct_tally, of ks k n]
  by (auto simp: map_of_tally split: if_splits)

text \<open>\<open>sortedKeys\<close> and every \<open>range\<close> over a map that ends in \<open>sort.Strings\<close>.\<close>

definition sorted_keys :: "'v gomap \<Rightarrow> string list" where
  "sorted_keys m = sort (map fst m)"

lemma set_sorted_keys [simp]: "set (sorted_keys m) = fst ` set m"
  by (simp add: sorted_keys_def)

lemma sorted_keys_cong:
  "distinct (map fst m) \<Longrightarrow> distinct (map fst m') \<Longrightarrow> fst ` set m = fst ` set m' \<Longrightarrow>
   sorted_keys m = sorted_keys m'"
  unfolding sorted_keys_def
  by (rule sorted_distinct_set_unique) (simp_all)


section \<open>Lists\<close>

lemma count_list_gt_1_not_distinct: "1 < count_list xs x \<Longrightarrow> \<not> distinct xs"
  by (metis distinct_count_atmost_1 count_mset leD less_numeral_extra(3) mset_eq_setD
      count_list_0_iff not_one_less_zero One_nat_def le_refl set_mset_mset)

lemma not_distinct_count_list: "\<not> distinct xs \<Longrightarrow> \<exists>x. 1 < count_list xs x"
proof (induction xs)
  case (Cons a xs)
  show ?case
  proof (cases "distinct xs")
    case True
    with Cons.prems have "a \<in> set xs" by simp
    then have "0 < count_list xs a" by (metis count_list_0_iff gr0I)
    then have "1 < count_list (a # xs) a" by simp
    then show ?thesis by blast
  next
    case False
    then obtain x where "1 < count_list xs x" using Cons.IH by blast
    then have "1 < count_list (a # xs) x" by simp
    then show ?thesis by blast
  qed
qed simp

lemma distinct_iff_count_list: "distinct xs \<longleftrightarrow> (\<forall>x. count_list xs x \<le> 1)"
  by (metis count_list_gt_1_not_distinct not_distinct_count_list linorder_not_less)

lemma distinct_iff_count_mem: "distinct xs \<longleftrightarrow> (\<forall>x\<in>set xs. count_list xs x \<le> 1)"
proof -
  have "count_list xs x \<le> 1" if "x \<notin> set xs" for x
    using that by (simp add: count_list_0_iff)
  then show ?thesis unfolding distinct_iff_count_list by blast
qed

lemma filter_eq_Nil_iff: "filter P xs = [] \<longleftrightarrow> (\<forall>x\<in>set xs. \<not> P x)"
  by (simp add: filter_empty_conv)


section \<open>Separators and map updates\<close>

lemma append_sep_eq:
  "c \<notin> set u \<Longrightarrow> c \<notin> set u' \<Longrightarrow> u @ c # v = u' @ c # v' \<longleftrightarrow> u = u' \<and> v = v'"
proof (induction u arbitrary: u')
  case Nil
  then show ?case by (cases u') auto
next
  case (Cons x u)
  then show ?case by (cases u') auto
qed

lemma set_mput:
  "distinct (map fst m) \<Longrightarrow> set (mput m k v) = insert (k, v) {x \<in> set m. fst x \<noteq> k}"
  by (induction m) (force simp: image_iff split: if_splits)+


section \<open>Counting\<close>

lemma sum_list_swap: "(\<Sum>x\<leftarrow>xs. \<Sum>y\<leftarrow>ys. f x y) = (\<Sum>y\<leftarrow>ys. \<Sum>x\<leftarrow>xs. (f x y :: nat))"
  by (induction xs) (simp_all add: sum_list_addf)

lemma length_filter_sum: "length (filter P xs) = (\<Sum>x\<leftarrow>xs. if P x then 1 else 0)"
  by (induction xs) auto

lemma length_filter_mset: "mset xs = mset ys \<Longrightarrow> length (filter P xs) = length (filter P ys)"
  by (metis mset_filter size_mset)

lemma length_filter_product_swap:
  "length (filter (\<lambda>(x, y). P x y) (List.product xs ys)) = length (filter (\<lambda>(y, x). P x y) (List.product ys xs))"
proof -
  have count: "length (filter (\<lambda>(x, y). Q x y) (List.product as bs)) = (\<Sum>x\<leftarrow>as. \<Sum>y\<leftarrow>bs. if Q x y then 1 else 0)"
    for Q and as :: "'x list" and bs :: "'y list"
    by (induction as) (simp_all add: filter_map comp_def length_filter_sum)
  have "(\<Sum>x\<leftarrow>xs. \<Sum>y\<leftarrow>ys. if P x y then 1 else (0::nat)) = (\<Sum>y\<leftarrow>ys. \<Sum>x\<leftarrow>xs. if P x y then 1 else 0)"
    by (rule sum_list_swap)
  then show ?thesis using count [of P xs ys] count [of "\<lambda>y x. P x y" ys xs] by simp
qed


section \<open>Permutations\<close>

lemma mset_concat_map:
  assumes "mset xs = mset ys"
  shows "mset (concat (map f xs)) = mset (concat (map f ys))"
proof -
  have "mset (concat (map f zs)) = \<Sum>\<^sub># (image_mset (\<lambda>x. mset (f x)) (mset zs))" for zs
    by (induction zs) simp_all
  with assms show ?thesis by simp
qed

lemma mset_tally:
  assumes "mset ks = mset ks'"
  shows "mset (tally ks) = mset (tally ks')"
proof -
  have "count_list ks k = count_list ks' k" for k
    using assms by (metis count_mset)
  moreover have "set ks = set ks'" using assms by (metis mset_eq_setD)
  ultimately have "set (tally ks) = set (tally ks')"
    by (auto simp: tally_mem)
  moreover have "distinct (tally ks)" "distinct (tally ks')"
    using distinct_tally [of ks] distinct_tally [of ks'] by (simp_all add: distinct_map)
  ultimately show ?thesis by (simp add: set_eq_iff_mset_eq_distinct)
qed

lemma mget_tally_cong: "mset ks = mset ks' \<Longrightarrow> mget (tally ks) k = mget (tally ks') k"
  by (metis mget_tally count_mset)

lemma sort_cong_mset: "mset xs = mset ys \<Longrightarrow> sort xs = sort ys"
  by (metis properties_for_sort mset_sort sorted_sort)

lemma mset_map_filter_cong:
  "mset xs = mset ys \<Longrightarrow> mset (map f (filter P xs)) = mset (map f (filter P ys))"
  by simp

lemma count_list_distinct: "distinct xs \<Longrightarrow> count_list xs k = (if k \<in> set xs then 1 else 0)"
  by (induction xs) auto

lemma count_list_append: "count_list (xs @ ys) k = count_list xs k + count_list ys k"
  by (induction xs) auto

lemma count_list_concat_map:
  "\<forall>x\<in>set xs. distinct (f x) \<Longrightarrow>
   count_list (concat (map f xs)) k = length (filter (\<lambda>x. k \<in> set (f x)) xs)"
  by (induction xs) (auto simp: count_list_append count_list_distinct)

lemma length_takeWhile_ge: "n \<le> length (takeWhile P xs) \<longleftrightarrow> n \<le> length xs \<and> (\<forall>x\<in>set (take n xs). P x)"
proof (induction xs arbitrary: n)
  case (Cons x xs)
  then show ?case by (cases n) auto
qed simp

lemma length_filter_all: "length (filter P xs) = length xs \<longleftrightarrow> (\<forall>x\<in>set xs. P x)"
proof (induction xs)
  case (Cons x xs)
  have "length (filter P xs) \<noteq> Suc (length xs)"
    using length_filter_le [of P xs] by linarith
  with Cons show ?case by (cases "P x") simp_all
qed simp

lemma length_filter_pos: "0 < length (filter P xs) \<longleftrightarrow> (\<exists>x\<in>set xs. P x)"
  by (auto simp: filter_empty_conv)

lemma length_filter_subset_eq:
  assumes "\<And>x. x \<in> set xs \<Longrightarrow> P x \<Longrightarrow> Q x"
  shows "length (filter P xs) = length (filter Q xs) \<longleftrightarrow> (\<forall>x\<in>set xs. Q x \<longrightarrow> P x)"
proof -
  have "filter P xs = filter P (filter Q xs)"
    using assms by (simp add: filter_filter) (metis (no_types, lifting) filter_cong)
  then have "length (filter P xs) = length (filter Q xs) \<longleftrightarrow> (\<forall>x\<in>set (filter Q xs). P x)"
    using length_filter_all [of P "filter Q xs"] by simp
  then show ?thesis by auto
qed


section \<open>Sorts\<close>

text \<open>The contract of \<open>sort.Slice\<close>: the result is a rearrangement of its argument in the order of
  the keys. It is not stable, so a sort of values that can tie is an argument of the definition
  that uses it.\<close>

locale slice_sort =
  fixes key :: "'a \<Rightarrow> 'k :: linorder" and srt :: "'a list \<Rightarrow> 'a list"
  assumes srt_mset: "mset (srt xs) = mset xs"
    and srt_sorted: "sorted (map key (srt xs))"
begin

lemma srt_set: "set (srt xs) = set xs"
  using srt_mset by (metis mset_eq_setD)

lemma srt_length: "length (srt xs) = length xs"
  using srt_mset by (metis size_mset)

lemma srt_take_min:
  assumes "x \<in> set (take n (srt xs))" and "y \<in> set (drop n (srt xs))"
  shows "key x \<le> key y"
proof -
  have "sorted (map key (take n (srt xs) @ drop n (srt xs)))" using srt_sorted by simp
  then show ?thesis using assms unfolding map_append sorted_append by auto
qed

lemma srt_nil: "srt xs = [] \<longleftrightarrow> xs = []"
  using srt_length [of xs] by (cases xs; cases "srt xs") simp_all

lemma srt_keys: "mset xs = mset ys \<Longrightarrow> map key (srt xs) = map key (srt ys)"
  using srt_sorted srt_mset by (metis mset_map properties_for_sort)

end


section \<open>Resuming\<close>

text \<open>
  What a resume promises its run, for the benchmark runner and for the validation matrix alike:
  given what an earlier run left behind, the cells that remain are the planned cells that are not
  final there. The client's lemmas are about repeated resumes: a resume never brings a cell back,
  and each run that makes one more cell final leaves strictly less to do.
\<close>

locale resumable =
  fixes key :: "'c \<Rightarrow> 'k" and final_in :: "'d \<Rightarrow> 'k \<Rightarrow> bool" and ok :: "'d \<Rightarrow> 'c list \<Rightarrow> bool"
    and remaining :: "'d \<Rightarrow> 'c list \<Rightarrow> 'c list"
  assumes remaining_law: "ok d plan \<Longrightarrow> remaining d plan = filter (\<lambda>c. \<not> final_in d (key c)) plan"
begin

lemma remaining_nil: "ok d plan \<Longrightarrow> remaining d plan = [] \<longleftrightarrow> (\<forall>c\<in>set plan. final_in d (key c))"
  by (simp add: remaining_law filter_empty_conv)

lemma remaining_again:
  assumes "ok d plan" and "ok d' plan" and "\<And>c. c \<in> set plan \<Longrightarrow> final_in d (key c) \<Longrightarrow> final_in d' (key c)"
  shows "remaining d' plan = filter (\<lambda>c. \<not> final_in d' (key c)) (remaining d plan)"
proof -
  have "filter (\<lambda>c. \<not> final_in d' (key c)) plan = filter (\<lambda>c. \<not> final_in d (key c) \<and> \<not> final_in d' (key c)) plan"
    by (rule filter_cong) (use assms(3) in auto)
  then show ?thesis using assms(1,2) by (simp add: remaining_law filter_filter conj_commute)
qed

lemma progress:
  assumes "ok d plan" and "ok d' plan" and "\<And>c. c \<in> set plan \<Longrightarrow> final_in d (key c) \<Longrightarrow> final_in d' (key c)"
    and "c \<in> set (remaining d plan)" and "final_in d' (key c)"
  shows "length (remaining d' plan) < length (remaining d plan)"
proof -
  have "remaining d' plan = filter (\<lambda>c. \<not> final_in d' (key c)) (remaining d plan)"
    using assms(1-3) by (rule remaining_again)
  then show ?thesis using length_filter_less [OF assms(4), of "\<lambda>c. \<not> final_in d' (key c)"] assms(5) by simp
qed

end

end
