(* ===== verification/Scenarios.thy ===== *)
theory Scenarios
  imports Complex_Main Prelude
begin

text \<open>
  The scenario taxonomy (\<open>src/scenarios\<close>): the feature set a server declares, the six kinds of
  scenario with their name, category and applicability rule, the process-wide registry that
  the \<open>init\<close> functions fill, and the client-load classes. The \<open>Workload\<close> methods, which only
  fill a configuration record of the external load generator, are not modelled.

  The registry contract (a nil value, an empty name and a duplicate name panic; the listing
  is sorted by name) is stated once as the locale \<open>named_registry\<close>, since the in-process
  server registry of \<open>src/servers/servers.go\<close> has the same one.
\<close>


section \<open>Feature sets\<close>

record feature_set =
  HTTP1 :: bool
  HTTP2C :: bool
  Auto :: bool
  H2CUpgrade :: bool
  fs_Drivers :: bool
  fs_Middleware :: bool
  fs_WS :: bool
  fs_SSE :: bool
  fs_TLS :: bool
  AsyncHandlers :: bool


section \<open>Scenarios\<close>

datatype category =
    CategoryStatic | CategoryConcurrency | CategoryChain | CategoryDriver
  | CategoryWS | CategorySSE | CategoryTLS

text \<open>A stream scenario carries its category; the other kinds have a fixed one.\<close>

datatype scenario =
    StaticScenario (sc_name: string) (st_method: string) (st_path: string) (st_connections: int)
      (st_disable_keep_alive: bool) (st_http2: bool) (st_err_budget: rat)
  | ConcurrencyScenario (sc_name: string) (cc_profile: string) (cc_method: string)
      (cc_path: string) (cc_connections: int)
  | ChainScenario (sc_name: string) (ch_chain: string) (ch_workload: string)
  | DriverScenario (sc_name: string) (dr_kind: string)
  | StreamScenario (sc_name: string) (sm_category: category) (sm_mode: string) (sm_path: string)
      (sm_connections: int) (sm_message_size: int)
  | TLSScenario (sc_name: string) (tl_path: string) (tl_connections: int)

fun sc_category :: "scenario \<Rightarrow> category" where
  "sc_category (StaticScenario _ _ _ _ _ _ _) = CategoryStatic"
| "sc_category (ConcurrencyScenario _ _ _ _ _) = CategoryConcurrency"
| "sc_category (ChainScenario _ _ _) = CategoryChain"
| "sc_category (DriverScenario _ _) = CategoryDriver"
| "sc_category (StreamScenario _ cat _ _ _ _) = cat"
| "sc_category (TLSScenario _ _ _) = CategoryTLS"

definition StaticScenario_Applicable :: "bool \<Rightarrow> feature_set \<Rightarrow> bool" where
  [simp]: "StaticScenario_Applicable h2 fs = (if h2 then HTTP2C fs else HTTP1 fs)"

definition ConcurrencyScenario_Applicable :: "feature_set \<Rightarrow> bool" where
  [simp]: "ConcurrencyScenario_Applicable fs = HTTP1 fs"

definition ChainScenario_Applicable :: "feature_set \<Rightarrow> bool" where
  [simp]: "ChainScenario_Applicable fs = (fs_Middleware fs \<and> HTTP1 fs)"

definition DriverScenario_Applicable :: "feature_set \<Rightarrow> bool" where
  [simp]: "DriverScenario_Applicable fs = (fs_Drivers fs \<and> HTTP1 fs)"

definition StreamScenario_Applicable :: "category \<Rightarrow> feature_set \<Rightarrow> bool" where
  [simp]: "StreamScenario_Applicable cat fs =
     (if \<not> HTTP1 fs then False
      else case cat of CategoryWS \<Rightarrow> fs_WS fs | CategorySSE \<Rightarrow> fs_SSE fs | _ \<Rightarrow> False)"

definition TLSScenario_Applicable :: "feature_set \<Rightarrow> bool" where
  [simp]: "TLSScenario_Applicable fs = fs_TLS fs"

fun applicable :: "scenario \<Rightarrow> feature_set \<Rightarrow> bool" where
  "applicable (StaticScenario _ _ _ _ _ h2 _) fs = StaticScenario_Applicable h2 fs"
| "applicable (ConcurrencyScenario _ _ _ _ _) fs = ConcurrencyScenario_Applicable fs"
| "applicable (ChainScenario _ _ _) fs = ChainScenario_Applicable fs"
| "applicable (DriverScenario _ _) fs = DriverScenario_Applicable fs"
| "applicable (StreamScenario _ cat _ _ _ _) fs = StreamScenario_Applicable cat fs"
| "applicable (TLSScenario _ _ _) fs = TLSScenario_Applicable fs"

text \<open>\<open>forceHTTPS\<close> of the TLS scenarios.\<close>

definition forceHTTPS :: "string \<Rightarrow> string" where
  "forceHTTPS target =
     (if has_prefix target ''https://'' then target
      else if has_prefix target ''http://'' then ''https://'' @ trim_prefix target ''http://''
      else ''https://'' @ target)"


section \<open>The registry\<close>

datatype panic = PanicNil | PanicEmptyName | PanicDuplicate string

definition Register :: "scenario option \<Rightarrow> scenario gomap \<Rightarrow> panic + scenario gomap" where
  "Register s registry =
     (case s of
        None \<Rightarrow> Inl PanicNil
      | Some s \<Rightarrow>
          (let name = sc_name s
           in if name = [] then Inl PanicEmptyName
              else case map_of registry name of
                     Some _ \<Rightarrow> Inl (PanicDuplicate name)
                   | None \<Rightarrow> Inr (mput registry name s)))"

definition Registry :: "scenario gomap \<Rightarrow> scenario list" where
  "Registry registry = sort_key sc_name (map snd registry)"

text \<open>A sequence of registrations, as package initialisation makes it: the first panic stops it.\<close>

fun register_all :: "('a option \<Rightarrow> 'r \<Rightarrow> panic + 'r) \<Rightarrow> 'a list \<Rightarrow> 'r \<Rightarrow> panic + 'r" where
  "register_all reg [] r = Inr r"
| "register_all reg (s # ss) r =
     (case reg (Some s) r of Inl p \<Rightarrow> Inl p | Inr r' \<Rightarrow> register_all reg ss r')"


section \<open>The registry contract\<close>

locale named_registry =
  fixes nm :: "'a \<Rightarrow> string"
    and reg :: "'a option \<Rightarrow> 'a gomap \<Rightarrow> panic + 'a gomap"
    and listing :: "'a gomap \<Rightarrow> 'a list"
  assumes reg_nil: "reg None r = Inl PanicNil"
    and reg_empty: "nm s = [] \<Longrightarrow> reg (Some s) r = Inl PanicEmptyName"
    and reg_dup: "nm s \<noteq> [] \<Longrightarrow> nm s \<in> fst ` set r \<Longrightarrow> reg (Some s) r = Inl (PanicDuplicate (nm s))"
    and reg_ok: "nm s \<noteq> [] \<Longrightarrow> nm s \<notin> fst ` set r \<Longrightarrow> reg (Some s) r = Inr (mput r (nm s) s)"
    and listing_sorted: "listing r = sort_key nm (map snd r)"
begin

definition wf_registry :: "'a gomap \<Rightarrow> bool" where
  "wf_registry r \<longleftrightarrow> distinct (map fst r) \<and> (\<forall>(k, v)\<in>set r. k = nm v \<and> k \<noteq> [])"

lemma wf_registry_empty: "wf_registry []"
  by (simp add: wf_registry_def)

lemma mput_new: "k \<notin> fst ` set r \<Longrightarrow> mput r k v = r @ [(k, v)]"
  by (induction r) auto

lemma reg_wf: "wf_registry r \<Longrightarrow> reg s r = Inr r' \<Longrightarrow> wf_registry r'"
proof -
  assume wf: "wf_registry r" and ok: "reg s r = Inr r'"
  then obtain x where s: "s = Some x" by (cases s) (auto simp: reg_nil)
  have ne: "nm x \<noteq> []" using ok s by (auto simp: reg_empty)
  have new: "nm x \<notin> fst ` set r" using ok s ne reg_dup [of x r] by fastforce
  have "r' = r @ [(nm x, x)]" using ok s ne new by (simp add: reg_ok mput_new)
  with wf ne new show "wf_registry r'" by (auto simp: wf_registry_def)
qed

lemma register_all_ok:
  assumes "distinct (map nm ss)" and "[] \<notin> set (map nm ss)"
    and "set (map nm ss) \<inter> fst ` set r = {}"
  shows "register_all reg ss r = Inr (r @ map (\<lambda>s. (nm s, s)) ss)"
  using assms
proof (induction ss arbitrary: r)
  case (Cons s ss)
  then have ne: "nm s \<noteq> []" and new: "nm s \<notin> fst ` set r" by auto
  have "reg (Some s) r = Inr (r @ [(nm s, s)])"
    using ne new by (simp add: reg_ok mput_new)
  moreover have "register_all reg ss (r @ [(nm s, s)]) =
      Inr ((r @ [(nm s, s)]) @ map (\<lambda>s. (nm s, s)) ss)"
    using Cons.prems by (intro Cons.IH) auto
  ultimately show ?case by simp
qed simp

lemma register_all_dup:
  assumes "nm s \<in> fst ` set r" and "nm s \<noteq> []"
  shows "register_all reg (s # ss) r = Inl (PanicDuplicate (nm s))"
  using assms by (simp add: reg_dup)

lemma listing_mset: "mset (listing r) = mset (map snd r)"
  by (simp add: listing_sorted)

lemma listing_names_sorted: "sorted (map nm (listing r))"
  by (simp add: listing_sorted)

lemma listing_names_distinct: "wf_registry r \<Longrightarrow> distinct (map nm (listing r))"
proof -
  assume wf: "wf_registry r"
  then have names: "map nm (map snd r) = map fst r" by (auto simp: wf_registry_def)
  have "distinct (map nm (map snd r))"
    unfolding names using wf by (simp add: wf_registry_def)
  moreover have "mset (map nm (listing r)) = mset (map nm (map snd r))"
    by (simp only: mset_map listing_mset)
  ultimately show ?thesis using mset_eq_imp_distinct_iff by blast
qed

text \<open>The order of the registrations (and the iteration order of the map) does not show.\<close>

lemma listing_order_independent:
  assumes "wf_registry r" and "wf_registry r'" and "set r = set r'"
  shows "listing r = listing r'"
proof -
  have d: "distinct (map nm (listing r))" "distinct (map nm (listing r'))"
    using assms by (simp_all add: listing_names_distinct)
  have s: "set (listing r) = set (listing r')"
    using assms(3) by (simp add: listing_sorted)
  have names: "map nm (listing r) = map nm (listing r')"
    using d s listing_names_sorted by (intro sorted_distinct_set_unique) auto
  have "inj_on nm (set (listing r))" using d(1) by (simp add: distinct_map)
  with names s show ?thesis
    by (metis map_inj_on Un_absorb)
qed

end

interpretation sreg: named_registry sc_name Register Registry
  by unfold_locales
    (auto simp: Register_def Registry_def Let_def split: option.splits dest: map_of_SomeD
      simp: map_of_eq_None_iff weak_map_of_SomeI)


section \<open>What package initialisation registers\<close>

text \<open>The \<open>init\<close> functions run in file-name order: chain (which registers nothing),
  concurrency, driver, static, streaming, tls.\<close>

definition concurrency_init :: "scenario list" where
  "concurrency_init =
     [ConcurrencyScenario ''get-simple-1c'' ''single-conn'' ''GET'' ''/'' 1,
      ConcurrencyScenario ''get-simple-128c'' ''128-conn'' ''GET'' ''/'' 128,
      ConcurrencyScenario ''get-simple-256c'' ''256-conn'' ''GET'' ''/'' 256,
      ConcurrencyScenario ''get-simple-512c'' ''512-conn'' ''GET'' ''/'' 512,
      ConcurrencyScenario ''get-simple-1024c'' ''1024-conn'' ''GET'' ''/'' 1024]"

definition DriverKinds :: "string list" where
  "DriverKinds =
     [''driver-pg-read'', ''driver-redis-get'', ''driver-mc-get'', ''driver-session-rw'',
      ''driver-pg-write'', ''driver-pg-update-tx'', ''driver-pg-read-range'',
      ''driver-redis-set'', ''driver-redis-pipeline'', ''driver-mc-multiget'', ''driver-mc-set'']"

definition driver_init :: "scenario list" where
  "driver_init = map (\<lambda>k. DriverScenario k k) DriverKinds"

definition static_init :: "scenario list" where
  "static_init =
     [StaticScenario ''get-simple'' ''GET'' ''/'' 128 False False 0,
      StaticScenario ''get-json'' ''GET'' ''/json'' 128 False False 0,
      StaticScenario ''get-json-1k'' ''GET'' ''/json-1k'' 128 False False 0,
      StaticScenario ''post-4k'' ''POST'' ''/upload'' 128 False False 0,
      StaticScenario ''churn-close'' ''GET'' ''/'' 32 True False 0,
      StaticScenario ''get-json-h2'' ''GET'' ''/json'' 32 False True 0,
      StaticScenario ''post-4k-h2'' ''POST'' ''/upload'' 32 False True 0]"

definition streaming_init :: "scenario list" where
  "streaming_init =
     [StreamScenario ''ws-echo'' CategoryWS ''ws-echo'' ''/ws'' 128 256,
      StreamScenario ''ws-large-echo'' CategoryWS ''ws-large-echo'' ''/ws'' 64 65536,
      StreamScenario ''ws-hub-broadcast-128'' CategoryWS ''ws-hub'' ''/ws'' 128 256,
      StreamScenario ''ws-hub-broadcast-1024'' CategoryWS ''ws-hub'' ''/ws'' 1024 256,
      StreamScenario ''sse-fanout-128'' CategorySSE ''sse-fanout'' ''/events'' 128 256,
      StreamScenario ''sse-fanout-1024'' CategorySSE ''sse-fanout'' ''/events'' 1024 256]"

definition tls_init :: "scenario list" where
  "tls_init =
     [TLSScenario ''tls-get-json'' ''/json'' 128,
      TLSScenario ''tls-concurrency-128c'' ''/'' 128,
      TLSScenario ''tls-concurrency-1024c'' ''/'' 1024]"

definition scenario_init :: "scenario list" where
  "scenario_init = concurrency_init @ driver_init @ static_init @ streaming_init @ tls_init"

lemmas scenario_init_defs =
  scenario_init_def concurrency_init_def driver_init_def DriverKinds_def static_init_def
  streaming_init_def tls_init_def


section \<open>Client load\<close>

datatype client_load = LoadHeavy | LoadLight

definition clientLoadTable :: "client_load gomap" where
  "clientLoadTable =
     [(''post-4k'', LoadHeavy), (''post-4k-h2'', LoadHeavy), (''ws-large-echo'', LoadHeavy),
      (''get-json-1k'', LoadHeavy),
      (''get-json'', LoadHeavy), (''get-json-h2'', LoadHeavy), (''get-simple'', LoadHeavy),
      (''get-simple-128c'', LoadHeavy), (''get-simple-256c'', LoadHeavy),
      (''get-simple-512c'', LoadHeavy), (''get-simple-1024c'', LoadHeavy),
      (''ws-echo'', LoadHeavy), (''ws-hub-broadcast-1024'', LoadHeavy),
      (''sse-fanout-1024'', LoadHeavy),
      (''tls-get-json'', LoadHeavy), (''tls-concurrency-128c'', LoadHeavy),
      (''tls-concurrency-1024c'', LoadHeavy),
      (''get-simple-1c'', LoadLight), (''churn-close'', LoadLight),
      (''ws-hub-broadcast-128'', LoadLight), (''sse-fanout-128'', LoadLight),
      (''driver-mc-get'', LoadLight), (''driver-mc-multiget'', LoadLight),
      (''driver-mc-set'', LoadLight), (''driver-pg-read'', LoadLight),
      (''driver-pg-read-range'', LoadLight), (''driver-pg-update-tx'', LoadLight),
      (''driver-pg-write'', LoadLight), (''driver-redis-get'', LoadLight),
      (''driver-redis-pipeline'', LoadLight), (''driver-redis-set'', LoadLight),
      (''driver-session-rw'', LoadLight)]"

definition ClientLoadOf :: "string \<Rightarrow> client_load" where
  "ClientLoadOf name = (case map_of clientLoadTable name of Some c \<Rightarrow> c | None \<Rightarrow> LoadHeavy)"

definition ClassifiedScenarios :: "string list" where
  "ClassifiedScenarios = sorted_keys clientLoadTable"


section \<open>The initialised registry\<close>

lemma scenario_init_names: "distinct (map sc_name scenario_init)" "[] \<notin> set (map sc_name scenario_init)"
  by (simp_all add: scenario_init_defs)

definition scenario_registry :: "scenario gomap" where
  "scenario_registry = map (\<lambda>s. (sc_name s, s)) scenario_init"

lemma scenario_registry_ok: "register_all Register scenario_init [] = Inr scenario_registry"
  using sreg.register_all_ok [OF scenario_init_names, of "[]"] by (simp add: scenario_registry_def)

lemma set_Registry: "set (Registry scenario_registry) = set scenario_init"
  by (simp add: Registry_def scenario_registry_def image_comp)

lemma mset_Registry: "mset (Registry scenario_registry) = mset scenario_init"
  unfolding Registry_def mset_sort scenario_registry_def by (simp add: comp_def)

text \<open>Every registered scenario is classified, and nothing else is.\<close>

lemma classified_names: "set ClassifiedScenarios = set (map sc_name scenario_init)"
  unfolding ClassifiedScenarios_def set_sorted_keys set_map by code_simp

end
