(* ===== verification/Servers.thy ===== *)
theory Servers
  imports Scenarios
begin

text \<open>
  The adapter table (\<open>src/servers/servers.go\<close>): every column of the benchmark matrix with its
  declared capabilities, the opt-in baseline columns (\<open>baseline.go\<close>), the visibility rule
  behind every listing of columns, the projection of an adapter to the feature set the
  scheduler gates on (\<open>featureSetFor\<close> of \<open>src/cmd/runner/main.go\<close>), and the reordering that puts
  a baseline column beside its twin. Build steps and run-time environments of an adapter are
  data nothing here reads and are left out of the record. The in-process server registry at
  the end of \<open>servers.go\<close> is a second instance of the registry contract of \<open>Scenarios\<close>.
\<close>


section \<open>Adapters\<close>

datatype build_spec = GoBinary string | NativeBinary string string string

record capabilities =
  Static :: bool
  Drivers :: bool
  Middleware :: bool
  WS :: bool
  SSE :: bool
  TLS :: bool

record adapter =
  a_Name :: string
  a_Category :: string
  a_Language :: string
  a_Framework :: string
  a_FrameworkVersion :: string
  a_Engine :: string
  a_Bin :: build_spec
  a_Capabilities :: capabilities
  a_Baseline :: bool

definition caps_of :: "bool \<Rightarrow> bool \<Rightarrow> bool \<Rightarrow> bool \<Rightarrow> bool \<Rightarrow> bool \<Rightarrow> capabilities" where
  "caps_of st dr mw ws sse tls =
     \<lparr>Static = st, Drivers = dr, Middleware = mw, WS = ws, SSE = sse, TLS = tls\<rparr>"

definition adapter_of ::
  "string \<Rightarrow> string \<Rightarrow> string \<Rightarrow> string \<Rightarrow> string \<Rightarrow> string \<Rightarrow> build_spec \<Rightarrow> capabilities \<Rightarrow> adapter" where
  "adapter_of n c l f v e b cp =
     \<lparr>a_Name = n, a_Category = c, a_Language = l, a_Framework = f, a_FrameworkVersion = v,
      a_Engine = e, a_Bin = b, a_Capabilities = cp, a_Baseline = False\<rparr>"

text \<open>The table, in the groups of the source; a capability row lists static, drivers,
  middleware, WebSocket, SSE, TLS.\<close>

definition registry_nethttp :: "adapter list" where
  "registry_nethttp =
     [adapter_of ''stdhttp-h1'' ''go-net-http'' ''go'' ''stdhttp'' ''net/http (Go stdlib)''
        ''h1'' (GoBinary ''servers/stdhttp'') (caps_of True True True False False False),
      adapter_of ''stdhttp-h2'' ''go-net-http'' ''go'' ''stdhttp'' ''net/http (Go stdlib)''
        ''h2c-noupg'' (GoBinary ''servers/stdhttp'') (caps_of True True True False False False),
      adapter_of ''stdhttp-hybrid'' ''go-net-http'' ''go'' ''stdhttp'' ''net/http (Go stdlib)''
        ''hybrid'' (GoBinary ''servers/stdhttp'') (caps_of True True True False False False),
      adapter_of ''gorilla_ws'' ''go-net-http'' ''go'' ''gorilla'' ''v1.5.3''
        ''h1'' (GoBinary ''servers/gorilla_ws'') (caps_of True False False True True True),
      adapter_of ''gin-h1'' ''go-net-http'' ''go'' ''gin'' ''v1.12.0''
        ''h1'' (GoBinary ''servers/gin'') (caps_of True True True False False False),
      adapter_of ''gin-h2'' ''go-net-http'' ''go'' ''gin'' ''v1.12.0''
        ''h2c'' (GoBinary ''servers/gin'') (caps_of True True True False False False),
      adapter_of ''echo-h1'' ''go-net-http'' ''go'' ''echo'' ''v4.15.4''
        ''h1'' (GoBinary ''servers/echo'') (caps_of True True True False False False),
      adapter_of ''echo-h2'' ''go-net-http'' ''go'' ''echo'' ''v4.15.4''
        ''h2c'' (GoBinary ''servers/echo'') (caps_of True True True False False False),
      adapter_of ''chi-h1'' ''go-net-http'' ''go'' ''chi'' ''v5.3.0''
        ''h1'' (GoBinary ''servers/chi'') (caps_of True True True False False False),
      adapter_of ''chi-h2'' ''go-net-http'' ''go'' ''chi'' ''v5.3.0''
        ''h2c'' (GoBinary ''servers/chi'') (caps_of True True True False False False),
      adapter_of ''iris-h1'' ''go-net-http'' ''go'' ''iris'' ''v12.2.11''
        ''h1'' (GoBinary ''servers/iris'') (caps_of True True True False False False),
      adapter_of ''iris-h2'' ''go-net-http'' ''go'' ''iris'' ''v12.2.11''
        ''h2c'' (GoBinary ''servers/iris'') (caps_of True True True False False False)]"

definition registry_goloop :: "adapter list" where
  "registry_goloop =
     [adapter_of ''hertz-h1'' ''go-netpoll'' ''go'' ''hertz'' ''v0.10.5''
        ''h1'' (GoBinary ''servers/hertz'') (caps_of True True True False False False),
      adapter_of ''hertz-h2'' ''go-netpoll'' ''go'' ''hertz'' ''v0.10.5''
        ''h2c'' (GoBinary ''servers/hertz'') (caps_of True True True False False False),
      adapter_of ''gnet-h1'' ''go-gnet'' ''go'' ''gnet'' ''v2.9.8''
        ''h1'' (GoBinary ''servers/gnet'') (caps_of True False False False False False),
      adapter_of ''nbio-h1'' ''go-nbio'' ''go'' ''nbio'' ''v1.6.9''
        ''h1'' (GoBinary ''servers/nbio'') (caps_of True False False False False False),
      adapter_of ''fasthttp-h1'' ''go-fasthttp'' ''go'' ''fasthttp'' ''v1.71.0''
        ''h1'' (GoBinary ''servers/fasthttp'') (caps_of True True True False False False),
      adapter_of ''fiber-h1'' ''go-fasthttp'' ''go'' ''fiber'' ''v2.52.13''
        ''h1'' (GoBinary ''servers/fiber'') (caps_of True True True False False False)]"

definition registry_rust :: "adapter list" where
  "registry_rust =
     [adapter_of ''axum'' ''rust-tower'' ''rust'' ''axum'' ''>=0.7''
        ''h1'' (NativeBinary ''rust'' ''{bin} -bind {bind}'' '''') (caps_of True False False True True False),
      adapter_of ''axum-h2'' ''rust-tower'' ''rust'' ''axum'' ''>=0.7''
        ''h2c-noupg'' (NativeBinary ''rust'' ''{bin} -bind {bind}'' ''axum'') (caps_of True False False False False False),
      adapter_of ''ntex'' ''rust-ntex'' ''rust'' ''ntex'' ''>=3''
        ''h1'' (NativeBinary ''rust'' ''{bin} -bind {bind}'' '''') (caps_of True False False False False False),
      adapter_of ''hyper'' ''rust-hyper'' ''rust'' ''hyper'' ''>=1''
        ''h1'' (NativeBinary ''rust'' ''{bin} -bind {bind}'' '''') (caps_of True False False False False False),
      adapter_of ''hyper-h2'' ''rust-hyper'' ''rust'' ''hyper'' ''>=1''
        ''h2c-noupg'' (NativeBinary ''rust'' ''{bin} -bind {bind}'' ''hyper'') (caps_of True False False False False False)]"

definition registry_cpp_py_net :: "adapter list" where
  "registry_cpp_py_net =
     [adapter_of ''drogon'' ''cpp-drogon'' ''cpp'' ''drogon'' ''''
        ''h1'' (NativeBinary ''cpp'' ''{bin} -bind {bind}'' '''') (caps_of False False False False False False),
      adapter_of ''fastapi'' ''python-fastapi'' ''python'' ''fastapi'' ''>=0.115''
        ''h1'' (NativeBinary ''python'' ''{bench}/competitors/{name}/server -bind {bind}'' '''') (caps_of True False False False False False),
      adapter_of ''fastapi-h2'' ''python-fastapi'' ''python'' ''fastapi'' ''>=0.115''
        ''h2c-noupg'' (NativeBinary ''python'' ''{bench}/competitors/{name}/server -bind {bind}'' ''fastapi'') (caps_of True False False False False False),
      adapter_of ''aspnet'' ''dotnet-aspnetcore'' ''csharp'' ''aspnet'' ''net10.0''
        ''h1'' (NativeBinary ''dotnet'' ''{bin} -bind {bind}'' '''') (caps_of True False False False False False),
      adapter_of ''aspnet-h2'' ''dotnet-aspnetcore'' ''csharp'' ''aspnet'' ''net10.0''
        ''h2c-noupg'' (NativeBinary ''dotnet'' ''{bin} -bind {bind}'' ''aspnet'') (caps_of True False False False False False)]"

definition registry_celeris :: "adapter list" where
  "registry_celeris =
     [adapter_of ''celeris-iouring-h1-async'' ''celeris'' ''go'' ''celeris'' ''''
        ''iouring-h1-async'' (GoBinary ''servers/celeris'') (caps_of True True True True True True),
      adapter_of ''celeris-iouring-auto+upg-async'' ''celeris'' ''go'' ''celeris'' ''''
        ''iouring-auto+upg-async'' (GoBinary ''servers/celeris'') (caps_of True True True True True True),
      adapter_of ''celeris-epoll-h1-sync'' ''celeris'' ''go'' ''celeris'' ''''
        ''epoll-h1-sync'' (GoBinary ''servers/celeris'') (caps_of True True True True True True),
      adapter_of ''celeris-std-h1'' ''celeris'' ''go'' ''celeris'' ''''
        ''std-h1'' (GoBinary ''servers/celeris'') (caps_of True True True True True True),
      adapter_of ''celeris-adaptive-h1-async'' ''celeris'' ''go'' ''celeris'' ''''
        ''adaptive-h1-async'' (GoBinary ''servers/celeris'') (caps_of True True True True True True),
      adapter_of ''celeris-adaptive-auto+upg-async'' ''celeris'' ''go'' ''celeris'' ''''
        ''adaptive-auto+upg-async'' (GoBinary ''servers/celeris'') (caps_of True True True True True True),
      adapter_of ''celeris-epoll-h1-async'' ''celeris'' ''go'' ''celeris'' ''''
        ''epoll-h1-async'' (GoBinary ''servers/celeris'') (caps_of True True True True True True),
      adapter_of ''celeris-epoll-auto+upg-async'' ''celeris'' ''go'' ''celeris'' ''''
        ''epoll-auto+upg-async'' (GoBinary ''servers/celeris'') (caps_of True True True True True True),
      adapter_of ''celeris-iouring-h1-sync'' ''celeris'' ''go'' ''celeris'' ''''
        ''iouring-h1-sync'' (GoBinary ''servers/celeris'') (caps_of True True True True True True)]"

definition registry_bun :: "adapter list" where
  "registry_bun =
     [adapter_of ''hono'' ''bun-ts'' ''bun'' ''hono'' ''''
        '''' (NativeBinary ''bun'' ''{name} -bind {bind}'' '''') (caps_of True False False True True False),
      adapter_of ''hono-h2'' ''bun-ts'' ''bun'' ''hono'' ''''
        ''h2c-noupg'' (NativeBinary ''bun'' ''{name} -bind {bind}'' ''hono'') (caps_of False False False False False False),
      adapter_of ''elysia'' ''bun-ts'' ''bun'' ''elysia'' ''''
        '''' (NativeBinary ''bun'' ''{name} -bind {bind}'' '''') (caps_of False False False False False False),
      adapter_of ''elysia-h2'' ''bun-ts'' ''bun'' ''elysia'' ''''
        ''h2c-noupg'' (NativeBinary ''bun'' ''{name} -bind {bind}'' ''elysia'') (caps_of False False False False False False)]"

definition registry_wave6 :: "adapter list" where
  "registry_wave6 =
     [adapter_of ''actix'' ''rust-actix'' ''rust'' ''actix-web'' ''>=4''
        ''h1'' (NativeBinary ''rust'' ''{bin} -bind {bind}'' '''') (caps_of True False False False False False),
      adapter_of ''starlette'' ''python-starlette'' ''python'' ''starlette'' ''>=0.40''
        ''h1'' (NativeBinary ''python'' ''{bench}/competitors/{name}/server -bind {bind}'' '''') (caps_of True False False True True False),
      adapter_of ''bunraw'' ''bun-ts'' ''bun'' ''bunraw'' ''''
        '''' (NativeBinary ''bun'' ''{name} -bind {bind}'' '''') (caps_of False False False False False False),
      adapter_of ''httpzig'' ''zig-httpz'' ''zig'' ''httpzig'' ''''
        ''h1'' (NativeBinary ''zig'' ''{bin} -bind {bind}'' '''') (caps_of True False False False False False),
      adapter_of ''lithium'' ''cpp-lithium'' ''cpp'' ''lithium'' ''''
        ''h1'' (NativeBinary ''cpp'' ''{bin} -bind {bind}'' '''') (caps_of True False False False False False),
      adapter_of ''h2o'' ''c-h2o'' ''c'' ''h2o'' ''''
        ''h1'' (NativeBinary ''c'' ''{bin} -bind {bind}'' '''') (caps_of True False False False False False),
      adapter_of ''uws'' ''node-uws'' ''node'' ''uWebSockets.js'' ''v20.68.0''
        ''h1'' (NativeBinary ''node'' ''{name} -bind {bind}'' '''') (caps_of True False False False False False),
      adapter_of ''fastify'' ''node-fastify'' ''node'' ''fastify'' ''''
        ''h1'' (NativeBinary ''node'' ''{name} -bind {bind}'' '''') (caps_of True False False False False False),
      adapter_of ''express'' ''node-express'' ''node'' ''express'' ''''
        ''h1'' (NativeBinary ''node'' ''{name} -bind {bind}'' '''') (caps_of True False False False False False),
      adapter_of ''vertx'' ''java-vertx'' ''java'' ''vertx'' ''>=5.0.0''
        ''h1'' (NativeBinary ''java'' ''{bin} -bind {bind}'' '''') (caps_of True False False False False False),
      adapter_of ''netty'' ''java-netty'' ''java'' ''netty'' ''4.2.9.Final''
        ''h1'' (NativeBinary ''java'' ''{name} -bind {bind}'' '''') (caps_of True False False False False False)]"

definition main_adapters :: "adapter list" where
  "main_adapters =
     registry_nethttp @ registry_goloop @ registry_rust @ registry_cpp_py_net @
     registry_celeris @ registry_bun @ registry_wave6"

definition main_registry :: "adapter gomap" where
  "main_registry = map (\<lambda>a. (a_Name a, a)) main_adapters"

lemmas registry_defs =
  main_adapters_def registry_nethttp_def registry_goloop_def registry_rust_def
  registry_cpp_py_net_def registry_celeris_def registry_bun_def registry_wave6_def


section \<open>Baseline columns\<close>

definition BaselinePrefix :: string where
  "BaselinePrefix = ''baseline-celeris-v1511-''"

definition BaselineName :: "string \<Rightarrow> string" where
  "BaselineName engine = BaselinePrefix @ engine"

definition baselineEngines :: "string list" where
  "baselineEngines =
     [''epoll-h1-sync'', ''epoll-h1-async'', ''epoll-auto+upg-async'',
      ''iouring-h1-sync'', ''iouring-h1-async'', ''iouring-auto+upg-async'',
      ''adaptive-h1-async'', ''adaptive-auto+upg-async'']"

datatype baseline_panic = NoMainColumn string | DuplicateColumn string

definition baseline_adapter :: "string \<Rightarrow> adapter \<Rightarrow> adapter" where
  "baseline_adapter name main =
     \<lparr>a_Name = name, a_Category = ''celeris-baseline'', a_Language = a_Language main,
      a_Framework = ''celeris-baseline'', a_FrameworkVersion = ''v1.5.11'',
      a_Engine = a_Engine main, a_Bin = GoBinary ''servers/celeris_v1511'',
      a_Capabilities = a_Capabilities main, a_Baseline = True\<rparr>"

fun baseline_init :: "string list \<Rightarrow> adapter gomap \<Rightarrow> baseline_panic + adapter gomap" where
  "baseline_init [] r = Inr r"
| "baseline_init (e # es) r =
     (case map_of r (''celeris-'' @ e) of
        None \<Rightarrow> Inl (NoMainColumn e)
      | Some main \<Rightarrow>
          (let name = BaselineName e
           in case map_of r name of
                Some _ \<Rightarrow> Inl (DuplicateColumn name)
              | None \<Rightarrow> baseline_init es (mput r name (baseline_adapter name main))))"

text \<open>The environment variable \<open>BENCH_BASELINE\<close> is the argument \<open>env\<close>.\<close>

definition BaselineEnabled :: "string \<Rightarrow> bool" where
  "BaselineEnabled env = (let v = to_lower (trim_space env) in v = ''1'' \<or> v = ''true'')"

definition visible :: "string \<Rightarrow> adapter \<Rightarrow> bool" where
  "visible env a \<longleftrightarrow> \<not> a_Baseline a \<or> BaselineEnabled env"

definition Names :: "string \<Rightarrow> adapter gomap \<Rightarrow> string list" where
  "Names env r = sort (map fst (filter (\<lambda>(k, a). visible env a) r))"

definition AdaptersSorted :: "string \<Rightarrow> adapter gomap \<Rightarrow> adapter list" where
  "AdaptersSorted env r = sort_key a_Name (filter (visible env) (map snd r))"

definition BaselineNames :: "adapter gomap \<Rightarrow> string list" where
  "BaselineNames r = sort (map fst (filter (\<lambda>(n, a). a_Baseline a) r))"


section \<open>Feature sets of adapters\<close>

definition featureSetFor :: "adapter \<Rightarrow> bool \<Rightarrow> feature_set" where
  "featureSetFor a tlsReady =
     (let e = a_Engine a;
          fs = \<lparr>HTTP1 = True, HTTP2C = False, Auto = False, H2CUpgrade = False,
                fs_Drivers = False, fs_Middleware = False, fs_WS = False, fs_SSE = False,
                fs_TLS = False, AsyncHandlers = False\<rparr>;
          fs = (if contains e ''h2c'' then
                  (let fs = fs\<lparr>HTTP2C := True\<rparr>
                   in if contains e ''noupg'' then fs\<lparr>HTTP1 := False\<rparr> else fs)
                else if contains e ''auto'' then fs\<lparr>HTTP2C := True, Auto := True, H2CUpgrade := True\<rparr>
                else if contains e ''hybrid'' then fs\<lparr>HTTP2C := True\<rparr>
                else fs);
          fs = (if contains e ''async'' then fs\<lparr>AsyncHandlers := True\<rparr> else fs);
          c = a_Capabilities a
      in fs\<lparr>fs_Drivers := Drivers c, fs_Middleware := Middleware c, fs_WS := WS c,
             fs_SSE := SSE c, fs_TLS := TLS c \<and> tlsReady\<rparr>)"

definition remoteFeatureSet :: feature_set where
  "remoteFeatureSet =
     \<lparr>HTTP1 = True, HTTP2C = True, Auto = True, H2CUpgrade = True, fs_Drivers = True,
      fs_Middleware = True, fs_WS = True, fs_SSE = True, fs_TLS = True, AsyncHandlers = True\<rparr>"

text \<open>The server interface of the scheduler, and the wrapper that gives an adapter one.\<close>

record server =
  srv_Name :: string
  srv_Kind :: string
  srv_Features :: feature_set

definition adapterServer :: "adapter \<Rightarrow> feature_set \<Rightarrow> server" where
  "adapterServer a fs = \<lparr>srv_Name = a_Name a, srv_Kind = a_Category a, srv_Features = fs\<rparr>"


section \<open>The in-process server registry\<close>

definition RegisterServer :: "server option \<Rightarrow> server gomap \<Rightarrow> panic + server gomap" where
  "RegisterServer s srvReg =
     (case s of
        None \<Rightarrow> Inl PanicNil
      | Some s \<Rightarrow>
          (let name = srv_Name s
           in if name = [] then Inl PanicEmptyName
              else case map_of srvReg name of
                     Some _ \<Rightarrow> Inl (PanicDuplicate name)
                   | None \<Rightarrow> Inr (mput srvReg name s)))"

definition ServerRegistry :: "server gomap \<Rightarrow> server list" where
  "ServerRegistry srvReg = sort_key srv_Name (map snd srvReg)"

interpretation srvreg: named_registry srv_Name RegisterServer ServerRegistry
  by unfold_locales
    (auto simp: RegisterServer_def ServerRegistry_def Let_def split: option.splits
      dest: map_of_SomeD simp: map_of_eq_None_iff weak_map_of_SomeI)


section \<open>Baseline interleaving\<close>

text \<open>\<open>InterleaveBaseline\<close>: \<open>twinOf\<close>, the two maps \<open>beside\<close> and \<open>order\<close> built in list order, and
  the output loop. \<open>beside\<close> and \<open>order\<close> have the same keys, so one association list holds both:
  twin, then its index among the paired baselines and the baseline.\<close>

definition twinOf :: "adapter gomap \<Rightarrow> string list \<Rightarrow> string \<Rightarrow> string option" where
  "twinOf r names n =
     (case map_of r n of
        None \<Rightarrow> None
      | Some a \<Rightarrow>
          if \<not> a_Baseline a then None
          else let t = ''celeris-'' @ a_Engine a in if t \<in> set names then Some t else None)"

definition beside_step ::
  "adapter gomap \<Rightarrow> string list \<Rightarrow> string \<Rightarrow> (nat \<times> string) gomap \<Rightarrow> (nat \<times> string) gomap" where
  "beside_step r names n m =
     (case twinOf r names n of
        None \<Rightarrow> m
      | Some t \<Rightarrow> mput m t (length m, n))"

definition beside_map :: "adapter gomap \<Rightarrow> string list \<Rightarrow> (nat \<times> string) gomap" where
  "beside_map r names = fold (beside_step r names) names []"

definition InterleaveBaseline :: "adapter gomap \<Rightarrow> string list \<Rightarrow> string list" where
  "InterleaveBaseline r names =
     (let m = beside_map r names
      in concat (map (\<lambda>n.
           (case twinOf r names n of
              Some _ \<Rightarrow> []
            | None \<Rightarrow>
                (case map_of m n of
                   None \<Rightarrow> [n]
                 | Some (k, b) \<Rightarrow> if k mod 2 = 0 then [n, b] else [b, n]))) names))"

section \<open>The baseline columns of the registry\<close>

definition celeris_main :: "string \<Rightarrow> adapter" where
  "celeris_main e = the (map_of main_registry (''celeris-'' @ e))"

definition baseline_columns :: "adapter gomap" where
  "baseline_columns =
     map (\<lambda>e. (BaselineName e, baseline_adapter (BaselineName e) (celeris_main e))) baselineEngines"

definition full_registry :: "adapter gomap" where
  "full_registry = main_registry @ baseline_columns"

lemma baseline_init_ok: "baseline_init baselineEngines main_registry = Inr full_registry"
  unfolding full_registry_def by code_simp

lemma baseline_columns_facets:
  "map (\<lambda>(k, a). (a_Engine a, a_Capabilities a, a_Baseline a)) baseline_columns =
   map (\<lambda>e. (e, caps_of True True True True True True, True)) baselineEngines"
  by code_simp

lemma main_not_baseline: "a \<in> set main_adapters \<Longrightarrow> \<not> a_Baseline a"
proof -
  have "list_all (\<lambda>a. \<not> a_Baseline a) main_adapters" by (simp add: registry_defs adapter_of_def)
  then show "a \<in> set main_adapters \<Longrightarrow> \<not> a_Baseline a" by (simp add: list_all_iff)
qed

lemma full_registry_names: "map fst full_registry = map (\<lambda>(k, a). a_Name a) full_registry"
  by (simp add: full_registry_def main_registry_def baseline_columns_def baseline_adapter_def)

lemma full_registry_keys: "distinct (map fst full_registry)"
  by code_simp

section \<open>Interleaving keeps every column and puts twins side by side\<close>

definition beside_out :: "adapter gomap \<Rightarrow> string list \<Rightarrow> string \<Rightarrow> string list" where
  "beside_out r names n =
     (case twinOf r names n of
        Some _ \<Rightarrow> []
      | None \<Rightarrow>
          (case map_of (beside_map r names) n of
             None \<Rightarrow> [n]
           | Some (k, b) \<Rightarrow> if k mod 2 = 0 then [n, b] else [b, n]))"

lemma InterleaveBaseline_out: "InterleaveBaseline r names = concat (map (beside_out r names) names)"
  by (simp add: InterleaveBaseline_def Let_def beside_out_def [abs_def])

lemma beside_map_sound:
  "map_of (fold (beside_step r names) ns []) t = Some (k, b) \<Longrightarrow> b \<in> set ns \<and> twinOf r names b = Some t"
  by (induction ns rule: rev_induct)
    (auto simp: beside_step_def split: option.splits if_splits)

lemma beside_map_complete:
  "b \<in> set ns \<Longrightarrow> twinOf r names b = Some t \<Longrightarrow> map_of (fold (beside_step r names) ns []) t \<noteq> None"
  by (induction ns rule: rev_induct) (auto simp: beside_step_def split: option.splits)

lemma twinOf_mem: "twinOf r names b = Some t \<Longrightarrow> t \<in> set names"
  by (auto simp: twinOf_def Let_def split: option.splits if_splits)

text \<open>A table in which distinct baselines have distinct twins and no twin is a baseline.\<close>

definition paired_ok :: "adapter gomap \<Rightarrow> bool" where
  "paired_ok r \<longleftrightarrow>
     (\<forall>b c x y. map_of r b = Some x \<and> map_of r c = Some y \<and> a_Baseline x \<and> a_Baseline y \<and>
        a_Engine x = a_Engine y \<longrightarrow> b = c) \<and>
     (\<forall>b x y. map_of r b = Some x \<and> a_Baseline x \<and> map_of r (''celeris-'' @ a_Engine x) = Some y \<longrightarrow> \<not> a_Baseline y)"

lemma paired_ok_inj:
  assumes "paired_ok r" "twinOf r names b = Some t" "twinOf r names c = Some t"
  shows "b = c"
proof -
  obtain x y where "map_of r b = Some x" "a_Baseline x" "map_of r c = Some y" "a_Baseline y"
    "''celeris-'' @ a_Engine x = t" "''celeris-'' @ a_Engine y = t"
    using assms(2,3) by (auto simp: twinOf_def Let_def split: option.splits if_splits)
  then show ?thesis using assms(1) unfolding paired_ok_def by (metis same_append_eq)
qed

lemma paired_ok_twin: "paired_ok r \<Longrightarrow> twinOf r names b = Some t \<Longrightarrow> twinOf r names t = None"
  by (fastforce simp: twinOf_def Let_def paired_ok_def split: option.splits if_splits)

lemma beside_out_owner:
  "x \<in> set (beside_out r names n) \<Longrightarrow> (case twinOf r names x of Some t \<Rightarrow> t | None \<Rightarrow> x) = n"
  using beside_map_sound [of r names names n]
  by (auto simp: beside_out_def beside_map_def split: option.splits if_splits)

lemma distinct_beside_out: "distinct (beside_out r names n)"
  using beside_map_sound [of r names names n]
  by (auto simp: beside_out_def beside_map_def split: option.splits)

lemma distinct_concat_owner:
  assumes "distinct ns" and "\<And>n x. x \<in> set (f n) \<Longrightarrow> owner x = n" and "\<And>n. distinct (f n)"
  shows "distinct (concat (map f ns))"
  using assms by (induction ns) (auto, metis)

lemma beside_out_paired:
  assumes "paired_ok r" "b \<in> set names" "twinOf r names b = Some t"
  shows "beside_out r names t = [t, b] \<or> beside_out r names t = [b, t]"
proof -
  obtain k c where "map_of (beside_map r names) t = Some (k, c)"
    using beside_map_complete [OF assms(2,3)] by (force simp: beside_map_def)
  moreover from this have "c = b"
    using beside_map_sound [of r names names t k c] paired_ok_inj [OF assms(1) _ assms(3)]
    by (simp add: beside_map_def)
  ultimately show ?thesis
    using paired_ok_twin [OF assms(1,3)] by (simp add: beside_out_def)
qed

lemma set_InterleaveBaseline:
  assumes "paired_ok r"
  shows "set (InterleaveBaseline r names) = set names"
proof
  show "set (InterleaveBaseline r names) \<subseteq> set names"
    using beside_map_sound [of r names names]
    by (auto simp: InterleaveBaseline_out beside_out_def beside_map_def split: option.splits if_splits)
  show "set names \<subseteq> set (InterleaveBaseline r names)"
  proof
    fix x assume x: "x \<in> set names"
    show "x \<in> set (InterleaveBaseline r names)"
    proof (cases "twinOf r names x")
      case None
      then have "x \<in> set (beside_out r names x)" by (auto simp: beside_out_def split: option.splits)
      with x show ?thesis by (auto simp: InterleaveBaseline_out)
    next
      case (Some t)
      then have "x \<in> set (beside_out r names t)" using beside_out_paired [OF assms x] by auto
      with twinOf_mem [OF Some] show ?thesis by (auto simp: InterleaveBaseline_out)
    qed
  qed
qed

lemma distinct_InterleaveBaseline: "distinct names \<Longrightarrow> distinct (InterleaveBaseline r names)"
  unfolding InterleaveBaseline_out
  by (rule distinct_concat_owner [where owner = "\<lambda>x. case twinOf r names x of Some t \<Rightarrow> t | None \<Rightarrow> x"])
    (auto dest: beside_out_owner intro: distinct_beside_out)

lemma paired_ok_full: "paired_ok full_registry"
proof -
  have mem: "(k, a) \<in> set full_registry" if "map_of full_registry k = Some a" for k a
    using that by (rule map_of_SomeD)
  have base: "(k, a) \<in> set baseline_columns" if "map_of full_registry k = Some a" "a_Baseline a" for k a
    using mem [OF that(1)] that(2) main_not_baseline by (auto simp: full_registry_def main_registry_def)
  have eng: "k = BaselineName (a_Engine a) \<and> a_Engine a \<in> set baselineEngines" if "(k, a) \<in> set baseline_columns" for k a
  proof -
    have "list_all (\<lambda>(k, a). k = BaselineName (a_Engine a) \<and> a_Engine a \<in> set baselineEngines) baseline_columns"
      by code_simp
    with that show ?thesis by (auto simp: list_all_iff)
  qed
  have twin: "list_all (\<lambda>e. case map_of full_registry (''celeris-'' @ e) of Some y \<Rightarrow> \<not> a_Baseline y | None \<Rightarrow> True) baselineEngines"
    by code_simp
  have tw: "\<not> a_Baseline y" if "e \<in> set baselineEngines" "map_of full_registry (''celeris-'' @ e) = Some y" for e y
    using twin that by (auto simp: list_all_iff dest!: bspec)
  show ?thesis
    unfolding paired_ok_def
  proof (intro conjI allI impI; elim conjE)
    fix b c x y
    assume "map_of full_registry b = Some x" "map_of full_registry c = Some y" "a_Baseline x" "a_Baseline y"
      "a_Engine x = a_Engine y"
    then show "b = c" using base eng by metis
  next
    fix b x y
    assume "map_of full_registry b = Some x" "a_Baseline x" "map_of full_registry (''celeris-'' @ a_Engine x) = Some y"
    then show "\<not> a_Baseline y" using base eng tw by metis
  qed
qed


section \<open>Properties\<close>

text \<open>\<open>InterleaveBaseline\<close> runs every column exactly once and a baseline column directly next to
  its twin. For every duplicate-free column list, over the registry with the baseline columns
  installed, the result is a permutation of the list, and each baseline whose twin is in the
  list is adjacent to it.\<close>

theorem InterleaveBaseline_adjacent:
  assumes "distinct names"
  shows "mset (InterleaveBaseline full_registry names) = mset names \<and>
    (\<forall>b t. b \<in> set names \<and> twinOf full_registry names b = Some t \<longrightarrow>
       (\<exists>us vs. InterleaveBaseline full_registry names = us @ [t, b] @ vs \<or>
                InterleaveBaseline full_registry names = us @ [b, t] @ vs))"
proof (intro conjI allI impI)
  show "mset (InterleaveBaseline full_registry names) = mset names"
    using assms distinct_InterleaveBaseline set_InterleaveBaseline [OF paired_ok_full]
    by (metis set_eq_iff_mset_eq_distinct)
next
  fix b t assume b: "b \<in> set names \<and> twinOf full_registry names b = Some t"
  then obtain pre post where "names = pre @ t # post" using twinOf_mem by (metis split_list)
  then have "InterleaveBaseline full_registry names =
      concat (map (beside_out full_registry names) pre) @ beside_out full_registry names t @
      concat (map (beside_out full_registry names) post)"
    by (subst InterleaveBaseline_out) (metis concat.simps(2) concat_append list.simps(9) map_append)
  moreover have "beside_out full_registry names t = [t, b] \<or> beside_out full_registry names t = [b, t]"
    using beside_out_paired [OF paired_ok_full] b by blast
  ultimately show "\<exists>us vs. InterleaveBaseline full_registry names = us @ [t, b] @ vs \<or>
                InterleaveBaseline full_registry names = us @ [b, t] @ vs"
    by (elim disjE) (simp_all only:, blast+)
qed

theorem InterleaveBaseline_adjacent_witness:
  "let names = [''axum'', BaselineName ''epoll-h1-sync'', ''celeris-epoll-h1-sync'', ''hyper'']
   in InterleaveBaseline full_registry names =
        [''axum'', ''celeris-epoll-h1-sync'', BaselineName ''epoll-h1-sync'', ''hyper''] \<and>
      mset (InterleaveBaseline full_registry names) = mset names"
proof -
  let ?names = "[''axum'', BaselineName ''epoll-h1-sync'', ''celeris-epoll-h1-sync'', ''hyper'']"
  have "distinct ?names" by code_simp
  moreover have "InterleaveBaseline full_registry ?names =
      [''axum'', ''celeris-epoll-h1-sync'', BaselineName ''epoll-h1-sync'', ''hyper'']" by code_simp
  ultimately show ?thesis using InterleaveBaseline_adjacent [of ?names] by simp
qed

text \<open>The baseline columns install without a panic, and each carries its twin's engine and
  capabilities, so it is gated exactly as the twin: the same scenarios apply to both.\<close>

theorem baseline_columns_mirror:
  "baseline_init baselineEngines main_registry = Inr full_registry \<and>
   (\<forall>e\<in>set baselineEngines. \<exists>b m. map_of full_registry (BaselineName e) = Some b \<and> a_Baseline b \<and>
      map_of full_registry (''celeris-'' @ e) = Some m \<and> \<not> a_Baseline m \<and> a_Engine b = e \<and>
      (\<forall>tls. featureSetFor b tls = featureSetFor m tls))"
proof
  show "baseline_init baselineEngines main_registry = Inr full_registry" by (rule baseline_init_ok)
  have *: "list_all (\<lambda>e. case (map_of full_registry (BaselineName e), map_of full_registry (''celeris-'' @ e)) of
      (Some b, Some m) \<Rightarrow> a_Baseline b \<and> \<not> a_Baseline m \<and> a_Engine b = e \<and> a_Engine m = e \<and> a_Capabilities b = a_Capabilities m
    | _ \<Rightarrow> False) baselineEngines"
    by code_simp
  have fs: "featureSetFor b tls = featureSetFor m tls"
    if "a_Engine b = a_Engine m" "a_Capabilities b = a_Capabilities m" for b m tls
    using that by (simp add: featureSetFor_def)
  show "\<forall>e\<in>set baselineEngines. \<exists>b m. map_of full_registry (BaselineName e) = Some b \<and> a_Baseline b \<and>
      map_of full_registry (''celeris-'' @ e) = Some m \<and> \<not> a_Baseline m \<and> a_Engine b = e \<and>
      (\<forall>tls. featureSetFor b tls = featureSetFor m tls)"
  proof
    fix e assume "e \<in> set baselineEngines"
    with * have "case (map_of full_registry (BaselineName e), map_of full_registry (''celeris-'' @ e)) of
      (Some b, Some m) \<Rightarrow> a_Baseline b \<and> \<not> a_Baseline m \<and> a_Engine b = e \<and> a_Engine m = e \<and> a_Capabilities b = a_Capabilities m
    | _ \<Rightarrow> False"
      by (simp only: list_all_iff)
    then obtain b m where "map_of full_registry (BaselineName e) = Some b" "map_of full_registry (''celeris-'' @ e) = Some m"
      "a_Baseline b" "\<not> a_Baseline m" "a_Engine b = e" "a_Engine m = e" "a_Capabilities b = a_Capabilities m"
      by (cases "map_of full_registry (BaselineName e)"; cases "map_of full_registry (''celeris-'' @ e)")
        (simp_all only: prod.case option.case, blast)
    then show "\<exists>b m. map_of full_registry (BaselineName e) = Some b \<and> a_Baseline b \<and>
      map_of full_registry (''celeris-'' @ e) = Some m \<and> \<not> a_Baseline m \<and> a_Engine b = e \<and>
      (\<forall>tls. featureSetFor b tls = featureSetFor m tls)"
      by (intro exI [of _ b] exI [of _ m] conjI allI fs) (simp_all only: not_False_eq_True)
  qed
qed

theorem baseline_columns_mirror_witness:
  "\<exists>b m. map_of full_registry (BaselineName ''epoll-h1-sync'') = Some b \<and> a_Baseline b \<and>
     map_of full_registry (''celeris-'' @ ''epoll-h1-sync'') = Some m \<and>
     (\<forall>tls. featureSetFor b tls = featureSetFor m tls)"
proof -
  have "''epoll-h1-sync'' \<in> set baselineEngines" by code_simp
  with baseline_columns_mirror show ?thesis by blast
qed

end
