(* ===== verification/GoPath.thy ===== *)
theory GoPath
  imports Prelude
begin

text \<open>
  \<open>path.Match\<close> of the Go standard library, which decides the \<open>-cells\<close> and \<open>-rated-cells\<close> globs of
  the runner: the chunk scanner, the chunk matcher and the outer loop, on ASCII names. The
  result is \<open>None\<close> for \<open>ErrBadPattern\<close>. The lemmas at the end decide the two pattern shapes the
  harness uses, a literal scenario followed by a slash and a star, and a star on both sides
  of the slash.
\<close>

fun drop_stars :: "string \<Rightarrow> bool \<times> string" where
  "drop_stars (c # p) = (if c = CHR ''*'' then (True, snd (drop_stars p)) else (False, c # p))"
| "drop_stars [] = (False, [])"

text \<open>The chunk up to the next star outside brackets; a backslash takes the next byte along.\<close>

fun scan :: "bool \<Rightarrow> string \<Rightarrow> string \<times> string" where
  "scan inrange [] = ([], [])"
| "scan inrange (c # p) =
     (if c = CHR 0x5C then
        (case p of
           [] \<Rightarrow> ([c], [])
         | d # p' \<Rightarrow> apfst (\<lambda>ch. c # d # ch) (scan inrange p'))
      else if c = CHR ''['' then apfst (\<lambda>ch. c # ch) (scan True p)
      else if c = CHR '']'' then apfst (\<lambda>ch. c # ch) (scan False p)
      else if c = CHR ''*'' \<and> \<not> inrange then ([], c # p)
      else apfst (\<lambda>ch. c # ch) (scan inrange p))"

definition scanChunk :: "string \<Rightarrow> bool \<times> string \<times> string" where
  "scanChunk pattern = (let (star, p) = drop_stars pattern; (ch, rest) = scan False p in (star, ch, rest))"

definition getEsc :: "string \<Rightarrow> (char \<times> string) option" where
  "getEsc chunk =
     (case chunk of
        [] \<Rightarrow> None
      | c # ch \<Rightarrow>
          if c = CHR ''-'' \<or> c = CHR '']'' then None
          else if c = CHR 0x5C then
            (case ch of [] \<Rightarrow> None | d # ch' \<Rightarrow> if ch' = [] then None else Some (d, ch'))
          else if ch = [] then None else Some (c, ch))"

lemma getEsc_shorter: "getEsc chunk = Some (r, ch) \<Longrightarrow> length ch < length chunk"
  by (auto simp: getEsc_def split: list.splits if_splits)

lemma getEsc_nonempty: "getEsc chunk = Some (r, ch) \<Longrightarrow> ch \<noteq> []"
  by (auto simp: getEsc_def split: list.splits if_splits)

text \<open>The ranges of a character class: whether \<open>r\<close> is in one of them, and the rest of the chunk.\<close>

function classRanges :: "char \<Rightarrow> nat \<Rightarrow> bool \<Rightarrow> string \<Rightarrow> (bool \<times> string) option" where
  "classRanges r nrange mt chunk =
     (if chunk \<noteq> [] \<and> hd chunk = CHR '']'' \<and> 0 < nrange then Some (mt, tl chunk)
      else case getEsc chunk of
             None \<Rightarrow> None
           | Some (lo, ch) \<Rightarrow>
               if hd ch = CHR ''-'' then
                 (case getEsc (tl ch) of
                    None \<Rightarrow> None
                  | Some (hi, ch') \<Rightarrow>
                      classRanges r (Suc nrange)
                        (mt \<or> (of_char lo :: nat) \<le> of_char r \<and> (of_char r :: nat) \<le> of_char hi) ch')
               else classRanges r (Suc nrange) (mt \<or> lo = r) ch)"
  by pat_completeness auto
termination
proof (relation "measure (\<lambda>(r, n, m, chunk). length chunk)", goal_cases)
  case (2 r nrange mt chunk x lo ch xa hi ch')
  then have "length ch < length chunk" "length ch' < length (tl ch)"
    by (auto dest: getEsc_shorter)
  then show ?case by simp
next
  case (3 r nrange mt chunk x lo ch)
  then show ?case by (auto dest: getEsc_shorter)
qed simp

declare classRanges.simps [simp del]

lemma classRanges_shorter: "classRanges r n m chunk = Some (b, rest) \<Longrightarrow> length rest < length chunk"
proof (induction r n m chunk rule: classRanges.induct)
  case (1 r nrange mt chunk)
  show ?case
  proof (cases "chunk \<noteq> [] \<and> hd chunk = CHR '']'' \<and> 0 < nrange")
    case True
    with "1.prems" show ?thesis by (auto simp: classRanges.simps [of r nrange mt chunk])
  next
    case False
    with "1.prems" obtain lo ch where g: "getEsc chunk = Some (lo, ch)"
      by (auto simp: classRanges.simps [of r nrange mt chunk] split: option.splits)
    note sh = getEsc_shorter [OF g]
    show ?thesis
    proof (cases "hd ch = CHR ''-''")
      case True
      with False g "1.prems" obtain hi ch' where h: "getEsc (tl ch) = Some (hi, ch')"
        by (auto simp: classRanges.simps [of r nrange mt chunk] split: option.splits)
      have "length rest < length ch'"
        using "1.IH"(1) [OF False g refl True h refl] "1.prems" False g True h
        by (auto simp: classRanges.simps [of r nrange mt chunk])
      then show ?thesis using sh getEsc_shorter [OF h] by simp
    next
      case no: False
      have "length rest < length ch"
        using "1.IH"(2) [OF False g refl no] "1.prems" False g no
        by (auto simp: classRanges.simps [of r nrange mt chunk])
      then show ?thesis using sh by simp
    qed
  qed
qed

text \<open>\<open>matchChunk\<close>: \<open>None\<close> for \<open>ErrBadPattern\<close>, \<open>Some None\<close> when the chunk does not match,
  \<open>Some (Some rest)\<close> when it does. After a failure the chunk is still checked for syntax.\<close>

function matchChunk :: "bool \<Rightarrow> string \<Rightarrow> string \<Rightarrow> string option option" where
  "matchChunk failed [] s = Some (if failed then None else Some s)"
| "matchChunk failed (c # chunk) s =
     (let failed = (failed \<or> s = [])
      in if c = CHR ''['' then
           (let r = (if failed then CHR 0x00 else hd s);
                s' = (if failed then s else tl s);
                negated = (chunk \<noteq> [] \<and> hd chunk = CHR ''^'');
                chunk' = (if negated then tl chunk else chunk)
            in case classRanges r 0 False chunk' of
                 None \<Rightarrow> None
               | Some (mt, rest) \<Rightarrow> matchChunk (failed \<or> mt = negated) rest s')
         else if c = CHR ''?'' then
           matchChunk (failed \<or> hd s = CHR ''/'') chunk (if failed then s else tl s)
         else if c = CHR 0x5C then
           (case chunk of
              [] \<Rightarrow> None
            | d # chunk' \<Rightarrow> matchChunk (failed \<or> d \<noteq> hd s) chunk' (if failed then s else tl s))
         else matchChunk (failed \<or> c \<noteq> hd s) chunk (if failed then s else tl s))"
  by pat_completeness auto
termination
proof (relation "measure (\<lambda>(f, chunk, s). length chunk)", goal_cases)
  case (2 failed c chunk s)
  then show ?case by (auto dest!: classRanges_shorter split: if_splits)
qed simp_all

text \<open>The inner loop of \<open>Match\<close> after a star: the first skip of \<open>i+1\<close> bytes, none of them a slash,
  after which the chunk matches (and, for the last chunk, exhausts the name).\<close>

fun starMatch :: "string \<Rightarrow> bool \<Rightarrow> string \<Rightarrow> string option option" where
  "starMatch chunk fin [] = Some None"
| "starMatch chunk fin (c # name) =
     (if c = CHR ''/'' then Some None
      else case matchChunk False chunk name of
             None \<Rightarrow> None
           | Some (Some t) \<Rightarrow> if fin \<and> t \<noteq> [] then starMatch chunk fin name else Some (Some t)
           | Some None \<Rightarrow> starMatch chunk fin name)"

lemma drop_stars_length: "length (snd (drop_stars p)) \<le> length p"
  by (induction p rule: drop_stars.induct) auto

lemma drop_stars_star: "fst (drop_stars p) \<Longrightarrow> length (snd (drop_stars p)) < length p"
  using drop_stars_length by (cases p) (auto simp: le_imp_less_Suc split: if_splits)

lemma scan_append: "fst (scan b p) @ snd (scan b p) = p"
proof (induction b p rule: scan.induct)
  case (2 inrange c p)
  then show ?case by (cases p) simp_all
qed simp

lemma scan_length: "length (snd (scan b p)) \<le> length p"
  by (metis length_append le_add2 scan_append)

lemma scan_fst_ne: "p \<noteq> [] \<Longrightarrow> hd p \<noteq> CHR ''*'' \<Longrightarrow> fst (scan b p) \<noteq> []"
  by (cases "(b, p)" rule: scan.cases) (simp_all split: list.split)

lemma scan_progress: "p \<noteq> [] \<Longrightarrow> hd p \<noteq> CHR ''*'' \<Longrightarrow> length (snd (scan b p)) < length p"
  by (metis scan_append scan_fst_ne length_append length_greater_0_conv less_add_same_cancel2)

lemma scanChunk_shorter:
  assumes "pattern \<noteq> []" and "(star, chunk, rest) = scanChunk pattern"
  shows "length rest < length pattern"
proof -
  obtain st p where d: "drop_stars pattern = (st, p)" by (cases "drop_stars pattern")
  with assms(2) have rest: "rest = snd (scan False p)"
    by (cases "scan False p") (simp add: scanChunk_def)
  show ?thesis
  proof (cases st)
    case True
    then have "length p < length pattern" using d drop_stars_star [of pattern] by simp
    then show ?thesis using rest scan_length [of False p] by simp
  next
    case False
    with d assms(1) have "p = pattern" "hd p \<noteq> CHR ''*''"
      by (cases pattern; auto split: if_splits)+
    then show ?thesis using rest assms(1) scan_progress [of p False] by simp
  qed
qed

text \<open>The syntax check of what is left of the pattern before a mismatch is reported.\<close>

function restValid :: "string \<Rightarrow> bool" where
  "restValid pattern =
     (if pattern = [] then True
      else case scanChunk pattern of
             (star, chunk, rest) \<Rightarrow> matchChunk False chunk [] \<noteq> None \<and> restValid rest)"
  by pat_completeness auto
termination
  by (relation "measure length") (auto dest: scanChunk_shorter)

declare restValid.simps [simp del]

function Match :: "string \<Rightarrow> string \<Rightarrow> bool option" where
  "Match pattern name =
     (if pattern = [] then Some (name = [])
      else case scanChunk pattern of
             (star, chunk, rest) \<Rightarrow>
               if star \<and> chunk = [] then Some (CHR ''/'' \<notin> set name)
               else case matchChunk False chunk name of
                      None \<Rightarrow> None
                    | Some r \<Rightarrow>
                        (case r of
                           Some t \<Rightarrow>
                             if t = [] \<or> rest \<noteq> [] then Match rest t
                             else if star then
                               (case starMatch chunk (rest = []) name of
                                  None \<Rightarrow> None
                                | Some (Some t) \<Rightarrow> Match rest t
                                | Some None \<Rightarrow> if restValid rest then Some False else None)
                             else if restValid rest then Some False else None
                         | None \<Rightarrow>
                             if star then
                               (case starMatch chunk (rest = []) name of
                                  None \<Rightarrow> None
                                | Some (Some t) \<Rightarrow> Match rest t
                                | Some None \<Rightarrow> if restValid rest then Some False else None)
                             else if restValid rest then Some False else None))"
  by pat_completeness auto
termination
  by (relation "measure (\<lambda>(p, n). length p)") (auto dest: scanChunk_shorter)

declare Match.simps [simp del]



section \<open>The patterns of the harness\<close>

definition plain :: "string \<Rightarrow> bool" where
  "plain p \<longleftrightarrow> (\<forall>c\<in>set p. c \<noteq> CHR ''*'' \<and> c \<noteq> CHR ''?'' \<and> c \<noteq> CHR ''['' \<and> c \<noteq> CHR '']'' \<and> c \<noteq> CHR 0x5C)"

lemma plain_simps [simp]:
  "plain []"
  "plain (c # p) \<longleftrightarrow> c \<noteq> CHR ''*'' \<and> c \<noteq> CHR ''?'' \<and> c \<noteq> CHR ''['' \<and> c \<noteq> CHR '']'' \<and> c \<noteq> CHR 0x5C \<and> plain p"
  "plain (p @ q) \<longleftrightarrow> plain p \<and> plain q"
  by (auto simp: plain_def)

lemma scan_plain_star: "plain p \<Longrightarrow> scan False (p @ ''*'') = (p, ''*'')"
  by (induction p) simp_all

lemma scanChunk_plain_star: "plain p \<Longrightarrow> p \<noteq> [] \<Longrightarrow> scanChunk (p @ ''*'') = (False, p, ''*'')"
  using scan_plain_star [of p] by (cases p) (simp_all add: scanChunk_def)

lemma scanChunk_star: "scanChunk ''*'' = (True, [], [])"
  by (simp add: scanChunk_def)

lemma matchChunk_failed: "plain p \<Longrightarrow> matchChunk True p s = Some None"
  by (induction p) simp_all

lemma matchChunk_plain:
  "plain p \<Longrightarrow> matchChunk False p s = Some (if has_prefix s p then Some (drop (length p) s) else None)"
proof (induction p arbitrary: s)
  case step: (Cons c p)
  then show ?case
  proof (cases s)
    case (Cons d t)
    with step.prems step.IH [of t] show ?thesis
      by (cases "c = d") (auto simp: matchChunk_failed has_prefix_def)
  qed (auto simp: matchChunk_failed has_prefix_def)
qed (simp add: has_prefix_def)

lemma Match_star: "Match ''*'' name = Some (CHR ''/'' \<notin> set name)"
  by (subst Match.simps) (simp add: scanChunk_star)

lemma restValid_star: "restValid ''*''"
  by (simp add: restValid.simps [of "''*''"] restValid.simps [of "[]"] scanChunk_star)

lemma Match_prefix_star:
  assumes "plain p" and "p \<noteq> []"
  shows "Match (p @ ''*'') name = Some (has_prefix name p \<and> CHR ''/'' \<notin> set (drop (length p) name))"
  by (subst Match.simps)
    (simp add: scanChunk_plain_star [OF assms] matchChunk_plain [OF assms(1)] Match_star restValid_star assms(2))

lemma starMatch_slash:
  "CHR ''/'' \<notin> set a \<Longrightarrow> a \<noteq> [] \<Longrightarrow> starMatch ''/'' False (a @ CHR ''/'' # b) = Some (Some b)"
proof (induction a)
  case (Cons c a)
  then show ?case by (cases a) (auto simp: matchChunk_plain has_prefix_def)
qed simp

lemma Match_star_slash_star:
  assumes "CHR ''/'' \<notin> set a" and "CHR ''/'' \<notin> set b"
  shows "Match ''*/*'' (a @ CHR ''/'' # b) = Some True"
proof -
  have sc: "scanChunk ''*/*'' = (True, ''/'', ''*'')"
    by (simp add: scanChunk_def)
  show ?thesis
  proof (cases "a = []")
    case True
    then show ?thesis
      using assms by (subst Match.simps) (simp add: sc matchChunk_plain has_prefix_def Match_star)
  next
    case False
    then have "\<not> has_prefix (a @ CHR ''/'' # b) ''/''"
      using assms(1) by (cases a) (auto simp: has_prefix_def)
    moreover have "matchChunk False ''/'' (a @ CHR ''/'' # b) = Some None"
      using calculation by (subst matchChunk_plain) simp_all
    ultimately show ?thesis
      using assms False
      by (subst Match.simps) (simp add: sc starMatch_slash Match_star del: matchChunk.simps)
  qed
qed

end
