(* ===== verification/Interleave.thy ===== *)
theory Interleave
  imports Servers GoPath
begin

text \<open>
  The cell schedule of the benchmark runner: \<open>src/interleave/schedule.go\<close>, the \<open>-cells\<close> and
  \<open>-cell-order\<close> handling and the resume filter of \<open>src/cmd/runner\<close> (\<open>main.go\<close>, \<open>resume.go\<close>), and
  the planning part of the runner's \<open>run\<close>, which composes them.

  The lemmas show that the schedule repeats one pair order in every run and contains every
  applicable pair exactly once per run, that the reversed order is a permutation that keeps
  the run sequence and undoes itself, and which cells a resumed run drops.
\<close>


section \<open>Schedule\<close>

record cell =
  RunIdx :: int
  c_Scenario :: scenario
  c_Server :: server

definition applicable_pairs :: "scenario list \<Rightarrow> server list \<Rightarrow> (scenario \<times> server) list" where
  "applicable_pairs ss sv =
     concat (map (\<lambda>s. map (Pair s) (filter (\<lambda>srv. applicable s (srv_Features srv)) sv)) ss)"

definition run_cells :: "(scenario \<times> server) list \<Rightarrow> int \<Rightarrow> cell list" where
  "run_cells pairs r = map (\<lambda>(s, srv). \<lparr>RunIdx = r, c_Scenario = s, c_Server = srv\<rparr>) pairs"

definition Schedule :: "int \<Rightarrow> scenario list \<Rightarrow> server list \<Rightarrow> cell list" where
  "Schedule runs ss sv =
     (if runs \<le> 0 \<or> ss = [] \<or> sv = [] then []
      else concat (map (run_cells (applicable_pairs ss sv)) (map int [0..<nat runs])))"

function ReverseWithinRuns :: "cell list \<Rightarrow> cell list" where
  "ReverseWithinRuns [] = []"
| "ReverseWithinRuns (c # cs) =
     rev (c # takeWhile (\<lambda>x. RunIdx x = RunIdx c) cs) @
     ReverseWithinRuns (dropWhile (\<lambda>x. RunIdx x = RunIdx c) cs)"
  by pat_completeness auto
termination
  by (relation "measure length") (auto simp: le_imp_less_Suc length_dropWhile_le)

lemma set_applicable_pairs:
  "set (applicable_pairs ss sv) =
     {(s, srv). s \<in> set ss \<and> srv \<in> set sv \<and> applicable s (srv_Features srv)}"
  by (auto simp: applicable_pairs_def)

lemma distinct_applicable_pairs:
  "distinct ss \<Longrightarrow> distinct sv \<Longrightarrow> distinct (applicable_pairs ss sv)"
  by (induction ss) (auto simp: applicable_pairs_def distinct_map inj_on_def)

lemma run_cells_idx: "c \<in> set (run_cells pairs r) \<Longrightarrow> RunIdx c = r"
  by (auto simp: run_cells_def)

lemma pairs_of_run_cells: "map (\<lambda>c. (c_Scenario c, c_Server c)) (run_cells pairs r) = pairs"
  by (induction pairs) (auto simp: run_cells_def)

lemma distinct_run_cells: "distinct pairs \<Longrightarrow> distinct (run_cells pairs r)"
  by (auto simp: run_cells_def distinct_map inj_on_def)

lemma filter_run_cells:
  "filter (\<lambda>c. RunIdx c = r) (run_cells pairs q) = (if q = r then run_cells pairs q else [])"
  by (induction pairs) (auto simp: run_cells_def)

lemma filter_concat_runs:
  "distinct qs \<Longrightarrow>
   filter (\<lambda>c. RunIdx c = r) (concat (map (run_cells pairs) qs)) =
     (if r \<in> set qs then run_cells pairs r else [])"
  by (induction qs) (auto simp: filter_run_cells)

lemma applicable_pairs_Nil: "ss = [] \<or> sv = [] \<Longrightarrow> applicable_pairs ss sv = []"
  by (auto simp: applicable_pairs_def)

lemma concat_run_cells_Nil: "concat (map (run_cells []) qs) = []"
  by (induction qs) (auto simp: run_cells_def)

definition run_indices :: "int \<Rightarrow> int list" where
  "run_indices runs = map int [0..<nat runs]"

lemma Schedule_alt:
  "Schedule runs ss sv = concat (map (run_cells (applicable_pairs ss sv)) (run_indices runs))"
proof (cases "runs \<le> 0 \<or> ss = [] \<or> sv = []")
  case True
  then have "run_indices runs = [] \<or> applicable_pairs ss sv = []"
    using applicable_pairs_Nil [of ss sv] by (auto simp: run_indices_def)
  then have "concat (map (run_cells (applicable_pairs ss sv)) (run_indices runs)) = []"
    using concat_run_cells_Nil by (metis concat.simps(1) list.simps(8))
  with True show ?thesis unfolding Schedule_def by simp
next
  case False
  then show ?thesis unfolding Schedule_def run_indices_def by (simp del: map_map)
qed

lemma set_run_indices: "r \<in> set (run_indices runs) \<longleftrightarrow> 0 \<le> r \<and> r < runs"
proof
  assume "0 \<le> r \<and> r < runs"
  then have "r = int (nat r)" and "nat r \<in> set [0..<nat runs]" by auto
  then show "r \<in> set (run_indices runs)" unfolding run_indices_def by (metis imageI set_map)
qed (auto simp: run_indices_def)

lemma distinct_run_indices: "distinct (run_indices runs)"
  by (simp add: run_indices_def distinct_map)

lemma sorted_run_indices: "sorted (run_indices runs)"
  by (simp add: run_indices_def sorted_map sorted_wrt_iff_nth_less)

lemma Schedule_run:
  assumes "0 \<le> r" "r < runs"
  shows "filter (\<lambda>c. RunIdx c = r) (Schedule runs ss sv) = run_cells (applicable_pairs ss sv) r"
  using assms by (simp add: Schedule_alt filter_concat_runs distinct_run_indices set_run_indices)

lemma set_Schedule:
  fixes c :: cell
  shows "c \<in> set (Schedule runs ss sv) \<longleftrightarrow>
     0 \<le> RunIdx c \<and> RunIdx c < runs \<and> c_Scenario c \<in> set ss \<and> c_Server c \<in> set sv \<and>
     applicable (c_Scenario c) (srv_Features (c_Server c))"
  by (cases c) (auto simp: Schedule_alt run_cells_def set_applicable_pairs set_run_indices image_iff)

lemma distinct_Schedule:
  assumes "distinct ss" and "distinct sv"
  shows "distinct (Schedule runs ss sv)"
proof -
  let ?p = "applicable_pairs ss sv"
  have "distinct (concat (map (run_cells ?p) qs))" if "distinct qs" for qs
    using that distinct_applicable_pairs [OF assms] distinct_run_cells [of ?p]
    by (induction qs) (auto dest: run_cells_idx)
  then show ?thesis by (simp add: Schedule_alt distinct_run_indices)
qed

lemma length_Schedule: "length (Schedule runs ss sv) = nat runs * length (applicable_pairs ss sv)"
proof -
  have "length (concat (map (run_cells p) qs)) = length qs * length p" for p qs
    by (induction qs) (auto simp: run_cells_def)
  then show ?thesis by (simp add: Schedule_alt run_indices_def del: map_map)
qed

lemma map_RunIdx_run_cells: "map RunIdx (run_cells p r) = replicate (length p) r"
  by (induction p) (auto simp: run_cells_def)

lemma sorted_runs_Schedule: "sorted (map RunIdx (Schedule runs ss sv))"
proof -
  have "sorted (map RunIdx (concat (map (run_cells p) qs)))" if "sorted qs" for p qs
    using that
    by (induction qs) (auto simp: sorted_append map_RunIdx_run_cells dest: run_cells_idx)
  then show ?thesis by (simp add: Schedule_alt sorted_run_indices)
qed


section \<open>Reversal within runs\<close>

lemma ReverseWithinRuns_group:
  assumes "\<forall>x\<in>set g. RunIdx x = r" and "g \<noteq> []" and "rest = [] \<or> RunIdx (hd rest) \<noteq> r"
  shows "ReverseWithinRuns (g @ rest) = rev g @ ReverseWithinRuns rest"
proof (cases g)
  case (Cons c g')
  have tw: "takeWhile (\<lambda>x. RunIdx x = r) (g' @ rest) = g'"
    using assms(1,3) Cons by (cases rest) (auto simp: takeWhile_append)
  have dw: "dropWhile (\<lambda>x. RunIdx x = r) (g' @ rest) = rest"
    using assms(1,3) Cons by (cases rest) (auto simp: dropWhile_append)
  have "RunIdx c = r" using assms(1) Cons by simp
  then show ?thesis using Cons tw dw by simp
qed (use assms in simp)

lemma ReverseWithinRuns_mset: "mset (ReverseWithinRuns cs) = mset cs"
proof (induction cs rule: ReverseWithinRuns.induct)
  case (2 c cs)
  have "mset (takeWhile (\<lambda>x. RunIdx x = RunIdx c) cs) + mset (dropWhile (\<lambda>x. RunIdx x = RunIdx c) cs) = mset cs"
    by (simp flip: mset_append)
  with 2 show ?case by simp
qed simp

lemma map_const_eq_replicate: "\<forall>x\<in>set xs. f x = k \<Longrightarrow> map f xs = replicate (length xs) k"
  by (induction xs) auto

lemma map_rev_const: "\<forall>x\<in>set xs. f x = k \<Longrightarrow> map f (rev xs) = map f xs"
  by (metis map_const_eq_replicate rev_map rev_replicate)

lemma ReverseWithinRuns_runs: "map RunIdx (ReverseWithinRuns cs) = map RunIdx cs"
proof (induction cs rule: ReverseWithinRuns.induct)
  case (2 c cs)
  define g where "g = c # takeWhile (\<lambda>x. RunIdx x = RunIdx c) cs"
  define rest where "rest = dropWhile (\<lambda>x. RunIdx x = RunIdx c) cs"
  have "\<forall>x\<in>set g. RunIdx x = RunIdx c" by (auto simp: g_def dest: set_takeWhileD)
  then have "map RunIdx (rev g) = map RunIdx g" by (rule map_rev_const)
  moreover have "ReverseWithinRuns (c # cs) = rev g @ ReverseWithinRuns rest"
    by (simp add: g_def rest_def)
  moreover have "map RunIdx (ReverseWithinRuns rest) = map RunIdx rest"
    using 2 by (simp add: rest_def)
  moreover have "g @ rest = c # cs" by (simp add: g_def rest_def)
  ultimately show ?case by (metis map_append)
qed simp

lemma ReverseWithinRuns_hd:
  "cs \<noteq> [] \<Longrightarrow> ReverseWithinRuns cs \<noteq> [] \<and> RunIdx (hd (ReverseWithinRuns cs)) = RunIdx (hd cs)"
  using ReverseWithinRuns_runs [of cs] by (metis list.map_disc_iff hd_map)

lemma ReverseWithinRuns_involution: "ReverseWithinRuns (ReverseWithinRuns cs) = cs"
proof (induction cs rule: ReverseWithinRuns.induct)
  case (2 c cs)
  let ?P = "\<lambda>x. RunIdx x = RunIdx c"
  define g where "g = c # takeWhile ?P cs"
  define rest where "rest = dropWhile ?P cs"
  have g: "\<forall>x\<in>set (rev g). RunIdx x = RunIdx c" by (auto simp: g_def dest: set_takeWhileD)
  have "rest \<noteq> [] \<Longrightarrow> RunIdx (hd rest) \<noteq> RunIdx c"
    unfolding rest_def using hd_dropWhile [of ?P cs] by blast
  then have "ReverseWithinRuns rest = [] \<or> RunIdx (hd (ReverseWithinRuns rest)) \<noteq> RunIdx c"
    using ReverseWithinRuns_hd [of rest] by (cases "rest = []") auto
  moreover have "rev g \<noteq> []" by (simp add: g_def)
  ultimately have "ReverseWithinRuns (rev g @ ReverseWithinRuns rest) = g @ ReverseWithinRuns (ReverseWithinRuns rest)"
    using ReverseWithinRuns_group [OF g] by simp
  moreover have "ReverseWithinRuns (c # cs) = rev g @ ReverseWithinRuns rest"
    by (simp add: g_def rest_def)
  moreover have "ReverseWithinRuns (ReverseWithinRuns rest) = rest"
    using 2 by (simp add: rest_def)
  moreover have "g @ rest = c # cs" by (simp add: g_def rest_def)
  ultimately show ?case by (simp only:)
qed simp

lemma dropWhile_sorted_run:
  assumes "sorted (map RunIdx (c # cs))" and "x \<in> set (dropWhile (\<lambda>x. RunIdx x = RunIdx c) cs)"
  shows "RunIdx x \<noteq> RunIdx c"
  using assms
proof (induction cs)
  case (Cons d cs)
  show ?case
  proof (cases "RunIdx d = RunIdx c")
    case False
    with Cons.prems have "RunIdx c < RunIdx d" and "x = d \<or> x \<in> set cs" by auto
    with Cons.prems(1) show ?thesis by auto
  qed (use Cons in auto)
qed simp

lemma ReverseWithinRuns_run:
  "sorted (map RunIdx cs) \<Longrightarrow>
   filter (\<lambda>c. RunIdx c = r) (ReverseWithinRuns cs) = rev (filter (\<lambda>c. RunIdx c = r) cs)"
proof (induction cs rule: ReverseWithinRuns.induct)
  case (2 c cs)
  define g where "g = c # takeWhile (\<lambda>x. RunIdx x = RunIdx c) cs"
  define rest where "rest = dropWhile (\<lambda>x. RunIdx x = RunIdx c) cs"
  have split: "c # cs = g @ rest" by (simp add: g_def rest_def)
  have g: "\<forall>x\<in>set g. RunIdx x = RunIdx c" by (auto simp: g_def dest: set_takeWhileD)
  have rest: "\<forall>x\<in>set rest. RunIdx x \<noteq> RunIdx c" unfolding rest_def using dropWhile_sorted_run [OF 2(2)] by blast
  have "sorted (map RunIdx rest)" using 2(2) unfolding split by (simp add: sorted_append)
  then have ih: "filter (\<lambda>c. RunIdx c = r) (ReverseWithinRuns rest) = rev (filter (\<lambda>c. RunIdx c = r) rest)"
    using 2(1) by (simp add: rest_def)
  have rv: "ReverseWithinRuns (g @ rest) = rev g @ ReverseWithinRuns rest"
    unfolding split [symmetric] by (simp add: g_def rest_def)
  show ?case
  proof (cases "RunIdx c = r")
    case True
    then have "filter (\<lambda>c. RunIdx c = r) rest = []" using rest by (auto simp: filter_empty_conv)
    then show ?thesis unfolding split rv by (simp add: ih rev_filter)
  next
    case False
    then have "filter (\<lambda>c. RunIdx c = r) g = []" using g by (auto simp: filter_empty_conv)
    then show ?thesis unfolding split rv by (simp add: ih rev_filter filter_empty_conv)
  qed
qed simp


section \<open>Properties\<close>

text \<open>Interleaving spreads noise equally. For duplicate-free scenario and server lists the
  schedule lists the runs in order, every applicable pair exactly once in each run, in the
  same pair order in every run, and nothing else.\<close>

theorem Schedule_interleaved:
  assumes "distinct ss" and "distinct sv"
  shows "sorted (map RunIdx (Schedule runs ss sv)) \<and> distinct (Schedule runs ss sv) \<and>
    (\<forall>c :: cell. c \<in> set (Schedule runs ss sv) \<longleftrightarrow>
       0 \<le> RunIdx c \<and> RunIdx c < runs \<and> c_Scenario c \<in> set ss \<and> c_Server c \<in> set sv \<and>
       applicable (c_Scenario c) (srv_Features (c_Server c))) \<and>
    (\<forall>r q. 0 \<le> r \<and> r < runs \<and> 0 \<le> q \<and> q < runs \<longrightarrow>
       map (\<lambda>c. (c_Scenario c, c_Server c)) (filter (\<lambda>c. RunIdx c = r) (Schedule runs ss sv)) =
       map (\<lambda>c. (c_Scenario c, c_Server c)) (filter (\<lambda>c. RunIdx c = q) (Schedule runs ss sv)))"
  using sorted_runs_Schedule distinct_Schedule [OF assms] set_Schedule
  by (simp add: Schedule_run pairs_of_run_cells)

definition w_server :: "string \<Rightarrow> server" where
  "w_server n = \<lparr>srv_Name = n, srv_Kind = ''celeris'', srv_Features = remoteFeatureSet\<rparr>"

theorem Schedule_interleaved_witness:
  "let ss = [DriverScenario ''a'' ''a'', DriverScenario ''b'' ''b'']; sv = [w_server ''x'', w_server ''y'']
   in distinct (Schedule 3 ss sv) \<and> length (Schedule 3 ss sv) = 12"
proof -
  let ?ss = "[DriverScenario ''a'' ''a'', DriverScenario ''b'' ''b'']" and ?sv = "[w_server ''x'', w_server ''y'']"
  have "distinct ?ss" "distinct ?sv" by code_simp+
  moreover have "length (Schedule 3 ?ss ?sv) = 12" by code_simp
  ultimately show ?thesis using Schedule_interleaved [of ?ss ?sv 3] unfolding Let_def by blast
qed

text \<open>The reversed order of the second arch walks the same cells. It is a permutation that
  keeps the sequence of run indices, reverses the order inside every run of a schedule, and
  applied twice gives the schedule back.\<close>

theorem ReverseWithinRuns_walk:
  "mset (ReverseWithinRuns (Schedule runs ss sv)) = mset (Schedule runs ss sv) \<and>
   map RunIdx (ReverseWithinRuns (Schedule runs ss sv)) = map RunIdx (Schedule runs ss sv) \<and>
   filter (\<lambda>c. RunIdx c = r) (ReverseWithinRuns (Schedule runs ss sv)) =
     rev (filter (\<lambda>c. RunIdx c = r) (Schedule runs ss sv)) \<and>
   ReverseWithinRuns (ReverseWithinRuns (Schedule runs ss sv)) = Schedule runs ss sv"
  using ReverseWithinRuns_mset ReverseWithinRuns_runs ReverseWithinRuns_involution
    ReverseWithinRuns_run [OF sorted_runs_Schedule] by blast

end
