(* ===== verification/CellStatus.thy ===== *)
theory CellStatus
  imports Interleave
begin

text \<open>
  The outcome of a benchmark cell: the status strings and the classification of
  \<open>src/report/schema.go\<close>, the runner's own copy of the status reduction, and the results sink of
  \<open>src/cmd/runner/main.go\<close> that folds every run of a cell into one record.

  Statuses stay strings, as in the code: they are read back from JSON, and every reader has to
  say what it does with a value it does not know. The load generator's result is the type
  variable of the outcome record; the sink only stores it.

  The lemmas give the reduction by its intended reading, show that the runner's copy agrees
  with the shared one, and that a cell with one failed run can not be promoted back to ok.
\<close>


section \<open>Statuses\<close>

type_synonym cell_status = string

definition CellOK :: cell_status where "CellOK = ''ok''"
definition CellNotApplicable :: cell_status where "CellNotApplicable = ''not_applicable''"
definition CellDNF :: cell_status where "CellDNF = ''dnf''"
definition CellSuspect :: cell_status where "CellSuspect = ''suspect''"

lemmas cell_status_defs = CellOK_def CellNotApplicable_def CellDNF_def CellSuspect_def

lemma cell_status_distinct [simp]:
  "CellOK \<noteq> CellNotApplicable" "CellOK \<noteq> CellDNF" "CellOK \<noteq> CellSuspect"
  "CellNotApplicable \<noteq> CellDNF" "CellNotApplicable \<noteq> CellSuspect" "CellDNF \<noteq> CellSuspect"
  "CellNotApplicable \<noteq> CellOK" "CellDNF \<noteq> CellOK" "CellSuspect \<noteq> CellOK"
  "CellDNF \<noteq> CellNotApplicable" "CellSuspect \<noteq> CellNotApplicable" "CellSuspect \<noteq> CellDNF"
  "CellOK \<noteq> []" "CellNotApplicable \<noteq> []" "CellDNF \<noteq> []" "CellSuspect \<noteq> []"
  by (simp_all add: cell_status_defs)

definition HasData :: "cell_status \<Rightarrow> bool" where
  "HasData s \<longleftrightarrow> s = '''' \<or> s = CellOK \<or> s = CellSuspect"

definition ClassifyCellError :: "string \<Rightarrow> cell_status" where
  "ClassifyCellError errMsg =
     (if errMsg = '''' then CellOK
      else if has_prefix errMsg ''suspect:'' then CellSuspect
      else if contains errMsg ''read server settings'' then
        (if contains errMsg ''i/o timeout'' \<or> contains errMsg ''deadline exceeded''
         then CellNotApplicable else CellDNF)
      else if contains errMsg ''capability-lie'' then
        (if contains errMsg ''got high error ratio'' then CellDNF else CellNotApplicable)
      else CellDNF)"

text \<open>The loop of \<open>ReduceCellStatus\<close> keeps two flags, \<open>allOK\<close> and \<open>anyDNF\<close>.\<close>

fun reduce_flags :: "cell_status list \<Rightarrow> bool \<Rightarrow> bool \<Rightarrow> bool \<times> bool" where
  "reduce_flags [] allOK anyDNF = (allOK, anyDNF)"
| "reduce_flags (st # runs) allOK anyDNF =
     (if st = CellOK then reduce_flags runs allOK anyDNF
      else if st = CellDNF then reduce_flags runs False True
      else reduce_flags runs False anyDNF)"

definition ReduceCellStatus :: "cell_status list \<Rightarrow> bool \<Rightarrow> bool \<Rightarrow> cell_status" where
  "ReduceCellStatus runs hasData demoted =
     (let (allOK, anyDNF) = reduce_flags runs True False
      in if allOK then CellOK
         else if hasData \<and> demoted then CellSuspect
         else if hasData then CellOK
         else if anyDNF then CellDNF
         else CellNotApplicable)"

text \<open>The runner's private copy, over its own loop.\<close>

fun runner_flags :: "cell_status list \<Rightarrow> bool \<Rightarrow> bool \<Rightarrow> bool \<times> bool" where
  "runner_flags [] allOK anyDNF = (allOK, anyDNF)"
| "runner_flags (st # runs) allOK anyDNF =
     (if st = CellOK then runner_flags runs allOK anyDNF
      else if st = CellDNF then runner_flags runs False True
      else runner_flags runs False anyDNF)"

definition reduceCellStatus :: "cell_status list \<Rightarrow> bool \<Rightarrow> bool \<Rightarrow> cell_status" where
  "reduceCellStatus runs hasData demoted =
     (let (allOK, anyDNF) = runner_flags runs True False
      in if allOK then CellOK
         else if hasData \<and> demoted then CellSuspect
         else if hasData then CellOK
         else if anyDNF then CellDNF
         else CellNotApplicable)"

lemma reduce_flags_eq:
  "reduce_flags runs a d = (a \<and> (\<forall>st\<in>set runs. st = CellOK), d \<or> CellDNF \<in> set runs)"
  by (induction runs arbitrary: a d) auto

lemma runner_flags_eq: "runner_flags runs a d = reduce_flags runs a d"
  by (induction runs arbitrary: a d) auto

lemma ReduceCellStatus_eq:
  "ReduceCellStatus runs hasData demoted =
     (if \<forall>st\<in>set runs. st = CellOK then CellOK
      else if hasData then (if demoted then CellSuspect else CellOK)
      else if CellDNF \<in> set runs then CellDNF else CellNotApplicable)"
  by (simp add: ReduceCellStatus_def reduce_flags_eq)

lemma reduceCellStatus_eq_shared: "reduceCellStatus = ReduceCellStatus"
  by (intro ext) (simp add: reduceCellStatus_def ReduceCellStatus_def runner_flags_eq)


section \<open>The results sink\<close>

definition CellID :: "string \<Rightarrow> string \<Rightarrow> string" where
  "CellID scenarioName serverName = scenarioName @ ''/'' @ serverName"

text \<open>\<open>'r\<close> is the load generator's result; a nil result is \<open>None\<close>. A rated sample
  is a target rate with its 99th percentile; \<open>'p\<close> is the rated pass record.\<close>

record ('r, 'p) cell_outcome =
  o_Result :: "'r option"
  o_HistogramB64 :: string
  o_RatedSamples :: "(rat \<times> duration) list"
  o_RatedPasses :: "'p list"
  o_Status :: cell_status
  o_ErrorMsg :: string

record ('r, 'p) cell_result =
  r_ScenarioName :: string
  r_ServerName :: string
  r_Category :: category
  r_RunStatuses :: "cell_status list"
  r_Samples :: "'r list"
  r_HistogramsB64 :: "string list"
  r_RatedSamples :: "(rat \<times> duration) list list"
  r_RatedPassRecords :: "'p list list"
  r_Status :: cell_status
  r_ErrorMsg :: string

record ('r, 'p) results_sink =
  collected :: "('r, 'p) cell_result gomap"
  demoted :: "bool gomap"
  firstErr :: "string gomap"
  dirty :: bool

definition newResultsSink :: "('r, 'p) results_sink" where
  "newResultsSink = \<lparr>collected = [], demoted = [], firstErr = [], dirty = False\<rparr>"

definition new_cell_result :: "cell \<Rightarrow> ('r, 'p) cell_result" where
  "new_cell_result cell =
     \<lparr>r_ScenarioName = sc_name (c_Scenario cell), r_ServerName = srv_Name (c_Server cell),
      r_Category = sc_category (c_Scenario cell), r_RunStatuses = [], r_Samples = [],
      r_HistogramsB64 = [], r_RatedSamples = [], r_RatedPassRecords = [],
      r_Status = '''', r_ErrorMsg = ''''\<rparr>"

definition cell_id :: "cell \<Rightarrow> string" where
  "cell_id cell = CellID (sc_name (c_Scenario cell)) (srv_Name (c_Server cell))"

definition add_samples ::
  "bool \<Rightarrow> cell_status \<Rightarrow> ('r, 'p) cell_outcome \<Rightarrow> ('r, 'p) cell_result \<Rightarrow> ('r, 'p) cell_result" where
  "add_samples rated status out cr =
     (case o_Result out of
        Some res \<Rightarrow>
          if HasData status then
            (let cr = cr\<lparr>r_Samples := r_Samples cr @ [res],
                          r_HistogramsB64 := r_HistogramsB64 cr @ [o_HistogramB64 out]\<rparr>
             in if rated then
                  (let cr = cr\<lparr>r_RatedSamples := r_RatedSamples cr @ [o_RatedSamples out]\<rparr>
                   in if o_RatedPasses out \<noteq> [] then
                        cr\<lparr>r_RatedPassRecords := r_RatedPassRecords cr @ [o_RatedPasses out]\<rparr>
                      else cr)
                else cr)
          else cr
      | None \<Rightarrow> cr)"

definition effective_status :: "('r, 'p) cell_outcome \<Rightarrow> cell_status" where
  "effective_status out =
     (if o_Status out = '''' then ClassifyCellError (o_ErrorMsg out) else o_Status out)"

definition recordRun ::
  "cell \<Rightarrow> ('r, 'p) cell_outcome \<Rightarrow> bool \<Rightarrow> ('r, 'p) results_sink \<Rightarrow> ('r, 'p) results_sink" where
  "recordRun cell out rated s =
     (let status = effective_status out;
          key = cell_id cell;
          cr = (case map_of (collected s) key of Some cr \<Rightarrow> cr | None \<Rightarrow> new_cell_result cell);
          cr = cr\<lparr>r_RunStatuses := r_RunStatuses cr @ [status]\<rparr>;
          fe = (if status \<noteq> CellOK \<and> map_of (firstErr s) key = None
                then mput (firstErr s) key (o_ErrorMsg out) else firstErr s);
          dm = (if status \<noteq> CellOK \<and> \<not> has_prefix (o_ErrorMsg out) ''interrupted:''
                then mput (demoted s) key True else demoted s);
          cr = add_samples rated status out cr;
          cr = cr\<lparr>r_Status := reduceCellStatus (r_RunStatuses cr) (r_Samples cr \<noteq> [])
                                 (case map_of dm key of Some b \<Rightarrow> b | None \<Rightarrow> False)\<rparr>;
          cr = cr\<lparr>r_ErrorMsg := (if r_Status cr = CellOK then ''''
                                   else case map_of fe key of Some e \<Rightarrow> e | None \<Rightarrow> '''')\<rparr>
      in s\<lparr>collected := mput (collected s) key cr, demoted := dm, firstErr := fe, dirty := True\<rparr>)"

definition cellsSnapshot :: "('r, 'p) results_sink \<Rightarrow> ('r, 'p) cell_result list" where
  "cellsSnapshot s = map (\<lambda>k. the (map_of (collected s) k)) (sorted_keys (collected s))"


section \<open>What the sink holds after a sequence of runs\<close>

type_synonym ('r, 'p) run_event = "cell \<times> ('r, 'p) cell_outcome"

definition record_all :: "bool \<Rightarrow> ('r, 'p) run_event list \<Rightarrow> ('r, 'p) results_sink" where
  "record_all rated evs = fold (\<lambda>(c, out). recordRun c out rated) evs newResultsSink"

definition runs_of :: "string \<Rightarrow> ('r, 'p) run_event list \<Rightarrow> ('r, 'p) cell_outcome list" where
  "runs_of k evs = map snd (filter (\<lambda>(c, out). cell_id c = k) evs)"

definition sut_failure :: "('r, 'p) cell_outcome \<Rightarrow> bool" where
  "sut_failure out \<longleftrightarrow>
     effective_status out \<noteq> CellOK \<and> \<not> has_prefix (o_ErrorMsg out) ''interrupted:''"

definition kept_samples :: "('r, 'p) cell_outcome list \<Rightarrow> 'r list" where
  "kept_samples outs =
     concat (map (\<lambda>out. case o_Result out of
       Some res \<Rightarrow> if HasData (effective_status out) then [res] else [] | None \<Rightarrow> []) outs)"

definition first_error :: "('r, 'p) cell_outcome list \<Rightarrow> string option" where
  "first_error outs = map_option o_ErrorMsg (find (\<lambda>out. effective_status out \<noteq> CellOK) outs)"

definition sink_record :: "('r, 'p) cell_outcome list \<Rightarrow> ('r, 'p) cell_result \<Rightarrow> bool" where
  "sink_record outs cr \<longleftrightarrow>
     r_RunStatuses cr = map effective_status outs \<and>
     r_Samples cr = kept_samples outs \<and>
     r_Status cr = ReduceCellStatus (map effective_status outs) (kept_samples outs \<noteq> [])
                     (\<exists>out\<in>set outs. sut_failure out) \<and>
     r_ErrorMsg cr = (if r_Status cr = CellOK then '''' else case first_error outs of Some e \<Rightarrow> e | None \<Rightarrow> '''')"

definition sink_inv :: "('r, 'p) run_event list \<Rightarrow> ('r, 'p) results_sink \<Rightarrow> bool" where
  "sink_inv evs s \<longleftrightarrow>
     (\<forall>k. map_of (demoted s) k = (if \<exists>out\<in>set (runs_of k evs). sut_failure out then Some True else None) \<and>
          map_of (firstErr s) k = first_error (runs_of k evs) \<and>
          (case map_of (collected s) k of
             None \<Rightarrow> runs_of k evs = []
           | Some cr \<Rightarrow> runs_of k evs \<noteq> [] \<and> sink_record (runs_of k evs) cr))"

lemma runs_of_snoc:
  "runs_of k (evs @ [(c, out)]) = (if cell_id c = k then runs_of k evs @ [out] else runs_of k evs)"
  by (simp add: runs_of_def)

lemma find_snoc: "find P (xs @ [x]) = (case find P xs of Some y \<Rightarrow> Some y | None \<Rightarrow> if P x then Some x else None)"
  by (induction xs) auto

lemma first_error_snoc:
  "first_error (outs @ [out]) =
     (case first_error outs of Some e \<Rightarrow> Some e
      | None \<Rightarrow> if effective_status out \<noteq> CellOK then Some (o_ErrorMsg out) else None)"
  by (auto simp: first_error_def find_snoc split: option.splits)

lemma add_samples_fields [simp]:
  "r_RunStatuses (add_samples rated st out cr) = r_RunStatuses cr"
  "r_Samples (add_samples rated st out cr) =
     r_Samples cr @ (case o_Result out of Some res \<Rightarrow> if HasData st then [res] else [] | None \<Rightarrow> [])"
  by (auto simp: add_samples_def Let_def split: option.splits)

lemma new_cell_result_fields [simp]:
  "r_RunStatuses (new_cell_result c) = []" "r_Samples (new_cell_result c) = []"
  by (simp_all add: new_cell_result_def)

lemma kept_samples_snoc:
  "kept_samples (outs @ [out]) =
     kept_samples outs @ (case o_Result out of
       Some res \<Rightarrow> if HasData (effective_status out) then [res] else [] | None \<Rightarrow> [])"
  by (simp add: kept_samples_def)

lemma recordRun_demoted:
  "map_of (demoted (recordRun c out rated s)) k =
     (if k = cell_id c \<and> sut_failure out then Some True else map_of (demoted s) k)"
  by (auto simp: recordRun_def Let_def sut_failure_def)

lemma recordRun_firstErr:
  "map_of (firstErr (recordRun c out rated s)) k =
     (if k = cell_id c \<and> effective_status out \<noteq> CellOK \<and> map_of (firstErr s) k = None
      then Some (o_ErrorMsg out) else map_of (firstErr s) k)"
  by (auto simp: recordRun_def Let_def)

definition prior_result :: "cell \<Rightarrow> ('r, 'p) results_sink \<Rightarrow> ('r, 'p) cell_result" where
  "prior_result c s = (case map_of (collected s) (cell_id c) of Some cr \<Rightarrow> cr | None \<Rightarrow> new_cell_result c)"

lemma recordRun_other:
  "k \<noteq> cell_id c \<Longrightarrow> map_of (collected (recordRun c out rated s)) k = map_of (collected s) k"
  by (simp add: recordRun_def Let_def)

lemma recordRun_self:
  "\<exists>cr. map_of (collected (recordRun c out rated s)) (cell_id c) = Some cr \<and>
     r_RunStatuses cr = r_RunStatuses (prior_result c s) @ [effective_status out] \<and>
     r_Samples cr = r_Samples (prior_result c s) @ (case o_Result out of
       Some res \<Rightarrow> if HasData (effective_status out) then [res] else [] | None \<Rightarrow> []) \<and>
     r_Status cr = reduceCellStatus (r_RunStatuses cr) (r_Samples cr \<noteq> [])
       (map_of (demoted (recordRun c out rated s)) (cell_id c) = Some True) \<and>
     r_ErrorMsg cr = (if r_Status cr = CellOK then ''''
       else case map_of (firstErr (recordRun c out rated s)) (cell_id c) of Some e \<Rightarrow> e | None \<Rightarrow> '''')"
proof -
  have "(case m of Some b \<Rightarrow> b | None \<Rightarrow> False) \<longleftrightarrow> m = Some True" for m :: "bool option"
    by (cases m) auto
  then show ?thesis
    by (simp add: recordRun_def Let_def prior_result_def)
qed

lemma prior_result_inv:
  assumes "sink_inv evs s"
  shows "r_RunStatuses (prior_result c s) = map effective_status (runs_of (cell_id c) evs)"
    and "r_Samples (prior_result c s) = kept_samples (runs_of (cell_id c) evs)"
proof -
  have "case map_of (collected s) (cell_id c) of
          None \<Rightarrow> runs_of (cell_id c) evs = []
        | Some cr \<Rightarrow> sink_record (runs_of (cell_id c) evs) cr"
    using assms by (auto simp: sink_inv_def split: option.splits dest: spec [of _ "cell_id c"])
  then show "r_RunStatuses (prior_result c s) = map effective_status (runs_of (cell_id c) evs)"
    and "r_Samples (prior_result c s) = kept_samples (runs_of (cell_id c) evs)"
    by (simp_all add: prior_result_def sink_record_def kept_samples_def split: option.splits)
qed

lemma recordRun_inv:
  assumes "sink_inv evs s"
  shows "sink_inv (evs @ [(c, out)]) (recordRun c out rated s)"
proof -
  let ?s = "recordRun c out rated s" and ?evs = "evs @ [(c, out)]"
  have dm: "map_of (demoted ?s) k = (if \<exists>o'\<in>set (runs_of k ?evs). sut_failure o' then Some True else None)" for k
    using assms by (simp add: recordRun_demoted runs_of_snoc sink_inv_def)
  have fe: "map_of (firstErr ?s) k = first_error (runs_of k ?evs)" for k
    using assms by (simp add: recordRun_firstErr runs_of_snoc sink_inv_def first_error_snoc split: option.splits)
  have co: "case map_of (collected ?s) k of None \<Rightarrow> runs_of k ?evs = []
            | Some cr \<Rightarrow> runs_of k ?evs \<noteq> [] \<and> sink_record (runs_of k ?evs) cr" for k
  proof (cases "k = cell_id c")
    case True
    obtain cr where cr: "map_of (collected ?s) (cell_id c) = Some cr"
      "r_RunStatuses cr = map effective_status (runs_of k ?evs)"
      "r_Samples cr = kept_samples (runs_of k ?evs)"
      "r_Status cr = ReduceCellStatus (r_RunStatuses cr) (r_Samples cr \<noteq> []) (map_of (demoted ?s) k = Some True)"
      "r_ErrorMsg cr = (if r_Status cr = CellOK then '''' else case map_of (firstErr ?s) k of Some e \<Rightarrow> e | None \<Rightarrow> '''')"
      using recordRun_self [of c out rated s] prior_result_inv [OF assms, of c] True
      by (auto simp: runs_of_snoc kept_samples_snoc reduceCellStatus_eq_shared)
    then show ?thesis
      using True dm [of k] fe [of k] by (simp add: sink_record_def runs_of_snoc)
  next
    case False
    then have "runs_of k ?evs = runs_of k evs" by (simp add: runs_of_snoc)
    with False assms show ?thesis unfolding sink_inv_def by (simp only: recordRun_other not_False_eq_True)
  qed
  show ?thesis using dm fe co by (simp add: sink_inv_def)
qed

lemma record_all_inv: "sink_inv evs (record_all rated evs)"
proof (induction evs rule: rev_induct)
  case Nil
  show ?case by (simp add: sink_inv_def record_all_def newResultsSink_def runs_of_def first_error_def)
next
  case (snoc e evs)
  then show ?case by (cases e) (simp add: record_all_def recordRun_inv)
qed

section \<open>Properties\<close>

text \<open>C29: an ok rerun can not erase a failure. Whatever sequence of run outcomes the sink
  recorded, a cell that ran has one record: it lists the status of every run of that cell in
  order and keeps the samples of exactly the runs with data. The published status is ok only
  if no run of the cell failed against the server; when a run did and the cell still has data
  the status is suspect; and a non-ok status carries the error of the first run that was not ok.\<close>

theorem sink_keeps_evidence:
  assumes "runs_of k evs \<noteq> []"
  shows "\<exists>cr. map_of (collected (record_all rated evs)) k = Some cr \<and>
    r_RunStatuses cr = map effective_status (runs_of k evs) \<and>
    r_Samples cr = kept_samples (runs_of k evs) \<and>
    (r_Status cr = CellOK \<longrightarrow> \<not> (\<exists>out\<in>set (runs_of k evs). sut_failure out)) \<and>
    ((\<exists>out\<in>set (runs_of k evs). sut_failure out) \<and> r_Samples cr \<noteq> [] \<longrightarrow> r_Status cr = CellSuspect) \<and>
    (r_Status cr \<noteq> CellOK \<longrightarrow> first_error (runs_of k evs) = Some (r_ErrorMsg cr))"
proof -
  have inv: "sink_inv evs (record_all rated evs)" by (rule record_all_inv)
  have "case map_of (collected (record_all rated evs)) k of
             None \<Rightarrow> runs_of k evs = []
           | Some cr \<Rightarrow> runs_of k evs \<noteq> [] \<and> sink_record (runs_of k evs) cr"
    using inv unfolding sink_inv_def by blast
  then obtain cr where cr: "map_of (collected (record_all rated evs)) k = Some cr"
    and sr: "sink_record (runs_of k evs) cr"
    using assms by (auto split: option.splits)
  have bad: "\<not> (\<forall>st\<in>set (map effective_status (runs_of k evs)). st = CellOK)" if "\<exists>out\<in>set (runs_of k evs). sut_failure out"
    using that by (auto simp: sut_failure_def)
  have fe: "first_error (runs_of k evs) \<noteq> None" if "\<not> (\<forall>st\<in>set (map effective_status (runs_of k evs)). st = CellOK)"
    using that by (auto simp: first_error_def find_None_iff)
  from sr cr show ?thesis
    using bad fe unfolding sink_record_def ReduceCellStatus_eq
    by (intro exI [of _ cr]) (auto split: if_splits option.splits)
qed

definition w_outcome :: "string \<Rightarrow> nat option \<Rightarrow> (nat, nat) cell_outcome" where
  "w_outcome err res = \<lparr>o_Result = res, o_HistogramB64 = '''', o_RatedSamples = [], o_RatedPasses = [],
     o_Status = '''', o_ErrorMsg = err\<rparr>"

definition w_run_cell :: cell where
  "w_run_cell = \<lparr>RunIdx = 0, c_Scenario = DriverScenario ''a'' ''a'', c_Server = w_server ''x''\<rparr>"

definition w_events :: "(nat, nat) run_event list" where
  "w_events = [(w_run_cell, w_outcome '''' (Some 7)), (w_run_cell, w_outcome ''server-down: probe'' None),
     (w_run_cell, w_outcome '''' (Some 8))]"

theorem sink_keeps_evidence_witness:
  "\<exists>cr. map_of (collected (record_all False w_events)) ''a/x'' = Some cr \<and>
     r_RunStatuses cr = [CellOK, CellDNF, CellOK] \<and> r_Status cr = CellSuspect"
proof -
  have r: "runs_of ''a/x'' w_events = [w_outcome '''' (Some 7), w_outcome ''server-down: probe'' None, w_outcome '''' (Some 8)]"
    by code_simp
  have e: "map effective_status (runs_of ''a/x'' w_events) = [CellOK, CellDNF, CellOK]" by code_simp
  have k: "kept_samples (runs_of ''a/x'' w_events) = [7, 8]" by code_simp
  have "sut_failure (w_outcome ''server-down: probe'' None)" by code_simp
  then have f: "\<exists>out\<in>set (runs_of ''a/x'' w_events). sut_failure out" by (simp add: r)
  have "runs_of ''a/x'' w_events \<noteq> []" by (simp add: r)
  from sink_keeps_evidence [OF this, of False] e k f show ?thesis by auto
qed

end
