(* ===== verification/RunResume.thy ===== *)
theory RunResume
  imports CellStatus
begin

text \<open>
  Resuming an interrupted benchmark run: \<open>src/cmd/runner/resume.go\<close> and the file writes of
  \<open>src/cmd/runner/main.go\<close> it reads back.

  A results directory is a tree of directories and files. A file holds what reading and
  decoding it gives: a per-cell record, or nothing when it can not be read or is not the JSON
  of one; a directory whose listing fails holds nothing. File names are ASCII.

  The lemmas connect the two sides: the cells a resume skips are exactly the cells whose last
  written record has a final status.
\<close>


section \<open>The results tree\<close>

record cell_result_file =
  f_RunIdx :: int
  f_ScenarioName :: string
  f_ServerName :: string
  f_Error :: string
  f_Status :: string

datatype fs_node = FsFile "cell_result_file option" | FsDir "(string \<times> fs_node) list option"

type_synonym fs_dir = "(string \<times> fs_node) list"

datatype read_err = NotExist | OtherReadErr

text \<open>\<open>filepath.Ext\<close>: the suffix from the last dot of the last path element.\<close>

fun ext_scan :: "string \<Rightarrow> string \<Rightarrow> string" where
  "ext_scan [] acc = []"
| "ext_scan (c # rs) acc =
     (if c = CHR ''/'' then [] else if c = CHR ''.'' then c # acc else ext_scan rs (c # acc))"

definition filepath_Ext :: "string \<Rightarrow> string" where
  "filepath_Ext name = ext_scan (rev name) []"

text \<open>\<open>fmt.Sscanf(name, "run%d", \&n)\<close> succeeds: the literal, blanks, an optional sign and at
  least one digit, with a value that fits the integer. What follows the number is ignored.\<close>

definition sscanf_int :: "string \<Rightarrow> bool" where
  "sscanf_int s =
     (let t = dropWhile (\<lambda>c. is_space c \<and> c \<noteq> CHR 0x0A) s;
          neg = (t \<noteq> [] \<and> hd t = CHR ''-'');
          u = (if t \<noteq> [] \<and> (hd t = CHR ''+'' \<or> hd t = CHR ''-'') then tl t else t);
          ds = takeWhile is_digit u;
          v = int (digits_val ds)
      in ds \<noteq> [] \<and> in_int64 (if neg then - v else v))"

definition sscanf_run :: "string \<Rightarrow> bool" where
  "sscanf_run s \<longleftrightarrow> has_prefix s ''run'' \<and> sscanf_int (drop 3 s)"


section \<open>Reading: completed cells\<close>

definition cellIsFinal :: "string \<Rightarrow> bool" where
  "cellIsFinal status =
     (if status = CellDNF then False
      else if status = CellOK \<or> status = CellSuspect \<or> status = CellNotApplicable \<or> status = '''' then True
      else False)"

definition cellKey :: "int \<Rightarrow> string \<Rightarrow> string \<Rightarrow> string" where
  "cellKey runIdx scenario server = itoa runIdx @ ''/'' @ scenario @ ''/'' @ server"

definition file_key :: "cell_result_file \<Rightarrow> string" where
  "file_key cr = cellKey (f_RunIdx cr) (f_ScenarioName cr) (f_ServerName cr)"

definition completed_files :: "fs_dir \<Rightarrow> string list" where
  "completed_files files =
     concat (map (\<lambda>(name, node).
       (case node of
          FsDir _ \<Rightarrow> []
        | FsFile content \<Rightarrow>
            if filepath_Ext name \<noteq> ''.json'' then []
            else case content of
                   None \<Rightarrow> []
                 | Some cr \<Rightarrow> if \<not> cellIsFinal (f_Status cr) then [] else [file_key cr])) files)"

definition completed_scenarios :: "fs_dir \<Rightarrow> string list" where
  "completed_scenarios scs =
     concat (map (\<lambda>(name, node).
       (case node of FsDir (Some files) \<Rightarrow> completed_files files | _ \<Rightarrow> [])) scs)"

definition completedCells :: "fs_dir \<Rightarrow> string list" where
  "completedCells entries =
     concat (map (\<lambda>(name, node).
       (case node of
          FsDir scs \<Rightarrow>
            if \<not> sscanf_run name then []
            else (case scs of Some scs \<Rightarrow> completed_scenarios scs | None \<Rightarrow> [])
        | FsFile _ \<Rightarrow> [])) entries)"

definition schedule_key :: "cell \<Rightarrow> string" where
  "schedule_key c = cellKey (RunIdx c) (sc_name (c_Scenario c)) (srv_Name (c_Server c))"

definition dropCompletedCells :: "cell list \<Rightarrow> read_err + fs_dir \<Rightarrow> read_err + cell list" where
  "dropCompletedCells schedule dir =
     (case dir of
        Inl NotExist \<Rightarrow> Inr schedule
      | Inl e \<Rightarrow> Inl e
      | Inr entries \<Rightarrow>
          (let done_cells = completedCells entries
           in Inr (filter (\<lambda>c. schedule_key c \<notin> set done_cells) schedule)))"


interpretation runner_resume: resumable schedule_key "\<lambda>d k. k \<in> set (completedCells d)" "\<lambda>_ _. True"
  "\<lambda>d schedule. projr (dropCompletedCells schedule (Inr d))"
  by unfold_locales (simp add: dropCompletedCells_def Let_def)


section \<open>Writing: per-cell files\<close>

text \<open>\<open>os.MkdirAll\<close> and the atomic write of \<open>writeJSON\<close>: \<open>None\<close> when a path element is in the
  way. The path is \<open><out>/run<N>/<scenario>/<server>.json\<close>; \<open>filepath.Join\<close> splits the names at
  slashes and drops empty elements.\<close>

fun put_path :: "string list \<Rightarrow> cell_result_file \<Rightarrow> fs_dir \<Rightarrow> fs_dir option" where
  "put_path [] cr es = None"
| "put_path [f] cr es =
     (case map_of es f of
        Some (FsDir _) \<Rightarrow> None
      | _ \<Rightarrow> Some (mput es f (FsFile (Some cr))))"
| "put_path (d # p # ps) cr es =
     (case map_of es d of
        None \<Rightarrow> map_option (\<lambda>sub. mput es d (FsDir (Some sub))) (put_path (p # ps) cr [])
      | Some (FsDir (Some sub)) \<Rightarrow>
          map_option (\<lambda>sub. mput es d (FsDir (Some sub))) (put_path (p # ps) cr sub)
      | _ \<Rightarrow> None)"

definition cell_path :: "cell_result_file \<Rightarrow> string list" where
  "cell_path cr =
     filter (\<lambda>w. w \<noteq> [])
       (concat (map (split_on (CHR ''/''))
         [''run'' @ itoa (f_RunIdx cr), f_ScenarioName cr, f_ServerName cr @ ''.json'']))"

definition write_cell :: "cell_result_file \<Rightarrow> fs_dir \<Rightarrow> fs_dir" where
  "write_cell cr es = (case put_path (cell_path cr) cr es of Some es' \<Rightarrow> es' | None \<Rightarrow> es)"

text \<open>The record \<open>executeCell\<close> writes when a cell ended with error string \<open>err\<close>, and the one
  \<open>writeSkippedCellFile\<close> writes for a cell that never started.\<close>

definition cell_file :: "cell \<Rightarrow> string \<Rightarrow> cell_result_file" where
  "cell_file c err =
     \<lparr>f_RunIdx = RunIdx c, f_ScenarioName = sc_name (c_Scenario c),
      f_ServerName = srv_Name (c_Server c), f_Error = err, f_Status = ClassifyCellError err\<rparr>"

definition writeSkippedCellFile :: "cell \<Rightarrow> string \<Rightarrow> fs_dir \<Rightarrow> fs_dir" where
  "writeSkippedCellFile c errMsg es = write_cell (cell_file c errMsg) es"

definition interrupted_reason :: string where
  "interrupted_reason = ''interrupted: run cancelled before cell start''"

definition markCellsInterrupted ::
  "cell list \<Rightarrow> bool \<Rightarrow> fs_dir \<times> ('r, 'p) results_sink \<Rightarrow> fs_dir \<times> ('r, 'p) results_sink" where
  "markCellsInterrupted cells rated =
     fold (\<lambda>c (es, s).
       (writeSkippedCellFile c interrupted_reason es,
        recordRun c \<lparr>o_Result = None, o_HistogramB64 = '''', o_RatedSamples = [], o_RatedPasses = [],
                    o_Status = CellDNF, o_ErrorMsg = interrupted_reason\<rparr> rated s)) cells"


section \<open>The files of a tree\<close>

text \<open>The record files the resume looks at, with their place.\<close>

type_synonym place = "string \<times> string \<times> string"

definition tree_files :: "fs_dir \<Rightarrow> (place \<times> cell_result_file) set" where
  "tree_files es =
     {((rn, sn, fn), cr) |rn sn fn cr scs files.
        (rn, FsDir (Some scs)) \<in> set es \<and> (sn, FsDir (Some files)) \<in> set scs \<and>
        (fn, FsFile (Some cr)) \<in> set files}"

definition file_place :: "cell_result_file \<Rightarrow> place" where
  "file_place cr = (''run'' @ itoa (f_RunIdx cr), f_ScenarioName cr, f_ServerName cr @ ''.json'')"

fun wf_node :: "nat \<Rightarrow> fs_node \<Rightarrow> bool" where
  "wf_node n (FsFile _) \<longleftrightarrow> n = 0"
| "wf_node 0 (FsDir _) \<longleftrightarrow> False"
| "wf_node (Suc n) (FsDir None) \<longleftrightarrow> False"
| "wf_node (Suc n) (FsDir (Some es)) \<longleftrightarrow> distinct (map fst es) \<and> (\<forall>(k, v)\<in>set es. wf_node n v)"

definition wf_file :: "cell_result_file \<Rightarrow> bool" where
  "wf_file cr \<longleftrightarrow> in_int64 (f_RunIdx cr) \<and> f_ScenarioName cr \<noteq> [] \<and>
     CHR ''/'' \<notin> set (f_ScenarioName cr) \<and> CHR ''/'' \<notin> set (f_ServerName cr)"

text \<open>A tree the runner wrote: three levels, and every record at its own place.\<close>

definition wf_tree :: "fs_dir \<Rightarrow> bool" where
  "wf_tree es \<longleftrightarrow> wf_node 3 (FsDir (Some es)) \<and> (\<forall>(pl, cr)\<in>tree_files es. pl = file_place cr \<and> wf_file cr)"

lemma ext_scan_json: "filepath_Ext (s @ ''.json'') = ''.json''"
  by (simp add: filepath_Ext_def)

lemma completedCells_iff:
  "k \<in> set (completedCells es) \<longleftrightarrow>
     (\<exists>rn sn fn cr. ((rn, sn, fn), cr) \<in> tree_files es \<and> sscanf_run rn \<and> filepath_Ext fn = ''.json'' \<and>
        cellIsFinal (f_Status cr) \<and> k = file_key cr)"
proof -
  have f: "k \<in> set (completed_files files) \<longleftrightarrow>
      (\<exists>fn cr. (fn, FsFile (Some cr)) \<in> set files \<and> filepath_Ext fn = ''.json'' \<and>
        cellIsFinal (f_Status cr) \<and> k = file_key cr)" for files
    by (force simp: completed_files_def split: fs_node.splits option.splits if_splits)
  have s: "k \<in> set (completed_scenarios scs) \<longleftrightarrow>
      (\<exists>sn files. (sn, FsDir (Some files)) \<in> set scs \<and> k \<in> set (completed_files files))" for scs
    by (force simp: completed_scenarios_def split: fs_node.splits option.splits)
  have "k \<in> set (completedCells es) \<longleftrightarrow>
      (\<exists>rn scs. (rn, FsDir (Some scs)) \<in> set es \<and> sscanf_run rn \<and> k \<in> set (completed_scenarios scs))"
    by (force simp: completedCells_def split: fs_node.splits option.splits if_splits)
  then show ?thesis unfolding s f tree_files_def by blast
qed


section \<open>Round trip of a write\<close>

lemma sscanf_run_itoa:
  assumes "in_int64 i"
  shows "sscanf_run (''run'' @ itoa i)"
proof -
  have ne: "show_nat n \<noteq> []" for n by (rule show_nat_ne)
  have sp: "\<not> is_space (CHR ''-'')" by (simp add: is_space_def)
  have pre: "dropWhile P s = s" if "s \<noteq> []" "\<not> P (hd s)" for P and s :: string
    using that by (cases s) auto
  have "sscanf_int (itoa i)"
  proof (cases "i < 0")
    case True
    then show ?thesis using assms sp ne [of "nat (- i)"]
      by (simp add: sscanf_int_def itoa_def takeWhile_show_nat digits_val_show_nat)
  next
    case False
    have "dropWhile (\<lambda>c. is_space c \<and> c \<noteq> CHR 0x0A) (show_nat (nat i)) = show_nat (nat i)"
      by (rule pre) (use ne show_nat_hd in auto)
    with False show ?thesis using assms ne [of "nat i"] show_nat_hd [of "nat i"]
      by (simp add: sscanf_int_def itoa_def takeWhile_show_nat digits_val_show_nat)
  qed
  then show ?thesis by (simp add: sscanf_run_def has_prefix_def)
qed

lemma cell_path_wf: "wf_file cr \<Longrightarrow> cell_path cr = (case file_place cr of (rn, sn, fn) \<Rightarrow> [rn, sn, fn])"
  by (simp add: cell_path_def file_place_def wf_file_def split_on_none itoa_no_slash)

lemma file_key_inj:
  assumes "wf_file a" and "wf_file b"
  shows "file_key a = file_key b \<longleftrightarrow> file_place a = file_place b"
  using assms itoa_no_slash
  by (auto simp: file_key_def cellKey_def file_place_def wf_file_def append_sep_eq dest: itoa_inj)

definition subdir :: "fs_dir \<Rightarrow> string \<Rightarrow> fs_dir" where
  "subdir es k = (case map_of es k of Some (FsDir (Some sub)) \<Rightarrow> sub | _ \<Rightarrow> [])"

lemma wf_dir_iff: "wf_node (Suc n) (FsDir (Some es)) \<longleftrightarrow>
    distinct (map fst es) \<and> (\<forall>k v. map_of es k = Some v \<longrightarrow> wf_node n v)"
  by (force simp: map_of_eq_Some_iff)

lemma wf_entry:
  assumes "wf_node (Suc (Suc n)) (FsDir (Some es))"
  shows "map_of es k = None \<or> (\<exists>sub. map_of es k = Some (FsDir (Some sub)) \<and> wf_node (Suc n) (FsDir (Some sub)))"
proof (cases "map_of es k")
  case (Some v)
  with assms have "wf_node (Suc n) v" by (auto simp only: wf_dir_iff)
  with Some show ?thesis by (cases "(Suc n, v)" rule: wf_node.cases) auto
qed simp

lemma wf_subdir: "wf_node (Suc (Suc n)) (FsDir (Some es)) \<Longrightarrow> wf_node (Suc n) (FsDir (Some (subdir es k)))"
  using wf_entry [of n es k] by (auto simp: subdir_def simp del: wf_node.simps(4)) simp

lemma wf_mput:
  "wf_node (Suc n) (FsDir (Some es)) \<Longrightarrow> wf_node n v \<Longrightarrow> wf_node (Suc n) (FsDir (Some (mput es k v)))"
  by (auto simp only: wf_dir_iff map_of_mput fun_upd_apply distinct_mput split: if_splits)

lemma put_path_step:
  assumes "wf_node (Suc (Suc n)) (FsDir (Some es))" and "put_path (p # ps) cr (subdir es d) = Some sub'"
  shows "put_path (d # p # ps) cr es = Some (mput es d (FsDir (Some sub')))"
  using wf_entry [OF assms(1), of d] assms(2) by (auto simp: subdir_def)

lemma put_path_file:
  assumes "wf_node 1 (FsDir (Some files))"
  shows "put_path [fn] cr files = Some (mput files fn (FsFile (Some cr)))"
proof (cases "map_of files fn")
  case (Some v)
  with assms have "wf_node 0 v" by (metis One_nat_def wf_dir_iff)
  with Some show ?thesis by (cases v) auto
qed simp

definition put3 :: "place \<Rightarrow> cell_result_file \<Rightarrow> fs_dir \<Rightarrow> fs_dir" where
  "put3 pl cr es =
     (case pl of (rn, sn, fn) \<Rightarrow>
        let scs = subdir es rn; files = subdir scs sn
        in mput es rn (FsDir (Some (mput scs sn (FsDir (Some (mput files fn (FsFile (Some cr)))))))))"

lemma put_path_put3:
  assumes "wf_node 3 (FsDir (Some es))"
  shows "put_path [rn, sn, fn] cr es = Some (put3 (rn, sn, fn) cr es)"
proof -
  have w3: "wf_node (Suc (Suc 1)) (FsDir (Some es))" using assms by (simp only: numeral_3_eq_3 One_nat_def)
  have w2: "wf_node (Suc (Suc 0)) (FsDir (Some (subdir es rn)))" using wf_subdir [OF w3] by (simp only: One_nat_def)
  have w1: "wf_node 1 (FsDir (Some (subdir (subdir es rn) sn)))" using wf_subdir [OF w2] by (simp only: One_nat_def)
  show ?thesis
    using put_path_step [OF w3 put_path_step [OF w2 put_path_file [OF w1]]] by (simp add: put3_def Let_def)
qed

lemma wf_put3:
  assumes "wf_node 3 (FsDir (Some es))"
  shows "wf_node 3 (FsDir (Some (put3 pl cr es)))"
proof -
  obtain rn sn fn where pl: "pl = (rn, sn, fn)" by (cases pl)
  have w3: "wf_node (Suc (Suc (Suc 0))) (FsDir (Some es))" using assms by (simp only: numeral_3_eq_3)
  note w2 = wf_subdir [OF w3, of rn] and w1 = wf_subdir [OF wf_subdir [OF w3, of rn], of sn]
  show ?thesis
    unfolding put3_def pl prod.case Let_def numeral_3_eq_3
    by (intro wf_mput w3 w2 w1) simp
qed

lemma tree_files_lookup:
  assumes "wf_node 3 (FsDir (Some es))"
  shows "((rn, sn, fn), cr) \<in> tree_files es \<longleftrightarrow>
    map_of (subdir (subdir es rn) sn) fn = Some (FsFile (Some cr))"
proof -
  have w3: "wf_node (Suc (Suc (Suc 0))) (FsDir (Some es))" using assms by (simp only: numeral_3_eq_3)
  have d: "(k, v) \<in> set m \<longleftrightarrow> map_of m k = Some v" if "wf_node (Suc n) (FsDir (Some m))" for n k v and m :: fs_dir
    using that by (simp add: map_of_eq_Some_iff)
  have sub: "map_of m k = Some (FsDir (Some s)) \<Longrightarrow> subdir m k = s" for m k s
    by (simp add: subdir_def)
  have bk: "map_of (subdir m k) x = Some v \<Longrightarrow> map_of m k = Some (FsDir (Some (subdir m k)))" for m k x v
    by (auto simp: subdir_def split: option.splits fs_node.splits)
  have e: "(rn, FsDir (Some (subdir es rn))) \<in> set es" if "map_of (subdir es rn) x = Some v" for x v
    using d [OF w3] bk [OF that] by blast
  show ?thesis
  proof
    assume "((rn, sn, fn), cr) \<in> tree_files es"
    then obtain scs files where *: "(rn, FsDir (Some scs)) \<in> set es" "(sn, FsDir (Some files)) \<in> set scs"
      "(fn, FsFile (Some cr)) \<in> set files" by (auto simp: tree_files_def)
    then have "subdir es rn = scs" using d [OF w3] sub by blast
    moreover from this have "subdir scs sn = files"
      using * d [OF wf_subdir [OF w3, of rn]] sub by blast
    ultimately show "map_of (subdir (subdir es rn) sn) fn = Some (FsFile (Some cr))"
      using * d [OF wf_subdir [OF wf_subdir [OF w3, of rn], of sn]] by blast
  next
    assume *: "map_of (subdir (subdir es rn) sn) fn = Some (FsFile (Some cr))"
    show "((rn, sn, fn), cr) \<in> tree_files es"
      using d [OF wf_subdir [OF wf_subdir [OF w3, of rn], of sn]] * bk [OF *] e [OF bk [OF *]]
        d [OF wf_subdir [OF w3, of rn]]
      by (auto simp: tree_files_def)
  qed
qed

lemma subdir_mput: "subdir (mput es k (FsDir (Some s))) k' = (if k = k' then s else subdir es k')"
  by (simp add: subdir_def)

lemma tree_files_put3:
  assumes "wf_node 3 (FsDir (Some es))"
  shows "tree_files (put3 pl cr es) = insert (pl, cr) {x \<in> tree_files es. fst x \<noteq> pl}"
proof -
  obtain rn sn fn where pl: "pl = (rn, sn, fn)" by (cases pl)
  have "(q, cr') \<in> tree_files (put3 pl cr es) \<longleftrightarrow> (q, cr') = (pl, cr) \<or> (q, cr') \<in> tree_files es \<and> q \<noteq> pl" for q cr'
    by (cases q)
      (simp add: tree_files_lookup [OF assms] tree_files_lookup [OF wf_put3 [OF assms]],
       auto simp: put3_def pl Let_def subdir_mput)
  then show ?thesis by auto
qed

lemma write_cell_put3:
  assumes "wf_tree es" and "wf_file cr"
  shows "write_cell cr es = put3 (file_place cr) cr es"
  using assms put_path_put3 [of es]
  by (cases "file_place cr") (simp add: write_cell_def cell_path_wf wf_tree_def)

lemma write_cell_wf:
  assumes "wf_tree es" and "wf_file cr"
  shows "wf_tree (write_cell cr es)"
  using assms wf_put3 tree_files_put3 unfolding write_cell_put3 [OF assms] wf_tree_def by auto

lemma wf_tree_Nil: "wf_tree []"
  by (simp add: wf_tree_def tree_files_def numeral_3_eq_3)

lemma completedCells_wf:
  assumes "wf_tree es"
  shows "set (completedCells es) = file_key ` {cr. (file_place cr, cr) \<in> tree_files es \<and> cellIsFinal (f_Status cr)}"
proof -
  have "sscanf_run rn \<and> filepath_Ext fn = ''.json''" if "((rn, sn, fn), cr) \<in> tree_files es" for rn sn fn cr
    using assms that
    by (auto simp: wf_tree_def file_place_def wf_file_def ext_scan_json dest!: sscanf_run_itoa)
  moreover have "pl = file_place cr" if "(pl, cr) \<in> tree_files es" for pl cr
    using assms that by (auto simp: wf_tree_def)
  ultimately show ?thesis
    by (auto simp: completedCells_iff image_iff) (metis surj_pair)+
qed

lemma completedCells_write:
  assumes "wf_tree es" and "wf_file cr"
  shows "set (completedCells (write_cell cr es)) =
    (set (completedCells es) - {file_key cr}) \<union> (if cellIsFinal (f_Status cr) then {file_key cr} else {})"
proof -
  have "tree_files (write_cell cr es) = insert (file_place cr, cr) {x \<in> tree_files es. fst x \<noteq> file_place cr}"
    using assms tree_files_put3 by (simp add: write_cell_put3 wf_tree_def)
  moreover have "file_key a = file_key cr \<longleftrightarrow> file_place a = file_place cr" if "(file_place a, a) \<in> tree_files es" for a
    using assms that by (intro file_key_inj) (auto simp: wf_tree_def)
  ultimately show ?thesis
    unfolding completedCells_wf [OF assms(1)] completedCells_wf [OF write_cell_wf [OF assms]]
    by (auto simp: image_iff)
qed

lemma cellIsFinal_classified: "cellIsFinal (ClassifyCellError e) \<longleftrightarrow> ClassifyCellError e \<noteq> CellDNF"
  by (simp add: cellIsFinal_def ClassifyCellError_def)

text \<open>A run writes the record of cell \<open>c\<close> with error string \<open>e\<close>, for a sequence of cells.\<close>

definition wf_cell :: "cell \<Rightarrow> bool" where
  "wf_cell c \<longleftrightarrow> in_int64 (RunIdx c) \<and> sc_name (c_Scenario c) \<noteq> [] \<and>
     CHR ''/'' \<notin> set (sc_name (c_Scenario c)) \<and> CHR ''/'' \<notin> set (srv_Name (c_Server c))"

definition write_all :: "(cell \<times> string) list \<Rightarrow> fs_dir \<Rightarrow> fs_dir" where
  "write_all ws es = fold (\<lambda>(c, e). write_cell (cell_file c e)) ws es"

definition last_error :: "(cell \<times> string) list \<Rightarrow> cell \<Rightarrow> string option" where
  "last_error ws c = map_of (rev (map (\<lambda>(c, e). (schedule_key c, e)) ws)) (schedule_key c)"

lemma cell_file_key [simp]:
  "file_key (cell_file c e) = schedule_key c" "f_Status (cell_file c e) = ClassifyCellError e"
  by (simp_all add: file_key_def cell_file_def schedule_key_def)

lemma wf_cell_file: "wf_cell c \<Longrightarrow> wf_file (cell_file c e)"
  by (simp add: wf_cell_def wf_file_def cell_file_def)

lemma write_all_completed:
  assumes "\<forall>(c, e)\<in>set ws. wf_cell c"
  shows "wf_tree (write_all ws []) \<and>
    (\<forall>c. schedule_key c \<in> set (completedCells (write_all ws [])) \<longleftrightarrow>
       (\<exists>e. last_error ws c = Some e \<and> ClassifyCellError e \<noteq> CellDNF))"
  using assms
proof (induction ws rule: rev_induct)
  case Nil
  show ?case by (simp add: write_all_def wf_tree_Nil completedCells_def last_error_def)
next
  case (snoc w ws)
  obtain c e where w: "w = (c, e)" by (cases w)
  let ?es = "write_all ws []"
  have wf: "wf_tree ?es" "wf_file (cell_file c e)" using snoc w wf_cell_file by auto
  have ih: "\<forall>c. schedule_key c \<in> set (completedCells ?es) \<longleftrightarrow>
       (\<exists>e. last_error ws c = Some e \<and> ClassifyCellError e \<noteq> CellDNF)"
    using snoc by auto
  have step: "write_all (ws @ [w]) [] = write_cell (cell_file c e) ?es" by (simp add: write_all_def w)
  have le: "last_error (ws @ [w]) d = (if schedule_key d = schedule_key c then Some e else last_error ws d)" for d
    by (simp add: last_error_def w)
  have "schedule_key d \<in> set (completedCells (write_all (ws @ [w]) [])) \<longleftrightarrow>
       (\<exists>e. last_error (ws @ [w]) d = Some e \<and> ClassifyCellError e \<noteq> CellDNF)" for d
    using ih unfolding step le completedCells_write [OF wf]
    by (auto simp: cellIsFinal_classified)
  then show ?case using write_cell_wf [OF wf] by (simp add: step)
qed


section \<open>Properties\<close>

text \<open>C4: a resume re-runs exactly the cells that have no record yet or whose last record is
  \<open>dnf\<close>. Whatever sequence of cell results and interruption marks a run wrote into an empty
  results directory, \<open>dropCompletedCells\<close> on that directory keeps, in schedule order, the cells
  whose last written error string classifies as \<open>dnf\<close> and those never written, and drops the
  others. Run indices fit the integer type, and names contain no path separator.\<close>

theorem resume_reruns_unfinished:
  assumes "\<forall>(c, e)\<in>set ws. wf_cell c"
  shows "dropCompletedCells schedule (Inr (write_all ws [])) =
    Inr (filter (\<lambda>c. case last_error ws c of None \<Rightarrow> True | Some e \<Rightarrow> ClassifyCellError e = CellDNF) schedule)"
proof -
  have "schedule_key c \<notin> set (completedCells (write_all ws [])) \<longleftrightarrow>
     (case last_error ws c of None \<Rightarrow> True | Some e \<Rightarrow> ClassifyCellError e = CellDNF)" for c
    using write_all_completed [OF assms] by (auto split: option.splits)
  then show ?thesis by (simp add: dropCompletedCells_def)
qed

definition w_cell :: "int \<Rightarrow> string \<Rightarrow> string \<Rightarrow> cell" where
  "w_cell r sc srv = \<lparr>RunIdx = r, c_Scenario = DriverScenario sc sc,
     c_Server = \<lparr>srv_Name = srv, srv_Kind = ''celeris'', srv_Features = remoteFeatureSet\<rparr>\<rparr>"

theorem resume_reruns_unfinished_witness:
  "dropCompletedCells [w_cell 0 ''a'' ''x'', w_cell 0 ''b'' ''x'', w_cell 1 ''a'' ''x'']
     (Inr (write_all [(w_cell 0 ''a'' ''x'', ''''), (w_cell 0 ''b'' ''x'', interrupted_reason)] [])) =
   Inr [w_cell 0 ''b'' ''x'', w_cell 1 ''a'' ''x'']"
proof -
  have wf: "\<forall>(c, e)\<in>set [(w_cell 0 ''a'' ''x'', ''''), (w_cell 0 ''b'' ''x'', interrupted_reason)]. wf_cell c"
    by code_simp
  have f: "filter (\<lambda>c. case last_error [(w_cell 0 ''a'' ''x'', ''''), (w_cell 0 ''b'' ''x'', interrupted_reason)] c of
        None \<Rightarrow> True | Some e \<Rightarrow> ClassifyCellError e = CellDNF)
      [w_cell 0 ''a'' ''x'', w_cell 0 ''b'' ''x'', w_cell 1 ''a'' ''x''] = [w_cell 0 ''b'' ''x'', w_cell 1 ''a'' ''x'']"
    by code_simp
  show ?thesis
    by (subst resume_reruns_unfinished [OF wf]) (simp only: f)
qed

end
