(* ===== verification/ClientLock.thy ===== *)
theory ClientLock
  imports Scenarios
begin

text \<open>
  The host-wide client lock of the two runners of a both-arch run:
  \<open>src/cmd/runner/clientlock.go\<close> and the runner configuration it reads
  (\<open>Config\<close> of \<open>src/cmd/runner/main.go\<close>).

  \<open>acquire\<close> is modelled at the granularity of its system calls as a labelled step relation on
  a state with the lock path's inode, the kernel's flock table, a clock and one phase per
  runner; the environment can replace the lock file, let time pass and kill a runner. The
  lemmas are invariants of that relation; the properties are mutual exclusion of the cells
  that need the lock, the bound on the retries and the two limits.
\<close>


section \<open>Runner configuration\<close>

record runner_config =
  Runs :: int
  Duration :: duration
  Warmup :: duration
  Cooldown :: duration
  Cells :: string
  ResumeFrom :: string
  Services :: string
  FailFast :: bool
  Target :: string
  ServerName :: string
  DryRun :: bool
  RatedMode :: bool
  RatedDuration :: duration
  RatedFractions :: "rat list"
  RatedCells :: string
  TLSTerminator :: string
  Competitors :: string
  ClientLockPath :: string
  ClientLockPolicy :: string
  CellOrder :: string

definition DefaultConfig :: runner_config where
  "DefaultConfig =
     \<lparr>Runs = 5, Duration = 45 * second, Warmup = 10 * second, Cooldown = 5 * second,
      Cells = '''', ResumeFrom = '''', Services = ''local'', FailFast = False, Target = '''',
      ServerName = '''', DryRun = False, RatedMode = False, RatedDuration = 30 * second,
      RatedFractions = [1 / 4, 1 / 2, 3 / 4, 8106479329266893 / 9007199254740992], RatedCells = '''', TLSTerminator = '''',
      Competitors = '''', ClientLockPath = '''', ClientLockPolicy = '''', CellOrder = ''''\<rparr>"

text \<open>The context timeouts of a saturation pass (\<open>executeCell\<close>) and of a rated pass
  (\<open>runRatedSweep\<close>), in 64-bit arithmetic.\<close>

definition saturation_timeout :: "runner_config \<Rightarrow> duration" where
  "saturation_timeout c = wrap64 (5 * Warmup c + 2 * Duration c + 60 * second)"

definition rated_timeout :: "runner_config \<Rightarrow> duration" where
  "rated_timeout c = wrap64 (5 * Warmup c + 2 * RatedDuration c + 60 * second)"

definition clientLockLimits :: "runner_config \<Rightarrow> duration \<times> duration" where
  "clientLockLimits c =
     (let maxHold = wrap64 (5 * Warmup c + 2 * Duration c + 60 * second);
          maxHold = (if RatedMode c
                     then wrap64 (maxHold + int (length (RatedFractions c)) *
                                    (5 * Warmup c + 2 * RatedDuration c + 60 * second))
                     else maxHold);
          maxHold = wrap64 (maxHold + minute)
      in (maxHold, wrap64 (maxHold + 2 * minute)))"


section \<open>The lock object\<close>

definition ExclusionHeavy :: string where "ExclusionHeavy = ''heavy''"
definition ExclusionAll :: string where "ExclusionAll = ''all''"
definition ExclusionOff :: string where "ExclusionOff = ''off''"

record client_lock =
  lk_path :: string
  lk_policy :: string
  lk_poll :: duration
  lk_maxWait :: duration
  lk_maxHold :: duration

datatype lock_flag_err = PolicyNeedsPath string | BadPolicy string

definition newClientLock :: "string \<Rightarrow> string \<Rightarrow> lock_flag_err + client_lock" where
  "newClientLock path policy =
     (if path = '''' then
        (if policy \<noteq> '''' \<and> policy \<noteq> ExclusionOff then Inl (PolicyNeedsPath policy)
         else Inr \<lparr>lk_path = '''', lk_policy = '''', lk_poll = 0, lk_maxWait = 0, lk_maxHold = 0\<rparr>)
      else
        (let lock = (\<lambda>p. Inr \<lparr>lk_path = path, lk_policy = p, lk_poll = second,
                              lk_maxWait = 0, lk_maxHold = 0\<rparr>)
         in if policy = '''' then lock ExclusionAll
            else if policy \<in> {ExclusionHeavy, ExclusionAll, ExclusionOff} then lock policy
            else Inl (BadPolicy policy)))"

definition needs :: "client_lock \<Rightarrow> string \<Rightarrow> bool" where
  "needs l scenario =
     (if lk_path l = '''' then False
      else if lk_policy l = ExclusionAll then True
      else if lk_policy l = ExclusionHeavy then ClientLoadOf scenario = LoadHeavy
      else False)"

definition maxInodeRetries :: nat where "maxInodeRetries = 5"


section \<open>Acquire and release as steps\<close>

datatype lock_error = ErrOpen | ErrFlock | ErrClientLockWait | ErrCtx | ErrReplaced nat

text \<open>Where a runner is: between cells; about to open the lock file for the given attempt; with
  the file open and the flock refused, before the check of the wait limit and, past it, in the
  sleep before the next poll; with the flock held and the inode not yet checked;
  driving a cell with the lock, without needing one, or after the watchdog released it; or
  returned with an error. \<open>start\<close> is when \<open>acquire\<close> was called.\<close>

datatype phase =
    Idle
  | Opening (ph_sc: string) (ph_start: int) (ph_retries: nat) (ph_contended: bool)
  | Waiting (ph_sc: string) (ph_fd: nat) (ph_start: int) (ph_retries: nat)
  | Sleeping (ph_sc: string) (ph_fd: nat) (ph_start: int) (ph_retries: nat)
  | Locked (ph_sc: string) (ph_fd: nat) (ph_start: int) (ph_retries: nat) (ph_contended: bool)
  | Holding (ph_sc: string) (ph_fd: nat) (ph_since: int) (ph_waited: duration)
  | Unlocked (ph_sc: string)
  | Overdue (ph_sc: string)
  | Failed lock_error duration

record lock_sys =
  path_inode :: "nat option"
  next_inode :: nat
  holder :: "nat \<Rightarrow> nat option"
  phases :: "nat \<Rightarrow> phase"
  now :: int

definition init_sys :: lock_sys where
  "init_sys = \<lparr>path_inode = None, next_inode = 0, holder = (\<lambda>_. None), phases = (\<lambda>_. Idle), now = 0\<rparr>"

definition set_phase :: "nat \<Rightarrow> phase \<Rightarrow> lock_sys \<Rightarrow> lock_sys" where
  "set_phase i p s = s\<lparr>phases := (phases s)(i := p)\<rparr>"

definition unlock :: "nat \<Rightarrow> lock_sys \<Rightarrow> lock_sys" where
  "unlock fd s = s\<lparr>holder := (holder s)(fd := None)\<rparr>"

definition take_lock :: "nat \<Rightarrow> nat \<Rightarrow> lock_sys \<Rightarrow> lock_sys" where
  "take_lock i fd s = s\<lparr>holder := (holder s)(fd := Some i)\<rparr>"

text \<open>\<open>O_CREATE\<close>: opening makes the file when the path names none.\<close>

definition open_inode :: "lock_sys \<Rightarrow> nat \<times> lock_sys" where
  "open_inode s =
     (case path_inode s of
        Some p \<Rightarrow> (p, s)
      | None \<Rightarrow> (next_inode s, s\<lparr>path_inode := Some (next_inode s), next_inode := Suc (next_inode s)\<rparr>))"

fun phase_fd :: "phase \<Rightarrow> nat option" where
  "phase_fd (Locked _ fd _ _ _) = Some fd"
| "phase_fd (Holding _ fd _ _) = Some fd"
| "phase_fd _ = None"

datatype lock_event = Run nat | Replace | Tick | Watchdog nat | Die nat

text \<open>\<open>Run i\<close> is a step of runner \<open>i\<close>'s code: the guard of \<open>acquire\<close>, the open with its first
  non-blocking flock, the check of the wait limit before a sleep, the end of the sleep by a poll
  or a cancelled context, the inode check with its bounded
  retry, and the release. A non-blocking flock fails when another holds it and may fail when
  interrupted (\<open>EINTR\<close>). A dying runner loses its lock.\<close>

inductive lock_step :: "client_lock \<Rightarrow> lock_event \<Rightarrow> lock_sys \<Rightarrow> lock_sys \<Rightarrow> bool" for l where
  not_needed: "phases s i = Idle \<Longrightarrow> \<not> needs l sc \<Longrightarrow>
    lock_step l (Run i) s (set_phase i (Unlocked sc) s)"
| start: "phases s i = Idle \<Longrightarrow> needs l sc \<Longrightarrow>
    lock_step l (Run i) s (set_phase i (Opening sc (now s) 0 False) s)"
| open_error: "phases s i = Opening sc st r co \<Longrightarrow>
    lock_step l (Run i) s (set_phase i (Failed ErrOpen 0) s)"
| open_flock_error: "phases s i = Opening sc st r co \<Longrightarrow> open_inode s = (fd, s1) \<Longrightarrow>
    lock_step l (Run i) s (set_phase i (Failed ErrFlock 0) s1)"
| open_held: "phases s i = Opening sc st r co \<Longrightarrow> open_inode s = (fd, s1) \<Longrightarrow> holder s1 fd = None \<Longrightarrow>
    lock_step l (Run i) s (set_phase i (Locked sc fd st r co) (take_lock i fd s1))"
| open_busy: "phases s i = Opening sc st r co \<Longrightarrow> open_inode s = (fd, s1) \<Longrightarrow>
    lock_step l (Run i) s (set_phase i (Waiting sc fd st r) s1)"
| wait_limit: "phases s i = Waiting sc fd st r \<Longrightarrow> 0 < lk_maxWait l \<Longrightarrow> lk_maxWait l \<le> now s - st \<Longrightarrow>
    lock_step l (Run i) s (set_phase i (Failed ErrClientLockWait (now s - st)) s)"
| sleep: "phases s i = Waiting sc fd st r \<Longrightarrow> \<not> (0 < lk_maxWait l \<and> lk_maxWait l \<le> now s - st) \<Longrightarrow>
    lock_step l (Run i) s (set_phase i (Sleeping sc fd st r) s)"
| wait_cancelled: "phases s i = Sleeping sc fd st r \<Longrightarrow>
    lock_step l (Run i) s (set_phase i (Failed ErrCtx (now s - st)) s)"
| poll_error: "phases s i = Sleeping sc fd st r \<Longrightarrow>
    lock_step l (Run i) s (set_phase i (Failed ErrFlock 0) s)"
| poll_busy: "phases s i = Sleeping sc fd st r \<Longrightarrow>
    lock_step l (Run i) s (set_phase i (Waiting sc fd st r) s)"
| poll_held: "phases s i = Sleeping sc fd st r \<Longrightarrow> holder s fd = None \<Longrightarrow>
    lock_step l (Run i) s (set_phase i (Locked sc fd st r True) (take_lock i fd s))"
| same_file: "phases s i = Locked sc fd st r co \<Longrightarrow> path_inode s = Some fd \<Longrightarrow>
    lock_step l (Run i) s (set_phase i (Holding sc fd (now s) (if co then now s - st else 0)) s)"
| replaced: "phases s i = Locked sc fd st r co \<Longrightarrow> path_inode s \<noteq> Some fd \<Longrightarrow> r < maxInodeRetries \<Longrightarrow>
    lock_step l (Run i) s (set_phase i (Opening sc st (Suc r) co) (unlock fd s))"
| replaced_limit: "phases s i = Locked sc fd st r co \<Longrightarrow> path_inode s \<noteq> Some fd \<Longrightarrow> maxInodeRetries \<le> r \<Longrightarrow>
    lock_step l (Run i) s (set_phase i (Failed (ErrReplaced (Suc r)) 0) (unlock fd s))"
| release: "phases s i = Holding sc fd since w \<Longrightarrow>
    lock_step l (Run i) s (set_phase i Idle (unlock fd s))"
| finish: "phases s i = Unlocked sc \<or> phases s i = Overdue sc \<or> phases s i = Failed e d \<Longrightarrow>
    lock_step l (Run i) s (set_phase i Idle s)"
| watchdog: "phases s i = Holding sc fd since w \<Longrightarrow> 0 < lk_maxHold l \<Longrightarrow> lk_maxHold l \<le> now s - since \<Longrightarrow>
    lock_step l (Watchdog i) s (set_phase i (Overdue sc) (unlock fd s))"
| tick: "now s \<le> t \<Longrightarrow> lock_step l Tick s (s\<lparr>now := t\<rparr>)"
| replace: "p = None \<or> p = Some (next_inode s) \<Longrightarrow>
    lock_step l Replace s (s\<lparr>path_inode := p, next_inode := Suc (next_inode s)\<rparr>)"
| die: "lock_step l (Die i) s
    (set_phase i Idle (case phase_fd (phases s i) of Some fd \<Rightarrow> unlock fd s | None \<Rightarrow> s))"

inductive lock_run :: "client_lock \<Rightarrow> lock_event list \<Rightarrow> lock_sys \<Rightarrow> bool" for l where
  run_init: "lock_run l [] init_sys"
| run_step: "lock_run l evs s \<Longrightarrow> lock_step l ev s s' \<Longrightarrow> lock_run l (evs @ [ev]) s'"

inductive_cases lock_stepE: "lock_step l ev s s'"

text \<open>A runner drives load through the client host when its cell runs, with the lock or without.\<close>

fun driving :: "phase \<Rightarrow> string option" where
  "driving (Holding sc _ _ _) = Some sc"
| "driving (Unlocked sc) = Some sc"
| "driving (Overdue sc) = Some sc"
| "driving _ = None"


section \<open>Invariants\<close>

lemmas sys_defs = set_phase_def unlock_def take_lock_def

lemma open_inode_facts:
  assumes "open_inode s = (fd, s1)"
  shows "path_inode s1 = Some fd" "holder s1 = holder s" "phases s1 = phases s" "now s1 = now s"
    "path_inode s = None \<or> path_inode s = Some fd"
  using assms by (auto simp: open_inode_def split: option.splits)

text \<open>A runner past a successful flock is the holder of its inode.\<close>

definition holds_inv :: "lock_sys \<Rightarrow> bool" where
  "holds_inv s \<longleftrightarrow> (\<forall>i fd. phase_fd (phases s i) = Some fd \<longrightarrow> holder s fd = Some i)"

lemma holds_inv_set: "holds_inv s \<Longrightarrow> phase_fd p = None \<or> phase_fd p = phase_fd (phases s i) \<Longrightarrow> holds_inv (set_phase i p s)"
  by (auto simp: holds_inv_def sys_defs)

lemma holds_inv_unlock:
  "holds_inv s \<Longrightarrow> phase_fd (phases s i) = Some fd \<Longrightarrow> phase_fd p = None \<Longrightarrow> holds_inv (set_phase i p (unlock fd s))"
  by (auto simp: holds_inv_def sys_defs) (metis option.inject)

lemma holds_inv_take:
  "holds_inv s \<Longrightarrow> holder s fd = None \<Longrightarrow> phase_fd p = Some fd \<Longrightarrow> holds_inv (set_phase i p (take_lock i fd s))"
  by (auto simp: holds_inv_def sys_defs)

lemma holds_inv_env [simp]:
  "holds_inv (s\<lparr>now := t\<rparr>) = holds_inv s"
  "holds_inv (s\<lparr>path_inode := p, next_inode := n\<rparr>) = holds_inv s"
  by (simp_all add: holds_inv_def)

lemma holds_inv_open: "holds_inv s \<Longrightarrow> open_inode s = (fd, s1) \<Longrightarrow> holds_inv s1"
  using open_inode_facts [of s fd s1] by (simp add: holds_inv_def)

lemma holds_inv_step:
  assumes "lock_step l ev s s'" and "holds_inv s"
  shows "holds_inv s'"
  using assms
proof cases
  case (die i)
  with assms(2) show ?thesis
    by (cases "phase_fd (phases s i)") (auto intro: holds_inv_set holds_inv_unlock)
next
  case (open_held i sc st r co fd s1)
  with assms(2) show ?thesis by (auto intro!: holds_inv_take intro: holds_inv_open)
qed (use assms(2) in \<open>auto intro: holds_inv_set holds_inv_unlock holds_inv_take holds_inv_open\<close>)

lemma holds_inv_run: "lock_run l evs s \<Longrightarrow> holds_inv s"
proof (induction rule: lock_run.induct)
  case run_init
  show ?case by (simp add: holds_inv_def init_sys_def)
qed (rule holds_inv_step)

text \<open>While the lock file is not replaced, every open file is the file at the path.\<close>

fun open_fd :: "phase \<Rightarrow> nat option" where
  "open_fd (Waiting _ fd _ _) = Some fd"
| "open_fd (Sleeping _ fd _ _) = Some fd"
| "open_fd p = phase_fd p"

definition path_inv :: "lock_sys \<Rightarrow> bool" where
  "path_inv s \<longleftrightarrow> (\<forall>i fd. open_fd (phases s i) = Some fd \<longrightarrow> path_inode s = Some fd)"

lemma path_inv_set: "path_inv s \<Longrightarrow> open_fd p = None \<or> open_fd p = open_fd (phases s i) \<or> open_fd p = path_inode s \<Longrightarrow> path_inv (set_phase i p s)"
  by (auto simp: path_inv_def sys_defs)

lemma path_inv_now [simp]: "path_inv (s\<lparr>now := t\<rparr>) = path_inv s"
  by (simp add: path_inv_def)

lemma path_inv_lock [simp]: "path_inv (unlock fd s) = path_inv s" "path_inv (take_lock i fd s) = path_inv s"
  by (simp_all add: path_inv_def sys_defs)

lemma sys_fields [simp]:
  "phases (unlock fd s) = phases s" "phases (take_lock i fd s) = phases s"
  "path_inode (unlock fd s) = path_inode s" "path_inode (take_lock i fd s) = path_inode s"
  "path_inode (set_phase i p s) = path_inode s" "phases (set_phase i p s) = (phases s)(i := p)"
  by (simp_all add: sys_defs)

lemma path_inv_open: "path_inv s \<Longrightarrow> open_inode s = (fd, s1) \<Longrightarrow> path_inv s1"
  using open_inode_facts [of s fd s1] by (fastforce simp: path_inv_def)

lemma path_inv_step:
  assumes "lock_step l ev s s'" and "ev \<noteq> Replace" and "path_inv s"
  shows "path_inv s'"
  using assms(1)
proof cases
  case (die i)
  with assms(3) show ?thesis by (auto intro!: path_inv_set split: option.splits)
qed (use assms(2,3) in \<open>auto intro!: path_inv_set intro: path_inv_open
      dest: open_inode_facts(1)\<close>)

lemma path_inv_run: "lock_run l evs s \<Longrightarrow> Replace \<notin> set evs \<Longrightarrow> path_inv s"
proof (induction rule: lock_run.induct)
  case run_init
  show ?case by (simp add: path_inv_def init_sys_def)
next
  case (run_step evs s ev s')
  then show ?case using path_inv_step [of l ev s s'] by auto
qed

text \<open>A cell that needs the lock drives load only with it, until a watchdog fires.\<close>

definition needs_inv :: "client_lock \<Rightarrow> lock_sys \<Rightarrow> bool" where
  "needs_inv l s \<longleftrightarrow>
     (\<forall>i sc. driving (phases s i) = Some sc \<longrightarrow> needs l sc \<longrightarrow> phase_fd (phases s i) \<noteq> None)"

lemma needs_inv_set:
  "needs_inv l s \<Longrightarrow> (\<And>sc. driving p = Some sc \<Longrightarrow> needs l sc \<Longrightarrow> phase_fd p \<noteq> None) \<Longrightarrow> needs_inv l (set_phase i p s)"
  by (auto simp: needs_inv_def)

lemma needs_inv_env [simp]:
  "needs_inv l (s\<lparr>now := t\<rparr>) = needs_inv l s"
  "needs_inv l (s\<lparr>path_inode := p, next_inode := n\<rparr>) = needs_inv l s"
  "needs_inv l (unlock fd s) = needs_inv l s" "needs_inv l (take_lock i fd s) = needs_inv l s"
  by (simp_all add: needs_inv_def)

lemma needs_inv_open: "needs_inv l s \<Longrightarrow> open_inode s = (fd, s1) \<Longrightarrow> needs_inv l s1"
  using open_inode_facts [of s fd s1] by (simp add: needs_inv_def)

lemma needs_inv_step:
  assumes "lock_step l ev s s'" and "\<forall>i. ev \<noteq> Watchdog i" and "needs_inv l s"
  shows "needs_inv l s'"
  using assms(1)
proof cases
  case (die i)
  with assms(3) show ?thesis by (auto intro!: needs_inv_set split: option.splits)
qed (use assms(2,3) in \<open>auto intro!: needs_inv_set intro: needs_inv_open\<close>)

lemma needs_inv_run: "lock_run l evs s \<Longrightarrow> \<forall>i. Watchdog i \<notin> set evs \<Longrightarrow> needs_inv l s"
proof (induction rule: lock_run.induct)
  case run_init
  show ?case by (simp add: needs_inv_def init_sys_def)
next
  case (run_step evs s ev s')
  then show ?case using needs_inv_step [of l ev s s'] by auto
qed

text \<open>The retry counter of an attempt stays within the limit.\<close>

fun phase_retries :: "phase \<Rightarrow> nat" where
  "phase_retries (Opening _ _ r _) = r"
| "phase_retries (Waiting _ _ _ r) = r"
| "phase_retries (Sleeping _ _ _ r) = r"
| "phase_retries (Locked _ _ _ r _) = r"
| "phase_retries _ = 0"

lemma retries_step:
  assumes "lock_step l ev s s'" and "\<forall>i. phase_retries (phases s i) \<le> maxInodeRetries"
  shows "\<forall>i. phase_retries (phases s' i) \<le> maxInodeRetries"
proof -
  have "phase_retries (phases s i) \<le> maxInodeRetries" for i using assms(2) by blast
  note r = this
  show ?thesis
    using assms(1)
  proof cases
    case (die i)
    then show ?thesis using r by (auto split: option.splits)
  next
    case (open_held i sc st q co fd s1)
    then show ?thesis using r [of i] r by (auto dest: open_inode_facts)
  next
    case (open_busy i sc st q co fd s1)
    then show ?thesis using r [of i] r by (auto dest: open_inode_facts)
  next
    case (sleep i sc fd st q)
    then show ?thesis using r [of i] r by auto
  next
    case (poll_busy i sc fd st q)
    then show ?thesis using r [of i] r by auto
  next
    case (poll_held i sc fd st q)
    then show ?thesis using r [of i] r by auto
  qed (use r in \<open>auto dest: open_inode_facts\<close>)
qed

lemma retries_run: "lock_run l evs s \<Longrightarrow> phase_retries (phases s i) \<le> maxInodeRetries"
proof -
  have "lock_run l evs s \<Longrightarrow> \<forall>i. phase_retries (phases s i) \<le> maxInodeRetries"
  proof (induction rule: lock_run.induct)
    case run_init
    show ?case by (simp add: init_sys_def)
  qed (rule retries_step)
  then show "lock_run l evs s \<Longrightarrow> phase_retries (phases s i) \<le> maxInodeRetries" by blast
qed


section \<open>Properties\<close>

text \<open>C3: mutual exclusion on the shared load generator host. In every execution in which the
  lock file is not replaced and no watchdog had to fire, two runners that drive load at the
  same time with cells that both need the lock are the same runner: under policy \<open>all\<close> no two
  cells of different arches overlap, under policy \<open>heavy\<close> no two heavy ones. Runners may die,
  be cancelled, be interrupted in a system call, or give up at any point.\<close>

theorem client_lock_exclusion:
  assumes "lock_run l evs s" and "Replace \<notin> set evs" and "\<forall>i. Watchdog i \<notin> set evs"
    and "driving (phases s i) = Some a" and "driving (phases s j) = Some b"
    and "needs l a" and "needs l b"
  shows "i = j"
proof -
  obtain fi fj where f: "phase_fd (phases s i) = Some fi" "phase_fd (phases s j) = Some fj"
    using needs_inv_run [OF assms(1,3)] assms(4-7) by (fastforce simp: needs_inv_def)
  have "open_fd p = phase_fd p" if "phase_fd p \<noteq> None" for p
    using that by (cases p) auto
  then have "fi = fj"
    using path_inv_run [OF assms(1,2)] f by (metis option.distinct(1) option.inject path_inv_def)
  then show ?thesis
    using holds_inv_run [OF assms(1)] f by (metis holds_inv_def option.inject)
qed

definition w_lock :: client_lock where
  "w_lock = \<lparr>lk_path = ''/tmp/l'', lk_policy = ExclusionAll, lk_poll = second, lk_maxWait = 0, lk_maxHold = 0\<rparr>"

definition w_held :: lock_sys where
  "w_held = \<lparr>path_inode = Some 0, next_inode = 1, holder = (\<lambda>_. None)(0 := Some 0),
     phases = (\<lambda>_. Idle)(0 := Holding ''post-4k'' 0 0 0), now = 0\<rparr>"

lemma w_held_run: "lock_run w_lock [Run 0, Run 0, Run 0] w_held"
proof -
  let ?s1 = "set_phase 0 (Opening ''post-4k'' 0 0 False) init_sys"
  let ?s1' = "?s1\<lparr>path_inode := Some 0, next_inode := 1\<rparr>"
  let ?s2 = "set_phase 0 (Locked ''post-4k'' 0 0 0 False) (take_lock 0 0 ?s1')"
  have n: "needs w_lock ''post-4k''" by (simp add: needs_def w_lock_def)
  have "lock_step w_lock (Run 0) init_sys ?s1"
    using lock_step.start [OF _ n, of init_sys 0] by (simp add: init_sys_def)
  then have r1: "lock_run w_lock [Run 0] ?s1"
    using lock_run.run_step [OF lock_run.run_init] by fastforce
  have "lock_step w_lock (Run 0) ?s1 ?s2"
    by (rule lock_step.open_held) (auto simp: sys_defs open_inode_def init_sys_def)
  then have r2: "lock_run w_lock [Run 0, Run 0] ?s2"
    using lock_run.run_step [OF r1] by fastforce
  have "lock_step w_lock (Run 0) ?s2 (set_phase 0 (Holding ''post-4k'' 0 (now ?s2) (if False then now ?s2 - 0 else 0)) ?s2)"
    by (rule lock_step.same_file) (auto simp: sys_defs)
  moreover have "set_phase 0 (Holding ''post-4k'' 0 (now ?s2) (if False then now ?s2 - 0 else 0)) ?s2 = w_held"
    by (simp add: sys_defs w_held_def init_sys_def)
  ultimately show ?thesis
    using lock_run.run_step [OF r2] by fastforce
qed

theorem client_lock_exclusion_witness:
  "\<exists>s. lock_run w_lock [Run 0, Run 0, Run 0] s \<and> driving (phases s 0) = Some ''post-4k'' \<and>
     (\<forall>j b. driving (phases s j) = Some b \<longrightarrow> needs w_lock b \<longrightarrow> 0 = j)"
proof (intro exI conjI allI impI)
  show "lock_run w_lock [Run 0, Run 0, Run 0] w_held" by (rule w_held_run)
  show d: "driving (phases w_held 0) = Some ''post-4k''" by (simp add: w_held_def)
  show "0 = j" if "driving (phases w_held j) = Some b" and "needs w_lock b" for j b
    by (rule client_lock_exclusion [OF w_held_run _ _ d that(1) _ that(2)])
      (simp_all add: needs_def w_lock_def)
qed

text \<open>Replacing the lock file under a runner costs at most six attempts and never lets two
  runners share a lock. In every execution, whatever replaces or unlinks the file: two runners
  that hold the lock hold it on different inodes, and no attempt counter exceeds the limit of
  five retries, after which \<open>acquire\<close> fails.\<close>

theorem client_lock_replaced:
  assumes "lock_run l evs s"
  shows "(\<forall>i j fd. phase_fd (phases s i) = Some fd \<and> phase_fd (phases s j) = Some fd \<longrightarrow> i = j) \<and>
    (\<forall>i. phase_retries (phases s i) \<le> 5)"
proof
  show "\<forall>i j fd. phase_fd (phases s i) = Some fd \<and> phase_fd (phases s j) = Some fd \<longrightarrow> i = j"
    using holds_inv_run [OF assms] by (metis holds_inv_def option.inject)
  show "\<forall>i. phase_retries (phases s i) \<le> 5"
    using retries_run [OF assms] by (simp add: maxInodeRetries_def)
qed

theorem client_lock_replaced_witness:
  "phase_fd (phases w_held 0) = Some 0 \<and> phase_retries (phases w_held 0) \<le> 5 \<and> phase_fd (phases w_held 1) \<noteq> Some 0"
proof -
  have "phase_fd (phases w_held 0) = Some 0" by (simp add: w_held_def)
  moreover from this have "phase_fd (phases w_held 1) \<noteq> Some 0"
    using client_lock_replaced [OF w_held_run] by (metis zero_neq_one)
  ultimately show ?thesis using client_lock_replaced [OF w_held_run] by blast
qed

text \<open>The hold limit covers a whole cell and the wait limit outlasts it. As long as the sum
  fits 64 bits, the lock is held at most for the saturation pass and one rated pass per
  fraction, each at its own context timeout, plus a minute, and a waiter waits two minutes
  longer than that.\<close>

theorem clientLockLimits_cover:
  assumes "0 \<le> Warmup c" "0 \<le> Duration c" "0 \<le> RatedDuration c"
    and "in_int64 (5 * Warmup c + 2 * Duration c + 60 * second +
      int (length (RatedFractions c)) * (5 * Warmup c + 2 * RatedDuration c + 60 * second) + 3 * minute)"
  shows "clientLockLimits c =
      (let hold = saturation_timeout c + (if RatedMode c then int (length (RatedFractions c)) else 0) *
                    (5 * Warmup c + 2 * RatedDuration c + 60 * second) + minute
       in (hold, hold + 2 * minute))"
proof -
  let ?A = "5 * Warmup c + 2 * Duration c + 60 * second"
  let ?B = "int (length (RatedFractions c)) * (5 * Warmup c + 2 * RatedDuration c + 60 * second)"
  have nn: "0 \<le> ?A" "0 \<le> ?B" using assms(1-3) by (simp_all add: second_def)
  have id: "wrap64 x = x" if "0 \<le> x" "x \<le> ?A + ?B + 3 * minute" for x
    using assms(4) that by (intro wrap64_id) (auto simp: in_int64_def minute_def second_def)
  have "wrap64 ?A = ?A" "wrap64 (?A + ?B) = ?A + ?B" "wrap64 (?A + minute) = ?A + minute"
    "wrap64 (?A + ?B + minute) = ?A + ?B + minute" "wrap64 (?A + minute + 2 * minute) = ?A + minute + 2 * minute"
    "wrap64 (?A + ?B + minute + 2 * minute) = ?A + ?B + minute + 2 * minute"
    using nn by (intro id; simp add: minute_def second_def)+
  then show ?thesis
    by (simp add: clientLockLimits_def saturation_timeout_def Let_def del: distrib_left_numeral)
qed

theorem clientLockLimits_cover_witness:
  "clientLockLimits (DefaultConfig\<lparr>RatedMode := True\<rparr>) = (880 * second + minute, 880 * second + 3 * minute)"
  by (subst clientLockLimits_cover)
    (simp_all add: DefaultConfig_def in_int64_def second_def minute_def saturation_timeout_def wrap64_def)

end
