(* ===== verification/RunPlan.thy ===== *)
theory RunPlan
  imports RunResume ClientLock
begin

text \<open>
  Which cells a runner invocation executes: the \<open>-cells\<close>, \<open>-rated-cells\<close> and \<open>-cell-order\<close>
  handling, the docker services a scenario set needs, and the planning half of \<open>run\<close> in
  \<open>src/cmd/runner/main.go\<close>, from the registries to the final schedule, with every early return.

  The lemmas show that the cell filter keeps the product of the selected rows and columns, so no
  selected cell is lost and others may be added, that the schedule of the whole
  registry has the size the budget profiles assume, and that the glob a drained run leaves
  behind selects every cell it did not run.
\<close>


section \<open>Cell globs\<close>

definition parseCellGlob :: "string \<Rightarrow> string + string list \<times> string list" where
  "parseCellGlob glob =
     (let parts = filter (\<lambda>p. p \<noteq> []) (map trim_space (split_on (CHR '','') glob));
          exclude = map tl (filter (\<lambda>p. has_prefix p ''!'') parts);
          include = filter (\<lambda>p. \<not> has_prefix p ''!'') parts;
          include = (if include = [] then [''*''] else include)
      in case find (\<lambda>g. Match g ''probe/probe'' = None) (include @ exclude) of
           Some g \<Rightarrow> Inl g
         | None \<Rightarrow> Inr (include, exclude))"

definition matchAny :: "string list \<Rightarrow> string \<Rightarrow> bool" where
  "matchAny patterns i = list_ex (\<lambda>g. g = ''*'' \<or> Match g i = Some True) patterns"

definition matchCellGlob :: "string list \<Rightarrow> string list \<Rightarrow> string \<Rightarrow> bool" where
  "matchCellGlob include exclude i \<longleftrightarrow> matchAny include i \<and> \<not> matchAny exclude i"

definition matched_pairs ::
  "string list \<Rightarrow> string list \<Rightarrow> scenario list \<Rightarrow> adapter list \<Rightarrow> (string \<times> string) list" where
  "matched_pairs include exclude scs advs =
     concat (map (\<lambda>s. map (\<lambda>a. (sc_name s, a_Name a))
       (filter (\<lambda>a. matchCellGlob include exclude (sc_name s @ ''/'' @ a_Name a)) advs)) scs)"

definition filterCells ::
  "scenario list \<Rightarrow> adapter list \<Rightarrow> string \<Rightarrow> string + scenario list \<times> adapter list" where
  "filterCells scs advs glob =
     (if glob = '''' \<or> glob = ''*'' then Inr (scs, advs)
      else case parseCellGlob glob of
             Inl e \<Rightarrow> Inl e
           | Inr (include, exclude) \<Rightarrow>
               (let ps = matched_pairs include exclude scs advs;
                    scKeep = map fst ps; advKeep = map snd ps
                in Inr (filter (\<lambda>s. sc_name s \<in> set scKeep) scs,
                        filter (\<lambda>a. a_Name a \<in> set advKeep) advs)))"

definition ratesCell :: "runner_config \<Rightarrow> string \<Rightarrow> bool" where
  "ratesCell c i =
     (if \<not> RatedMode c then False
      else case parseCellGlob (RatedCells c) of
             Inl _ \<Rightarrow> False
           | Inr (include, exclude) \<Rightarrow> matchCellGlob include exclude i)"

definition cellsGlob :: "string list \<Rightarrow> string" where
  "cellsGlob ids = join (rev (remdups (rev ids))) '',''"


section \<open>Services\<close>

definition service_kind :: "string \<Rightarrow> string option" where
  "service_kind name =
     (if contains name ''pg'' \<or> contains name ''postgres'' then Some ''postgres''
      else if contains name ''redis'' then Some ''redis''
      else if contains name ''memcached'' \<or> contains name ''-mc-'' then Some ''memcached''
      else if contains name ''session'' then Some ''redis''
      else None)"

definition requiredServiceKinds :: "scenario list \<Rightarrow> string list" where
  "requiredServiceKinds scs =
     sort (remdups (List.map_filter (\<lambda>s.
       if sc_category s \<noteq> CategoryDriver then None else service_kind (sc_name s)) scs))"

definition remote_adapter :: "string \<Rightarrow> adapter" where
  "remote_adapter name =
     \<lparr>a_Name = name, a_Category = ''remote'', a_Language = '''', a_Framework = '''',
      a_FrameworkVersion = '''', a_Engine = '''', a_Bin = GoBinary '''',
      a_Capabilities = caps_of False False False False False False, a_Baseline = False\<rparr>"

definition printRequiredServices ::
  "scenario gomap \<Rightarrow> adapter gomap \<Rightarrow> string \<Rightarrow> runner_config \<Rightarrow> string + string list" where
  "printRequiredServices scReg adReg benchBaseline cfg =
     (let advs = (if trim_space (Competitors cfg) \<noteq> ''''
                  then map remote_adapter
                         (filter (\<lambda>n. n \<noteq> []) (map trim_space (split_on (CHR '','') (Competitors cfg))))
                  else AdaptersSorted benchBaseline adReg)
      in case filterCells (Registry scReg) advs (Cells cfg) of
           Inl e \<Rightarrow> Inl e
         | Inr (effSc, _) \<Rightarrow> Inr (requiredServiceKinds effSc))"


section \<open>The plan of a run\<close>

definition orderSchedule :: "cell list \<Rightarrow> string \<Rightarrow> string + cell list" where
  "orderSchedule schedule order =
     (if order = '''' \<or> order = ''forward'' then Inr schedule
      else if order = ''reverse'' then Inr (ReverseWithinRuns schedule)
      else Inl order)"

definition remoteServerName :: "runner_config \<Rightarrow> string" where
  "remoteServerName cfg = (if ServerName cfg \<noteq> '''' then ServerName cfg else Target cfg)"

datatype run_error =
    BadRatedCells string | BadCells string | BadServices string | BadOrder string
  | BadLockFlags lock_flag_err | LockNeedsTarget | ResumeError read_err

definition plan_server :: "adapter gomap \<Rightarrow> runner_config \<Rightarrow> adapter \<Rightarrow> server" where
  "plan_server adReg cfg a =
     (let tlsReady = (TLSTerminator cfg \<noteq> '''');
          fs = featureSetFor a tlsReady;
          fs = (if Target cfg \<noteq> ''''
                then (case map_of adReg (a_Name a) of
                        Some main \<Rightarrow> featureSetFor main tlsReady
                      | None \<Rightarrow> remoteFeatureSet)
                else fs)
      in adapterServer a fs)"

record run_plan =
  p_Scenarios :: "scenario list"
  p_Servers :: "server list"
  p_Services :: "string list"
  p_Lock :: client_lock
  p_Schedule :: "cell list"

text \<open>\<open>run\<close> up to its cell loop. \<open>benchRated\<close> and \<open>benchBaseline\<close> are the environment variables,
  \<open>dir\<close> is what listing \<open>-resume-from\<close> gives; the second component is the configuration with
  \<open>BENCH_RATED\<close> folded in. Docker services are named, not started.\<close>

definition plan_run ::
  "scenario gomap \<Rightarrow> adapter gomap \<Rightarrow> string \<Rightarrow> string \<Rightarrow> read_err + fs_dir \<Rightarrow> runner_config \<Rightarrow>
   run_error + run_plan \<times> runner_config" where
  "plan_run scReg adReg benchRated benchBaseline dir cfg0 =
     (let cfg = (if benchRated = ''1'' \<or> benchRated = ''true'' then cfg0\<lparr>RatedMode := True\<rparr> else cfg0)
      in case parseCellGlob (RatedCells cfg) of
           Inl g \<Rightarrow> Inl (BadRatedCells g)
         | Inr _ \<Rightarrow>
       (let advs = (if Target cfg \<noteq> '''' then [remote_adapter (remoteServerName cfg)]
                    else AdaptersSorted benchBaseline adReg)
        in case filterCells (Registry scReg) advs (Cells cfg) of
             Inl g \<Rightarrow> Inl (BadCells g)
           | Inr (effSc, effAdv) \<Rightarrow>
         (let srvs = map (plan_server adReg cfg) effAdv
          in if Services cfg \<noteq> ''none'' \<and> Services cfg \<noteq> ''local'' \<and> Services cfg \<noteq> ''''
             then Inl (BadServices (Services cfg))
             else case orderSchedule (Schedule (Runs cfg) effSc srvs) (CellOrder cfg) of
                    Inl e \<Rightarrow> Inl (BadOrder e)
                  | Inr schedule \<Rightarrow>
           (case newClientLock (ClientLockPath cfg) (ClientLockPolicy cfg) of
              Inl e \<Rightarrow> Inl (BadLockFlags e)
            | Inr lock \<Rightarrow>
              if ClientLockPath cfg \<noteq> '''' \<and> Target cfg = '''' then Inl LockNeedsTarget
              else
                (let (hold, wait) = clientLockLimits cfg;
                     lock = lock\<lparr>lk_maxHold := hold, lk_maxWait := wait\<rparr>;
                     plan = (\<lambda>sch. Inr (\<lparr>p_Scenarios = effSc, p_Servers = srvs,
                              p_Services = (if Services cfg = ''none'' then [] else requiredServiceKinds effSc),
                              p_Lock = lock, p_Schedule = sch\<rparr>, cfg))
                 in if ResumeFrom cfg \<noteq> ''''
                    then (case dropCompletedCells schedule dir of
                            Inl e \<Rightarrow> Inl (ResumeError e)
                          | Inr sch \<Rightarrow> plan sch)
                    else plan schedule)))))"

section \<open>Selection\<close>

definition selected :: "string \<Rightarrow> string \<Rightarrow> bool" where
  "selected glob i \<longleftrightarrow> glob = '''' \<or> glob = ''*'' \<or>
     (case parseCellGlob glob of Inr (include, exclude) \<Rightarrow> matchCellGlob include exclude i | Inl _ \<Rightarrow> False)"

lemma set_matched_pairs:
  "set (matched_pairs include exclude scs advs) =
     {(sc_name s, a_Name a) |s a. s \<in> set scs \<and> a \<in> set advs \<and>
        matchCellGlob include exclude (sc_name s @ ''/'' @ a_Name a)}"
  by (auto simp: matched_pairs_def)

text \<open>Rows and columns are kept independently: a row by any selected cell of it, and a column
  by any selected cell of it.\<close>

lemma filterCells_product:
  assumes "filterCells scs advs glob = Inr (effSc, effAdv)" and "s \<in> set scs" and "a \<in> set advs"
  shows "s \<in> set effSc \<and> a \<in> set effAdv \<longleftrightarrow>
    (\<exists>b\<in>set advs. selected glob (CellID (sc_name s) (a_Name b))) \<and>
    (\<exists>t\<in>set scs. selected glob (CellID (sc_name t) (a_Name a)))"
proof (cases "glob = '''' \<or> glob = ''*''")
  case False
  with assms(1) obtain inc exc where p: "parseCellGlob glob = Inr (inc, exc)"
    by (auto simp: filterCells_def split: sum.splits)
  with False have sel: "selected glob = matchCellGlob inc exc" by (auto simp: selected_def fun_eq_iff)
  have row: "sc_name s \<in> fst ` set (matched_pairs inc exc scs advs) \<longleftrightarrow>
      (\<exists>b\<in>set advs. selected glob (CellID (sc_name s) (a_Name b)))"
    using assms(2) unfolding set_matched_pairs sel CellID_def by (fastforce simp: image_iff)
  have col: "a_Name a \<in> snd ` set (matched_pairs inc exc scs advs) \<longleftrightarrow>
      (\<exists>t\<in>set scs. selected glob (CellID (sc_name t) (a_Name a)))"
    using assms(3) unfolding set_matched_pairs sel CellID_def by (fastforce simp: image_iff)
  have "effSc = filter (\<lambda>s. sc_name s \<in> fst ` set (matched_pairs inc exc scs advs)) scs"
    and "effAdv = filter (\<lambda>a. a_Name a \<in> snd ` set (matched_pairs inc exc scs advs)) advs"
    using assms(1) p False by (simp_all add: filterCells_def Let_def)
  then have "s \<in> set effSc \<longleftrightarrow> sc_name s \<in> fst ` set (matched_pairs inc exc scs advs)"
    and "a \<in> set effAdv \<longleftrightarrow> a_Name a \<in> snd ` set (matched_pairs inc exc scs advs)"
    using assms(2,3) by (simp_all only: set_filter mem_Collect_eq simp_thms)
  with row col show ?thesis by blast
qed (use assms in \<open>auto simp: filterCells_def selected_def\<close>)

lemma filterCells_subset:
  "filterCells scs advs glob = Inr (effSc, effAdv) \<Longrightarrow>
    (\<exists>P. effSc = filter P scs) \<and> (\<exists>Q. effAdv = filter (\<lambda>a. Q (a_Name a)) advs)"
  by (auto simp: filterCells_def Let_def split: if_splits sum.splits intro: exI [of _ "\<lambda>_. True"])


section \<open>Size of the schedule\<close>

lemma length_applicable_pairs:
  "length (applicable_pairs ss sv) =
     (\<Sum>v\<leftarrow>sv. length (filter (\<lambda>s. applicable s (srv_Features v)) ss))"
proof -
  have "length (applicable_pairs ss sv) = (\<Sum>s\<leftarrow>ss. \<Sum>v\<leftarrow>sv. if applicable s (srv_Features v) then 1 else 0)"
    by (simp add: applicable_pairs_def length_concat comp_def length_filter_sum)
  also have "\<dots> = (\<Sum>v\<leftarrow>sv. \<Sum>s\<leftarrow>ss. if applicable s (srv_Features v) then 1 else 0)"
    by (rule sum_list_swap)
  finally show ?thesis by (simp add: length_filter_sum)
qed

lemma sum_list_mset: "mset xs = mset ys \<Longrightarrow> sum_list (map f xs) = sum_list (map (f :: _ \<Rightarrow> nat) ys)"
  by (metis mset_map sum_mset_sum_list)

definition column_cells :: "bool \<Rightarrow> adapter \<Rightarrow> nat" where
  "column_cells tls a = length (filter (\<lambda>s. applicable s (featureSetFor a tls)) scenario_init)"

lemma length_registry_pairs:
  "length (applicable_pairs (Registry scenario_registry)
      (map (\<lambda>a. adapterServer a (featureSetFor a tls)) (AdaptersSorted env r))) =
   (\<Sum>a\<leftarrow>filter (visible env) (map snd r). column_cells tls a)"
proof -
  have m: "mset (AdaptersSorted env r) = mset (filter (visible env) (map snd r))"
    by (simp add: AdaptersSorted_def)
  show ?thesis
    using sum_list_mset [OF m, of "column_cells tls"] length_filter_mset [OF mset_Registry]
    by (simp add: length_applicable_pairs comp_def adapterServer_def column_cells_def [abs_def] del: mset_filter)
qed

lemma main_columns_sum: "sum_list (map (column_cells False) main_adapters) = 813"
  by code_simp

lemma baseline_columns_sum: "sum_list (map (column_cells False) (map snd baseline_columns)) = 222"
  by code_simp

lemma visible_full:
  "sum_list (map f (filter (visible env) (map snd full_registry))) =
     sum_list (map f main_adapters) + (if BaselineEnabled env then sum_list (map f (map snd baseline_columns)) else (0::nat))"
proof -
  have "filter (visible env) main_adapters = main_adapters"
    by (rule filter_True) (auto simp: visible_def main_not_baseline)
  moreover have "filter (visible env) (map snd baseline_columns) = (if BaselineEnabled env then map snd baseline_columns else [])"
    by (auto simp: visible_def baseline_columns_def baseline_adapter_def filter_empty_conv filter_id_conv)
  moreover have "map snd full_registry = main_adapters @ map snd baseline_columns"
    by (simp add: full_registry_def main_registry_def comp_def)
  ultimately show ?thesis by simp
qed

lemma parse_empty_glob: "parseCellGlob '''' = Inr ([''*''], [])"
  by code_simp

section \<open>The resume glob\<close>

lemma Match_plain:
  assumes "plain p" and "p \<noteq> []"
  shows "Match p name = Some (name = p)"
proof -
  have "scan False p = (p, [])" using assms(1) by (induction p) simp_all
  then have sc: "scanChunk p = (False, p, [])" using assms by (cases p) (simp_all add: scanChunk_def)
  show ?thesis
    using assms(2)
    by (subst Match.simps)
      (auto simp: sc matchChunk_plain [OF assms(1)] has_prefix_def Match.simps [of "[]"]
        restValid.simps [of "[]"] append_eq_conv_conj)
qed

definition glob_safe :: "string \<Rightarrow> bool" where
  "glob_safe i \<longleftrightarrow> plain i \<and> (\<forall>c\<in>set i. c \<noteq> CHR '','' \<and> c \<noteq> CHR ''!'' \<and> \<not> is_space c)"

lemma parse_cellsGlob:
  assumes "ids \<noteq> []" and "\<forall>i\<in>set ids. i \<noteq> [] \<and> glob_safe i"
  shows "parseCellGlob (cellsGlob ids) = Inr (rev (remdups (rev ids)), [])"
proof -
  define ws where "ws = rev (remdups (rev ids))"
  have ws: "ws \<noteq> []" "set ws = set ids" using assms(1) by (auto simp: ws_def)
  have sp: "split_on (CHR '','') (join ws '','') = ws"
    using ws assms(2) by (intro split_on_join) (auto simp: glob_safe_def)
  have tr: "map trim_space ws = ws"
    using ws(2) assms(2) by (intro map_idI trim_space_id) (auto simp: glob_safe_def)
  have ne: "filter (\<lambda>p. p \<noteq> []) ws = ws" using ws(2) assms(2) by (auto simp: filter_id_conv)
  have bang: "\<not> has_prefix w ''!''" if "w \<in> set ws" for w
    using ws(2) assms(2) that by (cases w) (auto simp: has_prefix_def glob_safe_def)
  have inc: "filter (\<lambda>p. \<not> has_prefix p ''!'') ws = ws" using bang by (auto simp: filter_id_conv)
  have exc: "filter (\<lambda>p. has_prefix p ''!'') ws = []" using bang by (auto simp: filter_empty_conv)
  have ok: "find (\<lambda>g. Match g ''probe/probe'' = None) ws = None"
    using ws(2) assms(2) by (auto simp: find_None_iff Match_plain glob_safe_def)
  show ?thesis
    unfolding parseCellGlob_def cellsGlob_def ws_def [symmetric] sp tr Let_def ne inc exc
    using ws(1) ok by simp
qed

lemma selected_cellsGlob:
  assumes "ids \<noteq> []" and "\<forall>i\<in>set ids. i \<noteq> [] \<and> glob_safe i"
  shows "selected (cellsGlob ids) i \<longleftrightarrow> i \<in> set ids"
proof -
  have p: "parseCellGlob (cellsGlob ids) = Inr (rev (remdups (rev ids)), [])"
    by (rule parse_cellsGlob [OF assms])
  have e: "parseCellGlob ''*'' = Inr ([''*''], [])" by code_simp
  have "\<not> glob_safe ''*''" by (simp add: glob_safe_def)
  then have star: "''*'' \<notin> set ids" using assms(2) by blast
  moreover have "set (rev (remdups (rev ids))) = set ids" by simp
  ultimately have "rev (remdups (rev ids)) \<noteq> [''*'']" by (metis list.set_intros(1))
  then have "parseCellGlob (cellsGlob ids) \<noteq> Inr ([''*''], [])" unfolding p by blast
  then have "cellsGlob ids \<noteq> '''' \<and> cellsGlob ids \<noteq> ''*''"
    using e parse_empty_glob by auto
  moreover have "matchCellGlob (rev (remdups (rev ids))) [] i \<longleftrightarrow> i \<in> set ids"
  proof -
    have "g = ''*'' \<or> Match g i = Some True \<longleftrightarrow> i = g" if "g \<in> set ids" for g
    proof -
      have "plain g" "g \<noteq> []" using that assms(2) unfolding glob_safe_def by blast+
      then have "Match g i = Some (i = g)" by (rule Match_plain)
      moreover have "g \<noteq> ''*''" using that star by blast
      ultimately show ?thesis by (simp only: option.inject eq_True simp_thms)
    qed
    then show ?thesis by (simp add: matchCellGlob_def matchAny_def list_ex_iff)
  qed
  ultimately show ?thesis by (simp add: selected_def p)
qed

lemma registry_names_safe:
  "s \<in> set scenario_init \<Longrightarrow> glob_safe (sc_name s)"
  "k \<in> set (map fst full_registry) \<Longrightarrow> glob_safe k"
proof -
  have "list_all (\<lambda>s. glob_safe (sc_name s)) scenario_init" by code_simp
  then show "s \<in> set scenario_init \<Longrightarrow> glob_safe (sc_name s)" by (simp add: list_all_iff)
  have "list_all glob_safe (map fst full_registry)" by code_simp
  then show "k \<in> set (map fst full_registry) \<Longrightarrow> glob_safe k" by (simp only: list_all_iff)
qed

lemma glob_safe_CellID: "glob_safe s \<Longrightarrow> glob_safe v \<Longrightarrow> CellID s v \<noteq> [] \<and> glob_safe (CellID s v)"
  by (auto simp: glob_safe_def CellID_def is_space_def)

lemma plan_run_cases:
  assumes "plan_run scReg adReg br bb dir cfg = Inr (plan, cfg')"
  shows "\<exists>effSc effAdv sch. RatedMode cfg' = (RatedMode cfg \<or> br = ''1'' \<or> br = ''true'') \<and>
    cfg' = cfg\<lparr>RatedMode := RatedMode cfg'\<rparr> \<and>
    filterCells (Registry scReg) (if Target cfg \<noteq> '''' then [remote_adapter (remoteServerName cfg)]
      else AdaptersSorted bb adReg) (Cells cfg) = Inr (effSc, effAdv) \<and>
    p_Scenarios plan = effSc \<and> p_Servers plan = map (plan_server adReg cfg) effAdv \<and>
    orderSchedule (Schedule (Runs cfg) effSc (map (plan_server adReg cfg) effAdv)) (CellOrder cfg) = Inr sch \<and>
    (if ResumeFrom cfg \<noteq> '''' then dropCompletedCells sch dir = Inr (p_Schedule plan) else p_Schedule plan = sch)"
proof -
  define c where "c = (if br = ''1'' \<or> br = ''true'' then cfg\<lparr>RatedMode := True\<rparr> else cfg)"
  have ps: "plan_server adReg c = plan_server adReg cfg" "remoteServerName c = remoteServerName cfg"
    "Target c = Target cfg" "Cells c = Cells cfg" "Runs c = Runs cfg" "CellOrder c = CellOrder cfg"
    "ResumeFrom c = ResumeFrom cfg"
    by (simp_all add: c_def plan_server_def [abs_def] remoteServerName_def)
  have cf: "RatedMode c = (RatedMode cfg \<or> br = ''1'' \<or> br = ''true'')" "c = cfg\<lparr>RatedMode := RatedMode c\<rparr>"
    by (auto simp: c_def)
  have "cfg' = c \<and> (\<exists>effSc effAdv sch.
    filterCells (Registry scReg) (if Target c \<noteq> '''' then [remote_adapter (remoteServerName c)]
      else AdaptersSorted bb adReg) (Cells c) = Inr (effSc, effAdv) \<and>
    p_Scenarios plan = effSc \<and> p_Servers plan = map (plan_server adReg c) effAdv \<and>
    orderSchedule (Schedule (Runs c) effSc (map (plan_server adReg c) effAdv)) (CellOrder c) = Inr sch \<and>
    (if ResumeFrom c \<noteq> '''' then dropCompletedCells sch dir = Inr (p_Schedule plan) else p_Schedule plan = sch))"
    using assms unfolding plan_run_def c_def [symmetric] Let_def
    by (auto split: sum.splits if_splits prod.splits)
  then show ?thesis using ps cf by metis
qed

text \<open>A local run over the whole matrix: no filter, no TLS terminator, no resume, no lock.\<close>

definition plain_flags :: "runner_config \<Rightarrow> bool" where
  "plain_flags cfg \<longleftrightarrow> Cells cfg = '''' \<and> RatedCells cfg = '''' \<and> Target cfg = '''' \<and> TLSTerminator cfg = '''' \<and>
     ResumeFrom cfg = '''' \<and> Services cfg = ''local'' \<and> (CellOrder cfg = '''' \<or> CellOrder cfg = ''reverse'') \<and>
     ClientLockPath cfg = '''' \<and> ClientLockPolicy cfg = ''''"

lemma plan_full:
  assumes "plain_flags cfg"
  shows "\<exists>plan cfg'. plan_run scReg adReg br bb dir cfg = Inr (plan, cfg') \<and>
    length (p_Schedule plan) = length (Schedule (Runs cfg) (Registry scReg)
      (map (\<lambda>a. adapterServer a (featureSetFor a False)) (AdaptersSorted bb adReg)))"
proof -
  have ps: "plan_server r c = (\<lambda>a. adapterServer a (featureSetFor a False))"
    if "Target c = ''''" "TLSTerminator c = ''''" for r c
    using that by (intro ext) (simp add: plan_server_def Let_def)
  have nl: "newClientLock '''' '''' = Inr \<lparr>lk_path = '''', lk_policy = '''', lk_poll = 0, lk_maxWait = 0, lk_maxHold = 0\<rparr>"
    by (simp add: newClientLock_def)
  have fc: "filterCells ss aa '''' = Inr (ss, aa)" for ss aa by (simp add: filterCells_def)
  have rev: "length (ReverseWithinRuns cs) = length cs" for cs
    using ReverseWithinRuns_mset [of cs] by (metis size_mset)
  show ?thesis
    using assms rev
    by (cases "br = ''1'' \<or> br = ''true''")
      (auto simp: plain_flags_def plan_run_def Let_def parse_empty_glob fc ps nl orderSchedule_def case_prod_beta)
qed

lemma set_AdaptersSorted: "set (AdaptersSorted env r) = {a \<in> snd ` set r. visible env a}"
  by (auto simp: AdaptersSorted_def)


text \<open>The columns a run can use: the one remote server of a cluster run, or the adapters of the
  registry that the environment makes visible.\<close>

definition plan_columns :: "adapter gomap \<Rightarrow> string \<Rightarrow> runner_config \<Rightarrow> adapter list" where
  "plan_columns adReg bb cfg =
     (if Target cfg \<noteq> '''' then [remote_adapter (remoteServerName cfg)] else AdaptersSorted bb adReg)"

definition planned_cell :: "adapter gomap \<Rightarrow> runner_config \<Rightarrow> int \<Rightarrow> scenario \<Rightarrow> adapter \<Rightarrow> cell" where
  "planned_cell adReg cfg r s a = \<lparr>RunIdx = r, c_Scenario = s, c_Server = plan_server adReg cfg a\<rparr>"

text \<open>The cell has a final record under a run directory that a resume reads.\<close>

definition recorded_final :: "read_err + fs_dir \<Rightarrow> cell \<Rightarrow> bool" where
  "recorded_final dir c \<longleftrightarrow>
     (\<exists>es rn sn fn cr. dir = Inr es \<and> ((rn, sn, fn), cr) \<in> tree_files es \<and> sscanf_run rn \<and>
        filepath_Ext fn = ''.json'' \<and> cellIsFinal (f_Status cr) \<and> file_key cr = schedule_key c)"

lemma recorded_final_iff: "recorded_final (Inr es) c \<longleftrightarrow> schedule_key c \<in> set (completedCells es)"
  unfolding recorded_final_def completedCells_iff by (simp, metis)

lemma dropCompletedCells_mem:
  "dropCompletedCells schedule dir = Inr sch \<Longrightarrow> c \<in> set sch \<longleftrightarrow> c \<in> set schedule \<and> \<not> recorded_final dir c"
  unfolding recorded_final_def
  by (auto simp: dropCompletedCells_def Let_def completedCells_iff split: sum.splits read_err.splits) metis+

lemma orderSchedule_set: "orderSchedule schedule order = Inr sch \<Longrightarrow> set sch = set schedule"
  using mset_eq_setD [OF ReverseWithinRuns_mset] by (auto simp: orderSchedule_def split: if_splits)

lemma plan_schedule_iff:
  assumes pl: "plan_run scReg adReg br bb dir cfg = Inr (plan, cfg')"
    and s: "s \<in> set (Registry scReg)" and a: "a \<in> set (plan_columns adReg bb cfg)"
    and ap: "applicable s (srv_Features (plan_server adReg cfg a))" and r: "0 \<le> r" "r < Runs cfg"
  shows "planned_cell adReg cfg r s a \<in> set (p_Schedule plan) \<longleftrightarrow>
    (\<exists>b\<in>set (plan_columns adReg bb cfg). selected (Cells cfg) (CellID (sc_name s) (a_Name b))) \<and>
    (\<exists>t\<in>set (Registry scReg). selected (Cells cfg) (CellID (sc_name t) (a_Name a))) \<and>
    \<not> (ResumeFrom cfg \<noteq> '''' \<and> recorded_final dir (planned_cell adReg cfg r s a))"
proof -
  obtain effSc effAdv sch
    where f: "filterCells (Registry scReg) (plan_columns adReg bb cfg) (Cells cfg) = Inr (effSc, effAdv)"
    and o: "orderSchedule (Schedule (Runs cfg) effSc (map (plan_server adReg cfg) effAdv)) (CellOrder cfg) = Inr sch"
    and p: "if ResumeFrom cfg \<noteq> '''' then dropCompletedCells sch dir = Inr (p_Schedule plan) else p_Schedule plan = sch"
    using plan_run_cases [OF pl] unfolding plan_columns_def by metis
  obtain Q where Q: "effAdv = filter (\<lambda>a. Q (a_Name a)) (plan_columns adReg bb cfg)"
    using filterCells_subset [OF f] by blast
  have "srv_Name (plan_server adReg cfg x) = a_Name x" for x
    by (simp add: plan_server_def Let_def adapterServer_def)
  then have "plan_server adReg cfg a \<in> plan_server adReg cfg ` set effAdv \<longleftrightarrow> a \<in> set effAdv"
    using a unfolding Q by (auto simp: image_iff) metis
  then have "planned_cell adReg cfg r s a \<in> set sch \<longleftrightarrow> s \<in> set effSc \<and> a \<in> set effAdv"
    using ap r unfolding orderSchedule_set [OF o] by (simp add: planned_cell_def set_Schedule)
  moreover have "planned_cell adReg cfg r s a \<in> set (p_Schedule plan) \<longleftrightarrow>
      planned_cell adReg cfg r s a \<in> set sch \<and> \<not> (ResumeFrom cfg \<noteq> '''' \<and> recorded_final dir (planned_cell adReg cfg r s a))"
    using p dropCompletedCells_mem by (auto split: if_splits)
  ultimately show ?thesis using filterCells_product [OF f s a] by blast
qed


section \<open>Properties\<close>

text \<open>C30: no selected cell is lost. When planning succeeds, take any registered scenario, any
  column the run can use (for a local run a visible adapter of the registry, for a cluster run
  the one remote server) whose features have the scenario's capability, and any run index. If
  the \<open>-cells\<close> glob selects their \<open>scenario/server\<close> id, the cell is in the schedule, whatever the
  walking order, unless the run resumes from a directory that already holds a final record of
  that very run, scenario and server; and in that case it is not scheduled again.\<close>

theorem plan_covers_selection:
  assumes "plan_run scReg adReg br bb dir cfg = Inr (plan, cfg')"
    and "s \<in> set (Registry scReg)" and "a \<in> set (plan_columns adReg bb cfg)"
    and "applicable s (srv_Features (plan_server adReg cfg a))"
    and "0 \<le> r" and "r < Runs cfg"
    and "selected (Cells cfg) (CellID (sc_name s) (a_Name a))"
  shows "planned_cell adReg cfg r s a \<in> set (p_Schedule plan) \<longleftrightarrow>
    \<not> (ResumeFrom cfg \<noteq> '''' \<and> recorded_final dir (planned_cell adReg cfg r s a))"
  using plan_schedule_iff [OF assms(1-6)] assms(2,3,7) by blast

definition w_resume_config :: runner_config where
  "w_resume_config = DefaultConfig\<lparr>ResumeFrom := ''prev'', Cells := ''get-json/*''\<rparr>"

definition w_resume_dir :: fs_dir where
  "w_resume_dir = [(''run1'', FsDir (Some [(''get-json'', FsDir (Some
     [(a_Name (hd main_adapters) @ ''.json'', FsFile (Some
        \<lparr>f_RunIdx = 1, f_ScenarioName = ''get-json'', f_ServerName = a_Name (hd main_adapters),
         f_Error = '''', f_Status = ''ok''\<rparr>))]))]))]"

text \<open>The cells of a registry adapter under a configuration without a target or a terminator.\<close>

lemma plan_run_local:
  assumes "Cells cfg = g" and "parseCellGlob g = Inr inex" and "RatedCells cfg = ''''" and "Target cfg = ''''"
    and "Services cfg = ''local''" and "CellOrder cfg = ''''" and "ClientLockPath cfg = ''''"
    and "ClientLockPolicy cfg = ''''" and "ResumeFrom cfg = '''' \<or> (\<exists>es. dir = Inr es)"
  shows "\<exists>plan cfg'. plan_run scReg adReg br bb dir cfg = Inr (plan, cfg')"
proof -
  have nl: "newClientLock '''' '''' = Inr \<lparr>lk_path = '''', lk_policy = '''', lk_poll = 0, lk_maxWait = 0, lk_maxHold = 0\<rparr>"
    by (simp add: newClientLock_def)
  obtain effSc effAdv where fc: "filterCells (Registry scReg) (AdaptersSorted bb adReg) g = Inr (effSc, effAdv)"
    using assms(2) by (cases inex, cases "g = '''' \<or> g = ''*''") (auto simp: filterCells_def Let_def)
  show ?thesis
    using assms by (cases "br = ''1'' \<or> br = ''true''")
      (auto simp: plan_run_def Let_def parse_empty_glob fc nl orderSchedule_def dropCompletedCells_def case_prod_beta)
qed

lemma main_visible: "a \<in> set main_adapters \<Longrightarrow> a \<in> set (AdaptersSorted '''' full_registry)"
  using main_not_baseline
  by (auto simp: set_AdaptersSorted full_registry_def main_registry_def visible_def image_Un image_image)

theorem plan_covers_selection_witness:
  "\<exists>plan cfg' s a. plan_run scenario_registry full_registry '''' '''' (Inr w_resume_dir) w_resume_config = Inr (plan, cfg') \<and>
    planned_cell full_registry w_resume_config 1 s a \<notin> set (p_Schedule plan) \<and>
    planned_cell full_registry w_resume_config 2 s a \<in> set (p_Schedule plan)"
proof -
  have pg: "parseCellGlob ''get-json/*'' = Inr ([''get-json/*''], [])" by code_simp
  obtain plan cfg' where pl: "plan_run scenario_registry full_registry '''' '''' (Inr w_resume_dir) w_resume_config = Inr (plan, cfg')"
    using plan_run_local [of w_resume_config, OF _ pg, of "Inr w_resume_dir" scenario_registry full_registry "''''" "''''"]
    by (auto simp: w_resume_config_def DefaultConfig_def)
  let ?s = "hd (filter (\<lambda>s. sc_name s = ''get-json'') scenario_init)"
  let ?a = "hd main_adapters"
  have "filter (\<lambda>s. sc_name s = ''get-json'') scenario_init \<noteq> []" "main_adapters \<noteq> []" by code_simp+
  then have s: "?s \<in> set (Registry scenario_registry)" and n: "sc_name ?s = ''get-json''"
    and a: "?a \<in> set (plan_columns full_registry '''' w_resume_config)"
    using hd_in_set [of "filter (\<lambda>s. sc_name s = ''get-json'') scenario_init"] main_visible [OF hd_in_set]
    by (auto simp: set_Registry plan_columns_def w_resume_config_def DefaultConfig_def)
  have ap: "applicable ?s (srv_Features (plan_server full_registry w_resume_config ?a))" by code_simp
  have sel: "selected (Cells w_resume_config) (CellID (sc_name ?s) (a_Name ?a))" by code_simp
  have rs: "1 < Runs w_resume_config" "2 < Runs w_resume_config" "ResumeFrom w_resume_config \<noteq> ''''"
    by (simp_all add: w_resume_config_def DefaultConfig_def)
  have key: "schedule_key (planned_cell full_registry w_resume_config r ?s ?a) = cellKey r ''get-json'' (a_Name ?a)" for r
    by (simp add: schedule_key_def planned_cell_def n plan_server_def Let_def adapterServer_def)
  have "completedCells w_resume_dir = [cellKey 1 ''get-json'' (a_Name ?a)]" by code_simp
  then have rf: "recorded_final (Inr w_resume_dir) (planned_cell full_registry w_resume_config r ?s ?a) \<longleftrightarrow>
      cellKey r ''get-json'' (a_Name ?a) = cellKey 1 ''get-json'' (a_Name ?a)" for r
    using recorded_final_iff [of w_resume_dir] key by simp
  have "cellKey 2 ''get-json'' (a_Name ?a) \<noteq> cellKey 1 ''get-json'' (a_Name ?a)" by code_simp
  then show ?thesis
    using plan_covers_selection [OF pl s a ap _ rs(1) sel] plan_covers_selection [OF pl s a ap _ rs(2) sel] rf rs(3) pl
    by auto
qed
text \<open>The full matrix has the size the budget profiles pin. With no \<open>-cells\<close> filter and no
  TLS terminator a local run of \<open>n\<close> passes over the registry plans \<open>n\<close> times 813 cells, and
  \<open>n\<close> times 1035 when the baseline columns are switched on.\<close>

theorem full_matrix_size:
  assumes "plain_flags cfg"
  shows "\<exists>plan cfg'. plan_run scenario_registry full_registry br bb dir cfg = Inr (plan, cfg') \<and>
    length (p_Schedule plan) = nat (Runs cfg) * (if BaselineEnabled bb then 1035 else 813)"
proof -
  have "length (Schedule (Runs cfg) (Registry scenario_registry)
      (map (\<lambda>a. adapterServer a (featureSetFor a False)) (AdaptersSorted bb full_registry))) =
      nat (Runs cfg) * (if BaselineEnabled bb then 1035 else 813)"
    unfolding length_Schedule length_registry_pairs visible_full main_columns_sum baseline_columns_sum by simp
  with plan_full [OF assms] show ?thesis by metis
qed

theorem full_matrix_size_witness:
  "\<exists>plan cfg'. plan_run scenario_registry full_registry '''' ''1'' (Inl NotExist) DefaultConfig = Inr (plan, cfg') \<and>
    length (p_Schedule plan) = 5175"
proof -
  have "BaselineEnabled ''1''" by code_simp
  then show ?thesis
    using full_matrix_size [of DefaultConfig "''''" "''1''" "Inl NotExist"]
    by (simp add: DefaultConfig_def plain_flags_def)
qed

text \<open>The glob a drained run leaves behind selects exactly the cells it did not run. For any
  non-empty remainder of a schedule over the registry, \<open>cellsGlob\<close> renders ids that
  \<open>parseCellGlob\<close> accepts, and the id of a cell is selected by the rendered glob if and only if
  it is the id of a remaining cell.\<close>

theorem drained_glob_roundtrip:
  assumes "remaining \<noteq> []"
    and "\<forall>c\<in>set remaining. c_Scenario c \<in> set scenario_init \<and> srv_Name (c_Server c) \<in> set (map fst full_registry)"
  shows "selected (cellsGlob (map cell_id remaining)) i \<longleftrightarrow> i \<in> set (map cell_id remaining)"
proof (rule selected_cellsGlob)
  show "\<forall>i\<in>set (map cell_id remaining). i \<noteq> [] \<and> glob_safe i"
    using assms(2) registry_names_safe glob_safe_CellID by (auto simp only: set_map cell_id_def ball_simps)
qed (use assms(1) in simp)

theorem drained_glob_roundtrip_witness:
  "let c = \<lparr>RunIdx = 0, c_Scenario = hd scenario_init,
            c_Server = adapterServer (hd main_adapters) (featureSetFor (hd main_adapters) False)\<rparr>
   in selected (cellsGlob (map cell_id [c, c])) (cell_id c) \<and> \<not> selected (cellsGlob (map cell_id [c, c])) ''other/cell''"
proof -
  let ?c = "\<lparr>RunIdx = 0, c_Scenario = hd scenario_init,
            c_Server = adapterServer (hd main_adapters) (featureSetFor (hd main_adapters) False)\<rparr>"
  have "hd scenario_init \<in> set scenario_init" by (simp add: scenario_init_defs)
  moreover have "a_Name (hd main_adapters) = ''stdhttp-h1''" by code_simp
  moreover have "''stdhttp-h1'' \<in> set (map fst full_registry)" by code_simp
  ultimately have "\<forall>c\<in>set [?c, ?c]. c_Scenario c \<in> set scenario_init \<and> srv_Name (c_Server c) \<in> set (map fst full_registry)"
    by (simp add: adapterServer_def)
  from drained_glob_roundtrip [OF _ this]
  have r: "selected (cellsGlob (map cell_id [?c, ?c])) i \<longleftrightarrow> i \<in> set (map cell_id [?c, ?c])" for i by blast
  have "cell_id ?c \<noteq> ''other/cell''" by code_simp
  with r [of "cell_id ?c"] r [of "''other/cell''"] show ?thesis unfolding Let_def by simp
qed

text \<open>C37: The \<open>-cells\<close> glob is not exact. For any plan without a resume and any applicable pair of
  a registered scenario and a usable column, the cell is scheduled exactly when the glob selects
  some cell of its row and some cell of its column, whether or not it selects the cell itself:
  \<open>filterCells\<close> keeps rows and columns independently and the scheduler runs their product. So a
  cell that the glob excludes by name still runs when its row and its column have a selected
  cell each.\<close>

theorem filterCells_overselects:
  assumes "plan_run scReg adReg br bb dir cfg = Inr (plan, cfg')" and "ResumeFrom cfg = ''''"
    and "s \<in> set (Registry scReg)" and "a \<in> set (plan_columns adReg bb cfg)"
    and "applicable s (srv_Features (plan_server adReg cfg a))"
    and "0 \<le> r" and "r < Runs cfg"
  shows "planned_cell adReg cfg r s a \<in> set (p_Schedule plan) \<longleftrightarrow>
    (\<exists>b\<in>set (plan_columns adReg bb cfg). selected (Cells cfg) (CellID (sc_name s) (a_Name b))) \<and>
    (\<exists>t\<in>set (Registry scReg). selected (Cells cfg) (CellID (sc_name t) (a_Name a)))"
  using plan_schedule_iff [OF assms(1,3-7)] assms(2) by blast

definition w_excluding_glob :: string where
  "w_excluding_glob = (let x = a_Name (hd main_adapters); y = a_Name (last main_adapters)
     in ''get-json/'' @ x @ '',get-simple/'' @ y @ '',!get-json/'' @ y)"

theorem filterCells_overselects_witness:
  "let cfg = DefaultConfig\<lparr>Cells := w_excluding_glob\<rparr>; a = last main_adapters in
   \<exists>plan cfg' s. plan_run scenario_registry full_registry '''' '''' (Inl NotExist) cfg = Inr (plan, cfg') \<and>
     \<not> selected (Cells cfg) (CellID (sc_name s) (a_Name a)) \<and>
     planned_cell full_registry cfg 0 s a \<in> set (p_Schedule plan)"
proof -
  define cfg where "cfg = DefaultConfig\<lparr>Cells := w_excluding_glob\<rparr>"
  let ?sc = "\<lambda>n. hd (filter (\<lambda>s. sc_name s = n) scenario_init)"
  have reg: "?sc n \<in> set (Registry scenario_registry) \<and> sc_name (?sc n) = n" if "n \<in> set (map sc_name scenario_init)" for n
    using hd_in_set [of "filter (\<lambda>s. sc_name s = n) scenario_init"] that
    by (fastforce simp: set_Registry filter_empty_conv)
  have names: "''get-json'' \<in> set (map sc_name scenario_init)" "''get-simple'' \<in> set (map sc_name scenario_init)"
    by code_simp+
  have len: "main_adapters \<noteq> []" by code_simp
  then have cols: "hd main_adapters \<in> set (plan_columns full_registry '''' cfg)"
    "last main_adapters \<in> set (plan_columns full_registry '''' cfg)"
    by (auto simp: plan_columns_def cfg_def DefaultConfig_def intro!: main_visible)
  have "\<exists>inex. parseCellGlob w_excluding_glob = Inr inex"
  proof -
    have "(case parseCellGlob w_excluding_glob of Inr _ \<Rightarrow> True | Inl _ \<Rightarrow> False)" by code_simp
    then show ?thesis by (auto split: sum.splits)
  qed
  then obtain plan cfg' where pl: "plan_run scenario_registry full_registry '''' '''' (Inl NotExist) cfg = Inr (plan, cfg')"
    using plan_run_local [of cfg w_excluding_glob _ "Inl NotExist" scenario_registry full_registry "''''" "''''"]
    by (auto simp: cfg_def DefaultConfig_def)
  have ap: "applicable (?sc ''get-json'') (srv_Features (plan_server full_registry cfg (last main_adapters)))"
    unfolding cfg_def by code_simp
  have sel: "selected (Cells cfg) (CellID ''get-json'' (a_Name (hd main_adapters)))"
    "selected (Cells cfg) (CellID ''get-simple'' (a_Name (last main_adapters)))"
    "\<not> selected (Cells cfg) (CellID ''get-json'' (a_Name (last main_adapters)))"
    unfolding cfg_def by code_simp+
  have "planned_cell full_registry cfg 0 (?sc ''get-json'') (last main_adapters) \<in> set (p_Schedule plan)"
    using filterCells_overselects [OF pl _ _ cols(2) ap, of 0] reg [OF names(1)] reg [OF names(2)] cols sel
    by (force simp: cfg_def DefaultConfig_def)
  with pl sel(3) reg [OF names(1)] show ?thesis unfolding Let_def cfg_def [symmetric] by metis
qed

end
