(* ===== verification/GoFloat.thy ===== *)
theory GoFloat
  imports Complex_Main Prelude
begin

text \<open>
  Go's \<open>float64\<close> as far as the runner and the budget model use it: a finite value is the rational
  it denotes, and the result of an arithmetic operation or of a conversion from an integer is
  the exact result rounded to the nearest value with a 53-bit significand, ties to even
  (\<open>f64\<close>). All quantities here are counts, rates, durations and fractions far inside the normal
  range, so overflow, subnormal numbers, infinities and NaN do not occur and are not modelled.
  Formatting is \<open>%.nf\<close> (exact decimal expansion, ties to even) and \<open>time.Duration.String\<close>.

  The lemmas: rounding is monotone, keeps the powers of two, and a quotient of counts below
  $2^{53}$ compares with one half as the exact quotient does.
\<close>


section \<open>Rounding to 53 bits\<close>

definition pow2 :: "int \<Rightarrow> rat" where
  "pow2 e = (if 0 \<le> e then 2 ^ nat e else 1 / 2 ^ nat (- e))"

function nbits :: "int \<Rightarrow> int" where
  "nbits n = (if n \<le> 0 then 0 else 1 + nbits (n div 2))"
  by pat_completeness auto
termination by (relation "measure nat") auto

declare nbits.simps [simp del]

text \<open>The exponent of a positive rational: \<open>pow2 e \<le> q < pow2 (e + 1)\<close>.\<close>

definition ilog2 :: "rat \<Rightarrow> int" where
  "ilog2 q =
     (let (a, b) = quotient_of q; e = nbits a - nbits b
      in if pow2 e \<le> q then e else e - 1)"

definition round_half_even :: "rat \<Rightarrow> int" where
  "round_half_even q =
     (let n = \<lfloor>q\<rfloor>; d = q - of_int n
      in if d < 1 / 2 then n else if 1 / 2 < d then n + 1
         else if even n then n else n + 1)"

definition f64_pos :: "rat \<Rightarrow> rat" where
  "f64_pos q = (let u = pow2 (ilog2 q - 52) in of_int (round_half_even (q / u)) * u)"

definition f64 :: "rat \<Rightarrow> rat" where
  "f64 q = (if q = 0 then 0 else if q < 0 then - f64_pos (- q) else f64_pos q)"


section \<open>Formatting\<close>

fun pad_digits :: "nat \<Rightarrow> int \<Rightarrow> string" where
  "pad_digits 0 n = []"
| "pad_digits (Suc w) n = pad_digits w (n div 10) @ [digit (nat (n mod 10))]"

text \<open>\<open>%.nf\<close> of a non-negative value, \<open>n > 0\<close>.\<close>

definition fmt_fixed :: "nat \<Rightarrow> rat \<Rightarrow> string" where
  "fmt_fixed n q =
     (let k = round_half_even (q * 10 ^ n)
      in itoa (k div 10 ^ n) @ ''.'' @ pad_digits n (k mod 10 ^ n))"

text \<open>\<open>fmtFrac\<close>: the fraction \<open>v / 10 ^ prec\<close> with its trailing zeros and a bare point dropped.\<close>

definition fmt_frac :: "nat \<Rightarrow> int \<Rightarrow> string" where
  "fmt_frac prec v =
     (let ds = rev (dropWhile (\<lambda>c. c = CHR ''0'') (rev (pad_digits prec v)))
      in if ds = [] then [] else CHR ''.'' # ds)"

definition micro_s :: string where
  "micro_s = [CHR 0xC2, CHR 0xB5, CHR ''s'']"

text \<open>\<open>time.Duration.String\<close> on the magnitude, then with its sign.\<close>

definition duration_abs :: "int \<Rightarrow> string" where
  "duration_abs u =
     (if u = 0 then ''0s''
      else if u < 1000 then itoa u @ ''ns''
      else if u < 1000000 then itoa (u div 1000) @ fmt_frac 3 (u mod 1000) @ micro_s
      else if u < 1000000000 then itoa (u div 1000000) @ fmt_frac 6 (u mod 1000000) @ ''ms''
      else
        (let sec = u div 1000000000;
             secs = itoa (sec mod 60) @ fmt_frac 9 (u mod 1000000000) @ ''s''
         in if sec < 60 then secs
            else if sec < 3600 then itoa (sec div 60) @ ''m'' @ secs
            else itoa (sec div 3600) @ ''h'' @ itoa (sec div 60 mod 60) @ ''m'' @ secs))"

definition duration_string :: "duration \<Rightarrow> string" where
  "duration_string d = (if d < 0 then CHR ''-'' # duration_abs (- d) else duration_abs d)"

text \<open>\<open>%q\<close> of printable ASCII: only the quote and the backslash are escaped.\<close>

definition go_quote :: "string \<Rightarrow> string" where
  "go_quote s =
     [CHR 0x22] @ concat (map (\<lambda>c. if c = CHR 0x22 \<or> c = CHR 0x5C then [CHR 0x5C, c] else [c]) s) @ [CHR 0x22]"


section \<open>Facts about rounding\<close>

lemma pow2_pos [simp]: "0 < pow2 e"
  by (simp add: pow2_def)

lemma pow2_powr: "pow2 e = 2 powi e"
  by (simp add: pow2_def power_int_def field_simps)

lemma pow2_add: "pow2 (a + b) = pow2 a * pow2 b"
  by (simp add: pow2_powr power_int_add)

lemma pow2_less: "pow2 a < pow2 b \<longleftrightarrow> a < b"
proof -
  have *: "x < y \<Longrightarrow> pow2 x < pow2 y" for x y
    unfolding pow2_powr by (rule power_int_strict_increasing) simp_all
  show ?thesis using * [of a b] * [of b a] by (cases a b rule: linorder_cases) auto
qed

lemma pow2_mono: "pow2 a \<le> pow2 b \<longleftrightarrow> a \<le> b"
  using pow2_less [of b a] by (simp add: not_less [symmetric])

lemma nbits_nonneg: "0 \<le> nbits n"
  by (induction n rule: nbits.induct) (subst nbits.simps, simp)

lemma nbits_pow2: "0 < n \<Longrightarrow> pow2 (nbits n - 1) \<le> of_int n \<and> of_int n < pow2 (nbits n)"
proof (induction n rule: nbits.induct)
  case (1 n)
  show ?case
  proof (cases "n = 1")
    case True
    then show ?thesis by (simp add: nbits.simps pow2_def)
  next
    case False
    with 1(2) have h: "0 < n div 2" by linarith
    with 1 have ih: "pow2 (nbits (n div 2) - 1) \<le> of_int (n div 2)" "of_int (n div 2) < pow2 (nbits (n div 2))" by auto
    have nb: "nbits n = 1 + nbits (n div 2)" using 1(2) by (simp add: nbits.simps [of n])
    have e: "pow2 (nbits n - 1) = 2 * pow2 (nbits (n div 2) - 1)" "pow2 (nbits n) = 2 * pow2 (nbits (n div 2))"
      using pow2_add [of 1 "nbits (n div 2) - 1"] pow2_add [of 1 "nbits (n div 2)"] by (simp_all add: nb pow2_def)
    have "of_int (2 * (n div 2)) \<le> (of_int n :: rat)" by (simp only: of_int_le_iff)
    then have lo: "2 * of_int (n div 2) \<le> (of_int n :: rat)" by simp
    have nn: "nbits (n div 2) \<ge> 0" by (rule nbits_nonneg)
    then have pi: "pow2 (nbits (n div 2)) = of_int (2 ^ nat (nbits (n div 2)))" by (simp add: pow2_def)
    then have "n div 2 + 1 \<le> 2 ^ nat (nbits (n div 2))" using ih(2) by (simp only: of_int_less_iff)
    then have "n < 2 * 2 ^ nat (nbits (n div 2))" by linarith
    then have "(of_int n :: rat) < of_int (2 * 2 ^ nat (nbits (n div 2)))" by (simp only: of_int_less_iff)
    then have hi: "of_int n < pow2 (nbits n)" unfolding e pi by simp
    show ?thesis using lo ih(1) hi unfolding e(1) by linarith
  qed
qed

lemma ilog2_bounds:
  assumes "0 < q"
  shows "pow2 (ilog2 q) \<le> q \<and> q < pow2 (ilog2 q + 1)"
proof -
  obtain a b where ab: "quotient_of q = (a, b)" by (cases "quotient_of q")
  have b: "0 < b" using quotient_of_denom_pos [OF ab] .
  have q: "q = of_int a / of_int b" using quotient_of_div [OF ab] .
  have a: "0 < a" using assms b unfolding q by (simp add: zero_less_divide_iff)
  define m n where "m = nbits a" and "n = nbits b"
  have A: "pow2 (m - 1) \<le> of_int a" "of_int a < pow2 m"
    and B: "pow2 (n - 1) \<le> of_int b" "of_int b < pow2 n"
    using nbits_pow2 [OF a] nbits_pow2 [OF b] by (auto simp: m_def n_def)
  have lo: "pow2 (m - n - 1) < q"
  proof -
    have "pow2 (m - n - 1) * of_int b < pow2 (m - n - 1) * pow2 (n)"
      using B by simp
    also have "\<dots> = pow2 (m - 1)" by (simp flip: pow2_add)
    finally show ?thesis using A(1) b by (simp add: q pos_less_divide_eq)
  qed
  have hi: "q < pow2 (m - n + 1)"
  proof -
    have "pow2 (m) = pow2 (m - n + 1) * pow2 (n - 1)" by (simp flip: pow2_add)
    also have "\<dots> \<le> pow2 (m - n + 1) * of_int b" using B by simp
    finally show ?thesis using A(2) b by (simp add: q pos_divide_less_eq)
  qed
  show ?thesis
    using lo hi by (auto simp: ilog2_def ab Let_def m_def [symmetric] n_def [symmetric] not_le)
qed

lemma ilog2_unique:
  assumes "pow2 e \<le> q" and "q < pow2 (e + 1)"
  shows "ilog2 q = e"
proof -
  have "0 < q" using assms(1) pow2_pos [of e] by linarith
  then have b: "pow2 (ilog2 q) \<le> q" "q < pow2 (ilog2 q + 1)" using ilog2_bounds by auto
  have "pow2 e < pow2 (ilog2 q + 1)" "pow2 (ilog2 q) < pow2 (e + 1)" using assms b by linarith+
  then show ?thesis by (simp add: pow2_less)
qed

lemma round_half_even_mono: "x \<le> y \<Longrightarrow> round_half_even x \<le> round_half_even y"
proof -
  assume xy: "x \<le> y"
  then have f: "\<lfloor>x\<rfloor> \<le> \<lfloor>y\<rfloor>" by (rule floor_mono)
  show ?thesis
  proof (cases "\<lfloor>x\<rfloor> = \<lfloor>y\<rfloor>")
    case True
    with xy show ?thesis by (auto simp: round_half_even_def Let_def)
  next
    case False
    with f have "\<lfloor>x\<rfloor> + 1 \<le> \<lfloor>y\<rfloor>" by simp
    moreover have "round_half_even x \<le> \<lfloor>x\<rfloor> + 1" "\<lfloor>y\<rfloor> \<le> round_half_even y"
      by (simp_all add: round_half_even_def Let_def)
    ultimately show ?thesis by linarith
  qed
qed

lemma round_half_even_int [simp]: "round_half_even (of_int n) = n"
  by (simp add: round_half_even_def)

lemma round_half_even_ge: "of_int n \<le> x \<Longrightarrow> n \<le> round_half_even x"
  using round_half_even_mono [of "of_int n" x] by simp

lemma round_half_even_le: "x \<le> of_int n \<Longrightarrow> round_half_even x \<le> n"
  using round_half_even_mono [of x "of_int n"] by simp

lemma round_half_even_above:
  assumes "of_int n + 1 / 2 < x"
  shows "n + 1 \<le> round_half_even x"
proof (cases "of_int (n + 1) \<le> x")
  case True
  then show ?thesis by (rule round_half_even_ge)
next
  case False
  with assms have "\<lfloor>x\<rfloor> = n" by (auto simp: floor_eq_iff)
  with assms show ?thesis by (simp add: round_half_even_def Let_def)
qed

lemma pow2_split:
  "pow2 e = of_int (2 ^ 52) * pow2 (e - 52)" "pow2 (e + 1) = of_int (2 ^ 53) * pow2 (e - 52)"
proof -
  have c: "pow2 52 = of_int (2 ^ 52)" "pow2 53 = of_int (2 ^ 53)" by (simp_all add: pow2_def)
  show "pow2 e = of_int (2 ^ 52) * pow2 (e - 52)" using pow2_add [of 52 "e - 52"] unfolding c by simp
  have "53 + (e - 52) = e + 1" by simp
  then show "pow2 (e + 1) = of_int (2 ^ 53) * pow2 (e - 52)" using pow2_add [of 53 "e - 52"] unfolding c by (simp only:)
qed

lemma f64_pos_bounds:
  assumes "0 < q"
  shows "pow2 (ilog2 q) \<le> f64_pos q \<and> f64_pos q \<le> pow2 (ilog2 q + 1)"
proof -
  define u where "u = pow2 (ilog2 q - 52)"
  have u: "0 < u" by (simp add: u_def)
  have p: "pow2 (ilog2 q) = of_int (2 ^ 52) * u" "pow2 (ilog2 q + 1) = of_int (2 ^ 53) * u"
    unfolding u_def by (rule pow2_split)+
  have "pow2 (ilog2 q) \<le> q" "q \<le> pow2 (ilog2 q + 1)" using ilog2_bounds [OF assms] by auto
  then have "of_int (2 ^ 52) \<le> q / u" "q / u \<le> of_int (2 ^ 53)"
    unfolding p using u by (simp_all add: pos_le_divide_eq pos_divide_le_eq)
  then have "2 ^ 52 \<le> round_half_even (q / u)" "round_half_even (q / u) \<le> 2 ^ 53"
    using round_half_even_ge round_half_even_le by blast+
  then have "of_int (2 ^ 52) * u \<le> of_int (round_half_even (q / u)) * u"
    "of_int (round_half_even (q / u)) * u \<le> of_int (2 ^ 53) * u"
    using u by (simp_all only: mult_le_cancel_right_pos of_int_le_iff)
  then show ?thesis unfolding p by (simp add: f64_pos_def Let_def u_def)
qed

lemma f64_pos_mono:
  assumes "0 < x" and "x \<le> y"
  shows "f64_pos x \<le> f64_pos y"
proof -
  have y: "0 < y" using assms by linarith
  have bx: "pow2 (ilog2 x) \<le> x" and by_: "y < pow2 (ilog2 y + 1)" using ilog2_bounds assms y by auto
  then have "pow2 (ilog2 x) < pow2 (ilog2 y + 1)" using assms by linarith
  then have le: "ilog2 x \<le> ilog2 y" by (simp add: pow2_less)
  show ?thesis
  proof (cases "ilog2 x = ilog2 y")
    case True
    have "round_half_even (x / pow2 (ilog2 y - 52)) \<le> round_half_even (y / pow2 (ilog2 y - 52))"
      by (intro round_half_even_mono divide_right_mono) (use assms less_imp_le [OF pow2_pos] in auto)
    then show ?thesis by (simp add: f64_pos_def Let_def True)
  next
    case False
    with le have "pow2 (ilog2 x + 1) \<le> pow2 (ilog2 y)" by (simp add: pow2_mono)
    with f64_pos_bounds [OF assms(1)] f64_pos_bounds [OF y] show ?thesis by linarith
  qed
qed

lemma f64_mono: "0 \<le> x \<Longrightarrow> x \<le> y \<Longrightarrow> f64 x \<le> f64 y"
  using f64_pos_mono [of x y] f64_pos_bounds [of y] less_imp_le [OF less_le_trans [OF pow2_pos [of "ilog2 y"], of "f64_pos y"]]
  by (cases "x = 0"; cases "y = 0") (auto simp: f64_def)

lemma f64_pow2 [simp]: "f64 (pow2 e) = pow2 e"
proof -
  have il: "ilog2 (pow2 e) = e" by (rule ilog2_unique) (simp_all add: pow2_mono pow2_less)
  have "pow2 e / pow2 (e - 52) = of_int (2 ^ 52)"
    using pow2_split(1) [of e] pow2_pos [of "e - 52"] by (metis less_irrefl nonzero_mult_div_cancel_right)
  then have "f64_pos (pow2 e) = of_int (2 ^ 52) * pow2 (e - 52)"
    unfolding f64_pos_def Let_def il by (simp only: round_half_even_int)
  then have "f64_pos (pow2 e) = pow2 e" by (simp only: pow2_split(1) [symmetric])
  moreover have "pow2 e \<noteq> 0" "\<not> pow2 e < 0"
    using less_imp_neq [OF pow2_pos [of e]] less_not_sym [OF pow2_pos [of e]] by auto
  ultimately show ?thesis by (simp add: f64_def)
qed

text \<open>A conversion of an integer below $2^{53}$ is exact.\<close>

lemma f64_nat:
  assumes "0 \<le> n" and "n < 2 ^ 53"
  shows "f64 (of_int n) = of_int n"
proof (cases "n = 0")
  case False
  define e where "e = ilog2 (of_int n)"
  have n: "0 < (of_int n :: rat)" using assms False by simp
  then have b: "pow2 e \<le> of_int n" "of_int n < pow2 (e + 1)" using ilog2_bounds by (auto simp: e_def)
  have "(of_int n :: rat) < of_int (2 ^ 53)" "of_int 1 \<le> (of_int n :: rat)"
    using assms False by (simp_all only: of_int_less_iff of_int_le_iff)
  moreover have "pow2 53 = of_int (2 ^ 53)" "pow2 0 = of_int 1" by (simp_all add: pow2_def)
  ultimately have "(of_int n :: rat) < pow2 53" "pow2 0 \<le> (of_int n :: rat)" by (simp_all only:)
  with b have e: "0 \<le> e" "e \<le> 52" using pow2_less [of e 53] pow2_less [of 0 "e + 1"] by linarith+
  have "of_int n / pow2 (e - 52) = (of_int (n * 2 ^ nat (52 - e)) :: rat)"
    using e by (simp add: pow2_def)
  then have "f64_pos (of_int n) = of_int (n * 2 ^ nat (52 - e)) * pow2 (e - 52)"
    unfolding f64_pos_def Let_def e_def [symmetric] by (simp only: round_half_even_int)
  also have "\<dots> = of_int n" using e by (simp add: pow2_def)
  finally show ?thesis using n by (simp add: f64_def)
qed (simp add: f64_def)

text \<open>The rounded quotient of two counts is above one half exactly when the quotient is.\<close>

lemma f64_quotient_half:
  assumes "0 \<le> e" and "e \<le> t" and "0 < t" and "t < 2 ^ 53"
  shows "1 / 2 < f64 (of_int e / of_int t) \<longleftrightarrow> t < 2 * e"
proof
  have h: "f64 (1 / 2) = 1 / 2" using f64_pow2 [of "- 1"] by (simp add: pow2_def)
  assume a: "1 / 2 < f64 (of_int e / of_int t)"
  show "t < 2 * e"
  proof (rule ccontr)
    assume "\<not> t < 2 * e"
    then have "(of_int e :: rat) / of_int t \<le> 1 / 2"
      using assms(3) by (simp add: pos_divide_le_eq flip: of_int_mult of_int_le_iff [where 'a = rat])
    with f64_mono [of "of_int e / of_int t" "1 / 2"] h assms(1,3) a show False by simp
  qed
next
  assume l: "t < 2 * e"
  let ?q = "of_int e / of_int t :: rat"
  show "1 / 2 < f64 ?q"
  proof (cases "e = t")
    case True
    then show ?thesis using assms(3) f64_pow2 [of 0] by (simp add: pow2_def)
  next
    case False
    with assms(2) have lt: "e < t" by simp
    have q: "1 / 2 < ?q" "?q < 1"
      using assms(3) lt l by (simp_all add: pos_less_divide_eq pos_divide_less_eq)
    have il: "ilog2 ?q = - 1" by (rule ilog2_unique) (use q in \<open>simp_all add: pow2_def\<close>)
    have "(of_int (t + 1) :: rat) \<le> of_int (2 * e)" using l by (simp only: of_int_le_iff)
    then have "of_int (t + 1) / (2 * of_int t) \<le> of_int (2 * e) / (2 * (of_int t :: rat))"
      using assms(3) by (intro divide_right_mono) simp_all
    then have "1 / 2 + 1 / (2 * of_int t) \<le> ?q" using assms(3) by (simp add: add_divide_distrib)
    moreover have "(1 / 2 ^ 54 :: rat) < 1 / (2 * of_int t)"
    proof (rule divide_strict_left_mono)
      have "(of_int t :: rat) < of_int (2 ^ 53)" using assms(4) by (simp only: of_int_less_iff)
      then show "2 * of_int t < (2 ^ 54 :: rat)" by simp
    qed (use assms(3) in simp_all)
    ultimately have "of_int (2 ^ 52) + 1 / 2 < ?q / pow2 (- 53)" by (simp add: pow2_def)
    then have "2 ^ 52 + 1 \<le> round_half_even (?q / pow2 (- 53))" by (rule round_half_even_above)
    then have "(of_int (2 ^ 52 + 1) :: rat) \<le> of_int (round_half_even (?q / pow2 (- 53)))" by (simp only: of_int_le_iff)
    then have "1 / 2 < f64_pos ?q" by (simp add: f64_pos_def il Let_def pow2_def)
    moreover have "?q \<noteq> 0" "\<not> ?q < 0" using q by linarith+
    ultimately show ?thesis unfolding f64_def by (simp only: if_False)
  qed
qed

end
