(* ===== verification/CellVerdict.thy ===== *)
theory CellVerdict
  imports CellStatus ClientLock GoFloat
begin

text \<open>
  What the runner makes of the load generator's answer: the verdict on a completed saturation pass
  (\<open>classifyCompletedCell\<close>), the liveness probe and the rated passes of \<open>src/cmd/runner/main.go\<close>, with
  the pass records of \<open>src/report/ratedpass.go\<close>.

  The load generator is external: its result is the record of the fields the runner reads. Error
  messages are the code's strings, since the published status is read back from their text.

  The lemmas: each verdict gets its intended status although the classification searches keywords
  in a free text, and a rated sweep leaves one record per fraction that the two on-disk arrays
  restore.
\<close>


section \<open>Verdict on a completed cell\<close>

fun category_name :: "category \<Rightarrow> string" where
  "category_name CategoryStatic = ''static''"
| "category_name CategoryConcurrency = ''concurrency''"
| "category_name CategoryChain = ''chain''"
| "category_name CategoryDriver = ''driver''"
| "category_name CategoryWS = ''ws''"
| "category_name CategorySSE = ''sse''"
| "category_name CategoryTLS = ''tls''"

definition DefaultErrorBudget :: rat where
  "DefaultErrorBudget = f64 (5 / 100)"

text \<open>Only the static scenarios implement \<open>ErrorBudgeter\<close>.\<close>

definition StaticScenario_ErrorBudget :: "rat \<Rightarrow> rat" where
  "StaticScenario_ErrorBudget b = (if 0 < b then b else DefaultErrorBudget)"

definition ErrorBudgetFor :: "scenario \<Rightarrow> rat" where
  "ErrorBudgetFor s =
     (case s of
        StaticScenario _ _ _ _ _ _ eb \<Rightarrow>
          (let b = StaticScenario_ErrorBudget eb in if 0 < b then b else DefaultErrorBudget)
      | _ \<Rightarrow> DefaultErrorBudget)"

definition capabilityGatedClass :: "category \<Rightarrow> bool" where
  "capabilityGatedClass cat \<longleftrightarrow>
     cat = CategoryDriver \<or> cat = CategoryChain \<or> cat = CategoryWS \<or> cat = CategorySSE \<or> cat = CategoryTLS"

definition errorRatio :: "int \<Rightarrow> int \<Rightarrow> rat" where
  "errorRatio requests errors =
     (let total = wrap64 (requests + errors)
      in if total \<le> 0 then 0 else f64 (f64 (of_int errors) / f64 (of_int total)))"

definition connectClassDominated :: "int \<Rightarrow> int \<Rightarrow> bool" where
  "connectClassDominated errs connectErrs =
     (if errs \<le> 0 \<or> connectErrs = 0 then False
      else f64 (f64 (99 / 100) * f64 (of_int errs)) \<le> f64 (of_int connectErrs))"

record completed_cell =
  cc_ScenarioName :: string
  cc_ServerName :: string
  cc_Category :: category
  cc_Requests :: int
  cc_Errors :: int
  cc_ConnectErrors :: int
  cc_Duration :: duration
  cc_Interrupted :: bool
  cc_ServerAlive :: bool
  cc_ProbeErr :: string
  cc_ErrorBudget :: rat

record cell_verdict =
  v_ErrMsg :: string
  v_Hard :: bool

definition emdash :: string where
  "emdash = [CHR 0xE2, CHR 0x80, CHR 0x94]"

definition msg_interrupted :: "completed_cell \<Rightarrow> string" where
  "msg_interrupted i =
     ''interrupted: cell cancelled mid-run (requests='' @ itoa (cc_Requests i) @ '' errors='' @ itoa (cc_Errors i) @
     '' duration='' @ duration_string (cc_Duration i) @ '')''"

definition msg_died :: "completed_cell \<Rightarrow> string" where
  "msg_died i =
     ''server-died-mid-cell: post-cell probe: '' @ cc_ProbeErr i @ '' (requests='' @ itoa (cc_Requests i) @
     '' errors='' @ itoa (cc_Errors i) @
     (if 0 < cc_ConnectErrors i then '' connect_errors='' @ itoa (cc_ConnectErrors i) else '''') @ '')''"

definition msg_down :: "completed_cell \<Rightarrow> string" where
  "msg_down i =
     ''server-down: zero requests and the errors are connect-class (connect_errors='' @ itoa (cc_ConnectErrors i) @
     '' errors='' @ itoa (cc_Errors i) @ '') '' @ emdash @
     '' no stream ever served; a passing post-probe means a flapping listener, not a healthy server''"

definition msg_lie :: "completed_cell \<Rightarrow> string" where
  "msg_lie i =
     ''capability-lie: scheduled '' @ category_name (cc_Category i) @ '' scenario '' @ go_quote (cc_ScenarioName i) @
     '' got zero successes from live server '' @ cc_ServerName i @ '' (errors='' @ itoa (cc_Errors i) @ '') '' @ emdash @
     '' adapter declared the capability but did not serve the route''"

definition msg_zero :: "completed_cell \<Rightarrow> string" where
  "msg_zero i =
     ''zero-request cell: errors='' @ itoa (cc_Errors i) @ '' duration='' @ duration_string (cc_Duration i)"

definition msg_suspect :: "completed_cell \<Rightarrow> string" where
  "msg_suspect i =
     (let ratio = errorRatio (cc_Requests i) (cc_Errors i);
          allowed = f64 (cc_ErrorBudget i * f64 (of_int (wrap64 (cc_Requests i + cc_Errors i))))
      in ''suspect: error ratio '' @ fmt_fixed 3 ratio @ '' exceeds budget '' @ fmt_fixed 2 (cc_ErrorBudget i) @
         '' (errors='' @ itoa (cc_Errors i) @ '' requests='' @ itoa (cc_Requests i) @ '')'' @
         (if 0 < cc_ConnectErrors i \<and>
             f64 (f64 (of_int (cc_Errors i)) - allowed) \<le> f64 (of_int (cc_ConnectErrors i))
          then ''; the overage is connect-class (connect_errors='' @ itoa (cc_ConnectErrors i) @ '') '' @ emdash @
               '' server unreachable for part of the cell''
          else ''''))"

definition classifyCompletedCell :: "completed_cell \<Rightarrow> cell_verdict" where
  "classifyCompletedCell i =
     (let ratio = errorRatio (cc_Requests i) (cc_Errors i)
      in if cc_Interrupted i then \<lparr>v_ErrMsg = msg_interrupted i, v_Hard = True\<rparr>
         else if (cc_Requests i = 0 \<or> 1 / 2 < ratio) \<and> \<not> cc_ServerAlive i
           then \<lparr>v_ErrMsg = msg_died i, v_Hard = True\<rparr>
         else if cc_Requests i = 0 \<and> connectClassDominated (cc_Errors i) (cc_ConnectErrors i)
           then \<lparr>v_ErrMsg = msg_down i, v_Hard = True\<rparr>
         else if cc_Requests i = 0 \<and> 0 < cc_Errors i \<and> capabilityGatedClass (cc_Category i)
           then \<lparr>v_ErrMsg = msg_lie i, v_Hard = True\<rparr>
         else if cc_Requests i = 0 then \<lparr>v_ErrMsg = msg_zero i, v_Hard = True\<rparr>
         else if cc_ErrorBudget i < ratio then \<lparr>v_ErrMsg = msg_suspect i, v_Hard = False\<rparr>
         else \<lparr>v_ErrMsg = '''', v_Hard = False\<rparr>)"


section \<open>Probing the server\<close>

text \<open>\<open>dial n\<close> is the error of the \<open>n\<close>-th dial; \<open>None\<close> means it connected.\<close>

fun probe_loop :: "(nat \<Rightarrow> string option) \<Rightarrow> nat \<Rightarrow> nat \<Rightarrow> string option \<Rightarrow> string option" where
  "probe_loop dial 0 attempt lastErr = lastErr"
| "probe_loop dial (Suc k) attempt lastErr =
     (case dial attempt of None \<Rightarrow> None | Some err \<Rightarrow> probe_loop dial k (Suc attempt) (Some err))"

definition probeSUT :: "(nat \<Rightarrow> string option) \<Rightarrow> string option" where
  "probeSUT dial = probe_loop dial 3 0 None"

text \<open>A failed \<open>loadgen.Run\<close>: its text and whether it wraps \<open>ErrNeverConnected\<close>.\<close>

record run_error_info =
  re_NeverConnected :: bool
  re_Text :: string

definition loadgenRunCellError :: "run_error_info \<Rightarrow> string option \<Rightarrow> (nat \<Rightarrow> string option) \<Rightarrow> string" where
  "loadgenRunCellError err probeAddr dial =
     (if \<not> re_NeverConnected err then ''loadgen.Run: '' @ re_Text err
      else
        (let probe = (case probeAddr of
               None \<Rightarrow> ''no post-probe addr''
             | Some _ \<Rightarrow> (case probeSUT dial of
                 Some perr \<Rightarrow> ''post-probe: '' @ perr
               | None \<Rightarrow> ''post-probe passed '' @ emdash @ '' flapping listener, not a healthy server''))
         in ''server-down: loadgen fail-fast: '' @ re_Text err @ '' ('' @ probe @ '')''))"

section \<open>Rated passes\<close>

text \<open>The load generator's result, as far as the runner reads it.\<close>

record lg_result =
  lr_Requests :: int
  lr_Errors :: int
  lr_ConnectErrors :: int
  lr_DialRetries :: int
  lr_CloseAborts :: int
  lr_RequestsPerSec :: rat
  lr_Duration :: duration
  lr_P50 :: duration
  lr_P99 :: duration
  lr_P999 :: duration
  lr_Max :: duration
  lr_Histogram :: string
  lr_LoadgenVersion :: string

record rated_pass =
  rp_Fraction :: rat
  rp_TargetRPS :: rat
  rp_P99 :: duration
  rp_Status :: string
  rp_Reason :: string
  rp_Detail :: string
  rp_AchievedRPS :: rat
  rp_AchievedRatio :: rat
  rp_Requests :: int
  rp_Errors :: int
  rp_ConnectErrors :: int
  rp_DialRetries :: int
  rp_CloseAborts :: int
  rp_ShortfallRequests :: int
  rp_Duration :: duration
  rp_P50 :: duration
  rp_P999 :: duration
  rp_Max :: duration
  rp_Start :: int
  rp_End :: int
  rp_LoadgenVersion :: string

definition RatedPassOK :: string where "RatedPassOK = ''ok''"
definition RatedPassSkipped :: string where "RatedPassSkipped = ''skipped''"
definition RatedPassNotRun :: string where "RatedPassNotRun = ''not_run''"

lemma rated_status_distinct [simp]:
  "RatedPassSkipped \<noteq> RatedPassOK" "RatedPassNotRun \<noteq> RatedPassOK" "RatedPassSkipped \<noteq> RatedPassNotRun"
  by (simp_all add: RatedPassOK_def RatedPassSkipped_def RatedPassNotRun_def)

definition blank_pass :: rated_pass where
  "blank_pass =
     \<lparr>rp_Fraction = 0, rp_TargetRPS = 0, rp_P99 = 0, rp_Status = '''', rp_Reason = '''', rp_Detail = '''',
      rp_AchievedRPS = 0, rp_AchievedRatio = 0, rp_Requests = 0, rp_Errors = 0, rp_ConnectErrors = 0,
      rp_DialRetries = 0, rp_CloseAborts = 0, rp_ShortfallRequests = 0, rp_Duration = 0, rp_P50 = 0,
      rp_P999 = 0, rp_Max = 0, rp_Start = 0, rp_End = 0, rp_LoadgenVersion = ''''\<rparr>"

definition notRunRatedPasses :: "runner_config \<Rightarrow> string \<Rightarrow> string \<Rightarrow> rated_pass list" where
  "notRunRatedPasses cfg reason detail =
     map (\<lambda>fr. blank_pass\<lparr>rp_Fraction := fr, rp_Status := RatedPassNotRun, rp_Reason := reason,
       rp_Detail := detail\<rparr>) (RatedFractions cfg)"

text \<open>\<open>Duration.Seconds\<close>, \<open>Duration.Round\<close> to a millisecond and \<open>math.Round\<close>, on non-negative values.\<close>

definition seconds_of :: "duration \<Rightarrow> rat" where
  "seconds_of d = f64 (f64 (of_int (quot d second)) + f64 (f64 (of_int (d - quot d second * second)) / 10 ^ 9))"

definition round_ms :: "duration \<Rightarrow> duration" where
  "round_ms d = (let r = d mod millisecond in if r + r < millisecond then d - r else d + (millisecond - r))"

definition math_round :: "rat \<Rightarrow> int" where
  "math_round q = \<lfloor>q + 1 / 2\<rfloor>"

definition pass_counts :: "rat \<Rightarrow> duration \<Rightarrow> lg_result \<Rightarrow> rated_pass \<Rightarrow> rated_pass" where
  "pass_counts target window res rec =
     (let d = (if lr_Duration res \<le> 0 then window else lr_Duration res)
      in rec\<lparr>rp_AchievedRPS := lr_RequestsPerSec res,
             rp_AchievedRatio := (if 0 < target then f64 (lr_RequestsPerSec res / target) else 0),
             rp_Requests := lr_Requests res, rp_Errors := lr_Errors res,
             rp_ConnectErrors := lr_ConnectErrors res, rp_DialRetries := lr_DialRetries res,
             rp_CloseAborts := lr_CloseAborts res, rp_Duration := lr_Duration res,
             rp_ShortfallRequests :=
               wrap64 (math_round (f64 (target * seconds_of d)) - lr_Requests res - lr_Errors res),
             rp_P50 := lr_P50 res, rp_P999 := lr_P999 res, rp_Max := lr_Max res,
             rp_LoadgenVersion := lr_LoadgenVersion res\<rparr>)"

definition pass_verdict :: "lg_result option \<Rightarrow> string option \<Rightarrow> rated_pass \<Rightarrow> rated_pass" where
  "pass_verdict res runErr rec =
     (case runErr of
        Some e \<Rightarrow> rec\<lparr>rp_Status := RatedPassSkipped, rp_Reason := ''run_error'', rp_Detail := e\<rparr>
      | None \<Rightarrow>
          (case res of
             None \<Rightarrow> rec\<lparr>rp_Status := RatedPassSkipped, rp_Reason := ''nil_result''\<rparr>
           | Some r \<Rightarrow>
               if lr_Requests r = 0
               then rec\<lparr>rp_Status := RatedPassSkipped, rp_Reason := ''zero_requests''\<rparr>
               else rec\<lparr>rp_Status := RatedPassOK, rp_P99 := lr_P99 r\<rparr>))"

definition pass_interrupted :: "duration \<Rightarrow> lg_result option \<Rightarrow> rated_pass \<Rightarrow> rated_pass" where
  "pass_interrupted window res rec =
     (if rp_Status rec \<noteq> RatedPassOK then
        (let was = rp_Reason rec @ (if rp_Detail rec \<noteq> '''' then '': '' @ rp_Detail rec else '''')
         in rec\<lparr>rp_Reason := ''interrupted'', rp_Detail := ''was '' @ was\<rparr>)
      else
        (case res of
           Some r \<Rightarrow>
             if lr_Duration r < quot (wrap64 (window * 95)) 100
             then rec\<lparr>rp_Reason := ''interrupted'', rp_Detail :=
               ''the run was cancelled mid-pass: measured '' @ duration_string (round_ms (lr_Duration r)) @ '' of '' @
               duration_string window @ ''; kept, as the keep rule has always done''\<rparr>
             else rec
         | None \<Rightarrow> rec))"

definition newRatedPassRecord ::
  "rat \<Rightarrow> rat \<Rightarrow> duration \<Rightarrow> lg_result option \<Rightarrow> string option \<Rightarrow> bool \<Rightarrow> int \<Rightarrow> int \<Rightarrow> rated_pass" where
  "newRatedPassRecord fr target window res runErr interrupted start stop =
     (let rec = blank_pass\<lparr>rp_Fraction := fr, rp_TargetRPS := target, rp_Start := start, rp_End := stop\<rparr>;
          rec = (case res of Some r \<Rightarrow> pass_counts target window r rec | None \<Rightarrow> rec);
          rec = pass_verdict res runErr rec
      in if interrupted then pass_interrupted window res rec else rec)"

record pass_window =
  pw_Kind :: string
  pw_TargetRPS :: rat
  pw_Start :: int
  pw_End :: int

record rated_sweep =
  sw_samples :: "(rat \<times> duration) list"
  sw_kept :: "rated_pass list"
  sw_notKept :: "rated_pass list"
  sw_all :: "rated_pass list"
  sw_windows :: "pass_window list"

definition sw_add :: "rated_pass \<Rightarrow> rated_sweep \<Rightarrow> rated_sweep" where
  "sw_add rec sw =
     (let sw = sw\<lparr>sw_all := sw_all sw @ [rec]\<rparr>
      in if rp_Status rec = RatedPassOK
         then sw\<lparr>sw_kept := sw_kept sw @ [rec], sw_samples := sw_samples sw @ [(rp_TargetRPS rec, rp_P99 rec)]\<rparr>
         else sw\<lparr>sw_notKept := sw_notKept sw @ [rec]\<rparr>)"

text \<open>What one rated pass meets: the load generator's constructor, its result and error, whether the
  run was cancelled, and the clock before and after.\<close>

record pass_env =
  pe_New :: "string option"
  pe_Result :: "lg_result option"
  pe_Err :: "string option"
  pe_Cancelled :: bool
  pe_Start :: int
  pe_End :: int

definition fmt_rate :: "rat \<Rightarrow> string" where
  "fmt_rate q = (if q < 0 then ''-'' else '''') @ itoa (round_half_even \<bar>q\<bar>)"

definition sweep_pass :: "runner_config \<Rightarrow> rat \<Rightarrow> rat \<times> pass_env \<Rightarrow> rated_sweep \<Rightarrow> rated_sweep" where
  "sweep_pass cfg saturationRPS = (\<lambda>(fr, e) sw.
     let target = f64 (saturationRPS * fr)
     in if target \<le> 0 then
          sw_add (blank_pass\<lparr>rp_Fraction := fr, rp_TargetRPS := target, rp_Status := RatedPassNotRun,
            rp_Reason := ''non_positive_target'', rp_Detail := ''target '' @ fmt_rate target,
            rp_Start := pe_Start e, rp_End := pe_End e\<rparr>) sw
        else case pe_New e of
          Some err \<Rightarrow>
            sw_add (blank_pass\<lparr>rp_Fraction := fr, rp_TargetRPS := target, rp_Status := RatedPassNotRun,
              rp_Reason := ''loadgen_new'', rp_Detail := err, rp_Start := pe_Start e, rp_End := pe_Start e\<rparr>) sw
        | None \<Rightarrow>
            sw_add (newRatedPassRecord fr target (RatedDuration cfg) (pe_Result e) (pe_Err e) (pe_Cancelled e)
                (pe_Start e) (pe_End e))
              (sw\<lparr>sw_windows := sw_windows sw @
                [\<lparr>pw_Kind = ''rated'', pw_TargetRPS = target, pw_Start = pe_Start e, pw_End = pe_End e\<rparr>]\<rparr>))"

definition empty_sweep :: rated_sweep where
  "empty_sweep = \<lparr>sw_samples = [], sw_kept = [], sw_notKept = [], sw_all = [], sw_windows = []\<rparr>"

definition runRatedSweep :: "runner_config \<Rightarrow> rat \<Rightarrow> (nat \<Rightarrow> pass_env) \<Rightarrow> rated_sweep" where
  "runRatedSweep cfg saturationRPS env =
     fold (sweep_pass cfg saturationRPS) (zip (RatedFractions cfg) (map env [0..<length (RatedFractions cfg)])) empty_sweep"

definition Kept :: "rated_pass \<Rightarrow> bool" where
  "Kept r \<longleftrightarrow> rp_Status r = '''' \<or> rp_Status r = RatedPassOK"

definition MergeRatedPassRecords :: "rated_pass list \<Rightarrow> rated_pass list \<Rightarrow> rated_pass list" where
  "MergeRatedPassRecords kept notKept =
     (if length kept + length notKept = 0 then []
      else sort_key (\<lambda>r. (rp_Fraction r, rp_TargetRPS r)) (kept @ notKept))"

section \<open>The status of a verdict\<close>

text \<open>The classification looks for its keywords anywhere in the message; these lemmas show where they
  can not occur.\<close>

lemma contains_skip: "p \<noteq> [] \<Longrightarrow> hd p \<notin> set s \<Longrightarrow> contains (s @ t) p \<longleftrightarrow> contains t p"
proof (induction s)
  case (Cons c s)
  then have "\<not> has_prefix (c # s @ t) p" by (cases p) (auto simp: has_prefix_def)
  with Cons show ?case by simp
qed simp

definition letter :: "char \<Rightarrow> bool" where
  "letter c \<longleftrightarrow> c = CHR ''r'' \<or> c = CHR ''c'' \<or> c = CHR ''g''"

lemma digit_not_letter: "d < 10 \<Longrightarrow> \<not> letter (digit d)"
proof
  assume d: "d < 10" and "letter (digit d)"
  then have "of_char (digit d) \<in> {114, 99, 103 :: nat}" by (auto simp: letter_def)
  with d show False by (simp add: of_char_digit)
qed

lemma itoa_no_letter: "c \<in> set (itoa n) \<Longrightarrow> \<not> letter c"
  by (auto dest!: itoa_chars simp: digit_not_letter) (simp add: letter_def)

lemma pad_digits_no_letter: "c \<in> set (pad_digits w n) \<Longrightarrow> \<not> letter c"
  by (induction w n rule: pad_digits.induct) (auto simp: digit_not_letter nat_less_iff)

lemma fmt_frac_no_letter: "c \<in> set (fmt_frac w n) \<Longrightarrow> \<not> letter c"
  using pad_digits_no_letter [of c w n]
  by (auto simp: fmt_frac_def Let_def dest: set_dropWhileD split: if_splits) (simp add: letter_def)

lemma duration_no_letter: "c \<in> set (duration_string d) \<Longrightarrow> \<not> letter c"
proof -
  have "\<not> letter c" if "c \<in> set (duration_abs u)" for u
    using that by (auto simp: duration_abs_def Let_def micro_s_def dest: itoa_no_letter fmt_frac_no_letter split: if_splits)
      (simp_all add: letter_def)
  then show "c \<in> set (duration_string d) \<Longrightarrow> \<not> letter c"
    by (auto simp: duration_string_def split: if_splits) (simp add: letter_def)
qed

lemma emdash_no_letter: "c \<in> set emdash \<Longrightarrow> \<not> letter c"
  by (auto simp: emdash_def letter_def)

lemma number_skip:
  assumes "letter h"
  shows "contains (itoa n @ t) (h # p) \<longleftrightarrow> contains t (h # p)"
    and "contains (duration_string d @ t) (h # p) \<longleftrightarrow> contains t (h # p)"
    and "contains (emdash @ t) (h # p) \<longleftrightarrow> contains t (h # p)"
  using assms itoa_no_letter [of h n] duration_no_letter [of h d] emdash_no_letter [of h]
  by (intro contains_skip; auto)+

lemmas keyword_skip =
  number_skip [of "CHR ''r''", simplified letter_def, simplified]
  number_skip [of "CHR ''c''", simplified letter_def, simplified]
  number_skip [of "CHR ''g''", simplified letter_def, simplified]

definition clean_text :: "string \<Rightarrow> bool" where
  "clean_text m \<longleftrightarrow> \<not> contains m ''read server settings'' \<and> \<not> contains m ''capability-lie''"

lemma clean_hard: "m \<noteq> [] \<Longrightarrow> \<not> has_prefix m ''suspect:'' \<Longrightarrow> clean_text m \<Longrightarrow> ClassifyCellError m = CellDNF"
  by (simp add: ClassifyCellError_def clean_text_def)

lemma clean_interrupted: "clean_text (msg_interrupted i)"
  by (simp add: clean_text_def msg_interrupted_def keyword_skip has_prefix_def)

lemma clean_down: "clean_text (msg_down i)"
  by (simp add: clean_text_def msg_down_def keyword_skip has_prefix_def)

lemma clean_zero: "clean_text (msg_zero i)"
  using number_skip(2) [of "CHR ''r''" "cc_Duration i" "[]"] number_skip(2) [of "CHR ''c''" "cc_Duration i" "[]"]
  by (simp add: clean_text_def msg_zero_def keyword_skip has_prefix_def letter_def)

lemma paren_split:
  "contains (t @ CHR '' '' # CHR ''('' # b) ''read server settings'' \<longleftrightarrow>
     contains t ''read server settings'' \<or> contains b ''read server settings''"
  "contains (t @ CHR '' '' # CHR ''('' # b) ''capability-lie'' \<longleftrightarrow> contains t ''capability-lie'' \<or> contains b ''capability-lie''"
  "contains (t @ CHR '' '' # CHR ''('' # b) ''got high error ratio'' \<longleftrightarrow>
     contains t ''got high error ratio'' \<or> contains b ''got high error ratio''"
  unfolding contains_split [of t] by (auto simp: has_prefix_def Cons_eq_append_conv)

lemma clean_died:
  assumes "clean_text (cc_ProbeErr i)"
  shows "clean_text (msg_died i)"
  using assms
  by (simp add: clean_text_def msg_died_def keyword_skip paren_split has_prefix_def)

text \<open>The message of a capability lie names the scenario and the server; both are single words.\<close>

lemma quoted_split:
  "contains (t @ CHR 0x22 # b) ''read server settings'' \<longleftrightarrow>
     contains t ''read server settings'' \<or> contains b ''read server settings''"
  "contains (t @ CHR 0x22 # b) ''got high error ratio'' \<longleftrightarrow>
     contains t ''got high error ratio'' \<or> contains b ''got high error ratio''"
  unfolding contains_split [of t] by (auto simp: Cons_eq_append_conv)

lemma word_free:
  assumes "CHR '' '' \<notin> set w"
  shows "\<not> contains w ''read server settings''" "\<not> contains w ''got high error ratio''"
  using assms by (auto dest!: contains_set)

lemma lie_status:
  assumes "CHR '' '' \<notin> set (cc_ScenarioName i)" and "CHR '' '' \<notin> set (cc_ServerName i)"
  shows "ClassifyCellError (msg_lie i) = CellNotApplicable"
proof -
  define esc where "esc = concat (map (\<lambda>c. if c = CHR 0x22 \<or> c = CHR 0x5C then [CHR 0x5C, c] else [c]) (cc_ScenarioName i))"
  have esc: "CHR '' '' \<notin> set esc" using assms(1) by (auto simp: esc_def split: if_splits)
  have q: "go_quote (cc_ScenarioName i) = CHR 0x22 # esc @ [CHR 0x22]" by (simp add: go_quote_def esc_def)
  note free = word_free [OF esc] word_free [OF assms(2)]
  have lie: "contains (msg_lie i) ''capability-lie''" by (simp add: msg_lie_def has_prefix_def)
  have "\<not> contains (msg_lie i) ''read server settings''" "\<not> contains (msg_lie i) ''got high error ratio''"
    unfolding msg_lie_def q
    by (cases "cc_Category i"; simp add: keyword_skip quoted_split paren_split has_prefix_def free)+
  with lie show ?thesis
    by (simp add: ClassifyCellError_def) (simp add: msg_lie_def has_prefix_def)
qed

text \<open>What the verdict is meant to publish, over exact counts.\<close>

definition intended_status :: "completed_cell \<Rightarrow> cell_status" where
  "intended_status i =
     (if cc_Interrupted i then CellDNF
      else if cc_Requests i = 0 then
        (if cc_ServerAlive i \<and> \<not> connectClassDominated (cc_Errors i) (cc_ConnectErrors i) \<and> 0 < cc_Errors i \<and>
            capabilityGatedClass (cc_Category i) then CellNotApplicable else CellDNF)
      else if cc_Requests i < cc_Errors i \<and> \<not> cc_ServerAlive i then CellDNF
      else if cc_ErrorBudget i < errorRatio (cc_Requests i) (cc_Errors i) then CellSuspect
      else CellOK)"

lemma errorRatio_half:
  assumes "0 \<le> r" and "0 \<le> e" and "r + e < 2 ^ 53"
  shows "1 / 2 < errorRatio r e \<longleftrightarrow> r < e"
proof (cases "r + e = 0")
  case True
  then show ?thesis using assms by (simp add: errorRatio_def Let_def wrap64_def)
next
  case False
  have "wrap64 (r + e) = r + e" by (rule wrap64_id) (use assms in \<open>simp add: in_int64_def\<close>)
  then have "errorRatio r e = f64 (of_int e / of_int (r + e))"
    using False assms f64_nat [of e] f64_nat [of "r + e"] by (simp add: errorRatio_def Let_def)
  with f64_quotient_half [of e "r + e"] False assms show ?thesis by simp
qed

section \<open>The records of a sweep\<close>

lemma sweep_pass_add:
  "\<exists>rec ws. sweep_pass cfg rps (fr, e) sw = sw_add rec (sw\<lparr>sw_windows := ws\<rparr>) \<and> rp_Fraction rec = fr \<and>
     rp_TargetRPS rec = f64 (rps * fr) \<and>
     (if rp_Status rec = RatedPassOK then rp_Requests rec \<noteq> 0 \<and> 0 < rp_TargetRPS rec
      else rp_P99 rec = 0 \<and> rp_Reason rec \<noteq> '''')"
proof -
  have same: "sw = sw\<lparr>sw_windows := sw_windows sw\<rparr>" by simp
  show ?thesis
  proof (cases "f64 (rps * fr) \<le> 0 \<or> pe_New e \<noteq> None")
    case True
    then show ?thesis
      by (auto simp: sweep_pass_def Let_def blank_pass_def intro!: exI [of _ "sw_windows sw"] split: option.splits)
  next
    case False
    then show ?thesis
      by (auto simp: sweep_pass_def Let_def newRatedPassRecord_def blank_pass_def pass_counts_def pass_verdict_def
          pass_interrupted_def split: option.splits)
  qed
qed

definition sweep_inv :: "rat \<Rightarrow> rat list \<Rightarrow> rated_sweep \<Rightarrow> bool" where
  "sweep_inv rps frs sw \<longleftrightarrow>
     map (\<lambda>r. (rp_Fraction r, rp_TargetRPS r)) (sw_all sw) = map (\<lambda>fr. (fr, f64 (rps * fr))) frs \<and>
     sw_kept sw = filter (\<lambda>r. rp_Status r = RatedPassOK) (sw_all sw) \<and>
     sw_notKept sw = filter (\<lambda>r. rp_Status r \<noteq> RatedPassOK) (sw_all sw) \<and>
     sw_samples sw = map (\<lambda>r. (rp_TargetRPS r, rp_P99 r)) (sw_kept sw) \<and>
     (\<forall>r\<in>set (sw_all sw). if rp_Status r = RatedPassOK then rp_Requests r \<noteq> 0 \<and> 0 < rp_TargetRPS r
        else rp_P99 r = 0 \<and> rp_Reason r \<noteq> '''')"

lemma sweep_inv_step:
  assumes "sweep_inv rps frs sw"
  shows "sweep_inv rps (frs @ [fr]) (sweep_pass cfg rps (fr, e) sw)"
proof -
  obtain rec ws where "sweep_pass cfg rps (fr, e) sw = sw_add rec (sw\<lparr>sw_windows := ws\<rparr>)"
    "rp_Fraction rec = fr" "rp_TargetRPS rec = f64 (rps * fr)"
    "if rp_Status rec = RatedPassOK then rp_Requests rec \<noteq> 0 \<and> 0 < rp_TargetRPS rec else rp_P99 rec = 0 \<and> rp_Reason rec \<noteq> ''''"
    using sweep_pass_add by blast
  with assms show ?thesis by (auto simp: sweep_inv_def sw_add_def Let_def)
qed

lemma sweep_inv_fold:
  assumes "sweep_inv rps frs sw"
  shows "sweep_inv rps (frs @ map fst ps) (fold (sweep_pass cfg rps) ps sw)"
  using assms
proof (induction ps arbitrary: frs sw)
  case (Cons p ps)
  obtain fr e where "p = (fr, e)" by (cases p)
  with Cons.IH [OF sweep_inv_step [OF Cons.prems]] show ?case by simp
qed simp

lemma runRatedSweep_inv: "sweep_inv rps (RatedFractions cfg) (runRatedSweep cfg rps env)"
proof -
  have "sweep_inv rps [] empty_sweep" by (simp add: sweep_inv_def empty_sweep_def)
  from sweep_inv_fold [OF this, of "zip (RatedFractions cfg) (map env [0..<length (RatedFractions cfg)])" cfg]
  show ?thesis by (simp add: runRatedSweep_def)
qed


section \<open>Properties\<close>

text \<open>C32: the verdict on a completed cell publishes the status it means. The status is read back
  from the message by searching keywords in it; for counts below \<open>2 ^ 53\<close>, a probe error that
  contains neither keyword and names without blanks, the status is \<open>intended_status\<close>: \<open>dnf\<close> for a
  cell that was interrupted, served nothing or lost its server with more failures than
  successes, \<open>not_applicable\<close> only for a live server that served a capability-gated scenario
  nothing while accepting connections, \<open>suspect\<close> above the error budget, \<open>ok\<close> otherwise. The hard
  verdicts are exactly those without data.\<close>

theorem verdict_status:
  assumes "0 \<le> cc_Requests i" and "0 \<le> cc_Errors i" and "cc_Requests i + cc_Errors i < 2 ^ 53"
    and "clean_text (cc_ProbeErr i)"
    and "CHR '' '' \<notin> set (cc_ScenarioName i)" and "CHR '' '' \<notin> set (cc_ServerName i)"
  shows "ClassifyCellError (v_ErrMsg (classifyCompletedCell i)) = intended_status i \<and>
    (v_Hard (classifyCompletedCell i) \<longleftrightarrow> \<not> HasData (intended_status i))"
proof -
  have dnf: "ClassifyCellError (msg_interrupted i) = CellDNF" "ClassifyCellError (msg_died i) = CellDNF"
    "ClassifyCellError (msg_down i) = CellDNF" "ClassifyCellError (msg_zero i) = CellDNF"
    using clean_interrupted clean_died [OF assms(4)] clean_down clean_zero
    by (intro clean_hard; simp add: msg_interrupted_def msg_died_def msg_down_def msg_zero_def has_prefix_def)+
  have sus: "ClassifyCellError (msg_suspect i) = CellSuspect"
    by (simp add: msg_suspect_def Let_def ClassifyCellError_def has_prefix_def)
  have ok: "ClassifyCellError [] = CellOK" by (simp add: ClassifyCellError_def)
  have data: "\<not> HasData CellDNF" "\<not> HasData CellNotApplicable" "HasData CellSuspect" "HasData CellOK"
    by (simp_all add: HasData_def)
  have half: "1 / 2 < errorRatio (cc_Requests i) (cc_Errors i) \<longleftrightarrow> cc_Requests i < cc_Errors i"
    by (rule errorRatio_half [OF assms(1-3)])
  show ?thesis
    unfolding classifyCompletedCell_def intended_status_def Let_def half
    by (simp add: dnf sus ok data lie_status [OF assms(5,6)])
qed

definition w_completed :: "int \<Rightarrow> int \<Rightarrow> int \<Rightarrow> bool \<Rightarrow> completed_cell" where
  "w_completed r e ce alive =
     \<lparr>cc_ScenarioName = ''ws-echo'', cc_ServerName = ''axum'', cc_Category = CategoryWS, cc_Requests = r,
      cc_Errors = e, cc_ConnectErrors = ce, cc_Duration = 45 * second, cc_Interrupted = False,
      cc_ServerAlive = alive, cc_ProbeErr = ''dial tcp: connection refused'', cc_ErrorBudget = DefaultErrorBudget\<rparr>"

theorem verdict_status_witness:
  "map (\<lambda>i. ClassifyCellError (v_ErrMsg (classifyCompletedCell i)))
     [w_completed 0 12 0 True, w_completed 0 12 12 True, w_completed 4 12 0 False, w_completed 900 100 0 True] =
   [CellNotApplicable, CellDNF, CellDNF, CellSuspect]"
proof -
  have c: "clean_text (cc_ProbeErr (w_completed r e ce a))" for r e ce a
    by (simp add: w_completed_def clean_text_def has_prefix_def)
  have v: "ClassifyCellError (v_ErrMsg (classifyCompletedCell (w_completed r e ce a))) = intended_status (w_completed r e ce a)"
    if "0 \<le> r" "0 \<le> e" "r + e < 2 ^ 53" for r e ce a
    using verdict_status [of "w_completed r e ce a"] c that by (simp add: w_completed_def)
  have "map intended_status [w_completed 0 12 0 True, w_completed 0 12 12 True, w_completed 4 12 0 False, w_completed 900 100 0 True] =
      [CellNotApplicable, CellDNF, CellDNF, CellSuspect]" by code_simp
  then show ?thesis by (simp add: v)
qed

text \<open>No rated pass is lost. A sweep leaves exactly one record per configured fraction, in
  order, with the target rate computed from it. The kept passes are those that measured requests at
  a positive rate and their samples are what feeds the latency numbers; every other pass carries a
  reason and no latency. For increasing fractions the merge of the two on-disk arrays restores
  the sweep.\<close>

theorem rated_sweep_restored:
  assumes "sorted_wrt (<) (RatedFractions cfg)"
  shows "let sw = runRatedSweep cfg rps env
    in map rp_Fraction (sw_all sw) = RatedFractions cfg \<and>
       map rp_TargetRPS (sw_all sw) = map (\<lambda>fr. f64 (rps * fr)) (RatedFractions cfg) \<and>
       (\<forall>r\<in>set (sw_kept sw). rp_Requests r \<noteq> 0 \<and> 0 < rp_TargetRPS r) \<and>
       (\<forall>r\<in>set (sw_notKept sw). rp_P99 r = 0 \<and> rp_Reason r \<noteq> '''') \<and>
       sw_samples sw = map (\<lambda>r. (rp_TargetRPS r, rp_P99 r)) (sw_kept sw) \<and>
       MergeRatedPassRecords (sw_kept sw) (sw_notKept sw) = sw_all sw"
proof -
  define sw where "sw = runRatedSweep cfg rps env"
  have inv: "sweep_inv rps (RatedFractions cfg) sw" unfolding sw_def by (rule runRatedSweep_inv)
  let ?key = "\<lambda>r. (rp_Fraction r, rp_TargetRPS r)"
  have keys: "map ?key (sw_all sw) = map (\<lambda>fr. (fr, f64 (rps * fr))) (RatedFractions cfg)"
    using inv by (simp add: sweep_inv_def)
  have fr: "map rp_Fraction (sw_all sw) = RatedFractions cfg" "map rp_TargetRPS (sw_all sw) = map (\<lambda>fr. f64 (rps * fr)) (RatedFractions cfg)"
    using arg_cong [OF keys, of "map fst"] arg_cong [OF keys, of "map snd"] by (simp_all add: comp_def)
  have "sorted_wrt (<) (map ?key (sw_all sw))"
    unfolding keys sorted_wrt_map by (rule sorted_wrt_mono_rel [OF _ assms]) (simp add: less_prod_def)
  then have srt: "sorted (map ?key (sw_all sw))" "distinct (map ?key (sw_all sw))"
    by (simp_all add: strict_sorted_iff)
  have "mset (sw_kept sw @ sw_notKept sw) = mset (sw_all sw)" using inv by (simp add: sweep_inv_def)
  moreover from this have "inj_on ?key (set (sw_kept sw @ sw_notKept sw))"
    using srt(2) by (metis distinct_map set_mset_mset)
  ultimately have "sort_key ?key (sw_kept sw @ sw_notKept sw) = sw_all sw"
    by (rule sort_key_inj_key_eq) (use srt in simp)
  then have "MergeRatedPassRecords (sw_kept sw) (sw_notKept sw) = sw_all sw"
    by (auto simp: MergeRatedPassRecords_def)
  with fr inv show ?thesis unfolding sw_def [symmetric] by (simp add: sweep_inv_def Let_def)
qed

definition w_pass :: "nat \<Rightarrow> pass_env" where
  "w_pass n = \<lparr>pe_New = None,
     pe_Result = Some \<lparr>lr_Requests = (if n = 1 then 0 else 500), lr_Errors = 3, lr_ConnectErrors = 0, lr_DialRetries = 0,
       lr_CloseAborts = 0, lr_RequestsPerSec = 50, lr_Duration = 30 * second, lr_P50 = 1, lr_P99 = 2, lr_P999 = 3,
       lr_Max = 4, lr_Histogram = '''', lr_LoadgenVersion = ''v1''\<rparr>,
     pe_Err = (if n = 3 then Some ''reset'' else None), pe_Cancelled = False, pe_Start = 0, pe_End = 1\<rparr>"

theorem rated_sweep_restored_witness:
  "let sw = runRatedSweep DefaultConfig 100 w_pass
   in MergeRatedPassRecords (sw_kept sw) (sw_notKept sw) = sw_all sw \<and> length (sw_all sw) = 4 \<and>
      map rp_Status (sw_all sw) = [RatedPassOK, RatedPassSkipped, RatedPassOK, RatedPassSkipped]"
proof -
  have s: "sorted_wrt (<) (RatedFractions DefaultConfig)" by (simp add: DefaultConfig_def)
  have "map rp_Status (sw_all (runRatedSweep DefaultConfig 100 w_pass)) =
      [RatedPassOK, RatedPassSkipped, RatedPassOK, RatedPassSkipped]" by code_simp
  moreover from arg_cong [OF this, of length] have "length (sw_all (runRatedSweep DefaultConfig 100 w_pass)) = 4" by simp
  ultimately show ?thesis using rated_sweep_restored [OF s, of 100 w_pass] by (simp add: Let_def)
qed

end
