(* ===== verification/CellRun.thy ===== *)
theory CellRun
  imports RunPlan CellVerdict
begin

text \<open>
  One benchmark cell and the run: \<open>executeCell\<close>, the cell loop of \<open>run\<close>, and \<open>run\<close> as a whole with
  every error return, in \<open>src/cmd/runner/main.go\<close>.

  What the outside answers a cell (directory creation, TCP dials, the adapter process, the
  client lock, the load generator, clocks, cancellation) is a record of values, one field per
  question in the order the code asks; the definitions are functions of it. Counting file
  descriptors and the log lines are left out.

  The lemmas: a cell returns no error exactly when it is published with data, after a run the
  results directory makes a resume run exactly the unfinished cells again, and the reasons for
  which a run returns an error are exactly the ones listed.
\<close>


section \<open>One cell\<close>

text \<open>The per-cell file: the fields a resume reads, and the rest.\<close>

record cell_run_file = cell_result_file +
  f_Category :: category
  f_TargetAddr :: string
  f_Result :: "lg_result option"
  f_HistogramB64 :: string
  f_SaturationModeRPS :: rat
  f_RatedPasses :: "rated_pass list"
  f_RatedPassesNotKept :: "rated_pass list"
  f_LoadClass :: "client_load option"
  f_ClientLockWait :: duration
  f_PassWindows :: "pass_window list"

datatype lock_answer = LockRefused bool string | LockHeld

text \<open>What a cell meets, in the order it asks. \<open>e_HostPort\<close> is the dialable address of the
  \<open>-target\<close> URL; the \<open>dial\<close> fields answer one liveness probe each; the flag of a refused lock
  says that the wait was cancelled; \<open>e_Cancelled\<close> says that the run was cancelled by the time the
  saturation pass returned; \<open>e_Written\<close> that the per-cell file reached the disk.\<close>

record cell_env =
  e_Mkdir :: "string option"
  e_HostPort :: "string option"
  e_PreDial :: "nat \<Rightarrow> string option"
  e_FreePort :: "string + string"
  e_StartAdapter :: "string option"
  e_WaitForTCP :: "string option"
  e_Lock :: lock_answer
  e_LockWait :: duration
  e_LockDial :: "nat \<Rightarrow> string option"
  e_New :: "string option"
  e_Run :: "run_error_info + lg_result option"
  e_SatStart :: int
  e_SatEnd :: int
  e_PostDial :: "nat \<Rightarrow> string option"
  e_Cancelled :: bool
  e_Rated :: "nat \<Rightarrow> pass_env"
  e_Written :: bool

type_synonym outcome = "(lg_result, rated_pass) cell_outcome"

definition zero_outcome :: outcome where
  "zero_outcome = \<lparr>o_Result = None, o_HistogramB64 = '''', o_RatedSamples = [], o_RatedPasses = [],
     o_Status = '''', o_ErrorMsg = ''''\<rparr>"

definition new_cell_file :: "cell \<Rightarrow> cell_run_file" where
  "new_cell_file cell =
     \<lparr>f_RunIdx = RunIdx cell, f_ScenarioName = sc_name (c_Scenario cell), f_ServerName = srv_Name (c_Server cell),
      f_Error = '''', f_Status = '''', f_Category = sc_category (c_Scenario cell), f_TargetAddr = '''',
      f_Result = None, f_HistogramB64 = '''', f_SaturationModeRPS = 0, f_RatedPasses = [],
      f_RatedPassesNotKept = [], f_LoadClass = None, f_ClientLockWait = 0, f_PassWindows = []\<rparr>"

text \<open>The first part of \<open>executeCell\<close> finds the server: the error message with the returned error,
  or the address the later probes dial.\<close>

definition reach_server :: "runner_config \<Rightarrow> cell_env \<Rightarrow> (string \<times> string) + string option" where
  "reach_server cfg e =
     (if Target cfg \<noteq> '''' then
        (case e_HostPort e of
           None \<Rightarrow> Inr None
         | Some addr \<Rightarrow>
             (case probeSUT (e_PreDial e) of
                Some perr \<Rightarrow> (let m = ''server-down: pre-cell probe: '' @ perr in Inl (m, m))
              | None \<Rightarrow> Inr (Some addr)))
      else
        (case e_FreePort e of
           Inl err \<Rightarrow> Inl (''free port: '' @ err, err)
         | Inr bindAddr \<Rightarrow>
             (case e_StartAdapter e of
                Some err \<Rightarrow> Inl (''adapter start: '' @ err, err)
              | None \<Rightarrow>
                  (case e_WaitForTCP e of
                     Some err \<Rightarrow> Inl (''ready-check: '' @ err, err)
                   | None \<Rightarrow> Inr (Some bindAddr)))))"

definition target_addr :: "runner_config \<Rightarrow> cell_env \<Rightarrow> string" where
  "target_addr cfg e =
     (if Target cfg \<noteq> '''' then Target cfg else case e_FreePort e of Inr bindAddr \<Rightarrow> bindAddr | Inl _ \<Rightarrow> '''')"

definition reprobeAfterLockWait :: duration where
  "reprobeAfterLockWait = 5 * second"

text \<open>The lock step: \<open>None\<close> when the cell may drive load.\<close>

definition cell_lock :: "cell_env \<Rightarrow> string option \<Rightarrow> (string \<times> string) option" where
  "cell_lock e probeAddr =
     (case e_Lock e of
        LockRefused cancelled lerr \<Rightarrow>
          Some ((if cancelled then ''interrupted: '' else ''client-lock: '') @ lerr, lerr)
      | LockHeld \<Rightarrow>
          if 0 < e_LockWait e \<and> reprobeAfterLockWait \<le> e_LockWait e \<and> probeAddr \<noteq> None
          then (case probeSUT (e_LockDial e) of
                  Some perr \<Rightarrow>
                    (let m = ''server-down: probe after the client-lock wait: '' @ perr in Some (m, m))
                | None \<Rightarrow> None)
          else None)"

definition completed_of :: "cell \<Rightarrow> cell_env \<Rightarrow> string option \<Rightarrow> lg_result \<Rightarrow> completed_cell" where
  "completed_of cell e probeAddr res =
     (let i = \<lparr>cc_ScenarioName = sc_name (c_Scenario cell), cc_ServerName = srv_Name (c_Server cell),
               cc_Category = sc_category (c_Scenario cell), cc_Requests = lr_Requests res,
               cc_Errors = lr_Errors res, cc_ConnectErrors = lr_ConnectErrors res,
               cc_Duration = lr_Duration res, cc_Interrupted = e_Cancelled e, cc_ServerAlive = True,
               cc_ProbeErr = '''', cc_ErrorBudget = ErrorBudgetFor (c_Scenario cell)\<rparr>
      in if \<not> cc_Interrupted i \<and> probeAddr \<noteq> None \<and>
            (cc_Requests i = 0 \<or> 1 / 2 < errorRatio (cc_Requests i) (cc_Errors i))
         then (case probeSUT (e_PostDial e) of
                 Some perr \<Rightarrow> i\<lparr>cc_ServerAlive := False, cc_ProbeErr := perr\<rparr>
               | None \<Rightarrow> i)
         else i)"

text \<open>The rated half of a cell whose saturation pass came back clean.\<close>

definition rate_cell ::
  "runner_config \<Rightarrow> cell \<Rightarrow> cell_env \<Rightarrow> lg_result \<Rightarrow> cell_run_file \<times> outcome \<Rightarrow> cell_run_file \<times> outcome" where
  "rate_cell cfg cell e res = (\<lambda>(f, oc).
     let i = sc_name (c_Scenario cell) @ ''/'' @ srv_Name (c_Server cell)
     in if ratesCell cfg i \<and> 0 < lr_RequestsPerSec res then
          (let sw = runRatedSweep cfg (lr_RequestsPerSec res) (e_Rated e)
           in (f\<lparr>f_SaturationModeRPS := lr_RequestsPerSec res, f_RatedPasses := sw_kept sw,
                 f_RatedPassesNotKept := sw_notKept sw, f_PassWindows := f_PassWindows f @ sw_windows sw\<rparr>,
               oc\<lparr>o_RatedSamples := sw_samples sw, o_RatedPasses := sw_all sw\<rparr>))
        else if ratesCell cfg i then
          (let ps = notRunRatedPasses cfg ''no_saturation_rate'' ''the saturation pass measured no requests per second''
           in (f\<lparr>f_RatedPassesNotKept := ps\<rparr>, oc\<lparr>o_RatedPasses := ps\<rparr>))
        else (f, oc))"

text \<open>The cell after a load generator run that returned a result.\<close>

definition judge_cell ::
  "runner_config \<Rightarrow> cell \<Rightarrow> cell_env \<Rightarrow> string option \<Rightarrow> lg_result \<Rightarrow> cell_run_file \<Rightarrow>
   cell_run_file \<times> outcome \<times> string option" where
  "judge_cell cfg cell e probeAddr res f =
     (let oc = zero_outcome\<lparr>o_Result := Some res, o_HistogramB64 := lr_Histogram res\<rparr>;
          f = f\<lparr>f_Result := Some res, f_HistogramB64 := lr_Histogram res\<rparr>;
          v = classifyCompletedCell (completed_of cell e probeAddr res);
          i = sc_name (c_Scenario cell) @ ''/'' @ srv_Name (c_Server cell)
      in if v_ErrMsg v \<noteq> '''' then
           (let f = f\<lparr>f_Error := v_ErrMsg v\<rparr>
            in if v_Hard v then (f, oc, Some (v_ErrMsg v))
               else if ratesCell cfg i then
                 (let ps = notRunRatedPasses cfg ''cell_flagged'' (v_ErrMsg v)
                  in (f\<lparr>f_RatedPassesNotKept := ps\<rparr>, oc\<lparr>o_RatedPasses := ps\<rparr>, None))
               else (f, oc, None))
         else
           (let (f, oc) = rate_cell cfg cell e res (f, oc) in (f, oc, None)))"

definition cell_body :: "runner_config \<Rightarrow> cell \<Rightarrow> cell_env \<Rightarrow> cell_run_file \<times> outcome \<times> string option" where
  "cell_body cfg cell e =
     (let f = (new_cell_file cell)\<lparr>f_TargetAddr := target_addr cfg e\<rparr>
      in case reach_server cfg e of
           Inl (m, err) \<Rightarrow> (f\<lparr>f_Error := m\<rparr>, zero_outcome, Some err)
         | Inr probeAddr \<Rightarrow>
       (let f = f\<lparr>f_LoadClass := Some (ClientLoadOf (sc_name (c_Scenario cell))),
                  f_ClientLockWait := (case e_Lock e of LockRefused _ _ \<Rightarrow> e_LockWait e
                                       | LockHeld \<Rightarrow> if 0 < e_LockWait e then e_LockWait e else 0)\<rparr>
        in case cell_lock e probeAddr of
             Some (m, err) \<Rightarrow> (f\<lparr>f_Error := m\<rparr>, zero_outcome, Some err)
           | None \<Rightarrow>
         (case e_New e of
            Some err \<Rightarrow> (f\<lparr>f_Error := ''loadgen.New: '' @ err\<rparr>, zero_outcome, Some err)
          | None \<Rightarrow>
            (let f = f\<lparr>f_PassWindows := [\<lparr>pw_Kind = ''saturation'', pw_TargetRPS = 0,
                         pw_Start = e_SatStart e, pw_End = e_SatEnd e\<rparr>]\<rparr>
             in case e_Run e of
                  Inl err \<Rightarrow>
                    (let m = loadgenRunCellError err probeAddr (e_PostDial e)
                     in (f\<lparr>f_Error := m\<rparr>, zero_outcome, Some m))
                | Inr None \<Rightarrow>
                    (let m = ''loadgen.Run: returned nil result'' in (f\<lparr>f_Error := m\<rparr>, zero_outcome, Some m))
                | Inr (Some res) \<Rightarrow> judge_cell cfg cell e probeAddr res f))))"

record cell_exec =
  x_Out :: outcome
  x_Err :: "string option"
  x_File :: "cell_run_file option"

text \<open>\<open>executeCell\<close>: the deferred function classifies the recorded error and writes the file.\<close>

definition executeCell :: "runner_config \<Rightarrow> cell \<Rightarrow> cell_env \<Rightarrow> cell_exec" where
  "executeCell cfg cell e =
     (case e_Mkdir e of
        Some m \<Rightarrow>
          \<lparr>x_Out = zero_outcome\<lparr>o_Status := CellDNF, o_ErrorMsg := m\<rparr>, x_Err = Some m, x_File = None\<rparr>
      | None \<Rightarrow>
          (let (f, oc, err) = cell_body cfg cell e;
               f = f\<lparr>f_Status := ClassifyCellError (f_Error f)\<rparr>
           in \<lparr>x_Out = oc\<lparr>o_Status := f_Status f, o_ErrorMsg := f_Error f\<rparr>, x_Err = err, x_File = Some f\<rparr>))"

section \<open>The cell loop\<close>

record drain_doc =
  dd_CellsGlob :: string
  dd_Remaining :: "(int \<times> string \<times> string) list"

definition acknowledgeDrain :: "cell list \<Rightarrow> drain_doc" where
  "acknowledgeDrain remaining =
     \<lparr>dd_CellsGlob = cellsGlob (map (\<lambda>c. sc_name (c_Scenario c) @ ''/'' @ srv_Name (c_Server c)) remaining),
      dd_Remaining = map (\<lambda>c. (RunIdx c, sc_name (c_Scenario c), srv_Name (c_Server c))) remaining\<rparr>"

text \<open>One iteration meets the drain sentinel, the cancellation of the run, and the cell itself.\<close>

record iter_env =
  it_Drain :: bool
  it_Cancelled :: bool
  it_Cell :: cell_env

record loop_result =
  ls_Dir :: fs_dir
  ls_Sink :: "(lg_result, rated_pass) results_sink"
  ls_Drained :: "drain_doc option"
  ls_FirstErr :: "string option"

definition loop_start :: loop_result where
  "loop_start = \<lparr>ls_Dir = [], ls_Sink = newResultsSink, ls_Drained = None, ls_FirstErr = None\<rparr>"

definition interrupt_rest :: "runner_config \<Rightarrow> cell list \<Rightarrow> loop_result \<Rightarrow> loop_result" where
  "interrupt_rest cfg cells s =
     (let (dir, sink) = markCellsInterrupted cells (RatedMode cfg) (ls_Dir s, ls_Sink s)
      in s\<lparr>ls_Dir := dir, ls_Sink := sink\<rparr>)"

definition store_cell :: "cell_env \<Rightarrow> cell_exec \<Rightarrow> fs_dir \<Rightarrow> fs_dir" where
  "store_cell e x dir =
     (case x_File x of
        Some f \<Rightarrow> if e_Written e then write_cell (cell_result_file.truncate f) dir else dir
      | None \<Rightarrow> dir)"

fun cell_loop :: "runner_config \<Rightarrow> (cell \<times> iter_env) list \<Rightarrow> loop_result \<Rightarrow> loop_result" where
  "cell_loop cfg [] s = s"
| "cell_loop cfg ((cell, it) # rest) s =
     (if it_Drain it then
        interrupt_rest cfg (cell # map fst rest)
          (s\<lparr>ls_Drained := Some (acknowledgeDrain (cell # map fst rest))\<rparr>)
      else if it_Cancelled it then interrupt_rest cfg (cell # map fst rest) s
      else
        (let x = executeCell cfg cell (it_Cell it);
             s = s\<lparr>ls_Dir := store_cell (it_Cell it) x (ls_Dir s),
                   ls_Sink := recordRun cell (x_Out x) (RatedMode cfg) (ls_Sink s)\<rparr>
         in case x_Err x of
              Some cerr \<Rightarrow>
                if FailFast cfg
                then s\<lparr>ls_FirstErr := Some (''fail-fast: '' @ sc_name (c_Scenario cell) @ ''/'' @
                       srv_Name (c_Server cell) @ '': '' @ cerr)\<rparr>
                else cell_loop cfg rest s
            | None \<Rightarrow> cell_loop cfg rest s))"

text \<open>The tail of \<open>run\<close>: \<open>reportErr\<close> and \<open>manifestErr\<close> are what writing the reports and the manifest
  returned.\<close>

definition run_schedule ::
  "runner_config \<Rightarrow> (cell \<times> iter_env) list \<Rightarrow> string option \<Rightarrow> string option \<Rightarrow> loop_result \<times> string option" where
  "run_schedule cfg its reportErr manifestErr =
     (if DryRun cfg then (loop_start, None)
      else if its = [] then (loop_start, manifestErr)
      else
        (let s = cell_loop cfg its loop_start
         in (s, case reportErr of
                  Some err \<Rightarrow> Some (''write reports: '' @ err)
                | None \<Rightarrow>
                    (case manifestErr of
                       Some err \<Rightarrow> Some (''write manifest: '' @ err)
                     | None \<Rightarrow> ls_FirstErr s))))"


text \<open>\<open>run\<close> as a whole. The world answers what is outside: creating the output directory, starting
  and seeding the docker services, what each turn of the loop meets, and writing the reports and
  the manifest. \<open>service_plan\<close> is the part of the planning that precedes the services.\<close>

record run_world =
  rw_Mkdir :: "string option"
  rw_Start :: "string list \<Rightarrow> string option"
  rw_Seed :: "string option"
  rw_Iter :: "nat \<Rightarrow> iter_env"
  rw_Reports :: "string option"
  rw_Manifest :: "string option"

datatype run_failure =
    PlanFailed run_error | MkdirFailed string | StartFailed string | SeedFailed string | RunFailed string

definition service_plan :: "scenario gomap \<Rightarrow> adapter gomap \<Rightarrow> string \<Rightarrow> runner_config \<Rightarrow> run_error + string list" where
  "service_plan scReg adReg bb cfg =
     (case filterCells (Registry scReg) (plan_columns adReg bb cfg) (Cells cfg) of
        Inl g \<Rightarrow> Inl (BadCells g)
      | Inr (effSc, _) \<Rightarrow>
          if Services cfg \<noteq> ''none'' \<and> Services cfg \<noteq> ''local'' \<and> Services cfg \<noteq> ''''
          then Inl (BadServices (Services cfg))
          else Inr (if Services cfg = ''none'' then [] else requiredServiceKinds effSc))"

definition start_services :: "run_world \<Rightarrow> runner_config \<Rightarrow> string list \<Rightarrow> run_failure option" where
  "start_services w cfg kinds =
     (if DryRun cfg \<or> kinds = [] then None
      else case rw_Start w kinds of
             Some e \<Rightarrow> Some (StartFailed e)
           | None \<Rightarrow> map_option SeedFailed (rw_Seed w))"

definition run_turns :: "run_world \<Rightarrow> cell list \<Rightarrow> (cell \<times> iter_env) list" where
  "run_turns w schedule = zip schedule (map (rw_Iter w) [0..<length schedule])"

definition run_main ::
  "scenario gomap \<Rightarrow> adapter gomap \<Rightarrow> string \<Rightarrow> string \<Rightarrow> read_err + fs_dir \<Rightarrow> run_world \<Rightarrow> runner_config \<Rightarrow>
   loop_result \<times> run_failure option" where
  "run_main scReg adReg br bb dir w cfg =
     (case parseCellGlob (RatedCells cfg) of
        Inl g \<Rightarrow> (loop_start, Some (PlanFailed (BadRatedCells g)))
      | Inr _ \<Rightarrow>
     (case (if DryRun cfg then None else rw_Mkdir w) of
        Some e \<Rightarrow> (loop_start, Some (MkdirFailed e))
      | None \<Rightarrow>
     (case service_plan scReg adReg bb cfg of
        Inl e \<Rightarrow> (loop_start, Some (PlanFailed e))
      | Inr kinds \<Rightarrow>
     (case start_services w cfg kinds of
        Some e \<Rightarrow> (loop_start, Some e)
      | None \<Rightarrow>
     (case plan_run scReg adReg br bb dir cfg of
        Inl e \<Rightarrow> (loop_start, Some (PlanFailed e))
      | Inr (plan, cfg') \<Rightarrow>
          if ResumeFrom cfg \<noteq> '''' \<and> p_Schedule plan = [] then (loop_start, None)
          else (case run_schedule cfg' (run_turns w (p_Schedule plan)) (rw_Reports w) (rw_Manifest w) of
                  (s, err) \<Rightarrow> (s, map_option RunFailed err)))))))"


section \<open>What a cell returns\<close>

lemma ClassifyCellError_prefix:
  assumes "\<not> has_prefix m ''suspect:''" and "m \<noteq> ''''"
  shows "ClassifyCellError m = CellDNF \<or> ClassifyCellError m = CellNotApplicable"
  using assms by (simp add: ClassifyCellError_def)

lemma ClassifyCellError_suspect: "has_prefix m ''suspect:'' \<Longrightarrow> ClassifyCellError m = CellSuspect"
  by (cases m) (simp_all add: ClassifyCellError_def has_prefix_def)

definition hard_message :: "string \<Rightarrow> bool" where
  "hard_message m \<longleftrightarrow> m \<noteq> '''' \<and> \<not> has_prefix m ''suspect:''"

lemma hard_messages:
  "hard_message (''server-down: pre-cell probe: '' @ e)" "hard_message (''free port: '' @ e)"
  "hard_message (''adapter start: '' @ e)" "hard_message (''ready-check: '' @ e)"
  "hard_message (''interrupted: '' @ e)" "hard_message (''client-lock: '' @ e)"
  "hard_message (''server-down: probe after the client-lock wait: '' @ e)"
  "hard_message (''loadgen.New: '' @ e)" "hard_message (''loadgen.Run: returned nil result'')"
  "hard_message (loadgenRunCellError err probeAddr dial)"
  "hard_message (msg_interrupted i)" "hard_message (msg_died i)" "hard_message (msg_down i)"
  "hard_message (msg_lie i)" "hard_message (msg_zero i)"
  by (simp_all add: hard_message_def has_prefix_def loadgenRunCellError_def Let_def msg_interrupted_def msg_died_def
      msg_down_def msg_lie_def msg_zero_def)

lemma verdict_cases:
  "v_ErrMsg (classifyCompletedCell i) = '''' \<and> cc_Requests i \<noteq> 0 \<or>
   v_Hard (classifyCompletedCell i) \<and> hard_message (v_ErrMsg (classifyCompletedCell i)) \<or>
   \<not> v_Hard (classifyCompletedCell i) \<and> has_prefix (v_ErrMsg (classifyCompletedCell i)) ''suspect:'' \<and>
     cc_Requests i \<noteq> 0"
proof -
  have "has_prefix (msg_suspect i) ''suspect:''" by (simp add: msg_suspect_def Let_def has_prefix_def)
  then show ?thesis by (simp add: classifyCompletedCell_def Let_def hard_messages)
qed

text \<open>The contract of the body: it names its own cell, and it returns no error exactly when its
  error text classifies as a status with data, in which case it carries a measurement.\<close>

definition body_ok :: "cell \<Rightarrow> cell_run_file \<times> outcome \<times> string option \<Rightarrow> bool" where
  "body_ok cell b =
     (case b of (f, oc, err) \<Rightarrow>
        f_RunIdx f = RunIdx cell \<and> f_ScenarioName f = sc_name (c_Scenario cell) \<and>
        f_ServerName f = srv_Name (c_Server cell) \<and>
        (case err of
           Some _ \<Rightarrow> hard_message (f_Error f)
         | None \<Rightarrow> (f_Error f = '''' \<or> has_prefix (f_Error f) ''suspect:'') \<and>
             (\<exists>res. o_Result oc = Some res \<and> f_Result f = Some res \<and> lr_Requests res \<noteq> 0)))"

lemma new_cell_file_fields [simp]:
  "f_RunIdx (new_cell_file c) = RunIdx c" "f_ScenarioName (new_cell_file c) = sc_name (c_Scenario c)"
  "f_ServerName (new_cell_file c) = srv_Name (c_Server c)" "f_Error (new_cell_file c) = ''''"
  by (simp_all add: new_cell_file_def)

lemma completed_of_Requests [simp]: "cc_Requests (completed_of cell e probeAddr res) = lr_Requests res"
  by (simp add: completed_of_def Let_def split: option.splits)

lemma rate_cell_fields:
  assumes "rate_cell cfg cell e res (f, oc) = (f', oc')"
  shows "f_RunIdx f' = f_RunIdx f \<and> f_ScenarioName f' = f_ScenarioName f \<and> f_ServerName f' = f_ServerName f \<and>
    f_Error f' = f_Error f \<and> f_Result f' = f_Result f \<and> o_Result oc' = o_Result oc"
  using assms by (auto simp: rate_cell_def Let_def split: if_splits)

lemma judge_cell_ok:
  assumes "f_RunIdx f = RunIdx cell" "f_ScenarioName f = sc_name (c_Scenario cell)"
    "f_ServerName f = srv_Name (c_Server cell)" "f_Error f = ''''"
  shows "body_ok cell (judge_cell cfg cell e probeAddr res f)"
proof -
  let ?v = "classifyCompletedCell (completed_of cell e probeAddr res)"
  show ?thesis
  proof (cases "v_ErrMsg ?v = ''''")
    case True
    then have "lr_Requests res \<noteq> 0"
      using verdict_cases [of "completed_of cell e probeAddr res"]
      by (auto simp: hard_message_def has_prefix_def)
    with True assms show ?thesis
      by (auto simp: judge_cell_def Let_def body_ok_def zero_outcome_def split: prod.splits dest!: rate_cell_fields)
  next
    case False
    with verdict_cases [of "completed_of cell e probeAddr res"] assms show ?thesis
      by (auto simp: judge_cell_def Let_def body_ok_def zero_outcome_def)
  qed
qed

lemma reach_server_hard: "reach_server cfg e = Inl (m, err) \<Longrightarrow> hard_message m"
  by (auto simp: reach_server_def Let_def hard_message_def has_prefix_def split: if_splits option.splits sum.splits)

lemma cell_lock_hard: "cell_lock e a = Some (m, err) \<Longrightarrow> hard_message m"
  by (auto simp: cell_lock_def Let_def hard_message_def has_prefix_def split: if_splits option.splits lock_answer.splits)

lemma cell_body_ok: "body_ok cell (cell_body cfg cell e)"
proof (cases "reach_server cfg e")
  case (Inl p)
  then obtain m err where "reach_server cfg e = Inl (m, err)" by (cases p) auto
  then show ?thesis
    using reach_server_hard [of cfg e m err] by (simp add: cell_body_def Let_def body_ok_def)
next
  case (Inr probeAddr)
  show ?thesis
  proof (cases "cell_lock e probeAddr")
    case (Some p)
    then obtain m err where "cell_lock e probeAddr = Some (m, err)" by (cases p) auto
    with Inr show ?thesis
      using cell_lock_hard [of e probeAddr m err] by (simp add: cell_body_def Let_def body_ok_def)
  next
    case None
    have lit: "hard_message (''loadgen.New: '' @ err)" "hard_message ''loadgen.Run: returned nil result''" for err
      by (rule hard_messages)+
    show ?thesis
    proof (cases "e_New e")
      case (Some err)
      with Inr None lit(1) [of err] show ?thesis
        by (simp add: cell_body_def Let_def body_ok_def)
    next
      case new: None
      show ?thesis
      proof (cases "e_Run e")
        case (Inl err)
        with Inr None new hard_messages(10) [of err probeAddr "e_PostDial e"] show ?thesis
          by (simp add: cell_body_def Let_def body_ok_def)
      next
        case run: (Inr r)
        show ?thesis
        proof (cases r)
          case None
          with Inr \<open>cell_lock e probeAddr = None\<close> new run lit(2) show ?thesis
            by (simp add: cell_body_def Let_def body_ok_def)
        next
          case (Some res)
          with Inr None new run show ?thesis
            by (simp add: cell_body_def Let_def judge_cell_ok)
        qed
      qed
    qed
  qed
qed

lemma ClassifyCellError_Nil [simp]: "ClassifyCellError [] = CellOK"
  by (simp add: ClassifyCellError_def)

lemma body_ok_data:
  assumes "body_ok cell (f, oc, err)"
  shows "err = None \<longleftrightarrow> HasData (ClassifyCellError (f_Error f))"
proof (cases err)
  case None
  with assms show ?thesis by (auto simp: body_ok_def HasData_def ClassifyCellError_suspect)
next
  case (Some e)
  with assms have "hard_message (f_Error f)" by (simp add: body_ok_def)
  then have "ClassifyCellError (f_Error f) = CellDNF \<or> ClassifyCellError (f_Error f) = CellNotApplicable"
    by (intro ClassifyCellError_prefix) (simp_all add: hard_message_def)
  moreover have "\<not> HasData CellDNF" "\<not> HasData CellNotApplicable" by (simp_all add: HasData_def)
  ultimately show ?thesis using Some by auto
qed

lemma executeCell_file:
  assumes "x_File (executeCell cfg cell e) = Some f"
  shows "cell_result_file.truncate f = cell_file cell (o_ErrorMsg (x_Out (executeCell cfg cell e))) \<and>
    o_Status (x_Out (executeCell cfg cell e)) = ClassifyCellError (o_ErrorMsg (x_Out (executeCell cfg cell e))) \<and>
    f_Status f = o_Status (x_Out (executeCell cfg cell e)) \<and> e_Mkdir e = None"
proof -
  obtain f' oc err where b: "cell_body cfg cell e = (f', oc, err)" by (cases "cell_body cfg cell e")
  with cell_body_ok [of cell cfg e] have "f_RunIdx f' = RunIdx cell" "f_ScenarioName f' = sc_name (c_Scenario cell)"
    "f_ServerName f' = srv_Name (c_Server cell)" by (auto simp: body_ok_def)
  with assms b show ?thesis
    by (auto simp: executeCell_def Let_def cell_file_def cell_result_file.defs split: option.splits)
qed

lemma executeCell_mkdir:
  "x_File (executeCell cfg cell e) = None \<Longrightarrow> o_Status (x_Out (executeCell cfg cell e)) = CellDNF"
  by (auto simp: executeCell_def Let_def split: option.splits prod.splits)


section \<open>What the loop records\<close>

definition interrupted_outcome :: "('r, 'p) cell_outcome" where
  "interrupted_outcome = \<lparr>o_Result = None, o_HistogramB64 = '''', o_RatedSamples = [], o_RatedPasses = [],
     o_Status = CellDNF, o_ErrorMsg = interrupted_reason\<rparr>"

text \<open>The recorded cells in order: outcome, and whether a file was written.\<close>

fun run_trace :: "runner_config \<Rightarrow> (cell \<times> iter_env) list \<Rightarrow> (cell \<times> outcome \<times> bool) list" where
  "run_trace cfg [] = []"
| "run_trace cfg ((cell, it) # rest) =
     (if it_Drain it \<or> it_Cancelled it then map (\<lambda>c. (c, interrupted_outcome, True)) (cell # map fst rest)
      else
        (let x = executeCell cfg cell (it_Cell it)
         in (cell, x_Out x, x_File x \<noteq> None \<and> e_Written (it_Cell it)) #
            (if x_Err x \<noteq> None \<and> FailFast cfg then [] else run_trace cfg rest)))"

definition trace_events :: "(cell \<times> outcome \<times> bool) list \<Rightarrow> (cell \<times> outcome) list" where
  "trace_events tr = map (\<lambda>(c, out, w). (c, out)) tr"

definition trace_writes :: "(cell \<times> outcome \<times> bool) list \<Rightarrow> (cell \<times> string) list" where
  "trace_writes tr = map (\<lambda>(c, out, w). (c, o_ErrorMsg out)) (filter (\<lambda>(c, out, w). w) tr)"

lemma trace_simps [simp]:
  "trace_events [] = []" "trace_events ((c, out, w) # tr) = (c, out) # trace_events tr"
  "trace_writes [] = []" "trace_writes ((c, out, w) # tr) = (if w then [(c, o_ErrorMsg out)] else []) @ trace_writes tr"
  by (simp_all add: trace_events_def trace_writes_def)

lemma write_all_simps [simp]:
  "write_all [] es = es" "write_all ((c, e) # ws) es = write_all ws (write_cell (cell_file c e) es)"
  by (simp_all add: write_all_def)

lemma markCellsInterrupted_eq:
  "markCellsInterrupted cells rated (es, s) =
     (write_all (map (\<lambda>c. (c, interrupted_reason)) cells) es,
      fold (\<lambda>(c, out). recordRun c out rated) (map (\<lambda>c. (c, interrupted_outcome)) cells) s)"
proof (induction cells arbitrary: es s)
  case (Cons c cells)
  have "markCellsInterrupted (c # cells) rated (es, s) =
      markCellsInterrupted cells rated (writeSkippedCellFile c interrupted_reason es, recordRun c interrupted_outcome rated s)"
    by (simp add: markCellsInterrupted_def interrupted_outcome_def)
  with Cons.IH show ?case by (simp add: writeSkippedCellFile_def)
qed (simp add: markCellsInterrupted_def)

lemma trace_interrupted:
  "trace_events (map (\<lambda>c. (c, interrupted_outcome, True)) cells) = map (\<lambda>c. (c, interrupted_outcome)) cells"
  "trace_writes (map (\<lambda>c. (c, interrupted_outcome, True)) cells) = map (\<lambda>c. (c, interrupted_reason)) cells"
  by (simp_all add: trace_events_def trace_writes_def filter_map comp_def interrupted_outcome_def)

lemma interrupt_rest_eq:
  "ls_Dir (interrupt_rest cfg cells s) = write_all (map (\<lambda>c. (c, interrupted_reason)) cells) (ls_Dir s)"
  "ls_Sink (interrupt_rest cfg cells s) =
     fold (\<lambda>(c, out). recordRun c out (RatedMode cfg)) (map (\<lambda>c. (c, interrupted_outcome)) cells) (ls_Sink s)"
  by (simp_all add: interrupt_rest_def markCellsInterrupted_eq)

lemma store_cell_eq:
  "store_cell e (executeCell cfg cell e) dir =
     (if x_File (executeCell cfg cell e) \<noteq> None \<and> e_Written e
      then write_cell (cell_file cell (o_ErrorMsg (x_Out (executeCell cfg cell e)))) dir else dir)"
  by (auto simp: store_cell_def dest: executeCell_file split: option.splits)

lemma cell_loop_trace:
  "ls_Dir (cell_loop cfg its s) = write_all (trace_writes (run_trace cfg its)) (ls_Dir s) \<and>
   ls_Sink (cell_loop cfg its s) =
     fold (\<lambda>(c, out). recordRun c out (RatedMode cfg)) (trace_events (run_trace cfg its)) (ls_Sink s)"
proof (induction cfg its s rule: cell_loop.induct)
  case (2 cfg cell it rest s)
  show ?case
  proof (cases "it_Drain it \<or> it_Cancelled it")
    case True
    then have "run_trace cfg ((cell, it) # rest) = map (\<lambda>c. (c, interrupted_outcome, True)) (cell # map fst rest)"
      by simp
    with True show ?thesis
      by (simp only: cell_loop.simps trace_interrupted interrupt_rest_eq if_split) (simp add: interrupt_rest_eq, blast)
  next
    case False
    let ?x = "executeCell cfg cell (it_Cell it)"
    let ?s = "s\<lparr>ls_Dir := store_cell (it_Cell it) ?x (ls_Dir s), ls_Sink := recordRun cell (x_Out ?x) (RatedMode cfg) (ls_Sink s)\<rparr>"
    show ?thesis
    proof (cases "x_Err ?x \<noteq> None \<and> FailFast cfg")
      case True
      with False show ?thesis by (auto simp: Let_def store_cell_eq)
    next
      case go: False
      then have r: "cell_loop cfg ((cell, it) # rest) s = cell_loop cfg rest ?s"
        using False by (auto simp: Let_def split: option.splits)
      have "ls_Dir (cell_loop cfg rest ?s) = write_all (trace_writes (run_trace cfg rest)) (ls_Dir ?s) \<and>
        ls_Sink (cell_loop cfg rest ?s) =
          fold (\<lambda>(c, out). recordRun c out (RatedMode cfg)) (trace_events (run_trace cfg rest)) (ls_Sink ?s)"
        using False go 2 by (cases "x_Err ?x") auto
      with False go show ?thesis unfolding r by (auto simp: Let_def store_cell_eq)
    qed
  qed
qed simp

lemma run_trace_cells:
  "map fst (run_trace cfg its) = take (length (run_trace cfg its)) (map fst its)"
  by (induction cfg its rule: run_trace.induct) (auto simp: Let_def comp_def)

lemma run_trace_complete: "\<not> FailFast cfg \<Longrightarrow> map fst (run_trace cfg its) = map fst its"
  by (induction cfg its rule: run_trace.induct) (auto simp: Let_def comp_def)

lemma run_trace_status:
  assumes "(c, out, True) \<in> set (run_trace cfg its)"
  shows "o_Status out = ClassifyCellError (o_ErrorMsg out)"
  using assms
proof (induction cfg its rule: run_trace.induct)
  case (2 cfg cell it rest)
  have i: "o_Status interrupted_outcome = ClassifyCellError (o_ErrorMsg interrupted_outcome)" by code_simp
  show ?case
  proof (cases "it_Drain it \<or> it_Cancelled it")
    case True
    with 2(2) i show ?thesis by auto
  next
    case False
    with 2 show ?thesis by (auto simp: Let_def dest: executeCell_file split: if_splits)
  qed
qed simp

lemma last_error_distinct:
  assumes "distinct (map (\<lambda>(c, e). schedule_key c) ws)"
  shows "last_error ws c = Some e \<longleftrightarrow> (\<exists>c'. (c', e) \<in> set ws \<and> schedule_key c' = schedule_key c)"
proof -
  have "map fst (rev (map (\<lambda>(c, e). (schedule_key c, e)) ws)) = rev (map (\<lambda>(c, e). schedule_key c) ws)"
    by (simp add: rev_map case_prod_beta comp_def)
  then have "distinct (map fst (rev (map (\<lambda>(c, e). (schedule_key c, e)) ws)))" using assms by simp
  then show ?thesis unfolding last_error_def by (simp add: map_of_eq_Some_iff) force
qed

lemma trace_writes_keys:
  assumes "distinct (map schedule_key (map fst its))"
  shows "distinct (map (\<lambda>(c, e). schedule_key c) (trace_writes (run_trace cfg its)))"
proof -
  have "map schedule_key (map fst (run_trace cfg its)) = take (length (run_trace cfg its)) (map schedule_key (map fst its))"
    by (subst run_trace_cells) (simp only: take_map)
  then have "distinct (map (schedule_key \<circ> fst) (run_trace cfg its))"
    using assms by (simp add: distinct_take)
  then have "distinct (map (schedule_key \<circ> fst) (filter (\<lambda>(c, out, w). w) (run_trace cfg its)))"
    by (rule distinct_map_filter)
  then show ?thesis by (simp add: trace_writes_def comp_def case_prod_beta)
qed

lemma loop_error_iff:
  assumes "ls_FirstErr s = None"
  shows "ls_FirstErr (cell_loop cfg its s) \<noteq> None \<longleftrightarrow>
    FailFast cfg \<and> (\<exists>(c, it)\<in>set (takeWhile (\<lambda>(c, it). \<not> it_Drain it \<and> \<not> it_Cancelled it) its).
      x_Err (executeCell cfg c (it_Cell it)) \<noteq> None)"
  using assms
proof (induction cfg its s rule: cell_loop.induct)
  case (2 cfg cell it rest s)
  have mark: "ls_FirstErr (interrupt_rest cfg cells r) = ls_FirstErr r" for cells r
    by (simp add: interrupt_rest_def split: prod.splits)
  show ?case
  proof (cases "it_Drain it \<or> it_Cancelled it")
    case True
    with 2(3) show ?thesis by (auto simp: mark)
  next
    case False
    with 2 show ?thesis by (cases "x_Err (executeCell cfg cell (it_Cell it))") (auto simp: Let_def)
  qed
qed simp


section \<open>Properties\<close>

text \<open>C33: a benchmark cell is published with data exactly when it ran without an error. Whatever
  the directory, the server, the client lock and the load generator answer, \<open>executeCell\<close> returns
  no error if and only if the status it reports is one with data; in that case the outcome carries
  a load generator result with a non-zero request count. The status is the classification of the
  reported error text, and the file it writes names the same cell, error and status.\<close>

theorem executeCell_sound:
  "let x = executeCell cfg cell e; out = x_Out x
   in (x_Err x = None \<longleftrightarrow> HasData (o_Status out)) \<and>
      (x_Err x = None \<longrightarrow> (\<exists>res. o_Result out = Some res \<and> lr_Requests res \<noteq> 0)) \<and>
      (case x_File x of
         None \<Rightarrow> o_Status out = CellDNF
       | Some f \<Rightarrow> cell_result_file.truncate f = cell_file cell (o_ErrorMsg out) \<and> f_Status f = o_Status out)"
proof (cases "e_Mkdir e")
  case (Some m)
  have "\<not> HasData CellDNF" by (simp add: HasData_def)
  with Some show ?thesis by (simp add: executeCell_def Let_def)
next
  case None
  obtain f oc err where b: "cell_body cfg cell e = (f, oc, err)" by (cases "cell_body cfg cell e")
  then have ok: "body_ok cell (f, oc, err)" using cell_body_ok by metis
  let ?f = "f\<lparr>f_Status := ClassifyCellError (f_Error f)\<rparr>"
  have x: "executeCell cfg cell e =
      \<lparr>x_Out = oc\<lparr>o_Status := ClassifyCellError (f_Error f), o_ErrorMsg := f_Error f\<rparr>, x_Err = err, x_File = Some ?f\<rparr>"
    using None b by (simp add: executeCell_def Let_def)
  have "err = None \<Longrightarrow> \<exists>res. o_Result oc = Some res \<and> lr_Requests res \<noteq> 0"
    using ok by (auto simp: body_ok_def)
  moreover have "cell_result_file.truncate ?f = cell_file cell (f_Error f)"
    using executeCell_file [of cfg cell e ?f] unfolding x by simp
  ultimately show ?thesis using body_ok_data [OF ok] by (simp add: Let_def x)
qed

definition w_env :: cell_env where
  "w_env = \<lparr>e_Mkdir = None, e_HostPort = None, e_PreDial = (\<lambda>_. None), e_FreePort = Inr ''127.0.0.1:1'',
     e_StartAdapter = None, e_WaitForTCP = None, e_Lock = LockHeld, e_LockWait = 0, e_LockDial = (\<lambda>_. None),
     e_New = None,
     e_Run = Inr (Some \<lparr>lr_Requests = 900, lr_Errors = 100, lr_ConnectErrors = 0, lr_DialRetries = 0,
       lr_CloseAborts = 0, lr_RequestsPerSec = 20, lr_Duration = 45 * second, lr_P50 = 1, lr_P99 = 2, lr_P999 = 3,
       lr_Max = 4, lr_Histogram = '''', lr_LoadgenVersion = ''v1''\<rparr>),
     e_SatStart = 0, e_SatEnd = 45 * second, e_PostDial = (\<lambda>_. None), e_Cancelled = False,
     e_Rated = (\<lambda>_. \<lparr>pe_New = None, pe_Result = None, pe_Err = None, pe_Cancelled = False, pe_Start = 0, pe_End = 0\<rparr>),
     e_Written = True\<rparr>"

theorem executeCell_sound_witness:
  "x_Err (executeCell DefaultConfig w_run_cell w_env) = None \<and>
   o_Status (x_Out (executeCell DefaultConfig w_run_cell w_env)) = CellSuspect \<and>
   (\<exists>res. o_Result (x_Out (executeCell DefaultConfig w_run_cell w_env)) = Some res \<and> lr_Requests res \<noteq> 0)"
proof -
  have s: "o_Status (x_Out (executeCell DefaultConfig w_run_cell w_env)) = CellSuspect" by code_simp
  then have "HasData (o_Status (x_Out (executeCell DefaultConfig w_run_cell w_env)))" by (simp add: HasData_def)
  with s executeCell_sound [of DefaultConfig w_run_cell w_env] show ?thesis by (auto simp: Let_def)
qed

text \<open>C31: a run and its resume agree. Into an empty results directory, over a schedule with
  pairwise different keys, the loop records each scheduled cell exactly once and in order, unless
  \<open>-fail-fast\<close> cut it short; what it hands to the results sink is the recorded outcome; and a
  resume from the directory drops exactly the cells whose recorded outcome is not \<open>dnf\<close> and whose
  file reached the disk. Cells that a drain, a cancellation or the fail-fast stop left unrun are
  therefore all run again.\<close>

theorem run_then_resume:
  assumes "\<forall>(c, it)\<in>set its. wf_cell c" and "distinct (map schedule_key (map fst its))"
  shows "let s = cell_loop cfg its loop_start; tr = run_trace cfg its
    in ls_Sink s = record_all (RatedMode cfg) (trace_events tr) \<and>
       (\<exists>n. map fst tr = take n (map fst its) \<and> (\<not> FailFast cfg \<longrightarrow> n = length its)) \<and>
       dropCompletedCells (map fst its) (Inr (ls_Dir s)) =
         Inr (filter (\<lambda>c. \<not> (\<exists>out. (c, out, True) \<in> set tr \<and> o_Status out \<noteq> CellDNF)) (map fst its))"
proof -
  let ?tr = "run_trace cfg its" and ?dir = "ls_Dir (cell_loop cfg its loop_start)"
  have dir: "?dir = write_all (trace_writes ?tr) []"
    using cell_loop_trace [of cfg its loop_start] by (simp add: loop_start_def)
  have sink: "ls_Sink (cell_loop cfg its loop_start) = record_all (RatedMode cfg) (trace_events ?tr)"
    using cell_loop_trace [of cfg its loop_start] by (simp add: loop_start_def record_all_def)
  have n: "map fst ?tr = take (length ?tr) (map fst its)" by (rule run_trace_cells)
  have len: "length ?tr = length its" if "\<not> FailFast cfg"
    using run_trace_complete [OF that, of its] by (metis length_map)
  have sub: "set (map fst ?tr) \<subseteq> set (map fst its)" by (subst n) (rule set_take_subset)
  have wf: "\<forall>(c, e)\<in>set (trace_writes ?tr). wf_cell c"
    using assms(1) sub by (force simp: trace_writes_def)
  have key: "schedule_key c \<notin> set (completedCells ?dir) \<longleftrightarrow>
      \<not> (\<exists>out. (c, out, True) \<in> set ?tr \<and> o_Status out \<noteq> CellDNF)" if "c \<in> set (map fst its)" for c
  proof -
    have inj: "c' = c" if "c' \<in> set (map fst ?tr)" "schedule_key c' = schedule_key c" for c'
    proof -
      have "inj_on schedule_key (set (map fst its))" using assms(2) by (simp only: distinct_map)
      moreover have "c' \<in> set (map fst its)" using that(1) sub by blast
      ultimately show ?thesis using that(2) \<open>c \<in> set (map fst its)\<close> by (meson inj_onD)
    qed
    have "schedule_key c \<in> set (completedCells ?dir) \<longleftrightarrow>
        (\<exists>e c'. (c', e) \<in> set (trace_writes ?tr) \<and> schedule_key c' = schedule_key c \<and> ClassifyCellError e \<noteq> CellDNF)"
      unfolding dir using write_all_completed [OF wf] last_error_distinct [OF trace_writes_keys [OF assms(2)]] by auto
    also have "\<dots> \<longleftrightarrow> (\<exists>out. (c, out, True) \<in> set ?tr \<and> ClassifyCellError (o_ErrorMsg out) \<noteq> CellDNF)"
      using inj by (force simp: trace_writes_def)
    also have "\<dots> \<longleftrightarrow> (\<exists>out. (c, out, True) \<in> set ?tr \<and> o_Status out \<noteq> CellDNF)"
      using run_trace_status by metis
    finally show ?thesis by blast
  qed
  have "dropCompletedCells (map fst its) (Inr ?dir) =
      Inr (filter (\<lambda>c. \<not> (\<exists>out. (c, out, True) \<in> set ?tr \<and> o_Status out \<noteq> CellDNF)) (map fst its))"
    unfolding dropCompletedCells_def Let_def sum.case by (intro arg_cong [where f = Inr] filter_cong refl key)
  with sink n len show ?thesis unfolding Let_def by blast
qed

definition w_iter :: "bool \<Rightarrow> cell_env \<Rightarrow> iter_env" where
  "w_iter drain e = \<lparr>it_Drain = drain, it_Cancelled = False, it_Cell = e\<rparr>"

definition w_its :: "(cell \<times> iter_env) list" where
  "w_its = [(w_cell 0 ''a'' ''x'', w_iter False w_env),
     (w_cell 0 ''b'' ''x'', w_iter False (w_env\<lparr>e_StartAdapter := Some ''exit status 1''\<rparr>)),
     (w_cell 0 ''c'' ''x'', w_iter True w_env), (w_cell 0 ''d'' ''x'', w_iter False w_env)]"

theorem run_then_resume_witness:
  "dropCompletedCells (map fst w_its) (Inr (ls_Dir (cell_loop DefaultConfig w_its loop_start))) =
     Inr [w_cell 0 ''b'' ''x'', w_cell 0 ''c'' ''x'', w_cell 0 ''d'' ''x''] \<and>
   map (\<lambda>(c, out, w). o_Status out) (run_trace DefaultConfig w_its) = [CellSuspect, CellDNF, CellDNF, CellDNF]"
proof -
  have wf: "\<forall>(c, it)\<in>set w_its. wf_cell c"
    by (simp add: w_its_def w_cell_def wf_cell_def in_int64_def)
  have d: "distinct (map schedule_key (map fst w_its))" by code_simp
  have st: "map (\<lambda>(c, out, w). (c, o_Status out, w)) (run_trace DefaultConfig w_its) =
      [(w_cell 0 ''a'' ''x'', CellSuspect, True), (w_cell 0 ''b'' ''x'', CellDNF, True),
       (w_cell 0 ''c'' ''x'', CellDNF, True), (w_cell 0 ''d'' ''x'', CellDNF, True)]" (is "map ?f _ = ?r")
    by code_simp
  have mem: "(\<exists>out. (c, out, True) \<in> set (run_trace DefaultConfig w_its) \<and> o_Status out \<noteq> CellDNF) \<longleftrightarrow>
      (\<exists>st. (c, st, True) \<in> set ?r \<and> st \<noteq> CellDNF)" for c
    unfolding st [symmetric] by force
  have "filter (\<lambda>c. \<not> (\<exists>st. (c, st, True) \<in> set ?r \<and> st \<noteq> CellDNF)) (map fst w_its) =
      [w_cell 0 ''b'' ''x'', w_cell 0 ''c'' ''x'', w_cell 0 ''d'' ''x'']"
    by (simp add: w_its_def w_cell_def)
  moreover have "map (\<lambda>(c, out, w). o_Status out) (run_trace DefaultConfig w_its) = map (\<lambda>(c, s, w). s) ?r"
    unfolding st [symmetric] by (simp add: comp_def case_prod_beta)
  ultimately show ?thesis
    using run_then_resume [OF wf d, of DefaultConfig] unfolding Let_def mem by simp
qed

lemma plan_run_services:
  assumes "plan_run scReg adReg br bb dir cfg = Inr (plan, cfg')"
  shows "\<exists>rated. parseCellGlob (RatedCells cfg) = Inr rated \<and>
    service_plan scReg adReg bb cfg = Inr (p_Services plan) \<and> DryRun cfg' = DryRun cfg \<and> FailFast cfg' = FailFast cfg"
proof -
  define c where "c = (if br = ''1'' \<or> br = ''true'' then cfg\<lparr>RatedMode := True\<rparr> else cfg)"
  have ps: "remoteServerName c = remoteServerName cfg" "RatedCells c = RatedCells cfg" "Target c = Target cfg"
    "Cells c = Cells cfg" "Services c = Services cfg" "DryRun c = DryRun cfg" "FailFast c = FailFast cfg"
    by (simp_all add: c_def remoteServerName_def)
  obtain effSc effAdv where f: "filterCells (Registry scReg) (plan_columns adReg bb cfg) (Cells cfg) = Inr (effSc, effAdv)"
    using plan_run_cases [OF assms] unfolding plan_columns_def by blast
  have run: "plan_run scReg adReg br bb dir cfg = Inr (plan, cfg')" by (rule assms)
  note run = run [unfolded plan_run_def Let_def, folded c_def, unfolded ps, folded plan_columns_def, unfolded f]
  obtain rated where r: "parseCellGlob (RatedCells cfg) = Inr rated" using run by (auto split: sum.splits)
  have s: "\<not> (Services cfg \<noteq> ''none'' \<and> Services cfg \<noteq> ''local'' \<and> Services cfg \<noteq> '''')"
    using run r by (auto split: if_splits)
  show ?thesis
    using run r s ps(6,7) unfolding service_plan_def f
    by (simp split: sum.splits if_splits prod.splits) auto
qed

text \<open>C39: what the exit of a run says. Whatever the registries, the environment, the resume
  directory, the flags and the outside world are, \<open>run\<close> returns an error if and only if the
  planning fails (a bad glob, order, service or lock flag, an unreadable resume directory), or
  the run is not a dry run and one of these happened: the output directory could not be made,
  the services it needs did not start or seed, the manifest could not be written, the reports of
  a non-empty schedule could not be written, or \<open>-fail-fast\<close> is set and some cell it came to before
  a drain or a cancellation failed. A resume that has nothing left to run stops before the last
  three. So without \<open>-fail-fast\<close> no failed cell shows in the exit, however many failed.\<close>

theorem run_exit_iff:
  "snd (run_main scReg adReg br bb dir w cfg) \<noteq> None \<longleftrightarrow>
    (case plan_run scReg adReg br bb dir cfg of
       Inl _ \<Rightarrow> True
     | Inr (plan, cfg') \<Rightarrow> \<not> DryRun cfg \<and>
         (rw_Mkdir w \<noteq> None \<or>
          p_Services plan \<noteq> [] \<and> (rw_Start w (p_Services plan) \<noteq> None \<or> rw_Seed w \<noteq> None) \<or>
          \<not> (ResumeFrom cfg \<noteq> '''' \<and> p_Schedule plan = []) \<and>
            (rw_Manifest w \<noteq> None \<or> p_Schedule plan \<noteq> [] \<and>
              (rw_Reports w \<noteq> None \<or>
               FailFast cfg \<and> (\<exists>(c, it)\<in>set (takeWhile (\<lambda>(c, it). \<not> it_Drain it \<and> \<not> it_Cancelled it)
                   (run_turns w (p_Schedule plan))). x_Err (executeCell cfg' c (it_Cell it)) \<noteq> None)))))"
proof (cases "plan_run scReg adReg br bb dir cfg")
  case (Inl e)
  then show ?thesis by (simp add: run_main_def split: sum.splits option.splits)
next
  case (Inr pc)
  obtain plan cfg' where pc: "pc = (plan, cfg')" by (cases pc)
  note pl = Inr [unfolded pc]
  obtain rated where r: "parseCellGlob (RatedCells cfg) = Inr rated"
    and k: "service_plan scReg adReg bb cfg = Inr (p_Services plan)"
    and f: "DryRun cfg' = DryRun cfg" "FailFast cfg' = FailFast cfg"
    using plan_run_services [OF pl] by blast
  have turns: "run_turns w (p_Schedule plan) = [] \<longleftrightarrow> p_Schedule plan = []"
    by (cases "p_Schedule plan") (simp_all add: run_turns_def upt_rec)
  show ?thesis
  proof (cases "DryRun cfg")
    case True
    with pl r k f show ?thesis by (simp add: run_main_def start_services_def run_schedule_def)
  next
    case False
    have e: "snd (run_schedule cfg' (run_turns w (p_Schedule plan)) (rw_Reports w) (rw_Manifest w)) \<noteq> None \<longleftrightarrow>
        rw_Manifest w \<noteq> None \<or> p_Schedule plan \<noteq> [] \<and> (rw_Reports w \<noteq> None \<or> FailFast cfg' \<and>
          (\<exists>(c, it)\<in>set (takeWhile (\<lambda>(c, it). \<not> it_Drain it \<and> \<not> it_Cancelled it) (run_turns w (p_Schedule plan))).
            x_Err (executeCell cfg' c (it_Cell it)) \<noteq> None))"
      using False f loop_error_iff [of loop_start cfg' "run_turns w (p_Schedule plan)"] turns
      by (auto simp: run_schedule_def Let_def loop_start_def split: option.splits)
    have s: "start_services w cfg (p_Services plan) = None \<longleftrightarrow>
        \<not> (p_Services plan \<noteq> [] \<and> (rw_Start w (p_Services plan) \<noteq> None \<or> rw_Seed w \<noteq> None))"
      using False by (auto simp: start_services_def split: option.splits)
    show ?thesis
      using e s False pl r k f
      by (auto simp: run_main_def case_prod_beta split: option.splits)
  qed
qed

definition w_run_world :: run_world where
  "w_run_world = \<lparr>rw_Mkdir = None, rw_Start = (\<lambda>_. None), rw_Seed = None,
     rw_Iter = (\<lambda>i. w_iter (i = 3) (w_env\<lparr>e_StartAdapter := Some ''exit status 1''\<rparr>)),
     rw_Reports = None, rw_Manifest = None\<rparr>"

definition w_run :: "bool \<Rightarrow> loop_result \<times> run_failure option" where
  "w_run failFast = run_main [(''get-json'', hd (filter (\<lambda>s. sc_name s = ''get-json'') scenario_init))]
     [(a_Name (hd main_adapters), hd main_adapters)] '''' '''' (Inl NotExist) w_run_world
     (DefaultConfig\<lparr>FailFast := failFast\<rparr>)"

theorem run_exit_iff_witness: "snd (w_run False) = None \<and> snd (w_run True) \<noteq> None"
proof -
  have "\<not> snd (w_run False) \<noteq> None" unfolding w_run_def run_exit_iff by code_simp
  moreover have "snd (w_run True) \<noteq> None" unfolding w_run_def run_exit_iff by code_simp
  ultimately show ?thesis by blast
qed

end
