(* ===== verification/Budget.thy ===== *)
theory Budget
  imports RunPlan GoFloat
begin

text \<open>
  The wall-clock model of a cluster benchmark, \<open>src/budget/budget.go\<close> and \<open>profiles.go\<close>: what a
  profile costs, whether it fits a window, and the profiles with their pinned cell counts.

  Products of durations wrap as in Go; the lock overhead is the one \<open>float64\<close> computation.

  The lemmas: the pinned counts are those of the schedule the planning theories compute from the
  registries, the rated globs select exactly the rated rows, and which profiles fit the 24 hour
  window under which lock policy.
\<close>


section \<open>The cost of a profile\<close>

definition Budget_limit :: duration where "Budget_limit = 24 * hour"
definition PerCellOverhead :: duration where "PerCellOverhead = 12 * second"
definition defaultCooldown :: duration where "defaultCooldown = 5 * second"
definition DefaultRatedPasses :: int where "DefaultRatedPasses = 4"

record profile =
  pf_Name :: string
  pf_Cells :: int
  pf_Duration :: duration
  pf_Warmup :: duration
  pf_Cooldown :: duration
  pf_Runs :: int
  pf_Arches :: int
  pf_ArchParallel :: bool
  pf_ArchExclusion :: string
  pf_RatedCells :: int
  pf_RatedPasses :: int
  pf_RatedDuration :: duration
  pf_Globs :: "string list"
  pf_RatedGlobs :: "string list"

definition arches :: "profile \<Rightarrow> int" where
  "arches p = (if pf_Arches p < 1 then 1 else pf_Arches p)"

definition PerCell :: "profile \<Rightarrow> duration" where
  "PerCell p = wrap64 (pf_Warmup p + pf_Duration p + pf_Cooldown p + PerCellOverhead)"

definition ratedSweep :: "int \<Rightarrow> duration \<Rightarrow> duration \<Rightarrow> duration" where
  "ratedSweep passes warmup ratedDuration = wrap64 (passes * (warmup + ratedDuration))"

definition perRatedCell :: "profile \<Rightarrow> duration" where
  "perRatedCell p = ratedSweep (pf_RatedPasses p) (pf_Warmup p) (pf_RatedDuration p)"

definition Saturation :: "profile \<Rightarrow> duration" where
  "Saturation p = wrap64 (pf_Cells p * pf_Runs p * PerCell p * arches p)"

definition Rated :: "profile \<Rightarrow> duration" where
  "Rated p = (if pf_RatedCells p = 0 \<or> pf_RatedPasses p = 0 then 0
     else wrap64 (pf_RatedCells p * pf_Runs p * perRatedCell p * arches p))"

definition ArchLockOverheadHeavy :: rat where "ArchLockOverheadHeavy = f64 (14 / 100)"
definition ArchLockOverheadAll :: rat where "ArchLockOverheadAll = 1"

definition archLockOverhead :: "string \<Rightarrow> rat" where
  "archLockOverhead policy =
     (if policy = ''heavy'' then ArchLockOverheadHeavy else if policy = ''all'' then ArchLockOverheadAll else 0)"

text \<open>\<open>time.Duration(x)\<close> of a \<open>float64\<close> inside the range truncates.\<close>

definition duration_of :: "rat \<Rightarrow> duration" where
  "duration_of q = (if q < 0 then - \<lfloor>- q\<rfloor> else \<lfloor>q\<rfloor>)"

definition WallClock :: "profile \<Rightarrow> duration" where
  "WallClock p =
     (let total = wrap64 (Saturation p + Rated p)
      in if pf_ArchParallel p \<and> pf_Arches p = 2
         then let total = quot total 2
              in wrap64 (total + duration_of (f64 (f64 (of_int total) * archLockOverhead (pf_ArchExclusion p))))
         else total)"

definition ColumnWallClock :: "int \<Rightarrow> int \<Rightarrow> duration \<Rightarrow> duration \<Rightarrow> duration \<Rightarrow> duration" where
  "ColumnWallClock scenarios ratedPasses warmup dur ratedDuration =
     (let scenarios = (if scenarios < 1 then 1 else scenarios);
          per = warmup + dur + defaultCooldown + PerCellOverhead;
          per = (if ratedPasses > 0 then per + ratedSweep ratedPasses warmup ratedDuration else per)
      in wrap64 (scenarios * per))"


section \<open>The fit\<close>

text \<open>\<open>Duration.Round\<close>, halves away from zero.\<close>

definition duration_round :: "duration \<Rightarrow> duration \<Rightarrow> duration" where
  "duration_round d m =
     (if d < 0
      then let r = (- d) mod m in if 2 * r < m then d + r else d - m + r
      else let r = d mod m in if 2 * r < m then d - r else d + m - r)"

definition fitLabel :: "bool \<Rightarrow> string" where
  "fitLabel fit = (if fit then ''fits'' else ''OVER BUDGET'')"

definition plural :: "int \<Rightarrow> string" where
  "plural n = (if n = 1 then '''' else ''es'')"

definition show_bool :: "bool \<Rightarrow> string" where
  "show_bool b = (if b then ''true'' else ''false'')"

definition newline :: string where "newline = [CHR 0x0A]"

definition FitWithin :: "profile \<Rightarrow> duration \<Rightarrow> string \<times> bool" where
  "FitWithin p limit =
     (let mins = (\<lambda>d. duration_string (duration_round d minute)); secs = (\<lambda>d. duration_string (duration_round d second));
          wc = WallClock p; fit = (wc \<le> limit);
          log = ''budget fit for profile '' @ go_quote (pf_Name p) @ '' ('' @ itoa (pf_Cells p) @ '' cells, ''
            @ itoa (pf_RatedCells p) @ '' rated cells, '' @ itoa (arches p) @ '' arch'' @ plural (arches p)
            @ '', parallel='' @ show_bool (pf_ArchParallel p) @ '', arch lock='' @ go_quote (pf_ArchExclusion p) @ ''):'' @ newline
            @ ''  per-cell='' @ secs (PerCell p) @ '' rated-per-cell='' @ secs (perRatedCell p) @ '' budget=''
            @ duration_string limit @ newline
            @ ''  saturation='' @ mins (Saturation p) @ '' rated='' @ mins (Rated p) @ '' total='' @ mins wc @ '' (''
            @ fitLabel fit @ '')'' @ newline
      in if fit
         then (log @ ''  fits: total='' @ mins wc @ '' headroom='' @ mins (limit - wc) @ newline, True)
         else (log @ ''  NO FIT: the single-pass config overflows the '' @ duration_string limit
                 @ '' budget; caller must fail loudly'' @ newline, False))"


section \<open>The profiles\<close>

definition RatedScenarios :: "string list" where
  "RatedScenarios = [''get-json'', ''post-4k'', ''churn-close'',
     ''driver-pg-read'', ''driver-pg-write'', ''driver-pg-update-tx'', ''driver-pg-read-range'',
     ''driver-redis-get'', ''driver-redis-set'', ''driver-redis-pipeline'',
     ''driver-mc-get'', ''driver-mc-set'', ''driver-mc-multiget'', ''driver-session-rw'', ''ws-echo'']"

definition FullRealizedCells :: int where "FullRealizedCells = 813"
definition HeadlineRealizedCells :: int where "HeadlineRealizedCells = FullRealizedCells"
definition HeadlineRatedRealizedCells :: int where "HeadlineRatedRealizedCells = 401"
definition FullRatedRealizedCells :: int where "FullRatedRealizedCells = 401"
definition BaselineRealizedCells :: int where "BaselineRealizedCells = 222"
definition BaselineRatedRealizedCells :: int where "BaselineRatedRealizedCells = 120"
definition FastRealizedCells :: int where "FastRealizedCells = 813"

definition ratedGlobs :: "string list" where
  "ratedGlobs = map (\<lambda>s. s @ ''/*'') RatedScenarios"

definition HeadlineWeekly :: profile where
  "HeadlineWeekly = \<lparr>pf_Name = ''headline'', pf_Cells = HeadlineRealizedCells, pf_Duration = 40 * second,
     pf_Warmup = 12 * second, pf_Cooldown = defaultCooldown, pf_Runs = 1, pf_Arches = 1, pf_ArchParallel = True,
     pf_ArchExclusion = '''', pf_RatedCells = HeadlineRatedRealizedCells, pf_RatedPasses = 4,
     pf_RatedDuration = 20 * second, pf_Globs = [''*/*''], pf_RatedGlobs = ratedGlobs\<rparr>"

definition Fast :: profile where
  "Fast = \<lparr>pf_Name = ''fast'', pf_Cells = FastRealizedCells, pf_Duration = 35 * second,
     pf_Warmup = 10 * second, pf_Cooldown = defaultCooldown, pf_Runs = 1, pf_Arches = 1, pf_ArchParallel = True,
     pf_ArchExclusion = '''', pf_RatedCells = 0, pf_RatedPasses = 0, pf_RatedDuration = 0,
     pf_Globs = [''*/*''], pf_RatedGlobs = []\<rparr>"

definition Full :: profile where
  "Full = \<lparr>pf_Name = ''full'', pf_Cells = FullRealizedCells, pf_Duration = 90 * second,
     pf_Warmup = 20 * second, pf_Cooldown = defaultCooldown, pf_Runs = 1, pf_Arches = 1, pf_ArchParallel = True,
     pf_ArchExclusion = '''', pf_RatedCells = FullRatedRealizedCells, pf_RatedPasses = 4,
     pf_RatedDuration = 30 * second, pf_Globs = [''*/*''], pf_RatedGlobs = ratedGlobs\<rparr>"

definition WithBaseline :: "profile \<Rightarrow> profile" where
  "WithBaseline p =
     (let p = p\<lparr>pf_Cells := pf_Cells p + BaselineRealizedCells\<rparr>
      in if pf_RatedCells p > 0 then p\<lparr>pf_RatedCells := pf_RatedCells p + BaselineRatedRealizedCells\<rparr> else p)"

definition ForProfile :: "string \<Rightarrow> profile" where
  "ForProfile name =
     (let n = to_lower (trim_space name)
      in if n = ''fast'' \<or> n = '''' then Fast
         else if n = ''full'' then Full
         else if n = ''headline'' then HeadlineWeekly
         else Fast)"

definition RatedGlob :: "profile \<Rightarrow> string" where "RatedGlob p = join (pf_RatedGlobs p) '',''"
definition RatedCellsGlob :: string where "RatedCellsGlob = join ratedGlobs '',''"
definition CellsGlob_of :: "profile \<Rightarrow> string" where "CellsGlob_of p = join (pf_Globs p) '',''"


section \<open>The rated rows\<close>

lemma rated_scenarios_safe:
  assumes "s \<in> set RatedScenarios"
  shows "plain s" and "glob_safe s" and "s \<noteq> []" and "CHR ''/'' \<notin> set s"
proof -
  have "list_all (\<lambda>s. glob_safe s \<and> s \<noteq> [] \<and> list_all (\<lambda>c. c \<noteq> CHR ''/'') s) RatedScenarios" by code_simp
  then have "glob_safe s \<and> s \<noteq> [] \<and> CHR ''/'' \<notin> set s" using assms by (auto simp: list_all_iff)
  then show "plain s" "glob_safe s" "s \<noteq> []" "CHR ''/'' \<notin> set s" by (simp_all add: glob_safe_def)
qed

lemma parse_rated_glob: "parseCellGlob RatedCellsGlob = Inr (ratedGlobs, [])"
proof -
  have g: "\<exists>s. g = (s @ ''/'') @ ''*'' \<and> plain (s @ ''/'') \<and> s \<noteq> [] \<and> (\<forall>c\<in>set g. c \<noteq> CHR '','' \<and> c \<noteq> CHR ''!'' \<and> \<not> is_space c)"
    if g: "g \<in> set ratedGlobs" for g
  proof -
    obtain s where s: "s \<in> set RatedScenarios" "g = s @ ''/*''" using g by (auto simp: ratedGlobs_def)
    note safe = rated_scenarios_safe [OF s(1)]
    then have "\<forall>c\<in>set g. c \<noteq> CHR '','' \<and> c \<noteq> CHR ''!'' \<and> \<not> is_space c"
      using s(2) by (auto simp: glob_safe_def is_space_def)
    moreover have "plain (s @ ''/'')" using safe(1) by simp
    ultimately show ?thesis using s(2) safe(3) by auto
  qed
  have nn: "ratedGlobs \<noteq> []" by (simp add: ratedGlobs_def RatedScenarios_def)
  have sp: "split_on (CHR '','') (join ratedGlobs '','') = ratedGlobs"
    using g nn by (intro split_on_join) blast
  have tr: "map trim_space ratedGlobs = ratedGlobs" using g by (intro map_idI trim_space_id) blast
  have ne: "filter (\<lambda>p. p \<noteq> []) ratedGlobs = ratedGlobs" using g by (fastforce simp: filter_id_conv)
  have bang: "\<not> has_prefix w ''!''" if "w \<in> set ratedGlobs" for w
    using g [OF that] by (cases w) (auto simp: has_prefix_def)
  have inc: "filter (\<lambda>p. \<not> has_prefix p ''!'') ratedGlobs = ratedGlobs" using bang by (auto simp: filter_id_conv)
  have exc: "filter (\<lambda>p. has_prefix p ''!'') ratedGlobs = []" using bang by (auto simp: filter_empty_conv)
  have ok: "find (\<lambda>g. Match g ''probe/probe'' = None) ratedGlobs = None"
    unfolding find_None_iff
  proof safe
    fix x assume "x \<in> set ratedGlobs" and "Match x ''probe/probe'' = None"
    then show False using g [of x] Match_prefix_star by (metis append_is_Nil_conv option.distinct(1))
  qed
  show ?thesis
    unfolding parseCellGlob_def RatedCellsGlob_def sp tr Let_def ne inc exc
    using nn ok by simp
qed

lemma rated_glob_matches:
  assumes "s \<in> set RatedScenarios" and "CHR ''/'' \<notin> set n" and "CHR ''/'' \<notin> set v"
  shows "Match (s @ ''/*'') (CellID n v) = Some (n = s)"
proof -
  note s = rated_scenarios_safe(1,4) [OF assms(1)]
  have "Match ((s @ ''/'') @ ''*'') (CellID n v)
      = Some (has_prefix (CellID n v) (s @ ''/'') \<and> CHR ''/'' \<notin> set (drop (length (s @ ''/'')) (CellID n v)))"
    using s(1) by (intro Match_prefix_star) simp_all
  moreover have "has_prefix (CellID n v) (s @ ''/'') \<longleftrightarrow> n = s"
  proof
    assume "has_prefix (CellID n v) (s @ ''/'')"
    then obtain r where "n @ CHR ''/'' # v = s @ CHR ''/'' # r" by (auto simp: has_prefix_iff CellID_def)
    with append_sep_eq [of "CHR ''/''" n s v r] assms(2) s(2) show "n = s" by simp
  qed (auto simp: has_prefix_iff CellID_def)
  moreover have "CHR ''/'' \<notin> set (drop (length (s @ ''/'')) (CellID s v))"
    using assms(3) by (simp add: CellID_def)
  ultimately show ?thesis by auto
qed

lemma ratesCell_rated:
  assumes "RatedMode cfg" and "RatedCells cfg = RatedCellsGlob" and "CHR ''/'' \<notin> set n" and "CHR ''/'' \<notin> set v"
  shows "ratesCell cfg (CellID n v) \<longleftrightarrow> n \<in> set RatedScenarios"
proof -
  have each: "(g = ''*'' \<or> Match g (CellID n v) = Some True) \<longleftrightarrow> g = n @ ''/*''" if "g \<in> set ratedGlobs" for g
  proof -
    from that obtain s where s: "s \<in> set RatedScenarios" "g = s @ ''/*''" by (auto simp: ratedGlobs_def)
    then have "g \<noteq> ''*''" by simp
    then show ?thesis using rated_glob_matches [OF s(1) assms(3,4)] s(2) by auto
  qed
  have "matchAny ratedGlobs (CellID n v) \<longleftrightarrow> (\<exists>g\<in>set ratedGlobs. g = n @ ''/*'')"
    unfolding matchAny_def list_ex_iff by (rule bex_cong [OF refl]) (rule each)
  then have "matchAny ratedGlobs (CellID n v) \<longleftrightarrow> n @ ''/*'' \<in> set ratedGlobs" by simp
  moreover have "n @ ''/*'' \<in> set ratedGlobs \<longleftrightarrow> n \<in> set RatedScenarios" by (auto simp: ratedGlobs_def)
  ultimately show ?thesis
    unfolding ratesCell_def assms(2) parse_rated_glob matchCellGlob_def using assms(1) by (simp add: matchAny_def)
qed


section \<open>The pinned counts\<close>

definition rated_column_cells :: "adapter \<Rightarrow> nat" where
  "rated_column_cells a = length (filter (\<lambda>s. sc_name s \<in> set RatedScenarios \<and> applicable s (featureSetFor a False)) scenario_init)"

lemma main_rated_sum: "sum_list (map rated_column_cells main_adapters) = 401"
  by code_simp

lemma baseline_rated_sum: "sum_list (map rated_column_cells (map snd baseline_columns)) = 120"
  by code_simp

lemma filter_applicable_pairs:
  "filter (\<lambda>(s, v). P s) (applicable_pairs ss sv) = applicable_pairs (filter P ss) sv"
  by (induction ss) (simp_all add: applicable_pairs_def filter_map comp_def)

lemma filter_Schedule_scenarios:
  "filter (\<lambda>c. P (c_Scenario c)) (Schedule runs ss sv) = Schedule runs (filter P ss) sv"
  by (simp add: Schedule_alt filter_concat comp_def run_cells_def [abs_def] filter_map split_def
      flip: filter_applicable_pairs)

lemma length_rated_pairs:
  "length (applicable_pairs (filter (\<lambda>s. sc_name s \<in> set RatedScenarios) (Registry scenario_registry))
      (map (\<lambda>a. adapterServer a (featureSetFor a False)) (AdaptersSorted env r))) =
   (\<Sum>a\<leftarrow>filter (visible env) (map snd r). rated_column_cells a)"
proof -
  have m: "mset (AdaptersSorted env r) = mset (filter (visible env) (map snd r))"
    by (simp add: AdaptersSorted_def)
  show ?thesis
    using sum_list_mset [OF m, of rated_column_cells] length_filter_mset [OF mset_Registry]
    by (simp add: length_applicable_pairs comp_def adapterServer_def rated_column_cells_def [abs_def] conj_commute
        del: mset_filter)
qed


definition registry_columns :: "string \<Rightarrow> server list" where
  "registry_columns bb = map (\<lambda>a. adapterServer a (featureSetFor a False)) (AdaptersSorted bb full_registry)"

lemma ratesCell_registry:
  assumes "RatedMode cfg" and "RatedCells cfg = RatedCellsGlob"
    and "c \<in> set (Schedule runs (Registry scenario_registry) (registry_columns bb))"
  shows "ratesCell cfg (cell_id c) \<longleftrightarrow> sc_name (c_Scenario c) \<in> set RatedScenarios"
proof -
  have "c_Scenario c \<in> set scenario_init" using assms(3) by (simp add: set_Schedule set_Registry)
  moreover have "list_all (\<lambda>s. list_all (\<lambda>ch. ch \<noteq> CHR ''/'') (sc_name s)) scenario_init" by code_simp
  ultimately have "CHR ''/'' \<notin> set (sc_name (c_Scenario c))" by (auto simp: list_all_iff)
  moreover have "CHR ''/'' \<notin> set (srv_Name (c_Server c))"
  proof -
    have "c_Server c \<in> set (registry_columns bb)" using assms(3) by (simp add: set_Schedule)
    then obtain a where "a \<in> snd ` set full_registry" "srv_Name (c_Server c) = a_Name a"
      by (force simp: registry_columns_def set_AdaptersSorted adapterServer_def)
    moreover have "list_all (\<lambda>a. list_all (\<lambda>ch. ch \<noteq> CHR ''/'') (a_Name a)) (map snd full_registry)" by code_simp
    ultimately show ?thesis by (auto simp: list_all_iff)
  qed
  ultimately show ?thesis unfolding cell_id_def by (rule ratesCell_rated [OF assms(1,2)])
qed

lemma full_grid_counts:
  fixes runs :: int and bb :: string
  assumes "RatedMode cfg" and "RatedCells cfg = RatedCellsGlob"
  defines "sch \<equiv> Schedule runs (Registry scenario_registry) (registry_columns bb)"
  shows "length sch = nat runs * (if BaselineEnabled bb then 1035 else 813)"
    and "length (filter (\<lambda>c. ratesCell cfg (cell_id c)) sch) = nat runs * (if BaselineEnabled bb then 521 else 401)"
proof -
  show "length sch = nat runs * (if BaselineEnabled bb then 1035 else 813)"
    unfolding sch_def length_Schedule registry_columns_def length_registry_pairs visible_full
      main_columns_sum baseline_columns_sum by simp
  have f: "filter (\<lambda>c. ratesCell cfg (cell_id c)) sch = filter (\<lambda>c. sc_name (c_Scenario c) \<in> set RatedScenarios) sch"
    unfolding sch_def by (rule filter_cong [OF refl]) (rule ratesCell_registry [OF assms(1,2)])
  show "length (filter (\<lambda>c. ratesCell cfg (cell_id c)) sch) = nat runs * (if BaselineEnabled bb then 521 else 401)"
    unfolding f unfolding sch_def filter_Schedule_scenarios [where P = "\<lambda>s. sc_name s \<in> set RatedScenarios"]
    unfolding length_Schedule registry_columns_def length_rated_pairs visible_full main_rated_sum baseline_rated_sum
    by simp
qed

section \<open>Properties\<close>

text \<open>C26: the pins of the profiles are the counts of the schedule. For the two rated profiles, with
  the baseline columns switched on or off, the schedule of the whole registry has as many cells per
  run as the profile says, and the runner rates, under the profile's own rated glob, as many of
  them as the profile's rated count: 813 and 401, or 1035 and 521 with the baseline.\<close>

theorem profile_pins_exact:
  assumes "p = Full \<or> p = HeadlineWeekly" and "RatedMode cfg" and "RatedCells cfg = RatedGlob p"
  shows "let q = (if BaselineEnabled bb then WithBaseline p else p);
             sch = Schedule runs (Registry scenario_registry) (registry_columns bb)
         in int (length sch) = int (nat runs) * pf_Cells q \<and>
            int (length (filter (\<lambda>c. ratesCell cfg (cell_id c)) sch)) = int (nat runs) * pf_RatedCells q"
proof -
  have g: "RatedCells cfg = RatedCellsGlob"
    using assms(1,3) by (auto simp: RatedGlob_def RatedCellsGlob_def Full_def HeadlineWeekly_def)
  show ?thesis
    using full_grid_counts [OF assms(2) g] assms(1)
    by (auto simp: Let_def WithBaseline_def Full_def HeadlineWeekly_def FullRealizedCells_def HeadlineRealizedCells_def
        FullRatedRealizedCells_def HeadlineRatedRealizedCells_def BaselineRealizedCells_def BaselineRatedRealizedCells_def)
qed

theorem profile_pins_exact_witness:
  "int (length (filter (\<lambda>c. ratesCell (DefaultConfig\<lparr>RatedMode := True, RatedCells := RatedGlob Full\<rparr>) (cell_id c))
     (Schedule 2 (Registry scenario_registry) (registry_columns ''1'')))) = 1042"
proof -
  have b: "BaselineEnabled ''1''" by code_simp
  have "pf_RatedCells (WithBaseline Full) = 521" by code_simp
  then show ?thesis
    using profile_pins_exact [of Full "DefaultConfig\<lparr>RatedMode := True, RatedCells := RatedGlob Full\<rparr>" "''1''" 2] b
    by (simp add: Let_def)
qed

end
