(* ===== verification/ArchPlan.thy ===== *)
theory ArchPlan
  imports Prelude
begin

text \<open>
  The deterministic model of a both-arch run, \<open>src/interleave/archplan.go\<close>: two walkers over
  columns and cells, the cross-arch lock as the time it becomes free, and the counters over
  the resulting slots.

  A Go array of length two is a pair, read with \<open>sel\<close> and written with \<open>upd\<close>. A walker's
  \<open>next\<close> index is represented by the list of cells still to run. A duration is a 64-bit integer
  and every sum and difference of durations wraps.

  The lemmas show that the simulation is total and that a plan whose times fit 64 bits
  (\<open>plan_fits\<close>) is simulated as over unbounded integers (\<open>ideal_plan\<close>); then that every cell of
  both walks gets one slot, in walk order and one after the other, and that the lock policies
  exclude what they promise.
\<close>


section \<open>Plans and results\<close>

datatype lock_policy = LockOff | LockHeavy | LockAll | LockHeavyRated

record plan_cell =
  pc_Scenario :: string
  pc_Heavy :: bool
  pc_Dur :: duration
  pc_Rated :: duration

record plan_column =
  col_Name :: string
  col_Cells :: "plan_cell list"

record arch_plan =
  ap_Columns :: "plan_column list"
  ap_ReverseCells :: bool
  ap_ReverseColumns :: bool
  ap_StartOffset :: duration
  ap_ColumnSetup :: duration

record plan_params =
  pp_Policy :: lock_policy
  pp_Cooldown :: duration
  pp_ColumnSetup :: duration

record slot =
  sl_Column :: string
  sl_Scenario :: string
  sl_Heavy :: bool
  sl_Start :: duration
  sl_End :: duration
  sl_Waited :: duration
  sl_RatedStart :: duration

datatype arch = A0 | A1

fun other :: "arch \<Rightarrow> arch" where
  "other A0 = A1"
| "other A1 = A0"

fun sel :: "arch \<Rightarrow> 'a \<times> 'a \<Rightarrow> 'a" where
  "sel A0 p = fst p"
| "sel A1 p = snd p"

fun upd :: "arch \<Rightarrow> 'a \<Rightarrow> 'a \<times> 'a \<Rightarrow> 'a \<times> 'a" where
  "upd A0 x p = (x, snd p)"
| "upd A1 x p = (fst p, x)"

lemma sel_upd [simp]: "sel i (upd j x p) = (if i = j then x else sel i p)"
  by (cases i; cases j) simp_all

record plan_result =
  Slots :: "slot list \<times> slot list"
  ArchEnd :: "duration \<times> duration"
  LockWait :: "duration \<times> duration"
  Makespan :: duration


section \<open>The simulation\<close>

record walk_cell =
  wc_col :: string
  wc_cell :: plan_cell
  wc_first :: bool
  wc_last :: bool

record walker =
  w_cells :: "walk_cell list"
  w_ready :: duration

definition orderedColumns :: "arch_plan \<Rightarrow> plan_column list" where
  "orderedColumns ap = (if ap_ReverseColumns ap then rev (ap_Columns ap) else ap_Columns ap)"

definition orderedCells :: "plan_column \<Rightarrow> bool \<Rightarrow> plan_cell list" where
  "orderedCells c reverse = (if reverse then rev (col_Cells c) else col_Cells c)"

definition column_walk :: "string \<Rightarrow> plan_cell list \<Rightarrow> walk_cell list" where
  "column_walk name cells =
     map (\<lambda>k. \<lparr>wc_col = name, wc_cell = cells ! k, wc_first = (k = 0), wc_last = (k + 1 = length cells)\<rparr>)
       [0..<length cells]"

definition walk_cells :: "arch_plan \<Rightarrow> walk_cell list" where
  "walk_cells ap =
     concat (map (\<lambda>c. column_walk (col_Name c) (orderedCells c (ap_ReverseCells ap))) (orderedColumns ap))"

definition new_walker :: "arch_plan \<Rightarrow> walker" where
  "new_walker ap = \<lparr>w_cells = walk_cells ap, w_ready = ap_StartOffset ap\<rparr>"

definition setup_time :: "plan_params \<Rightarrow> arch_plan \<Rightarrow> duration" where
  "setup_time p ap = (if ap_ColumnSetup ap > 0 then ap_ColumnSetup ap else pp_ColumnSetup p)"

record sim_state =
  sim_w :: "walker \<times> walker"
  sim_lockFree :: duration
  sim_r :: plan_result

definition pick_arch :: "walker \<times> walker \<Rightarrow> arch option" where
  "pick_arch w =
     (let pick = (if w_cells (fst w) = [] then None else Some A0)
      in if w_cells (snd w) = [] then pick
         else if pick = None \<or> w_ready (snd w) < w_ready (fst w) then Some A1
         else pick)"

definition needsLock :: "lock_policy \<Rightarrow> plan_cell \<Rightarrow> bool" where
  "needsLock pol c \<longleftrightarrow>
     pol = LockAll \<or> ((pol = LockHeavy \<or> pol = LockHeavyRated) \<and> pc_Heavy c)"

text \<open>The times of one cell that can start at \<open>t\<close>: start, end, wait, start of the rated sweep, and
  when the lock is free afterwards. Every sum and difference of durations wraps.\<close>

definition cell_times ::
  "lock_policy \<Rightarrow> plan_cell \<Rightarrow> duration \<Rightarrow> duration \<Rightarrow> duration \<times> duration \<times> duration \<times> duration \<times> duration" where
  "cell_times pol c lockFree t =
     (let start = (if needsLock pol c \<and> lockFree > t then lockFree else t);
          fin = wrap64 (start + pc_Dur c);
          ratedStart = (if pc_Rated c > 0 then wrap64 (fin - pc_Rated c) else 0);
          waited = wrap64 (start - t)
      in if needsLock pol c then (start, fin, waited, ratedStart, fin)
         else if pol = LockHeavyRated \<and> pc_Rated c > 0 then
           (if lockFree > ratedStart
            then (let waited = wrap64 (waited + wrap64 (lockFree - ratedStart));
                      ratedStart = lockFree;
                      fin = wrap64 (ratedStart + pc_Rated c)
                  in (start, fin, waited, ratedStart, fin))
            else (start, fin, waited, ratedStart, fin))
         else (start, fin, waited, ratedStart, lockFree))"

definition sim_step :: "plan_params \<Rightarrow> duration \<times> duration \<Rightarrow> arch \<Rightarrow> sim_state \<Rightarrow> sim_state" where
  "sim_step p setups i s =
     (let x = sel i (sim_w s);
          wc = hd (w_cells x);
          t = (if wc_first wc then wrap64 (w_ready x + sel i setups) else w_ready x);
          (start, fin, waited, ratedStart, lockFree) = cell_times (pp_Policy p) (wc_cell wc) (sim_lockFree s) t;
          sl = \<lparr>sl_Column = wc_col wc, sl_Scenario = pc_Scenario (wc_cell wc), sl_Heavy = pc_Heavy (wc_cell wc),
                sl_Start = start, sl_End = fin, sl_Waited = waited, sl_RatedStart = ratedStart\<rparr>;
          r = sim_r s;
          ready = (if wc_last wc then fin else wrap64 (fin + pp_Cooldown p))
      in \<lparr>sim_w = upd i \<lparr>w_cells = tl (w_cells x), w_ready = ready\<rparr> (sim_w s),
          sim_lockFree = lockFree,
          sim_r = \<lparr>Slots = upd i (sel i (Slots r) @ [sl]) (Slots r),
                   ArchEnd = upd i fin (ArchEnd r),
                   LockWait = upd i (wrap64 (sel i (LockWait r) + waited)) (LockWait r),
                   Makespan = max (Makespan r) fin\<rparr>\<rparr>)"

definition cells_left :: "sim_state \<Rightarrow> nat" where
  "cells_left s = length (w_cells (fst (sim_w s))) + length (w_cells (snd (sim_w s)))"

lemma pick_arch_Some: "pick_arch w = Some i \<Longrightarrow> w_cells (sel i w) \<noteq> []"
  by (cases i) (auto simp: pick_arch_def Let_def split: if_splits)

lemma pick_arch_None: "pick_arch w = None \<longleftrightarrow> w_cells (fst w) = [] \<and> w_cells (snd w) = []"
  by (auto simp: pick_arch_def Let_def)

lemma sim_step_w:
  "\<exists>q. sim_w (sim_step p setups i s) = upd i \<lparr>w_cells = tl (w_cells (sel i (sim_w s))), w_ready = q\<rparr> (sim_w s)"
  unfolding sim_step_def Let_def case_prod_beta sim_state.simps by (rule exI) (rule refl)

lemma cells_left_less:
  assumes "pick_arch (sim_w s) = Some i"
    and "\<exists>q. sim_w s' = upd i \<lparr>w_cells = tl (w_cells (sel i (sim_w s))), w_ready = q\<rparr> (sim_w s)"
  shows "cells_left s' < cells_left s"
  using assms pick_arch_Some [of "sim_w s" i] by (cases i) (auto simp: cells_left_def)

function simulate :: "plan_params \<Rightarrow> duration \<times> duration \<Rightarrow> sim_state \<Rightarrow> plan_result" where
  "simulate p setups s =
     (case pick_arch (sim_w s) of
        None \<Rightarrow> sim_r s
      | Some i \<Rightarrow> simulate p setups (sim_step p setups i s))"
  by pat_completeness auto
termination
  by (relation "measure (\<lambda>(p, setups, s). cells_left s)") (auto intro: cells_left_less sim_step_w)

declare simulate.simps [simp del]

definition init_sim :: "arch_plan \<Rightarrow> arch_plan \<Rightarrow> sim_state" where
  "init_sim a b =
     \<lparr>sim_w = (new_walker a, new_walker b), sim_lockFree = 0,
      sim_r = \<lparr>Slots = ([], []), ArchEnd = (0, 0), LockWait = (0, 0), Makespan = 0\<rparr>\<rparr>"

definition SimulateArchPlan :: "arch_plan \<Rightarrow> arch_plan \<Rightarrow> plan_params \<Rightarrow> plan_result" where
  "SimulateArchPlan a b p = simulate p (setup_time p a, setup_time p b) (init_sim a b)"


section \<open>Counters\<close>

definition share_time :: "slot \<Rightarrow> slot \<Rightarrow> bool" where
  "share_time x y \<longleftrightarrow> \<not> (sl_Start x \<ge> sl_End y \<or> sl_Start y \<ge> sl_End x)"

definition Overlaps :: "plan_result \<Rightarrow> nat \<times> nat \<times> nat" where
  "Overlaps r =
     (let pairs = filter (\<lambda>(x, y). share_time x y) (List.product (fst (Slots r)) (snd (Slots r)))
      in (length (filter (\<lambda>(x, y). sl_Heavy x \<and> sl_Heavy y) pairs),
          length (filter (\<lambda>(x, y). sl_Heavy x \<noteq> sl_Heavy y) pairs),
          length (filter (\<lambda>(x, y). \<not> sl_Heavy x \<and> \<not> sl_Heavy y) pairs)))"

definition rated_hits :: "slot \<Rightarrow> slot list \<Rightarrow> duration list" where
  "rated_hits x ys =
     concat (map (\<lambda>y.
       if \<not> sl_Heavy y \<or> sl_Start y \<ge> sl_End x \<or> sl_RatedStart x \<ge> sl_End y then []
       else let lo = max (sl_RatedStart x) (sl_Start y); hi = min (sl_End x) (sl_End y)
            in if hi \<le> lo then [] else [wrap64 (hi - lo)]) ys)"

definition RatedUnderHeavy :: "plan_result \<Rightarrow> nat \<times> nat \<times> duration" where
  "RatedUnderHeavy r =
     (let hits = concat (map (\<lambda>side.
            map (\<lambda>x. rated_hits x (sel (other side) (Slots r)))
              (filter (\<lambda>x. \<not> (sl_Heavy x \<or> sl_RatedStart x = 0)) (sel side (Slots r)))) [A0, A1])
      in (length (filter (\<lambda>h. h \<noteq> []) hits), length (concat hits), wrap64 (sum_list (concat hits))))"

datatype sharing = Alone | UnderHeavy | UnderLight

definition pass_sharing :: "duration \<Rightarrow> duration \<Rightarrow> slot list \<Rightarrow> sharing" where
  "pass_sharing ps pe ys =
     (let touching = filter (\<lambda>y. \<not> (sl_Start y \<ge> pe \<or> ps \<ge> sl_End y)) ys
      in if list_ex sl_Heavy touching then UnderHeavy
         else if list_ex (\<lambda>y. \<not> sl_Heavy y) touching then UnderLight
         else Alone)"

definition RatedPassSharing :: "plan_result \<Rightarrow> nat \<Rightarrow> duration \<Rightarrow> nat \<times> nat \<times> nat" where
  "RatedPassSharing r n passDur =
     (let classes = concat (map (\<lambda>side.
            concat (map (\<lambda>x.
              map (\<lambda>k. let ps = wrap64 (sl_RatedStart x + wrap64 (int k * passDur))
                       in pass_sharing ps (wrap64 (ps + passDur)) (sel (other side) (Slots r))) [0..<n])
              (filter (\<lambda>x. \<not> (sl_Heavy x \<or> sl_RatedStart x = 0)) (sel side (Slots r))))) [A0, A1])
      in (count_list classes Alone, count_list classes UnderHeavy, count_list classes UnderLight))"

section \<open>The simulation without wrap-around\<close>

text \<open>The same walk over unbounded integers, on which the properties of the schedule are proved. A plan
  whose times fit 64 bits is simulated identically.\<close>

definition ideal_times ::
  "lock_policy \<Rightarrow> plan_cell \<Rightarrow> duration \<Rightarrow> duration \<Rightarrow> duration \<times> duration \<times> duration \<times> duration \<times> duration" where
  "ideal_times pol c lockFree t =
     (let start = (if needsLock pol c \<and> lockFree > t then lockFree else t);
          fin = start + pc_Dur c;
          ratedStart = (if pc_Rated c > 0 then fin - pc_Rated c else 0);
          waited = start - t
      in if needsLock pol c then (start, fin, waited, ratedStart, fin)
         else if pol = LockHeavyRated \<and> pc_Rated c > 0 then
           (if lockFree > ratedStart
            then (start, lockFree + pc_Rated c, waited + (lockFree - ratedStart), lockFree,
                  lockFree + pc_Rated c)
            else (start, fin, waited, ratedStart, fin))
         else (start, fin, waited, ratedStart, lockFree))"

definition ideal_step :: "plan_params \<Rightarrow> duration \<times> duration \<Rightarrow> arch \<Rightarrow> sim_state \<Rightarrow> sim_state" where
  "ideal_step p setups i s =
     (let x = sel i (sim_w s);
          wc = hd (w_cells x);
          t = (if wc_first wc then w_ready x + sel i setups else w_ready x);
          (start, fin, waited, ratedStart, lockFree) = ideal_times (pp_Policy p) (wc_cell wc) (sim_lockFree s) t;
          sl = \<lparr>sl_Column = wc_col wc, sl_Scenario = pc_Scenario (wc_cell wc), sl_Heavy = pc_Heavy (wc_cell wc),
                sl_Start = start, sl_End = fin, sl_Waited = waited, sl_RatedStart = ratedStart\<rparr>;
          r = sim_r s;
          ready = (if wc_last wc then fin else fin + pp_Cooldown p)
      in \<lparr>sim_w = upd i \<lparr>w_cells = tl (w_cells x), w_ready = ready\<rparr> (sim_w s),
          sim_lockFree = lockFree,
          sim_r = \<lparr>Slots = upd i (sel i (Slots r) @ [sl]) (Slots r),
                   ArchEnd = upd i fin (ArchEnd r),
                   LockWait = upd i (sel i (LockWait r) + waited) (LockWait r),
                   Makespan = max (Makespan r) fin\<rparr>\<rparr>)"

lemma ideal_step_w:
  "\<exists>q. sim_w (ideal_step p setups i s) = upd i \<lparr>w_cells = tl (w_cells (sel i (sim_w s))), w_ready = q\<rparr> (sim_w s)"
  unfolding ideal_step_def Let_def case_prod_beta sim_state.simps by (rule exI) (rule refl)

lemma cells_left_step: "pick_arch (sim_w s) = Some i \<Longrightarrow> cells_left (ideal_step p setups i s) < cells_left s"
  by (blast intro: cells_left_less ideal_step_w)

function ideal_run :: "plan_params \<Rightarrow> duration \<times> duration \<Rightarrow> sim_state \<Rightarrow> plan_result" where
  "ideal_run p setups s =
     (case pick_arch (sim_w s) of
        None \<Rightarrow> sim_r s
      | Some i \<Rightarrow> ideal_run p setups (ideal_step p setups i s))"
  by pat_completeness auto
termination
  by (relation "measure (\<lambda>(p, setups, s). cells_left s)") (auto intro: cells_left_step)

declare ideal_run.simps [simp del]

definition ideal_plan :: "arch_plan \<Rightarrow> arch_plan \<Rightarrow> plan_params \<Rightarrow> plan_result" where
  "ideal_plan a b p = ideal_run p (setup_time p a, setup_time p b) (init_sim a b)"


section \<open>One step\<close>

definition nonneg_cell :: "plan_cell \<Rightarrow> bool" where
  "nonneg_cell c \<longleftrightarrow> 0 \<le> pc_Dur c \<and> 0 \<le> pc_Rated c"

lemma ideal_times_order:
  assumes "ideal_times pol c lockFree t = (start, fin, waited, rs, lf)" and "nonneg_cell c"
  shows "t \<le> start" "start + pc_Dur c \<le> fin" "start \<le> fin" "0 \<le> waited" "lockFree \<le> lf"
  using assms by (auto simp: ideal_times_def Let_def nonneg_cell_def split: if_splits)

lemma ideal_times_lock:
  assumes "ideal_times pol c lockFree t = (start, fin, waited, rs, lf)" and "needsLock pol c"
  shows "lockFree \<le> start" "lf = fin" "fin = start + pc_Dur c"
  using assms by (auto simp: ideal_times_def Let_def split: if_splits)

lemma ideal_times_rated:
  assumes "ideal_times LockHeavyRated c lockFree t = (start, fin, waited, rs, lf)" and "\<not> pc_Heavy c" and "rs \<noteq> 0"
  shows "lockFree \<le> rs" "lf = fin"
  using assms by (auto simp: ideal_times_def Let_def needsLock_def split: if_splits)

lemma ideal_times_off:
  "ideal_times LockOff c lockFree t =
     (t, t + pc_Dur c, 0, if pc_Rated c > 0 then t + pc_Dur c - pc_Rated c else 0, lockFree)"
  by (simp add: ideal_times_def Let_def needsLock_def)

lemma ideal_step_fields:
  assumes "pick_arch (sim_w s) = Some i"
  obtains wc rest t start fin waited rs lf where
    "w_cells (sel i (sim_w s)) = wc # rest"
    "t = (if wc_first wc then w_ready (sel i (sim_w s)) + sel i setups else w_ready (sel i (sim_w s)))"
    "ideal_times (pp_Policy p) (wc_cell wc) (sim_lockFree s) t = (start, fin, waited, rs, lf)"
    "ideal_step p setups i s =
       \<lparr>sim_w = upd i \<lparr>w_cells = rest, w_ready = (if wc_last wc then fin else fin + pp_Cooldown p)\<rparr> (sim_w s),
        sim_lockFree = lf,
        sim_r = \<lparr>Slots = upd i (sel i (Slots (sim_r s)) @
                    [\<lparr>sl_Column = wc_col wc, sl_Scenario = pc_Scenario (wc_cell wc), sl_Heavy = pc_Heavy (wc_cell wc),
                      sl_Start = start, sl_End = fin, sl_Waited = waited, sl_RatedStart = rs\<rparr>]) (Slots (sim_r s)),
                 ArchEnd = upd i fin (ArchEnd (sim_r s)),
                 LockWait = upd i (sel i (LockWait (sim_r s)) + waited) (LockWait (sim_r s)),
                 Makespan = max (Makespan (sim_r s)) fin\<rparr>\<rparr>"
proof -
  obtain wc rest where w: "w_cells (sel i (sim_w s)) = wc # rest"
    using pick_arch_Some [OF assms] by (cases "w_cells (sel i (sim_w s))") auto
  define t where "t = (if wc_first wc then w_ready (sel i (sim_w s)) + sel i setups else w_ready (sel i (sim_w s)))"
  obtain start fin waited rs lf
    where c: "ideal_times (pp_Policy p) (wc_cell wc) (sim_lockFree s) t = (start, fin, waited, rs, lf)"
    by (metis prod_cases5)
  show thesis
    by (rule that [OF w t_def c])
      (simp only: ideal_step_def Let_def w list.sel t_def [symmetric] c prod.case)
qed

lemma ideal_run_invariant:
  assumes "I s" and "\<And>s i. I s \<Longrightarrow> pick_arch (sim_w s) = Some i \<Longrightarrow> I (ideal_step p setups i s)"
  shows "\<exists>s'. I s' \<and> w_cells (fst (sim_w s')) = [] \<and> w_cells (snd (sim_w s')) = [] \<and> ideal_run p setups s = sim_r s'"
  using assms(1)
proof (induction "cells_left s" arbitrary: s rule: less_induct)
  case less
  show ?case
  proof (cases "pick_arch (sim_w s)")
    case None
    then have "ideal_run p setups s = sim_r s" by (subst ideal_run.simps) simp
    with None less.prems pick_arch_None show ?thesis by blast
  next
    case (Some i)
    have "\<exists>s'. I s' \<and> w_cells (fst (sim_w s')) = [] \<and> w_cells (snd (sim_w s')) = [] \<and>
        ideal_run p setups (ideal_step p setups i s) = sim_r s'"
      by (rule less.hyps [OF cells_left_step [OF Some] assms(2) [OF less.prems Some]])
    then show ?thesis by (subst ideal_run.simps) (simp add: Some)
  qed
qed


section \<open>Exclusion\<close>

text \<open>The interval for which a slot holds the lock starts here and ends with the slot.\<close>

definition lock_start :: "lock_policy \<Rightarrow> slot \<Rightarrow> duration option" where
  "lock_start pol x =
     (if pol = LockAll \<or> ((pol = LockHeavy \<or> pol = LockHeavyRated) \<and> sl_Heavy x) then Some (sl_Start x)
      else if pol = LockHeavyRated \<and> sl_RatedStart x \<noteq> 0 then Some (sl_RatedStart x)
      else None)"

definition cells_ok :: "sim_state \<Rightarrow> bool" where
  "cells_ok s \<longleftrightarrow> (\<forall>i. \<forall>wc\<in>set (w_cells (sel i (sim_w s))). nonneg_cell (wc_cell wc))"

definition excl_inv :: "lock_policy \<Rightarrow> sim_state \<Rightarrow> bool" where
  "excl_inv pol s \<longleftrightarrow> cells_ok s \<and>
     (\<forall>i. \<forall>x\<in>set (sel i (Slots (sim_r s))). lock_start pol x \<noteq> None \<longrightarrow> sl_End x \<le> sim_lockFree s) \<and>
     (\<forall>i. \<forall>x\<in>set (sel i (Slots (sim_r s))). \<forall>y\<in>set (sel (other i) (Slots (sim_r s))). \<forall>a b.
        lock_start pol x = Some a \<and> lock_start pol y = Some b \<longrightarrow> sl_End x \<le> b \<or> sl_End y \<le> a)"

lemma cells_ok_step:
  assumes "cells_ok s" and "w_cells (sel i (sim_w s)) = wc # rest"
  shows "nonneg_cell (wc_cell wc)"
    and "sim_w s' = upd i \<lparr>w_cells = rest, w_ready = q\<rparr> (sim_w s) \<Longrightarrow> cells_ok s'"
proof -
  have *: "\<forall>wc'\<in>set (wc # rest). nonneg_cell (wc_cell wc')" using assms by (metis cells_ok_def)
  then show "nonneg_cell (wc_cell wc)" by simp
  show "cells_ok s'" if "sim_w s' = upd i \<lparr>w_cells = rest, w_ready = q\<rparr> (sim_w s)"
    using assms(1) * by (simp add: cells_ok_def that)
qed

lemma lock_start_new:
  assumes "ideal_times pol c lockFree t = (start, fin, waited, rs, lf)" and "nonneg_cell c"
    and "sl_Heavy z = pc_Heavy c" "sl_Start z = start" "sl_End z = fin" "sl_RatedStart z = rs"
    and "lock_start pol z = Some a"
  shows "lockFree \<le> a \<and> lf = sl_End z"
proof (cases "needsLock pol c")
  case True
  then have "a = start" using assms(3,4,7) by (auto simp: lock_start_def needsLock_def split: if_splits)
  with ideal_times_lock [OF assms(1) True] assms(5) show ?thesis by simp
next
  case False
  then have "pol = LockHeavyRated" "\<not> pc_Heavy c" "rs \<noteq> 0" "a = rs"
    using assms(3,6,7) by (auto simp: lock_start_def needsLock_def split: if_splits)
  with ideal_times_rated [OF _ \<open>\<not> pc_Heavy c\<close>] assms(1,5) show ?thesis by blast
qed

lemma excl_inv_step:
  assumes inv: "excl_inv (pp_Policy p) s" and pick: "pick_arch (sim_w s) = Some i"
  shows "excl_inv (pp_Policy p) (ideal_step p setups i s)"
proof -
  let ?pol = "pp_Policy p" and ?s' = "ideal_step p setups i s"
  obtain wc rest t start fin waited rs lf where f: "w_cells (sel i (sim_w s)) = wc # rest"
    "ideal_times ?pol (wc_cell wc) (sim_lockFree s) t = (start, fin, waited, rs, lf)" and
    st: "?s' = \<lparr>sim_w = upd i \<lparr>w_cells = rest, w_ready = (if wc_last wc then fin else fin + pp_Cooldown p)\<rparr> (sim_w s),
        sim_lockFree = lf,
        sim_r = \<lparr>Slots = upd i (sel i (Slots (sim_r s)) @
                    [\<lparr>sl_Column = wc_col wc, sl_Scenario = pc_Scenario (wc_cell wc), sl_Heavy = pc_Heavy (wc_cell wc),
                      sl_Start = start, sl_End = fin, sl_Waited = waited, sl_RatedStart = rs\<rparr>]) (Slots (sim_r s)),
                 ArchEnd = upd i fin (ArchEnd (sim_r s)),
                 LockWait = upd i (sel i (LockWait (sim_r s)) + waited) (LockWait (sim_r s)),
                 Makespan = max (Makespan (sim_r s)) fin\<rparr>\<rparr>"
    by (rule ideal_step_fields [OF pick, of setups p]) blast
  define z where "z = \<lparr>sl_Column = wc_col wc, sl_Scenario = pc_Scenario (wc_cell wc), sl_Heavy = pc_Heavy (wc_cell wc),
                      sl_Start = start, sl_End = fin, sl_Waited = waited, sl_RatedStart = rs\<rparr>"
  have ok: "cells_ok s" "nonneg_cell (wc_cell wc)" "cells_ok ?s'"
    using inv cells_ok_step [of s i wc rest] f(1) by (auto simp: excl_inv_def st)
  have new: "sim_lockFree s \<le> a \<and> lf = sl_End z" if "lock_start ?pol z = Some a" for a
    using lock_start_new [OF f(2) ok(2), of z] that by (simp add: z_def)
  have mono: "sim_lockFree s \<le> lf" by (rule ideal_times_order(5) [OF f(2) ok(2)])
  have slots: "set (sel j (Slots (sim_r ?s'))) = (if j = i then insert z (set (sel j (Slots (sim_r s)))) else set (sel j (Slots (sim_r s))))" for j
    by (simp add: st z_def)
  have lf: "sim_lockFree ?s' = lf" by (simp add: st)
  have old: "sl_End x \<le> sim_lockFree s" if "x \<in> set (sel j (Slots (sim_r s)))" "lock_start ?pol x = Some a" for x j a
    using inv that by (auto simp: excl_inv_def)
  have oi: "other j \<noteq> j" "other (other j) = j" for j by (cases j; simp)+
  show ?thesis
    unfolding excl_inv_def
  proof (intro conjI allI ballI impI ok(3))
    fix j x assume x: "x \<in> set (sel j (Slots (sim_r ?s')))" "lock_start ?pol x \<noteq> None"
    then obtain a where "lock_start ?pol x = Some a" by blast
    then show "sl_End x \<le> sim_lockFree ?s'"
      using x old [of x j a] new [of a] mono by (cases "x = z") (auto simp: slots lf split: if_splits)
  next
    fix j x y a b
    assume xy: "x \<in> set (sel j (Slots (sim_r ?s')))" "y \<in> set (sel (other j) (Slots (sim_r ?s')))"
      and ab: "lock_start ?pol x = Some a \<and> lock_start ?pol y = Some b"
    consider (old) "x \<in> set (sel j (Slots (sim_r s)))" "y \<in> set (sel (other j) (Slots (sim_r s)))"
      | (x) "x = z" "y \<in> set (sel (other j) (Slots (sim_r s)))"
      | (y) "y = z" "x \<in> set (sel j (Slots (sim_r s)))"
      using xy oi [of j] by (auto simp: slots split: if_splits)
    then show "sl_End x \<le> b \<or> sl_End y \<le> a"
    proof cases
      case old
      with inv ab show ?thesis by (auto simp: excl_inv_def)
    next
      case x
      with old [of y "other j" b] new [of a] ab show ?thesis by force
    next
      case y
      with old [of x j a] new [of b] ab show ?thesis by force
    qed
  qed
qed

definition wf_plan :: "arch_plan \<Rightarrow> bool" where
  "wf_plan ap \<longleftrightarrow> (\<forall>col\<in>set (ap_Columns ap). \<forall>c\<in>set (col_Cells col). nonneg_cell c)"

lemma walk_cells_nonneg:
  assumes "wf_plan ap" and "wc \<in> set (walk_cells ap)"
  shows "nonneg_cell (wc_cell wc)"
proof -
  obtain c k where "c \<in> set (ap_Columns ap)" "k < length (orderedCells c (ap_ReverseCells ap))"
    "wc_cell wc = orderedCells c (ap_ReverseCells ap) ! k"
    using assms(2) by (auto simp: walk_cells_def column_walk_def orderedColumns_def split: if_splits)
  moreover have "set (orderedCells c (ap_ReverseCells ap)) = set (col_Cells c)" for c
    by (simp add: orderedCells_def)
  ultimately show ?thesis using assms(1) by (metis nth_mem wf_plan_def)
qed

lemma cells_ok_init: "wf_plan a \<Longrightarrow> wf_plan b \<Longrightarrow> cells_ok (init_sim a b)"
proof -
  assume "wf_plan a" "wf_plan b"
  then have "\<forall>wc\<in>set (w_cells (sel i (sim_w (init_sim a b)))). nonneg_cell (wc_cell wc)" for i
    by (cases i) (auto simp: init_sim_def new_walker_def walk_cells_nonneg)
  then show ?thesis by (simp add: cells_ok_def)
qed

lemma locked_slots_disjoint:
  assumes "wf_plan a" "wf_plan b"
    and "x \<in> set (sel i (Slots (ideal_plan a b p)))" "y \<in> set (sel (other i) (Slots (ideal_plan a b p)))"
    and "lock_start (pp_Policy p) x = Some u" "lock_start (pp_Policy p) y = Some v"
  shows "sl_End x \<le> v \<or> sl_End y \<le> u"
proof -
  have "sel i (Slots (sim_r (init_sim a b))) = []" for i by (cases i) (simp_all add: init_sim_def)
  then have "excl_inv (pp_Policy p) (init_sim a b)"
    using cells_ok_init [OF assms(1,2)] by (simp add: excl_inv_def)
  from ideal_run_invariant [where I = "excl_inv (pp_Policy p)", OF this excl_inv_step]
  obtain s' where "excl_inv (pp_Policy p) s'" "ideal_plan a b p = sim_r s'"
    by (auto simp: ideal_plan_def)
  then show ?thesis using assms(3-6) by (auto simp: excl_inv_def)
qed

lemma no_shared_time:
  assumes "wf_plan a" "wf_plan b"
    and "x \<in> set (fst (Slots (ideal_plan a b p)))" "y \<in> set (snd (Slots (ideal_plan a b p)))"
    and "pp_Policy p = LockAll \<or> (pp_Policy p = LockHeavy \<or> pp_Policy p = LockHeavyRated) \<and> sl_Heavy x \<and> sl_Heavy y"
  shows "\<not> share_time x y"
  using locked_slots_disjoint [OF assms(1,2), of x A0 p y "sl_Start x" "sl_Start y"] assms(3-5)
  by (auto simp: lock_start_def share_time_def)


section \<open>Every cell runs once, in order\<close>

definition slot_key :: "slot \<Rightarrow> string \<times> string \<times> bool" where
  "slot_key x = (sl_Column x, sl_Scenario x, sl_Heavy x)"

definition walk_key :: "walk_cell \<Rightarrow> string \<times> string \<times> bool" where
  "walk_key wc = (wc_col wc, pc_Scenario (wc_cell wc), pc_Heavy (wc_cell wc))"

definition seq_inv :: "arch_plan \<times> arch_plan \<Rightarrow> sim_state \<Rightarrow> bool" where
  "seq_inv aps s \<longleftrightarrow> cells_ok s \<and>
     (\<forall>i. map slot_key (sel i (Slots (sim_r s))) @ map walk_key (w_cells (sel i (sim_w s))) =
            map walk_key (walk_cells (sel i aps)) \<and>
          sorted_wrt (\<lambda>x y. sl_End x \<le> sl_Start y) (sel i (Slots (sim_r s))) \<and>
          (\<forall>x\<in>set (sel i (Slots (sim_r s))). sl_Start x \<le> sl_End x \<and> sl_End x \<le> w_ready (sel i (sim_w s)) \<and>
             sl_End x \<le> Makespan (sim_r s)))"

lemma seq_inv_step:
  assumes inv: "seq_inv aps s" and pick: "pick_arch (sim_w s) = Some i"
    and su: "0 \<le> sel i setups" and cd: "0 \<le> pp_Cooldown p"
  shows "seq_inv aps (ideal_step p setups i s)"
proof -
  let ?s' = "ideal_step p setups i s"
  obtain wc rest t start fin waited rs lf where f: "w_cells (sel i (sim_w s)) = wc # rest"
    "t = (if wc_first wc then w_ready (sel i (sim_w s)) + sel i setups else w_ready (sel i (sim_w s)))"
    "ideal_times (pp_Policy p) (wc_cell wc) (sim_lockFree s) t = (start, fin, waited, rs, lf)" and
    st: "?s' = \<lparr>sim_w = upd i \<lparr>w_cells = rest, w_ready = (if wc_last wc then fin else fin + pp_Cooldown p)\<rparr> (sim_w s),
        sim_lockFree = lf,
        sim_r = \<lparr>Slots = upd i (sel i (Slots (sim_r s)) @
                    [\<lparr>sl_Column = wc_col wc, sl_Scenario = pc_Scenario (wc_cell wc), sl_Heavy = pc_Heavy (wc_cell wc),
                      sl_Start = start, sl_End = fin, sl_Waited = waited, sl_RatedStart = rs\<rparr>]) (Slots (sim_r s)),
                 ArchEnd = upd i fin (ArchEnd (sim_r s)),
                 LockWait = upd i (sel i (LockWait (sim_r s)) + waited) (LockWait (sim_r s)),
                 Makespan = max (Makespan (sim_r s)) fin\<rparr>\<rparr>"
    by (rule ideal_step_fields [OF pick, of setups p]) blast
  have ok: "nonneg_cell (wc_cell wc)" "cells_ok ?s'"
    using inv cells_ok_step [of s i wc rest] f(1) by (auto simp: seq_inv_def st)
  have ord: "t \<le> start" "start \<le> fin" by (rule ideal_times_order [OF f(3) ok(1)])+
  have r: "w_ready (sel i (sim_w s)) \<le> t" using f(2) su by simp
  have old: "map slot_key (sel j (Slots (sim_r s))) @ map walk_key (w_cells (sel j (sim_w s))) = map walk_key (walk_cells (sel j aps))"
    "sorted_wrt (\<lambda>x y. sl_End x \<le> sl_Start y) (sel j (Slots (sim_r s)))"
    "\<forall>x\<in>set (sel j (Slots (sim_r s))). sl_Start x \<le> sl_End x \<and> sl_End x \<le> w_ready (sel j (sim_w s)) \<and> sl_End x \<le> Makespan (sim_r s)" for j
    using inv by (simp_all add: seq_inv_def)
  have new: "map slot_key (sel i (Slots (sim_r s))) @ walk_key wc # map walk_key rest = map walk_key (walk_cells (sel i aps))"
    using old(1) [of i] f(1) by simp
  have bnd: "sl_End x \<le> start" if "x \<in> set (sel i (Slots (sim_r s)))" for x
    using old(3) [of i] that r ord by fastforce
  show ?thesis
    unfolding seq_inv_def
  proof (intro conjI allI ok(2))
    fix j
    show "map slot_key (sel j (Slots (sim_r ?s'))) @ map walk_key (w_cells (sel j (sim_w ?s'))) = map walk_key (walk_cells (sel j aps))"
      using old(1) [of j] new by (auto simp: st slot_key_def walk_key_def)
    show "sorted_wrt (\<lambda>x y. sl_End x \<le> sl_Start y) (sel j (Slots (sim_r ?s')))"
      using old(2) [of j] bnd by (auto simp: st sorted_wrt_append)
    show "\<forall>x\<in>set (sel j (Slots (sim_r ?s'))). sl_Start x \<le> sl_End x \<and> sl_End x \<le> w_ready (sel j (sim_w ?s')) \<and>
        sl_End x \<le> Makespan (sim_r ?s')"
    proof (cases "j = i")
      case True
      have "sl_Start x \<le> sl_End x \<and> sl_End x \<le> fin" if "x \<in> set (sel i (Slots (sim_r s)))" for x
        using old(3) [of i] bnd [OF that] ord that by auto
      then show ?thesis using ord cd True by (auto simp: st le_max_iff_disj add_increasing2)
    next
      case False
      then show ?thesis using old(3) [of j] by (auto simp: st le_max_iff_disj)
    qed
  qed
qed

section \<open>Serialised work\<close>

text \<open>With every cell locked, the lock is never free before all the work done so far would have
  fitted, and the makespan covers it.\<close>

definition work_left :: "sim_state \<Rightarrow> int" where
  "work_left s = sum_list (map (pc_Dur \<circ> wc_cell) (w_cells (fst (sim_w s)))) +
     sum_list (map (pc_Dur \<circ> wc_cell) (w_cells (snd (sim_w s))))"

definition work_inv :: "int \<Rightarrow> sim_state \<Rightarrow> bool" where
  "work_inv tot s \<longleftrightarrow> tot \<le> sim_lockFree s + work_left s \<and> sim_lockFree s \<le> Makespan (sim_r s)"

lemma work_inv_step:
  assumes inv: "work_inv tot s" and pick: "pick_arch (sim_w s) = Some i" and pol: "pp_Policy p = LockAll"
  shows "work_inv tot (ideal_step p setups i s)"
proof -
  obtain wc rest t start fin waited rs lf where f: "w_cells (sel i (sim_w s)) = wc # rest"
    "ideal_times (pp_Policy p) (wc_cell wc) (sim_lockFree s) t = (start, fin, waited, rs, lf)" and
    st: "sim_w (ideal_step p setups i s) = upd i \<lparr>w_cells = rest, w_ready = (if wc_last wc then fin else fin + pp_Cooldown p)\<rparr> (sim_w s)"
      "sim_lockFree (ideal_step p setups i s) = lf"
      "Makespan (sim_r (ideal_step p setups i s)) = max (Makespan (sim_r s)) fin"
    by (rule ideal_step_fields [OF pick, of setups p]) simp
  have "needsLock (pp_Policy p) (wc_cell wc)" by (simp add: needsLock_def pol)
  note l = ideal_times_lock [OF f(2) this]
  have "work_left (ideal_step p setups i s) = work_left s - pc_Dur (wc_cell wc)"
    unfolding work_left_def st(1) using f(1) by (cases i) simp_all
  then show ?thesis using inv l by (simp add: work_inv_def st)
qed


section \<open>Plans whose times fit\<close>

text \<open>What a walk can cost at most: every cell with its load, its rated sweep, a column setup and a
  cooldown. A plan fits when nothing is negative and both walks one after the other, after both
  start offsets, end within the 64-bit range: with nanoseconds, 292 years.\<close>

definition walk_cost :: "plan_params \<Rightarrow> duration \<Rightarrow> walk_cell list \<Rightarrow> int" where
  "walk_cost p setup wcs =
     sum_list (map (\<lambda>wc. pc_Dur (wc_cell wc) + pc_Rated (wc_cell wc) + setup + pp_Cooldown p) wcs)"

definition plan_fits :: "arch_plan \<Rightarrow> arch_plan \<Rightarrow> plan_params \<Rightarrow> bool" where
  "plan_fits a b p \<longleftrightarrow>
     0 \<le> ap_StartOffset a \<and> 0 \<le> ap_StartOffset b \<and> 0 \<le> pp_ColumnSetup p \<and> 0 \<le> pp_Cooldown p \<and>
     ap_StartOffset a + ap_StartOffset b + walk_cost p (setup_time p a) (walk_cells a) +
       walk_cost p (setup_time p b) (walk_cells b) < 2 ^ 63"

definition cost_left :: "plan_params \<Rightarrow> duration \<times> duration \<Rightarrow> sim_state \<Rightarrow> int" where
  "cost_left p setups s = walk_cost p (fst setups) (w_cells (fst (sim_w s))) +
     walk_cost p (snd setups) (w_cells (snd (sim_w s)))"

definition fit_inv :: "plan_params \<Rightarrow> duration \<times> duration \<Rightarrow> sim_state \<Rightarrow> bool" where
  "fit_inv p setups s \<longleftrightarrow> cells_ok s \<and> 0 \<le> sim_lockFree s \<and> sim_lockFree s + cost_left p setups s < 2 ^ 63 \<and>
     (\<forall>i. 0 \<le> w_ready (sel i (sim_w s)) \<and> w_ready (sel i (sim_w s)) + cost_left p setups s < 2 ^ 63 \<and>
        0 \<le> sel i (LockWait (sim_r s)) \<and> sel i (LockWait (sim_r s)) \<le> w_ready (sel i (sim_w s)))"

lemma walk_cost_nonneg:
  "\<forall>wc\<in>set wcs. nonneg_cell (wc_cell wc) \<Longrightarrow> 0 \<le> setup \<Longrightarrow> 0 \<le> pp_Cooldown p \<Longrightarrow> 0 \<le> walk_cost p setup wcs"
  by (auto simp: walk_cost_def nonneg_cell_def intro!: sum_list_nonneg)

lemma cost_left_step:
  assumes "w_cells (sel i (sim_w s)) = wc # rest" and "sim_w s' = upd i \<lparr>w_cells = rest, w_ready = q\<rparr> (sim_w s)"
  shows "cost_left p setups s =
    pc_Dur (wc_cell wc) + pc_Rated (wc_cell wc) + sel i setups + pp_Cooldown p + cost_left p setups s'"
  using assms by (cases i) (simp_all add: cost_left_def walk_cost_def)

lemma cell_times_ideal:
  assumes "nonneg_cell c" and "0 \<le> lockFree" and "0 \<le> t"
    and "lockFree + pc_Dur c + pc_Rated c < 2 ^ 63" and "t + pc_Dur c + pc_Rated c < 2 ^ 63"
  shows "cell_times pol c lockFree t = ideal_times pol c lockFree t"
  using assms by (auto simp: cell_times_def ideal_times_def Let_def nonneg_cell_def wrap64_id in_int64_def)

lemma ideal_times_bounds:
  assumes "ideal_times pol c lockFree t = (start, fin, waited, rs, lf)" and "nonneg_cell c"
    and "0 \<le> lockFree" and "0 \<le> t"
  shows "0 \<le> waited" "t + waited \<le> fin" "0 \<le> lf" "lf \<le> max lockFree t + pc_Dur c + pc_Rated c"
    "fin \<le> max lockFree t + pc_Dur c + pc_Rated c"
  using assms by (auto simp: ideal_times_def Let_def nonneg_cell_def split: if_splits)

lemma fit_step:
  assumes inv: "fit_inv p setups s" and pick: "pick_arch (sim_w s) = Some i"
    and su: "\<And>i. 0 \<le> sel i setups" and cd: "0 \<le> pp_Cooldown p"
  shows "sim_step p setups i s = ideal_step p setups i s \<and> fit_inv p setups (ideal_step p setups i s)"
proof -
  let ?s' = "ideal_step p setups i s"
  obtain wc rest t start fin waited rs lf where f: "w_cells (sel i (sim_w s)) = wc # rest"
    "t = (if wc_first wc then w_ready (sel i (sim_w s)) + sel i setups else w_ready (sel i (sim_w s)))"
    "ideal_times (pp_Policy p) (wc_cell wc) (sim_lockFree s) t = (start, fin, waited, rs, lf)" and
    st: "?s' = \<lparr>sim_w = upd i \<lparr>w_cells = rest, w_ready = (if wc_last wc then fin else fin + pp_Cooldown p)\<rparr> (sim_w s),
        sim_lockFree = lf,
        sim_r = \<lparr>Slots = upd i (sel i (Slots (sim_r s)) @
                    [\<lparr>sl_Column = wc_col wc, sl_Scenario = pc_Scenario (wc_cell wc), sl_Heavy = pc_Heavy (wc_cell wc),
                      sl_Start = start, sl_End = fin, sl_Waited = waited, sl_RatedStart = rs\<rparr>]) (Slots (sim_r s)),
                 ArchEnd = upd i fin (ArchEnd (sim_r s)),
                 LockWait = upd i (sel i (LockWait (sim_r s)) + waited) (LockWait (sim_r s)),
                 Makespan = max (Makespan (sim_r s)) fin\<rparr>\<rparr>"
    by (rule ideal_step_fields [OF pick, of setups p]) blast
  define cost where "cost = cost_left p setups ?s'"
  have ok: "nonneg_cell (wc_cell wc)" "cells_ok ?s'"
    using inv cells_ok_step [of s i wc rest] f(1) by (auto simp: fit_inv_def st)
  have c: "cost_left p setups s = pc_Dur (wc_cell wc) + pc_Rated (wc_cell wc) + sel i setups + pp_Cooldown p + cost"
    unfolding cost_def by (rule cost_left_step [OF f(1)]) (simp add: st)
  have cn: "0 \<le> cost"
    using ok(2) su [of A0] su [of A1] cd unfolding cost_def cost_left_def cells_ok_def
    by (intro add_nonneg_nonneg walk_cost_nonneg) (metis sel.simps)+
  have old: "0 \<le> sim_lockFree s" "sim_lockFree s + cost_left p setups s < 2 ^ 63"
    "0 \<le> w_ready (sel j (sim_w s))" "w_ready (sel j (sim_w s)) + cost_left p setups s < 2 ^ 63"
    "0 \<le> sel j (LockWait (sim_r s))" "sel j (LockWait (sim_r s)) \<le> w_ready (sel j (sim_w s))" for j
    using inv by (auto simp: fit_inv_def)
  have d: "0 \<le> pc_Dur (wc_cell wc)" "0 \<le> pc_Rated (wc_cell wc)" using ok(1) by (auto simp: nonneg_cell_def)
  have t: "w_ready (sel i (sim_w s)) \<le> t" "t \<le> w_ready (sel i (sim_w s)) + sel i setups" "0 \<le> t"
    using f(2) su [of i] old(3) [of i] by auto
  note b = ideal_times_bounds [OF f(3) ok(1) old(1) t(3)]
  have top: "max (sim_lockFree s) t + pc_Dur (wc_cell wc) + pc_Rated (wc_cell wc) + pp_Cooldown p + cost < 2 ^ 63"
    using old(2) old(4) [of i] t(2) c su [of i] by linarith
  have ct: "cell_times (pp_Policy p) (wc_cell wc) (sim_lockFree s) t = (start, fin, waited, rs, lf)"
    unfolding f(3) [symmetric] using top cd cn by (intro cell_times_ideal ok(1) old(1) t(3)) linarith+
  have w: "wrap64 (w_ready (sel i (sim_w s)) + sel i setups) = w_ready (sel i (sim_w s)) + sel i setups"
    "wrap64 (fin + pp_Cooldown p) = fin + pp_Cooldown p"
    "wrap64 (sel i (LockWait (sim_r s)) + waited) = sel i (LockWait (sim_r s)) + waited"
    using b t old(3-6) [of i] su [of i] top cd cn c d
    by (intro wrap64_id; simp only: in_int64_def; linarith)+
  have "sim_step p setups i s = ?s'"
    unfolding st sim_step_def Let_def f(1) list.sel w f(2) [symmetric] ct prod.case by simp
  moreover have "fit_inv p setups ?s'"
    unfolding fit_inv_def cost_def [symmetric]
  proof (intro conjI allI ok(2))
    show "0 \<le> sim_lockFree ?s'" "sim_lockFree ?s' + cost < 2 ^ 63" using b top cd by (simp_all add: st)
    fix j
    have "0 \<le> w_ready (sel j (sim_w ?s')) \<and> w_ready (sel j (sim_w ?s')) + cost < 2 ^ 63 \<and>
        0 \<le> sel j (LockWait (sim_r ?s')) \<and> sel j (LockWait (sim_r ?s')) \<le> w_ready (sel j (sim_w ?s'))"
      using b t top cd old(3-6) [of j] d su [of i] c by (auto simp: st)
    then show "0 \<le> w_ready (sel j (sim_w ?s'))" "w_ready (sel j (sim_w ?s')) + cost < 2 ^ 63"
      "0 \<le> sel j (LockWait (sim_r ?s'))" "sel j (LockWait (sim_r ?s')) \<le> w_ready (sel j (sim_w ?s'))" by blast+
  qed
  ultimately show ?thesis by blast
qed

lemma simulate_ideal:
  assumes "fit_inv p setups s" and "\<And>i. 0 \<le> sel i setups" and "0 \<le> pp_Cooldown p"
  shows "simulate p setups s = ideal_run p setups s"
  using assms(1)
proof (induction "cells_left s" arbitrary: s rule: less_induct)
  case less
  show ?case
  proof (cases "pick_arch (sim_w s)")
    case (Some i)
    note st = fit_step [OF less.prems Some assms(2,3)]
    with less.hyps [OF cells_left_step [OF Some]] Some show ?thesis
      by (subst simulate.simps, subst ideal_run.simps) simp
  qed (subst simulate.simps, subst ideal_run.simps, simp)
qed

theorem plan_ideal:
  assumes "wf_plan a" "wf_plan b" "plan_fits a b p"
  shows "SimulateArchPlan a b p = ideal_plan a b p"
proof -
  have su: "0 \<le> sel i (setup_time p a, setup_time p b)" for i
    using assms(3) by (cases i) (auto simp: setup_time_def plan_fits_def)
  have cd: "0 \<le> pp_Cooldown p" using assms(3) by (simp add: plan_fits_def)
  have "fit_inv p (setup_time p a, setup_time p b) (init_sim a b)"
    unfolding fit_inv_def
  proof (intro conjI allI cells_ok_init [OF assms(1,2)])
    have "0 \<le> walk_cost p (setup_time p a) (walk_cells a)" "0 \<le> walk_cost p (setup_time p b) (walk_cells b)"
      using su [of A0] su [of A1] cd walk_cells_nonneg assms(1,2) by (auto intro!: walk_cost_nonneg)
    note c = this
    show "0 \<le> sim_lockFree (init_sim a b)" by (simp add: init_sim_def)
    show "sim_lockFree (init_sim a b) + cost_left p (setup_time p a, setup_time p b) (init_sim a b) < 2 ^ 63"
      using assms(3) by (simp add: init_sim_def cost_left_def new_walker_def plan_fits_def)
    fix i
    show "0 \<le> w_ready (sel i (sim_w (init_sim a b)))"
      "w_ready (sel i (sim_w (init_sim a b))) + cost_left p (setup_time p a, setup_time p b) (init_sim a b) < 2 ^ 63"
      "0 \<le> sel i (LockWait (sim_r (init_sim a b)))"
      "sel i (LockWait (sim_r (init_sim a b))) \<le> w_ready (sel i (sim_w (init_sim a b)))"
      using assms(3) by (cases i; auto simp: init_sim_def cost_left_def new_walker_def plan_fits_def)+
  qed
  from simulate_ideal [OF this su cd] show ?thesis by (simp add: SimulateArchPlan_def ideal_plan_def)
qed


section \<open>Properties\<close>

text \<open>C34: the lock policies exclude what they promise. For plans with non-negative durations, start
  offsets, setups and cooldowns whose times fit 64 bits (\<open>plan_fits\<close>: both walks one after the other
  take less than \<open>2 ^ 63\<close> nanoseconds), simulated with the wrap-around of the code: under policy \<open>all\<close> no slot of one arch shares time with
  a slot of the other; under \<open>heavy\<close> and \<open>heavy+rated\<close> no heavy slot does with a heavy one; and
  under \<open>heavy+rated\<close> no rated sweep of a light cell runs under a heavy cell of the peer.\<close>

theorem arch_plan_exclusion:
  assumes "wf_plan a" "wf_plan b" "plan_fits a b p"
  shows "(pp_Policy p = LockAll \<longrightarrow> Overlaps (SimulateArchPlan a b p) = (0, 0, 0)) \<and>
    (pp_Policy p = LockHeavy \<or> pp_Policy p = LockHeavyRated \<longrightarrow> fst (Overlaps (SimulateArchPlan a b p)) = 0) \<and>
    (pp_Policy p = LockHeavyRated \<longrightarrow> RatedUnderHeavy (SimulateArchPlan a b p) = (0, 0, 0))"
  unfolding plan_ideal [OF assms]
proof (intro conjI impI)
  let ?r = "ideal_plan a b p"
  let ?pairs = "filter (\<lambda>(x, y). share_time x y) (List.product (fst (Slots ?r)) (snd (Slots ?r)))"
  show "Overlaps ?r = (0, 0, 0)" if "pp_Policy p = LockAll"
  proof -
    have "?pairs = []" using no_shared_time [OF assms(1,2)] that by (auto simp: filter_empty_conv)
    then show ?thesis by (simp add: Overlaps_def)
  qed
  show "fst (Overlaps ?r) = 0" if "pp_Policy p = LockHeavy \<or> pp_Policy p = LockHeavyRated"
  proof -
    have "filter (\<lambda>(x, y). sl_Heavy x \<and> sl_Heavy y) ?pairs = []"
      using no_shared_time [OF assms(1,2)] that by (auto simp: filter_empty_conv)
    then show ?thesis by (simp add: Overlaps_def Let_def del: filter_filter)
  qed
  show "RatedUnderHeavy ?r = (0, 0, 0)" if pol: "pp_Policy p = LockHeavyRated"
  proof -
    have "rated_hits x (sel (other i) (Slots ?r)) = []"
      if "x \<in> set (sel i (Slots ?r))" "\<not> (sl_Heavy x \<or> sl_RatedStart x = 0)" for x i
    proof -
      have "sl_End x \<le> sl_Start y \<or> sl_End y \<le> sl_RatedStart x" if "y \<in> set (sel (other i) (Slots ?r))" "sl_Heavy y" for y
        using locked_slots_disjoint [OF assms(1,2) \<open>x \<in> _\<close> that(1), of "sl_RatedStart x" "sl_Start y"] that pol
          \<open>\<not> (sl_Heavy x \<or> sl_RatedStart x = 0)\<close>
        by (simp add: lock_start_def)
      then show ?thesis by (auto simp: rated_hits_def)
    qed
    note A = this
    define hits where "hits = concat (map (\<lambda>side.
            map (\<lambda>x. rated_hits x (sel (other side) (Slots ?r)))
              (filter (\<lambda>x. \<not> (sl_Heavy x \<or> sl_RatedStart x = 0)) (sel side (Slots ?r)))) [A0, A1])"
    have "\<forall>h\<in>set hits. h = []" 
      unfolding hits_def by (intro ballI) (clarsimp simp del: sel.simps other.simps; erule disjE; clarsimp simp del: sel.simps other.simps simp: A)
    then have h: "filter (\<lambda>h. h \<noteq> []) hits = []" "concat hits = []" by (auto simp: filter_empty_conv)
    show ?thesis unfolding RatedUnderHeavy_def Let_def hits_def [symmetric] h by (simp add: wrap64_def)
  qed
qed

definition w_plan :: "bool \<Rightarrow> arch_plan" where
  "w_plan rv = \<lparr>ap_Columns = [\<lparr>col_Name = ''c'', col_Cells =
       [\<lparr>pc_Scenario = ''post-4k'', pc_Heavy = True, pc_Dur = 10, pc_Rated = 4\<rparr>,
        \<lparr>pc_Scenario = ''churn-close'', pc_Heavy = False, pc_Dur = 10, pc_Rated = 4\<rparr>]\<rparr>],
     ap_ReverseCells = rv, ap_ReverseColumns = False, ap_StartOffset = 0, ap_ColumnSetup = 0\<rparr>"

definition w_params :: "lock_policy \<Rightarrow> plan_params" where
  "w_params pol = \<lparr>pp_Policy = pol, pp_Cooldown = 1, pp_ColumnSetup = 2\<rparr>"

lemma w_plan_wf: "wf_plan (w_plan rv)"
  by (simp add: wf_plan_def w_plan_def nonneg_cell_def)

lemma w_plan_fits: "plan_fits (w_plan x) (w_plan y) (w_params pol)"
  by (cases x; cases y; cases pol; simp only:; code_simp)

theorem arch_plan_exclusion_witness:
  "Overlaps (SimulateArchPlan (w_plan False) (w_plan True) (w_params LockAll)) = (0, 0, 0) \<and>
   RatedUnderHeavy (SimulateArchPlan (w_plan False) (w_plan True) (w_params LockHeavyRated)) = (0, 0, 0) \<and>
   RatedUnderHeavy (SimulateArchPlan (w_plan False) (w_plan True) (w_params LockHeavy)) = (2, 2, 8)"
proof -
  have "RatedUnderHeavy (SimulateArchPlan (w_plan False) (w_plan True) (w_params LockHeavy)) = (2, 2, 8)"
    by code_simp
  then show ?thesis
    using arch_plan_exclusion [OF w_plan_wf w_plan_wf w_plan_fits, of LockAll False True]
      arch_plan_exclusion [OF w_plan_wf w_plan_wf w_plan_fits, of LockHeavyRated False True]
    by (simp add: w_params_def)
qed

text \<open>The simulation runs every cell of both walks exactly once, in walk order and one after the
  other. For a plan whose times fit 64 bits the slots of an arch, read in order,
  are the cells of its walk, each slot starts after the previous one ended, and the makespan
  covers every slot.\<close>

theorem arch_plan_sequential:
  assumes "wf_plan a" "wf_plan b" "plan_fits a b p"
  shows "map slot_key (sel i (Slots (SimulateArchPlan a b p))) = map walk_key (walk_cells (sel i (a, b))) \<and>
    sorted_wrt (\<lambda>x y. sl_End x \<le> sl_Start y) (sel i (Slots (SimulateArchPlan a b p))) \<and>
    (\<forall>x\<in>set (sel i (Slots (SimulateArchPlan a b p))).
       sl_Start x \<le> sl_End x \<and> sl_End x \<le> Makespan (SimulateArchPlan a b p))"
proof -
  let ?su = "(setup_time p a, setup_time p b)"
  have su: "0 \<le> sel i ?su" for i using assms(3) by (cases i) (simp_all add: setup_time_def plan_fits_def)
  have cd: "0 \<le> pp_Cooldown p" using assms(3) by (simp add: plan_fits_def)
  have "seq_inv (a, b) (init_sim a b)"
    unfolding seq_inv_def
  proof (intro conjI allI cells_ok_init [OF assms(1,2)])
    fix i
    show "map slot_key (sel i (Slots (sim_r (init_sim a b)))) @ map walk_key (w_cells (sel i (sim_w (init_sim a b)))) =
        map walk_key (walk_cells (sel i (a, b)))"
      by (cases i) (simp_all add: init_sim_def new_walker_def)
  qed (auto simp: init_sim_def, (case_tac i; simp)+)
  from ideal_run_invariant [where I = "seq_inv (a, b)", OF this seq_inv_step [OF _ _ su cd]]
  obtain s' where s': "seq_inv (a, b) s'" "w_cells (fst (sim_w s')) = []" "w_cells (snd (sim_w s')) = []"
    "ideal_plan a b p = sim_r s'"
    by (auto simp: ideal_plan_def)
  moreover from this have "w_cells (sel i (sim_w s')) = []" by (cases i) simp_all
  ultimately show ?thesis unfolding plan_ideal [OF assms] by (auto simp: seq_inv_def dest!: spec [of _ i])
qed

theorem arch_plan_sequential_witness:
  "map slot_key (fst (Slots (SimulateArchPlan (w_plan False) (w_plan True) (w_params LockHeavy)))) =
     [(''c'', ''post-4k'', True), (''c'', ''churn-close'', False)]"
proof -
  have "map walk_key (walk_cells (w_plan False)) = [(''c'', ''post-4k'', True), (''c'', ''churn-close'', False)]"
    by code_simp
  then show ?thesis
    using arch_plan_sequential [OF w_plan_wf w_plan_wf w_plan_fits, of A0 False True LockHeavy]
    by (simp add: w_params_def)
qed

text \<open>Policy \<open>all\<close> costs the sum of both walks. With every cell locked the makespan is at least the
  total load time of both arches, when the times fit 64 bits: they are fully serialised.\<close>

theorem arch_plan_serialised:
  assumes "pp_Policy p = LockAll" and fits: "wf_plan a" "wf_plan b" "plan_fits a b p"
  shows "sum_list (map (pc_Dur \<circ> wc_cell) (walk_cells a)) + sum_list (map (pc_Dur \<circ> wc_cell) (walk_cells b))
    \<le> Makespan (SimulateArchPlan a b p)"
proof -
  let ?t = "sum_list (map (pc_Dur \<circ> wc_cell) (walk_cells a)) + sum_list (map (pc_Dur \<circ> wc_cell) (walk_cells b))"
  have "work_inv ?t (init_sim a b)"
    by (simp add: work_inv_def work_left_def init_sim_def new_walker_def)
  from ideal_run_invariant [where I = "work_inv ?t", OF this work_inv_step [OF _ _ assms(1)]]
  obtain s' where "work_inv ?t s'" "w_cells (fst (sim_w s')) = []" "w_cells (snd (sim_w s')) = []"
    "ideal_plan a b p = sim_r s'"
    by (auto simp: ideal_plan_def)
  then show ?thesis unfolding plan_ideal [OF fits] by (simp add: work_inv_def work_left_def)
qed

theorem arch_plan_serialised_witness:
  "40 \<le> Makespan (SimulateArchPlan (w_plan False) (w_plan True) (w_params LockAll))"
proof -
  have "sum_list (map (pc_Dur \<circ> wc_cell) (walk_cells (w_plan False))) = 20"
    and "sum_list (map (pc_Dur \<circ> wc_cell) (walk_cells (w_plan True))) = 20"
    by code_simp+
  then show ?thesis
    using arch_plan_serialised [OF _ w_plan_wf w_plan_wf w_plan_fits, of LockAll False True] by (simp add: w_params_def)
qed

end
