(* ===== verification/ArchOverlap.thy ===== *)
theory ArchOverlap
  imports ClientLock ArchPlan
begin

text \<open>
  The check a both-arch run makes of its own exclusion: \<open>src/report/archoverlap.go\<close>.

  A \<open>time.Time\<close> is the number of nanoseconds since Go's zero time, so the zero value is \<open>0\<close>;
  \<open>Time.Sub\<close> saturates at the 64-bit range. \<open>sort.Slice\<close> is not stable: the two sorts are
  arguments of the model, and the lemmas assume of them only that they permute and sort
  (locale \<open>slice_sort\<close>, interpreted by the stable sort). The report's free-text summary is not
  modelled; \<open>Problem\<close> returns which of its messages applies.

  The lemmas show that the scan over start-sorted windows with its early exit counts exactly
  the pairs that share time, and that the windows of a simulated plan pass the check.
\<close>


section \<open>Load windows\<close>

type_synonym time = int

record load_window =
  lw_Competitor :: string
  lw_Scenario :: string
  lw_Kind :: string
  lw_Class :: string
  lw_Start :: time
  lw_End :: time

record overlap_pair =
  op_A :: load_window
  op_B :: load_window
  op_Overlap :: duration

record overlap_report =
  or_Policy :: string
  ChecksA :: nat
  ChecksB :: nat
  MissingA :: nat
  MissingB :: nat
  HeavyHeavy :: nat
  HeavyLight :: nat
  LightLight :: nat
  or_Violations :: "overlap_pair list"
  Total :: nat

definition MaxListedViolations :: nat where "MaxListedViolations = 25"

definition Clean :: "overlap_report \<Rightarrow> bool" where
  "Clean r \<longleftrightarrow> Total r = 0 \<and> MissingA r = 0 \<and> MissingB r = 0"

definition windowUsable :: "load_window \<Rightarrow> bool" where
  "windowUsable w \<longleftrightarrow> lw_Start w \<noteq> 0 \<and> lw_End w \<noteq> 0 \<and> lw_End w > lw_Start w"

definition isHeavy :: "load_window \<Rightarrow> bool" where
  "isHeavy w \<longleftrightarrow> lw_Class w \<noteq> ''light''"

definition forbidden :: "string \<Rightarrow> load_window \<Rightarrow> load_window \<Rightarrow> bool" where
  "forbidden policy a b =
     (if policy = ExclusionAll then True
      else if policy = ExclusionHeavy then isHeavy a \<and> isHeavy b
      else False)"

definition overlap_of :: "load_window \<Rightarrow> load_window \<Rightarrow> duration" where
  "overlap_of x y =
     (let lo = (if lw_Start y > lw_Start x then lw_Start y else lw_Start x);
          hi = (if lw_End y < lw_End x then lw_End y else lw_End x)
      in time_sub hi lo)"

text \<open>The inner loop for one window \<open>x\<close> over the sorted windows, with its \<open>break\<close>.\<close>

fun scan_windows :: "load_window \<Rightarrow> load_window list \<Rightarrow> overlap_pair list" where
  "scan_windows x [] = []"
| "scan_windows x (y # ys) =
     (if \<not> lw_Start y < lw_End x then []
      else if \<not> lw_Start x < lw_End y then scan_windows x ys
      else if overlap_of x y \<le> 0 then scan_windows x ys
      else \<lparr>op_A = x, op_B = y, op_Overlap = overlap_of x y\<rparr> # scan_windows x ys)"

definition both_heavy :: "overlap_pair \<Rightarrow> bool" where
  "both_heavy q \<longleftrightarrow> isHeavy (op_A q) \<and> isHeavy (op_B q)"

definition one_heavy :: "overlap_pair \<Rightarrow> bool" where
  "one_heavy q \<longleftrightarrow> \<not> (isHeavy (op_A q) \<and> isHeavy (op_B q)) \<and> (isHeavy (op_A q) \<or> isHeavy (op_B q))"

definition none_heavy :: "overlap_pair \<Rightarrow> bool" where
  "none_heavy q \<longleftrightarrow> \<not> isHeavy (op_A q) \<and> \<not> isHeavy (op_B q)"

definition CheckArchOverlap ::
  "(load_window list \<Rightarrow> load_window list) \<Rightarrow> (overlap_pair list \<Rightarrow> overlap_pair list) \<Rightarrow>
   load_window list \<Rightarrow> load_window list \<Rightarrow> string \<Rightarrow> overlap_report" where
  "CheckArchOverlap sortWindows sortPairs a b policy =
     (let ua = filter windowUsable a;
          ub0 = filter windowUsable b;
          ub = sortWindows ub0;
          pairs = concat (map (\<lambda>x. scan_windows x ub) ua);
          viol = filter (\<lambda>q. forbidden policy (op_A q) (op_B q)) pairs
      in \<lparr>or_Policy = policy, ChecksA = length ua, ChecksB = length ub0,
          MissingA = length (filter (\<lambda>w. \<not> windowUsable w) a),
          MissingB = length (filter (\<lambda>w. \<not> windowUsable w) b),
          HeavyHeavy = length (filter both_heavy pairs),
          HeavyLight = length (filter one_heavy pairs),
          LightLight = length (filter none_heavy pairs),
          or_Violations = take MaxListedViolations (sortPairs viol),
          Total = length viol\<rparr>)"


section \<open>The record in the document\<close>

record arch_exclusion =
  ae_Policy :: string
  ae_PeerArch :: string
  ae_CellOrder :: string
  ae_Checked :: nat
  ae_PeerChecked :: nat
  ae_HeavyHeavyOverlaps :: nat
  ae_HeavyLightOverlaps :: nat
  ae_LightLightOverlaps :: nat
  ae_Violations :: nat
  ae_MissingTimestamps :: nat

definition ArchExclusionFor ::
  "(load_window list \<Rightarrow> load_window list) \<Rightarrow> (overlap_pair list \<Rightarrow> overlap_pair list) \<Rightarrow>
   string \<Rightarrow> string \<Rightarrow> string \<Rightarrow> load_window list \<Rightarrow> load_window list \<Rightarrow> arch_exclusion" where
  "ArchExclusionFor sortWindows sortPairs policy peerArch order own peer =
     (let rep = CheckArchOverlap sortWindows sortPairs own peer policy
      in \<lparr>ae_Policy = policy, ae_PeerArch = peerArch, ae_CellOrder = order,
          ae_Checked = ChecksA rep, ae_PeerChecked = ChecksB rep,
          ae_HeavyHeavyOverlaps = HeavyHeavy rep, ae_HeavyLightOverlaps = HeavyLight rep,
          ae_LightLightOverlaps = LightLight rep, ae_Violations = Total rep,
          ae_MissingTimestamps = MissingA rep + MissingB rep\<rparr>)"

datatype exclusion_problem =
  NoProblem | Violated nat | NotVerified nat | NothingCompared | PolicyOff

definition Problem :: "arch_exclusion option \<Rightarrow> exclusion_problem" where
  "Problem e =
     (case e of
        None \<Rightarrow> NoProblem
      | Some e \<Rightarrow>
          if ae_Violations e > 0 then Violated (ae_Violations e)
          else if ae_MissingTimestamps e > 0 then NotVerified (ae_MissingTimestamps e)
          else if ae_Policy e \<noteq> ExclusionOff \<and> ae_Checked e = 0 \<and> ae_PeerChecked e = 0 then NothingCompared
          else if ae_Policy e = ExclusionOff then PolicyOff
          else NoProblem)"

definition PublishProblem :: "arch_exclusion option \<Rightarrow> bool" where
  "PublishProblem e = (case e of Some e \<Rightarrow> ae_Policy e = ExclusionHeavy | None \<Rightarrow> False)"


section \<open>The sorting contract\<close>

interpretation window_sort: slice_sort lw_Start "sort_key lw_Start"
  by unfold_locales simp_all

interpretation pair_sort: slice_sort "\<lambda>q. - op_Overlap q" "sort_key (\<lambda>q. - op_Overlap q)"
  by unfold_locales simp_all


section \<open>The scan is a brute-force count\<close>

text \<open>Two usable windows share a positive length of time.\<close>

definition intersect :: "load_window \<Rightarrow> load_window \<Rightarrow> bool" where
  "intersect x y \<longleftrightarrow> max (lw_Start x) (lw_Start y) < min (lw_End x) (lw_End y)"

definition brute :: "load_window \<Rightarrow> load_window list \<Rightarrow> overlap_pair list" where
  "brute x ys = map (\<lambda>y. \<lparr>op_A = x, op_B = y, op_Overlap = overlap_of x y\<rparr>) (filter (intersect x) ys)"

lemma overlap_of_pos: "0 < overlap_of x y \<longleftrightarrow> intersect x y"
  by (auto simp: overlap_of_def time_sub_def intersect_def max_def min_def Let_def)

lemma intersect_bounds: "intersect x y \<Longrightarrow> lw_Start y < lw_End x \<and> lw_Start x < lw_End y"
  by (auto simp: intersect_def)

lemma scan_windows_brute:
  "sorted (map lw_Start ys) \<Longrightarrow> scan_windows x ys = brute x ys"
proof (induction ys)
  case (Cons y ys)
  show ?case
  proof (cases "lw_Start y < lw_End x")
    case False
    then have "\<not> intersect x z" if "z \<in> set (y # ys)" for z
      using Cons.prems that intersect_bounds [of x z] by auto
    then have "brute x (y # ys) = []" by (auto simp: brute_def filter_empty_conv)
    with False show ?thesis by simp
  next
    case True
    have step: "brute x (y # ys) = (if intersect x y then [\<lparr>op_A = x, op_B = y, op_Overlap = overlap_of x y\<rparr>] else []) @ brute x ys"
      by (simp add: brute_def)
    have "scan_windows x ys = brute x ys" using Cons by simp
    with True show ?thesis
      unfolding step using overlap_of_pos [of x y] intersect_bounds [of x y] by auto
  qed
qed (simp add: brute_def)

lemma mset_brute: "mset ys = mset zs \<Longrightarrow> mset (brute x ys) = mset (brute x zs)"
  by (simp add: brute_def)

lemma mset_concat_pointwise: "(\<And>x. mset (f x) = mset (g x)) \<Longrightarrow> mset (concat (map f xs)) = mset (concat (map g xs))"
  by (induction xs) auto

lemma concat_brute_product:
  "concat (map (\<lambda>x. brute x ys) xs) =
     map (\<lambda>(x, y). \<lparr>op_A = x, op_B = y, op_Overlap = overlap_of x y\<rparr>)
       (filter (\<lambda>(x, y). intersect x y) (List.product xs ys))"
  by (induction xs) (simp_all add: brute_def filter_map comp_def)

lemma scan_pairs:
  assumes "slice_sort lw_Start srt"
  shows "mset (concat (map (\<lambda>x. scan_windows x (srt ys)) xs)) =
    mset (map (\<lambda>(x, y). \<lparr>op_A = x, op_B = y, op_Overlap = overlap_of x y\<rparr>)
       (filter (\<lambda>(x, y). intersect x y) (List.product xs ys)))"
proof -
  have "scan_windows x (srt ys) = brute x (srt ys)" for x
    by (rule scan_windows_brute [OF slice_sort.srt_sorted [OF assms]])
  then show ?thesis
    unfolding concat_brute_product [symmetric]
    using mset_concat_pointwise [of "\<lambda>x. brute x (srt ys)" "\<lambda>x. brute x ys" xs]
      mset_brute [OF slice_sort.srt_mset [OF assms]] by simp
qed

text \<open>The specification: the usable pairs that share time, by brute force.\<close>

definition shared_pairs :: "load_window list \<Rightarrow> load_window list \<Rightarrow> (load_window \<times> load_window) list" where
  "shared_pairs a b = filter (\<lambda>(x, y). intersect x y) (List.product (filter windowUsable a) (filter windowUsable b))"

lemma scan_count:
  assumes "slice_sort lw_Start srt"
  shows "length (filter P (concat (map (\<lambda>x. scan_windows x (srt (filter windowUsable b))) (filter windowUsable a)))) =
    length (filter (\<lambda>(x, y). P \<lparr>op_A = x, op_B = y, op_Overlap = overlap_of x y\<rparr>) (shared_pairs a b))"
  using length_filter_mset [OF scan_pairs [OF assms, of "filter windowUsable b" "filter windowUsable a"], of P]
  by (simp add: shared_pairs_def filter_map comp_def case_prod_unfold)

lemma report_counts:
  fixes sw sp a b policy
  assumes "slice_sort lw_Start sw"
  defines "r \<equiv> CheckArchOverlap sw sp a b policy"
  shows "HeavyHeavy r = length (filter (\<lambda>(x, y). isHeavy x \<and> isHeavy y) (shared_pairs a b))"
    and "HeavyLight r = length (filter (\<lambda>(x, y). isHeavy x \<noteq> isHeavy y) (shared_pairs a b))"
    and "LightLight r = length (filter (\<lambda>(x, y). \<not> isHeavy x \<and> \<not> isHeavy y) (shared_pairs a b))"
    and "Total r = length (filter (\<lambda>(x, y). forbidden policy x y) (shared_pairs a b))"
proof -
  have one: "one_heavy \<lparr>op_A = x, op_B = y, op_Overlap = o'\<rparr> \<longleftrightarrow> isHeavy x \<noteq> isHeavy y" for x y o'
    by (auto simp: one_heavy_def)
  show "HeavyHeavy r = length (filter (\<lambda>(x, y). isHeavy x \<and> isHeavy y) (shared_pairs a b))"
    "HeavyLight r = length (filter (\<lambda>(x, y). isHeavy x \<noteq> isHeavy y) (shared_pairs a b))"
    "LightLight r = length (filter (\<lambda>(x, y). \<not> isHeavy x \<and> \<not> isHeavy y) (shared_pairs a b))"
    "Total r = length (filter (\<lambda>(x, y). forbidden policy x y) (shared_pairs a b))"
    unfolding r_def CheckArchOverlap_def Let_def overlap_report.simps scan_count [OF assms(1)]
    by (simp_all add: both_heavy_def one none_heavy_def)
qed

lemma intersect_sym: "intersect x y = intersect y x"
  by (simp add: intersect_def max.commute min.commute)

lemma shared_count_swap:
  "length (filter (\<lambda>(x, y). P x y) (shared_pairs a b)) = length (filter (\<lambda>(y, x). P x y) (shared_pairs b a))"
  using length_filter_product_swap [of "\<lambda>x y. intersect x y \<and> P x y" "filter windowUsable a" "filter windowUsable b"]
  by (simp add: shared_pairs_def case_prod_unfold intersect_sym conj_commute)


lemma shared_count_sym:
  assumes "\<And>x y. P x y = P y x"
  shows "length (filter (\<lambda>(x, y). P x y) (shared_pairs a b)) = length (filter (\<lambda>(x, y). P x y) (shared_pairs b a))"
proof -
  have "(\<lambda>(y, x). P x y) = (\<lambda>(x, y). P x y)" using assms by auto
  with shared_count_swap [of P a b] show ?thesis by simp
qed


section \<open>Windows of a simulated plan\<close>

definition slot_window :: "string \<Rightarrow> time \<Rightarrow> slot \<Rightarrow> load_window" where
  "slot_window kind base x =
     \<lparr>lw_Competitor = sl_Column x, lw_Scenario = sl_Scenario x, lw_Kind = kind,
      lw_Class = (if sl_Heavy x then ''heavy'' else ''light''),
      lw_Start = base + sl_Start x, lw_End = base + sl_End x\<rparr>"

lemma slot_window_heavy: "isHeavy (slot_window kind base x) = sl_Heavy x"
  by (simp add: slot_window_def isHeavy_def)

lemma slot_window_intersect: "intersect (slot_window k base x) (slot_window k base y) \<Longrightarrow> share_time x y"
  by (auto simp: intersect_def slot_window_def share_time_def)

definition runner_policy :: "lock_policy \<Rightarrow> string" where
  "runner_policy pol = (case pol of LockAll \<Rightarrow> ExclusionAll | LockHeavy \<Rightarrow> ExclusionHeavy | _ \<Rightarrow> ExclusionOff)"


section \<open>Properties\<close>

text \<open>C35: the overlap report is exact. Whatever order the unstable sorts leave ties in, the scan with
  its early exit counts exactly the pairs of usable windows that share a positive length of
  time, by class and by what the policy forbids; the report is clean if and only if every
  window is usable and no forbidden pair shares time; and the listed violations are the
  longest ones, at most 25.\<close>

theorem CheckArchOverlap_exact:
  fixes sw sp a b policy
  assumes "slice_sort lw_Start sw" and "slice_sort (\<lambda>q. - op_Overlap q) sp"
  defines "r \<equiv> CheckArchOverlap sw sp a b policy"
  shows "HeavyHeavy r = length (filter (\<lambda>(x, y). isHeavy x \<and> isHeavy y) (shared_pairs a b)) \<and>
    HeavyLight r = length (filter (\<lambda>(x, y). isHeavy x \<noteq> isHeavy y) (shared_pairs a b)) \<and>
    LightLight r = length (filter (\<lambda>(x, y). \<not> isHeavy x \<and> \<not> isHeavy y) (shared_pairs a b)) \<and>
    Total r = length (filter (\<lambda>(x, y). forbidden policy x y) (shared_pairs a b)) \<and>
    (Clean r \<longleftrightarrow> (\<forall>w\<in>set a \<union> set b. windowUsable w) \<and>
       (\<forall>x\<in>set a. \<forall>y\<in>set b. \<not> (intersect x y \<and> forbidden policy x y))) \<and>
    length (or_Violations r) = min 25 (Total r) \<and>
    (\<exists>rest. mset (or_Violations r) + mset rest =
         mset (map (\<lambda>(x, y). \<lparr>op_A = x, op_B = y, op_Overlap = overlap_of x y\<rparr>)
           (filter (\<lambda>(x, y). forbidden policy x y) (shared_pairs a b))) \<and>
       (\<forall>p\<in>set (or_Violations r). \<forall>q\<in>set rest. op_Overlap q \<le> op_Overlap p))"
proof -
  let ?ua = "filter windowUsable a" and ?ub = "filter windowUsable b"
  let ?pairs = "concat (map (\<lambda>x. scan_windows x (sw ?ub)) ?ua)"
  let ?viol = "filter (\<lambda>q. forbidden policy (op_A q) (op_B q)) ?pairs"
  let ?mk = "\<lambda>(x, y). \<lparr>op_A = x, op_B = y, op_Overlap = overlap_of x y\<rparr>"
  have vs: "or_Violations r = take 25 (sp ?viol)" and tot: "Total r = length ?viol"
    and mi: "MissingA r = length (filter (\<lambda>w. \<not> windowUsable w) a)" "MissingB r = length (filter (\<lambda>w. \<not> windowUsable w) b)"
    by (simp_all add: r_def CheckArchOverlap_def Let_def MaxListedViolations_def)
  have counts: "HeavyHeavy r = length (filter (\<lambda>(x, y). isHeavy x \<and> isHeavy y) (shared_pairs a b))"
    "HeavyLight r = length (filter (\<lambda>(x, y). isHeavy x \<noteq> isHeavy y) (shared_pairs a b))"
    "LightLight r = length (filter (\<lambda>(x, y). \<not> isHeavy x \<and> \<not> isHeavy y) (shared_pairs a b))"
    "Total r = length (filter (\<lambda>(x, y). forbidden policy x y) (shared_pairs a b))"
    unfolding r_def by (rule report_counts [OF assms(1)])+
  have "mset ?viol = mset (filter (\<lambda>q. forbidden policy (op_A q) (op_B q)) (map ?mk (shared_pairs a b)))"
    using scan_pairs [OF assms(1), of ?ub ?ua] by (simp add: shared_pairs_def)
  then have mv: "mset ?viol = mset (map ?mk (filter (\<lambda>(x, y). forbidden policy x y) (shared_pairs a b)))"
    by (simp add: filter_map comp_def case_prod_unfold)
  have clean: "Clean r \<longleftrightarrow> (\<forall>w\<in>set a \<union> set b. windowUsable w) \<and>
       (\<forall>x\<in>set a. \<forall>y\<in>set b. \<not> (intersect x y \<and> forbidden policy x y))"
    unfolding Clean_def mi counts(4) by (auto simp: filter_empty_conv shared_pairs_def)
  have len: "length (or_Violations r) = min 25 (Total r)"
    by (simp add: vs tot slice_sort.srt_length [OF assms(2)])
  have rest: "mset (or_Violations r) + mset (drop 25 (sp ?viol)) = mset (map ?mk (filter (\<lambda>(x, y). forbidden policy x y) (shared_pairs a b)))"
    unfolding mv [symmetric] vs using slice_sort.srt_mset [OF assms(2), of ?viol]
    by (metis append_take_drop_id mset_append)
  have "\<forall>p\<in>set (or_Violations r). \<forall>q\<in>set (drop 25 (sp ?viol)). op_Overlap q \<le> op_Overlap p"
    using slice_sort.srt_take_min [OF assms(2)] by (fastforce simp: vs)
  with counts clean len rest show ?thesis by blast
qed

definition w_window :: "string \<Rightarrow> time \<Rightarrow> time \<Rightarrow> load_window" where
  "w_window cls s e = \<lparr>lw_Competitor = ''c'', lw_Scenario = ''s'', lw_Kind = ''saturation'', lw_Class = cls, lw_Start = s, lw_End = e\<rparr>"

theorem CheckArchOverlap_exact_witness:
  "let a = [w_window ''heavy'' 10 20, w_window ''light'' 30 40]; b = [w_window ''light'' 35 50, w_window ''heavy'' 15 32];
       r = CheckArchOverlap (sort_key lw_Start) (sort_key (\<lambda>q. - op_Overlap q)) a b ExclusionHeavy
   in Total r = 1 \<and> \<not> Clean r \<and> HeavyLight r = length (filter (\<lambda>(x, y). isHeavy x \<noteq> isHeavy y) (shared_pairs a b))"
proof -
  let ?a = "[w_window ''heavy'' 10 20, w_window ''light'' 30 40]" and ?b = "[w_window ''light'' 35 50, w_window ''heavy'' 15 32]"
  have "Total (CheckArchOverlap (sort_key lw_Start) (sort_key (\<lambda>q. - op_Overlap q)) ?a ?b ExclusionHeavy) = 1" by code_simp
  then show ?thesis
    using CheckArchOverlap_exact [OF window_sort.slice_sort_axioms pair_sort.slice_sort_axioms, of ?a ?b ExclusionHeavy]
    unfolding Let_def by (simp add: Clean_def)
qed

text \<open>Both documents carry the same verdict. The record stamped into one arch's document and the
  one stamped into its peer's have the same overlap counts, violations and missing windows,
  with the two window counts exchanged, so one is a problem exactly when the other is.\<close>

theorem ArchExclusion_symmetric:
  fixes sw sp policy peer peer' order order' own other_ws
  assumes "slice_sort lw_Start sw" and "slice_sort (\<lambda>q. - op_Overlap q) sp"
  defines "e \<equiv> ArchExclusionFor sw sp policy peer order own other_ws"
    and "e' \<equiv> ArchExclusionFor sw sp policy peer' order' other_ws own"
  shows "ae_HeavyHeavyOverlaps e = ae_HeavyHeavyOverlaps e' \<and> ae_HeavyLightOverlaps e = ae_HeavyLightOverlaps e' \<and>
    ae_LightLightOverlaps e = ae_LightLightOverlaps e' \<and> ae_Violations e = ae_Violations e' \<and>
    ae_MissingTimestamps e = ae_MissingTimestamps e' \<and> ae_Checked e = ae_PeerChecked e' \<and>
    ae_PeerChecked e = ae_Checked e' \<and> Problem (Some e) = Problem (Some e')"
proof -
  have fs: "forbidden policy x y = forbidden policy y x" for x y by (auto simp: forbidden_def)
  note c = report_counts [OF assms(1), of sp own other_ws policy] report_counts [OF assms(1), of sp other_ws own policy]
  have "ae_HeavyHeavyOverlaps e = ae_HeavyHeavyOverlaps e'" "ae_HeavyLightOverlaps e = ae_HeavyLightOverlaps e'"
    "ae_LightLightOverlaps e = ae_LightLightOverlaps e'" "ae_Violations e = ae_Violations e'"
    unfolding e_def e'_def ArchExclusionFor_def Let_def arch_exclusion.simps c
    by (rule shared_count_sym, use fs in blast)+
  moreover have "ae_MissingTimestamps e = ae_MissingTimestamps e'" "ae_Checked e = ae_PeerChecked e'"
    "ae_PeerChecked e = ae_Checked e'" "ae_Policy e = ae_Policy e'"
    by (simp_all add: e_def e'_def ArchExclusionFor_def CheckArchOverlap_def Let_def)
  ultimately show ?thesis by (simp add: Problem_def conj_commute)
qed

theorem ArchExclusion_symmetric_witness:
  "let a = [w_window ''heavy'' 10 20]; b = [w_window ''light'' 15 50, w_window ''heavy'' 12 32];
       e = (\<lambda>x y. ArchExclusionFor (sort_key lw_Start) (sort_key (\<lambda>q. - op_Overlap q)) ExclusionAll ''arm64'' ''forward'' x y)
   in Problem (Some (e a b)) = Violated 2 \<and> Problem (Some (e a b)) = Problem (Some (e b a))"
proof -
  let ?a = "[w_window ''heavy'' 10 20]" and ?b = "[w_window ''light'' 15 50, w_window ''heavy'' 12 32]"
  have "Problem (Some (ArchExclusionFor (sort_key lw_Start) (sort_key (\<lambda>q. - op_Overlap q)) ExclusionAll ''arm64'' ''forward'' ?a ?b)) = Violated 2"
    by code_simp
  then show ?thesis
    using ArchExclusion_symmetric [OF window_sort.slice_sort_axioms pair_sort.slice_sort_axioms,
        of ExclusionAll "''arm64''" "''forward''" ?a ?b "''arm64''" "''forward''"]
    unfolding Let_def by simp
qed

text \<open>C36: the plan and the checker agree. When both arches follow the simulated plan under lock policy
  \<open>all\<close> or \<open>heavy\<close>, for non-negative durations whose times fit 64 bits (\<open>plan_fits\<close>), the overlap check of the load windows of the plan's slots, on any common
  clock, finds no pair that the policy forbids.\<close>

theorem plan_passes_overlap_check:
  assumes "wf_plan a" "wf_plan b" and "pp_Policy p = LockAll \<or> pp_Policy p = LockHeavy"
    and "slice_sort lw_Start sw" and "plan_fits a b p"
  shows "Total (CheckArchOverlap sw sp (map (slot_window k base) (fst (Slots (SimulateArchPlan a b p))))
     (map (slot_window k base) (snd (Slots (SimulateArchPlan a b p)))) (runner_policy (pp_Policy p))) = 0"
proof -
  let ?r = "SimulateArchPlan a b p"
  have "\<not> (intersect (slot_window k base x) (slot_window k base y) \<and>
      forbidden (runner_policy (pp_Policy p)) (slot_window k base x) (slot_window k base y))"
    if "x \<in> set (fst (Slots ?r))" "y \<in> set (snd (Slots ?r))" for x y
  proof
    assume "intersect (slot_window k base x) (slot_window k base y) \<and>
      forbidden (runner_policy (pp_Policy p)) (slot_window k base x) (slot_window k base y)"
    then have sh: "share_time x y"
      and hv: "pp_Policy p = LockAll \<or> sl_Heavy x \<and> sl_Heavy y"
      using assms(3) slot_window_intersect
      by (auto simp: forbidden_def runner_policy_def slot_window_heavy ExclusionAll_def ExclusionHeavy_def split: if_splits)
    then show False
      using no_shared_time [OF assms(1,2) that [unfolded plan_ideal [OF assms(1,2,5)]]] assms(3) by blast
  qed
  then show ?thesis
    unfolding report_counts(4) [OF assms(4)] by (auto simp: filter_empty_conv shared_pairs_def)
qed

theorem plan_passes_overlap_check_witness:
  "Total (CheckArchOverlap (sort_key lw_Start) (sort_key (\<lambda>q. - op_Overlap q))
     (map (slot_window ''saturation'' 100) (fst (Slots (SimulateArchPlan (w_plan False) (w_plan False) (w_params LockHeavy)))))
     (map (slot_window ''saturation'' 100) (snd (Slots (SimulateArchPlan (w_plan False) (w_plan False) (w_params LockHeavy)))))
     ExclusionHeavy) = 0"
  using plan_passes_overlap_check [OF w_plan_wf w_plan_wf _ window_sort.slice_sort_axioms w_plan_fits, of LockHeavy]
  by (simp add: w_params_def runner_policy_def)

end
