(* ===== verification/BenchTier.thy ===== *)
theory BenchTier
  imports Budget ArchOverlap
begin

text \<open>
  The benchmark tier, \<open>src/mage_tier.go\<close>, with the arch exclusion knob of
  \<open>src/mage_bench_archexcl.go\<close> and the budget table of the dispatch workflow: which profile a run
  is gated on, the budget gate, the environment \<open>Bench\<close> reads, and the order of bench and publish.

  The process environment is a function from names to values (\<open>os.Getenv\<close> does not tell an unset
  variable from an empty one). \<open>Bench\<close>, \<open>Publish\<close>, the publish preflight, the clock and the file
  system are the fields of a record; neither \<open>Bench\<close> nor \<open>Publish\<close> leaves a change of the \<open>BENCH_*\<close>
  variables behind. \<open>realizedCounts\<close>, a variable in the code, is an argument, and
  \<open>realized_by_dry_run\<close> is its value: the runner's dry run, composed of the planning theories and
  the printed summary.

  The lemmas: the counts the gate projects are those of the schedule the runner plans; no bench
  starts that does not fit; nothing is published unless the bench ran and the policy allows it; and
  the workflow's table admits every dispatch but the one the setup job refuses.
\<close>


section \<open>Durations in text\<close>

text \<open>\<open>time.ParseDuration\<close>. A number is a non-negative integer that must stay within \<open>2^63\<close>; a fraction
  is scaled in \<open>float64\<close>.\<close>

fun leadingInt :: "int \<Rightarrow> string \<Rightarrow> (int \<times> string) option" where
  "leadingInt x [] = Some (x, [])"
| "leadingInt x (c # s) =
     (if \<not> is_digit c then Some (x, c # s)
      else if x > 2 ^ 63 div 10 then None
      else let y = x * 10 + (of_char c - 48) in if y > 2 ^ 63 then None else leadingInt y s)"

fun leadingFraction :: "int \<Rightarrow> int \<Rightarrow> bool \<Rightarrow> string \<Rightarrow> int \<times> int \<times> string" where
  "leadingFraction x scale overflow [] = (x, scale, [])"
| "leadingFraction x scale overflow (c # s) =
     (if \<not> is_digit c then (x, scale, c # s)
      else if overflow \<or> x > (2 ^ 63 - 1) div 10 then leadingFraction x scale True s
      else let y = x * 10 + (of_char c - 48)
           in if y > 2 ^ 63 then leadingFraction x scale True s else leadingFraction y (scale * 10) False s)"

definition unit_of :: "string \<Rightarrow> int option" where
  "unit_of u =
     (if u = ''ns'' then Some 1 else if u = ''us'' \<or> u = [CHR 0xC2, CHR 0xB5, CHR ''s''] \<or> u = [CHR 0xCE, CHR 0xBC, CHR ''s''] then Some 1000
      else if u = ''ms'' then Some 1000000 else if u = ''s'' then Some 1000000000
      else if u = ''m'' then Some 60000000000 else if u = ''h'' then Some 3600000000000 else None)"

definition unit_char :: "char \<Rightarrow> bool" where
  "unit_char c \<longleftrightarrow> c \<noteq> CHR ''.'' \<and> \<not> is_digit c"

text \<open>One term of the sum: its value in nanoseconds and the rest of the text.\<close>

definition duration_term :: "string \<Rightarrow> (int \<times> string) option" where
  "duration_term s =
     (case leadingInt 0 s of
        None \<Rightarrow> None
      | Some (v, s1) \<Rightarrow>
          (let dot = (s1 \<noteq> [] \<and> hd s1 = CHR ''.'');
               (f, scale, s2) = (if dot then leadingFraction 0 1 False (tl s1) else (0, 1, s1));
               pre = (length s1 \<noteq> length s);
               post = (dot \<and> length s2 \<noteq> length (tl s1));
               u = takeWhile unit_char s2
           in if \<not> pre \<and> \<not> post \<or> u = [] then None
              else case unit_of u of
                     None \<Rightarrow> None
                   | Some k \<Rightarrow>
                       if v > 2 ^ 63 div k then None
                       else let v' = v * k + (if f > 0 then \<lfloor>f64 (f64 (of_int f) * f64 (of_int k / of_int scale))\<rfloor> else 0)
                            in if v' > 2 ^ 63 then None else Some (v', dropWhile unit_char s2)))"

lemma leadingInt_length: "leadingInt x s = Some (y, r) \<Longrightarrow> length r \<le> length s"
  by (induction s arbitrary: x) (auto simp: Let_def split: if_splits intro: le_SucI)

lemma leadingFraction_length: "length (snd (snd (leadingFraction x sc o' s))) \<le> length s"
  by (induction s arbitrary: x sc o') (simp_all add: Let_def le_SucI)

lemma duration_term_shorter: "duration_term s = Some (v, r) \<Longrightarrow> length r < length s"
proof -
  assume a: "duration_term s = Some (v, r)"
  then obtain w s1 where l: "leadingInt 0 s = Some (w, s1)" by (auto simp: duration_term_def split: option.splits)
  define s2 where "s2 = snd (snd (if s1 \<noteq> [] \<and> hd s1 = CHR ''.'' then leadingFraction 0 1 False (tl s1) else (0, 1, s1)))"
  have "length s2 \<le> length s1"
    using leadingFraction_length [of 0 1 False "tl s1"] by (auto simp: s2_def)
  moreover have "r = dropWhile unit_char s2 \<and> takeWhile unit_char s2 \<noteq> []"
    using a l by (auto simp: duration_term_def s2_def Let_def split: option.splits if_splits prod.splits)
  moreover have "length (takeWhile unit_char s2) + length (dropWhile unit_char s2) = length s2"
    by (metis length_append takeWhile_dropWhile_id)
  ultimately show ?thesis using leadingInt_length [OF l] by (cases "takeWhile unit_char s2") auto
qed

function duration_terms :: "int \<Rightarrow> string \<Rightarrow> int option" where
  "duration_terms d s =
     (if s = [] then Some d
      else case duration_term s of
             None \<Rightarrow> None
           | Some (v, r) \<Rightarrow> if d + v > 2 ^ 63 then None else duration_terms (d + v) r)"
  by pat_completeness auto
termination
  by (relation "measure (\<lambda>(d, s). length s)") (auto dest: duration_term_shorter)

declare duration_terms.simps [simp del]

definition ParseDuration :: "string \<Rightarrow> duration option" where
  "ParseDuration orig =
     (let neg = has_prefix orig ''-'';
          s = (if neg \<or> has_prefix orig ''+'' then tl orig else orig)
      in if s = ''0'' then Some 0
         else if s = [] then None
         else case duration_terms 0 s of
                None \<Rightarrow> None
              | Some d \<Rightarrow> if neg then Some (- d) else if d > 2 ^ 63 - 1 then None else Some d)"

section \<open>The dry run of the runner\<close>

type_synonym env = "string \<Rightarrow> string"

datatype tier_error = BadArchPolicy string | BadBudget string | NoSummary string | DryRunFailed string
  | CannotProject tier_error | DoesNotFit duration string string | PolicyRefused string | PreflightFailed string
  | BenchFailed string | NoResultsDir string | MissingResults string | PublishFailed string string

definition rated_cells_of :: "runner_config \<Rightarrow> run_plan \<Rightarrow> cell list" where
  "rated_cells_of cfg plan = filter (\<lambda>c. ratesCell cfg (cell_id c)) (p_Schedule plan)"

definition times_sign :: string where "times_sign = [CHR 0xC3, CHR 0x97]"

text \<open>What \<open>run\<close> prints on stderr up to the end of a dry run that does not resume. \<open>mage\<close> passes no
  \<open>-rated-fractions\<close>, so \<open>%v\<close> of the fractions is that of the default.\<close>

definition rated_banner :: "runner_config \<Rightarrow> string" where
  "rated_banner cfg =
     ''probatorium-runner: rated mode ON (fractions=[0.25 0.5 0.75 0.9] duration='' @ duration_string (RatedDuration cfg)
       @ '' cells='' @ (if RatedCells cfg = '''' then ''every cell'' else RatedCells cfg) @ '')''"

definition dry_run_header :: "runner_config \<Rightarrow> run_plan \<Rightarrow> string" where
  "dry_run_header cfg plan =
     ''probatorium-runner: dry-run; '' @ itoa (int (length (p_Schedule plan))) @ '' cells across ''
       @ itoa (int (length (p_Scenarios plan))) @ '' scenarios '' @ times_sign @ '' ''
       @ itoa (int (length (p_Servers plan))) @ '' adapters '' @ times_sign @ '' '' @ itoa (Runs cfg) @ '' runs''"

definition rated_line :: "cell \<Rightarrow> string" where
  "rated_line c = ''rated run'' @ itoa (RunIdx c) @ '' '' @ cell_id c"

definition rated_summary :: "runner_config \<Rightarrow> run_plan \<Rightarrow> string" where
  "rated_summary cfg plan =
     ''probatorium-runner: dry-run; the rated sweep runs on '' @ itoa (int (length (rated_cells_of cfg plan)))
       @ '' of the '' @ itoa (int (length (p_Schedule plan))) @ '' cells (-rated-cells '' @ go_quote (RatedCells cfg)
       @ '') once each saturation pass is clean''"

definition dry_run_stderr :: "int \<Rightarrow> runner_config \<Rightarrow> run_plan \<Rightarrow> string" where
  "dry_run_stderr seed cfg plan =
     concat (map (\<lambda>l. l @ newline)
       ((if RatedMode cfg then [rated_banner cfg] else [])
        @ [''probatorium-runner: seed='' @ itoa seed, dry_run_header cfg plan]
        @ (if RatedMode cfg then map rated_line (rated_cells_of cfg plan) @ [rated_summary cfg plan] else [])))"

text \<open>The regular expression \<open>dryRunSummary\<close> at one position, and its leftmost match.\<close>

definition summary_lead :: string where "summary_lead = ''the rated sweep runs on ''"

definition summary_match :: "string \<Rightarrow> (string \<times> string) option" where
  "summary_match s =
     (if \<not> has_prefix s summary_lead then None
      else let s1 = trim_prefix s summary_lead; d1 = takeWhile is_digit s1; s2 = dropWhile is_digit s1
           in if d1 = [] \<or> \<not> has_prefix s2 '' of the '' then None
              else let s3 = trim_prefix s2 '' of the ''; d2 = takeWhile is_digit s3
                   in if d2 = [] \<or> \<not> has_prefix (dropWhile is_digit s3) '' cells'' then None else Some (d1, d2))"

fun dryRunSummary :: "string \<Rightarrow> (string \<times> string) option" where
  "dryRunSummary [] = summary_match []"
| "dryRunSummary (c # s) = (case summary_match (c # s) of Some m \<Rightarrow> Some m | None \<Rightarrow> dryRunSummary s)"

text \<open>\<open>Atoi\<close> of digits with the error dropped: a value out of range is the largest one.\<close>

definition digits_int :: "string \<Rightarrow> int" where
  "digits_int ds = min (int (digits_val ds)) (2 ^ 63 - 1)"

definition parseDryRunSummary :: "string \<Rightarrow> tier_error + int \<times> int" where
  "parseDryRunSummary stderr =
     (case dryRunSummary stderr of
        None \<Rightarrow> Inl (NoSummary (trim_space stderr))
      | Some (rated, cells) \<Rightarrow> Inr (digits_int cells, digits_int rated))"

definition dry_run_config :: "string \<Rightarrow> string \<Rightarrow> runner_config" where
  "dry_run_config cells ratedCells =
     DefaultConfig\<lparr>DryRun := True, Runs := 1, Cells := cells, RatedMode := True, RatedCells := ratedCells\<rparr>"

text \<open>\<open>realizedCounts\<close>: \<open>go run ./cmd/runner -dry-run\<close> over the compiled-in registries, in the
  environment of the caller. The first argument is what starting the process answers.\<close>

definition realized_by_dry_run :: "string option \<Rightarrow> int \<Rightarrow> env \<Rightarrow> string \<Rightarrow> string \<Rightarrow> tier_error + int \<times> int" where
  "realized_by_dry_run execErr seed env cells ratedCells =
     (case execErr of
        Some e \<Rightarrow> Inl (DryRunFailed e)
      | None \<Rightarrow>
          (case plan_run scenario_registry full_registry (env ''BENCH_RATED'') (env ''BENCH_BASELINE'') (Inl NotExist)
                  (dry_run_config cells ratedCells) of
             Inl _ \<Rightarrow> Inl (DryRunFailed ''exit status 1'')
           | Inr (plan, cfg) \<Rightarrow> parseDryRunSummary (dry_run_stderr seed cfg plan)))"


section \<open>The profile that is gated\<close>

definition splitTrimNonEmpty :: "string \<Rightarrow> string list" where
  "splitTrimNonEmpty s = filter (\<lambda>p. p \<noteq> []) (map trim_space (split_on (CHR '','') s))"

text \<open>\<open>strings.Cut\<close> at the first slash.\<close>

definition cut_slash :: "string \<Rightarrow> string \<times> string \<times> bool" where
  "cut_slash g = (takeWhile (\<lambda>c. c \<noteq> CHR ''/'') g, tl (dropWhile (\<lambda>c. c \<noteq> CHR ''/'') g), CHR ''/'' \<in> set g)"

definition narrow_part :: "string list \<Rightarrow> string \<Rightarrow> string list" where
  "narrow_part cols g =
     (if g = [] then []
      else if has_prefix g ''!'' then [g]
      else let (sc, srv, ok) = cut_slash g;
               (sc, srv) = (if ok then (sc, srv) else (''*'', ''*''))
           in map (\<lambda>c. sc @ ''/'' @ c) (filter (\<lambda>c. Match srv c = Some True) cols))"

definition narrowCellsToColumns :: "string \<Rightarrow> string list \<Rightarrow> string" where
  "narrowCellsToColumns cells cols =
     (let parts = map trim_space (split_on (CHR '','') cells);
          out = concat (map (narrow_part cols) parts);
          hasInclude = list_ex (\<lambda>g. \<not> has_prefix g ''!'' \<and> narrow_part cols g \<noteq> []) parts
      in if \<not> hasInclude then ''!*/*'' else join out '','')"

definition scopedProjection ::
  "(env \<Rightarrow> string \<Rightarrow> string \<Rightarrow> tier_error + int \<times> int) \<Rightarrow> env \<Rightarrow> profile \<Rightarrow> tier_error + profile \<times> bool" where
  "scopedProjection realizedCounts env p =
     (let cells = trim_space (env ''BENCH_CELLS'');
          rated = trim_space (env ''BENCH_RATED_CELLS'');
          comps = trim_space (env ''BENCH_COMPETITORS'');
          comps = (if comps = ''all'' then '''' else comps)
      in if cells = '''' \<and> comps = '''' \<and> (rated = '''' \<or> pf_RatedPasses p = 0) then Inr (p, False)
         else
           (let cells = (if cells = '''' then CellsGlob_of p else cells);
                cells = (if comps \<noteq> '''' then narrowCellsToColumns cells (splitTrimNonEmpty comps) else cells);
                rated = (if rated = '''' then RatedGlob p else rated)
            in case realizedCounts env cells rated of
                 Inl e \<Rightarrow> Inl (CannotProject e)
               | Inr (n, r) \<Rightarrow> Inr (p\<lparr>pf_Cells := n, pf_RatedCells := (if pf_RatedPasses p = 0 then 0 else r)\<rparr>, True)))"

definition baselineProjection :: "env \<Rightarrow> profile \<Rightarrow> profile" where
  "baselineProjection env p = (if \<not> BaselineEnabled (env ''BENCH_BASELINE'') then p else WithBaseline p)"

definition tierProjection ::
  "(env \<Rightarrow> string \<Rightarrow> string \<Rightarrow> tier_error + int \<times> int) \<Rightarrow> env \<Rightarrow> profile \<Rightarrow> tier_error + profile" where
  "tierProjection realizedCounts env p =
     (case scopedProjection realizedCounts env p of
        Inl e \<Rightarrow> Inl e
      | Inr (p, scoped) \<Rightarrow> Inr (if \<not> scoped then baselineProjection env p else p))"

section \<open>The environment of the bench\<close>

definition resolveBenchCells :: "string \<Rightarrow> string \<Rightarrow> string \<times> bool" where
  "resolveBenchCells preset profileGlob =
     (if trim_space preset \<noteq> '''' then (trim_space preset, True) else (profileGlob, False))"

definition set_default :: "string \<Rightarrow> string \<Rightarrow> env \<Rightarrow> env" where
  "set_default k v env = (if env k = '''' then env(k := v) else env)"

definition setBenchEnvFromProfile :: "profile \<Rightarrow> bool \<Rightarrow> env \<Rightarrow> env" where
  "setBenchEnvFromProfile p rated env =
     (let env = env(''BENCH_CELLS'' := fst (resolveBenchCells (env ''BENCH_CELLS'') (CellsGlob_of p)));
          env = set_default ''BENCH_DURATION'' (duration_string (pf_Duration p)) env;
          env = set_default ''BENCH_WARMUP'' (duration_string (pf_Warmup p)) env
      in if \<not> rated then env
         else
           (let env = (if trim_space (env ''BENCH_RATED_CELLS'') = '''' then env(''BENCH_RATED_CELLS'' := RatedGlob p) else env)
            in set_default ''BENCH_RATED_DURATION'' (duration_string (pf_RatedDuration p)) env))"

definition benchTierEnv :: "profile \<Rightarrow> env \<Rightarrow> env" where
  "benchTierEnv p env =
     (let skipRated = (env ''BENCH_SKIP_RATED'' = ''1'' \<or> env ''BENCH_SKIP_RATED'' = ''true'' \<or> pf_RatedPasses p = 0);
          env = env(''BENCH_RATED'' := (if skipRated then '''' else ''1''))
      in setBenchEnvFromProfile p (\<not> skipRated) env)"


section \<open>The arch exclusion knob\<close>

definition envOrDefault :: "env \<Rightarrow> string \<Rightarrow> string \<Rightarrow> string" where
  "envOrDefault env k d = (if env k \<noteq> '''' then env k else d)"

definition defaultClusterTarget :: string where "defaultClusterTarget = ''both''"
definition benchClientLockPath :: string where "benchClientLockPath = ''/tmp/probatorium-client.lock''"

definition resolveArchExclusion :: "env \<Rightarrow> string \<Rightarrow> tier_error + string" where
  "resolveArchExclusion env target =
     (let v = trim_space (env ''BENCH_ARCH_EXCLUSIVE'')
      in if target \<noteq> ''both'' then Inr ''''
         else if v = '''' then Inr ExclusionAll
         else if v = ExclusionHeavy \<or> v = ExclusionAll \<or> v = ExclusionOff then Inr v
         else Inl (BadArchPolicy v))"

definition archCellOrder :: "string \<Rightarrow> string \<Rightarrow> string" where
  "archCellOrder policy host =
     (if (policy = ExclusionHeavy \<or> policy = ExclusionAll) \<and> host = ''msr1'' then ''reverse'' else ''forward'')"

definition archExclusionExtraVars :: "string \<Rightarrow> string \<Rightarrow> string list" where
  "archExclusionExtraVars policy host =
     (if policy = '''' \<or> policy = ExclusionOff then []
      else [''--extra-vars'', ''bench_client_lock='' @ benchClientLockPath,
            ''--extra-vars'', ''bench_client_lock_policy='' @ policy]
           @ (if archCellOrder policy host = ''reverse'' then [''--extra-vars'', ''bench_cell_order=reverse''] else []))"

definition lockWaitAllowance :: "string \<Rightarrow> int \<Rightarrow> duration \<Rightarrow> duration \<Rightarrow> duration \<Rightarrow> duration" where
  "lockWaitAllowance policy ratedPasses warmup dur ratedDuration =
     (let cost = (\<lambda>ss :: scenario list. ColumnWallClock (int (length ss)) ratedPasses warmup dur ratedDuration)
      in if policy = ExclusionAll then cost (Registry scenario_registry)
         else if policy = ExclusionHeavy
         then cost (filter (\<lambda>s. ClientLoadOf (sc_name s) = LoadHeavy) (Registry scenario_registry))
         else 0)"


section \<open>The tier\<close>

definition publishPolicyGate :: "env \<Rightarrow> string \<Rightarrow> tier_error option" where
  "publishPolicyGate env policy =
     (if (policy = ''heavy'' \<or> policy = ''off'') \<and> env ''BENCH_PUBLISH_FORCE'' \<noteq> ''1'' then Some (PolicyRefused policy) else None)"

datatype tier_event = Benched env | Published env

record tier_world =
  tw_Counts :: "env \<Rightarrow> string \<Rightarrow> string \<Rightarrow> tier_error + int \<times> int"
  tw_Date :: string
  tw_Preflight :: "env \<Rightarrow> string option"
  tw_Bench :: "env \<Rightarrow> string option"
  tw_LatestDir :: "string + string"
  tw_Stat :: "string \<Rightarrow> string option"
  tw_Publish :: "env \<Rightarrow> string option"

definition tier_profile :: "env \<Rightarrow> tier_error + profile" where
  "tier_profile env =
     (let p = (ForProfile (env ''BENCH_PROFILE''))\<lparr>pf_Runs := 1\<rparr>;
          target = envOrDefault env ''BENCH_TARGET'' defaultClusterTarget;
          p = p\<lparr>pf_Arches := (if target = ''both'' then 2 else 1)\<rparr>
      in case resolveArchExclusion env target of
           Inl e \<Rightarrow> Inl e
         | Inr policy \<Rightarrow> Inr (p\<lparr>pf_ArchExclusion := policy\<rparr>))"

definition fit_budget :: "env \<Rightarrow> tier_error + duration" where
  "fit_budget env =
     (let v = env ''BENCH_BUDGET''
      in if v = '''' then Inr Budget_limit
         else case ParseDuration v of None \<Rightarrow> Inl (BadBudget v) | Some d \<Rightarrow> Inr d)"

text \<open>The publish loop of a both-arch run: the events, the error that ended it and whether it ended
  before \<open>PUBLISH_RESULTS\<close> was removed (a missing document returns without removing it).\<close>

fun publish_arches :: "tier_world \<Rightarrow> string \<Rightarrow> string list \<Rightarrow> env \<Rightarrow> tier_event list \<times> tier_error option \<times> env" where
  "publish_arches w dir [] env = ([], None, env(''PUBLISH_RESULTS'' := ''''))"
| "publish_arches w dir (arch # rest) env =
     (let f = dir @ ''/results-'' @ arch @ ''.json''
      in case tw_Stat w f of
           Some _ \<Rightarrow> ([], Some (MissingResults f), env)
         | None \<Rightarrow>
             (let env = env(''PUBLISH_RESULTS'' := f)
              in case tw_Publish w env of
                   Some e \<Rightarrow> ([Published env], Some (PublishFailed arch e), env(''PUBLISH_RESULTS'' := ''''))
                 | None \<Rightarrow> (case publish_arches w dir rest env of (evs, err, env') \<Rightarrow> (Published env # evs, err, env'))))"

definition tier_publish :: "tier_world \<Rightarrow> env \<Rightarrow> tier_event list \<times> tier_error option \<times> env" where
  "tier_publish w env =
     (if envOrDefault env ''BENCH_TARGET'' defaultClusterTarget = ''both''
      then (case tw_LatestDir w of
              Inl e \<Rightarrow> ([], Some (NoResultsDir e), env)
            | Inr dir \<Rightarrow> publish_arches w dir [''amd64'', ''arm64''] env)
      else (case tw_Publish w env of
              Some e \<Rightarrow> ([Published env], Some (PublishFailed '''' e), env)
            | None \<Rightarrow> ([Published env], None, env)))"

definition tier_run :: "tier_world \<Rightarrow> profile \<Rightarrow> env \<Rightarrow> tier_event list \<times> tier_error option \<times> env" where
  "tier_run w p env0 =
     (let env = benchTierEnv p (env0(''BENCH_START_DATE'' := tw_Date w));
          skipPublish = (env ''BENCH_PUBLISH'' = ''0'' \<or> env ''BENCH_PUBLISH'' = ''false'');
          refused = (if skipPublish then None
                     else case publishPolicyGate env (pf_ArchExclusion p) of
                            Some e \<Rightarrow> Some e
                          | None \<Rightarrow> map_option PreflightFailed (tw_Preflight w env));
          finished = (\<lambda>env :: env. env(''BENCH_RATED'' := '''', ''BENCH_START_DATE'' := ''''))
      in case refused of
           Some e \<Rightarrow> ([], Some e, env)
         | None \<Rightarrow>
             (case tw_Bench w env of
                Some e \<Rightarrow> ([Benched env], Some (BenchFailed e), env)
              | None \<Rightarrow>
                  if skipPublish then ([Benched env], None, finished env)
                  else (case tier_publish w env of
                          (evs, None, env') \<Rightarrow> (Benched env # evs, None, finished env')
                        | (evs, Some e, env') \<Rightarrow> (Benched env # evs, Some e, env'))))"

definition BenchTier :: "tier_world \<Rightarrow> env \<Rightarrow> tier_event list \<times> tier_error option \<times> env" where
  "BenchTier w env =
     (case tier_profile env of
        Inl e \<Rightarrow> ([], Some e, env)
      | Inr p \<Rightarrow>
          (case fit_budget env of
             Inl e \<Rightarrow> ([], Some e, env)
           | Inr fitBudget \<Rightarrow>
               (case tierProjection (tw_Counts w) env p of
                  Inl e \<Rightarrow> ([], Some e, env)
                | Inr p \<Rightarrow>
                    (let (log, ok) = FitWithin p fitBudget
                     in if \<not> ok then ([], Some (DoesNotFit fitBudget (pf_Name p) log), env)
                        else tier_run w p env))))"

section \<open>The dispatch workflow\<close>

text \<open>The inputs of \<open>benchmark-tier.yml\<close> that \<open>mage BenchTier\<close> sees, the check of the setup job, the grid
  it refuses, and the tables the inputs index. An absent input is empty.\<close>

record dispatch =
  in_profile :: string
  in_target :: string
  in_arch :: string
  in_baseline :: string
  in_publish :: string
  in_competitors :: string
  in_deploy_competitors :: string
  in_sut_env :: string
  in_cells :: string
  in_rated_cells :: string

definition input_or :: "string \<Rightarrow> string \<Rightarrow> string" where
  "input_or v d = (if v = '''' then d else v)"

definition inputs_valid :: "dispatch \<Rightarrow> bool" where
  "inputs_valid d \<longleftrightarrow>
     in_profile d \<in> set ['''', ''fast'', ''headline'', ''full''] \<and>
     in_target d \<in> set ['''', ''both'', ''msa2-server'', ''msr1''] \<and>
     in_arch d \<in> set ['''', ''all'', ''heavy'', ''off''] \<and>
     in_baseline d \<in> set ['''', ''true'', ''false''] \<and>
     \<not> ((in_arch d = ''heavy'' \<or> in_arch d = ''off'') \<and> input_or (in_target d) ''both'' = ''both'' \<and>
        input_or (in_profile d) ''full'' \<noteq> ''fast'' \<and> in_publish d \<noteq> ''false'')"

definition setup_refuses :: "dispatch \<Rightarrow> bool" where
  "setup_refuses d \<longleftrightarrow>
     input_or (in_target d) ''both'' = ''both'' \<and> input_or (in_arch d) ''all'' = ''all'' \<and>
     in_baseline d = ''true'' \<and> input_or (in_profile d) ''full'' = ''full''"

definition policy_key :: "dispatch \<Rightarrow> string" where
  "policy_key d = (if input_or (in_target d) ''both'' \<noteq> ''both'' then ''single'' else input_or (in_arch d) ''all'')"

definition budget_table :: "(string \<times> string \<times> string \<times> string) list" where
  "budget_table =
    [(''fast'', ''false'', ''heavy'', ''24h''), (''fast'', ''false'', ''off'', ''24h''),
     (''fast'', ''false'', ''single'', ''24h''), (''fast'', ''false'', ''all'', ''34h''),
     (''fast'', ''true'', ''heavy'', ''24h''), (''fast'', ''true'', ''off'', ''24h''),
     (''fast'', ''true'', ''single'', ''24h''), (''fast'', ''true'', ''all'', ''43h''),
     (''headline'', ''false'', ''heavy'', ''40h''), (''headline'', ''false'', ''off'', ''36h''),
     (''headline'', ''false'', ''single'', ''36h''), (''headline'', ''false'', ''all'', ''72h''),
     (''headline'', ''true'', ''heavy'', ''52h''), (''headline'', ''true'', ''off'', ''48h''),
     (''headline'', ''true'', ''single'', ''48h''), (''headline'', ''true'', ''all'', ''92h''),
     (''full'', ''false'', ''heavy'', ''69h''), (''full'', ''false'', ''off'', ''60h''),
     (''full'', ''false'', ''single'', ''60h''), (''full'', ''false'', ''all'', ''108h''),
     (''full'', ''true'', ''heavy'', ''90h''), (''full'', ''true'', ''off'', ''80h''),
     (''full'', ''true'', ''single'', ''80h''), (''full'', ''true'', ''all'', ''112h'')]"

definition budget_lookup :: "string \<Rightarrow> string \<Rightarrow> string \<Rightarrow> string" where
  "budget_lookup profile baseline policy =
     (case find (\<lambda>(p, b, k, v). p = profile \<and> b = baseline \<and> k = policy) budget_table of
        Some (_, _, _, v) \<Rightarrow> v | None \<Rightarrow> '''')"

definition job_timeout :: "dispatch \<Rightarrow> duration" where
  "job_timeout d = (if policy_key d = ''all'' then 7080 * minute else 6600 * minute)"

text \<open>The environment of \<open>mage BenchTier\<close> for a dispatch.\<close>

definition workflow_env :: "dispatch \<Rightarrow> env" where
  "workflow_env d = (\<lambda>k.
     if k = ''BENCH_PROFILE'' then input_or (in_profile d) ''full''
     else if k = ''BENCH_TARGET'' then input_or (in_target d) ''both''
     else if k = ''BENCH_COMPETITORS'' then input_or (in_competitors d) ''all''
     else if k = ''BENCH_RATED_CELLS'' then in_rated_cells d
     else if k = ''DEPLOY_COMPETITORS'' then input_or (in_deploy_competitors d) ''all''
     else if k = ''BENCH_SUT_ENV'' then in_sut_env d
     else if k = ''BENCH_CELLS'' then in_cells d
     else if k = ''BENCH_ARCH_EXCLUSIVE'' then in_arch d
     else if k = ''BENCH_BASELINE'' then (if in_baseline d = ''true'' then ''1'' else '''')
     else if k = ''BENCH_PUBLISH'' then
       (if input_or (in_profile d) ''full'' = ''fast'' \<or> in_publish d = ''false'' then ''0'' else ''1'')
     else if k = ''BENCH_BUDGET'' then
       budget_lookup (input_or (in_profile d) ''full'') (if in_baseline d = ''true'' then ''true'' else ''false'') (policy_key d)
     else '''')"

text \<open>What the gate compares: the projected wall-clock and the budget in force.\<close>

definition gate_numbers ::
  "(env \<Rightarrow> string \<Rightarrow> string \<Rightarrow> tier_error + int \<times> int) \<Rightarrow> env \<Rightarrow> (duration \<times> duration) option" where
  "gate_numbers counts env =
     (case (tier_profile env, fit_budget env) of
        (Inr p, Inr b) \<Rightarrow>
          (case tierProjection counts env p of Inr q \<Rightarrow> Some (WallClock q, b) | Inl _ \<Rightarrow> None)
      | _ \<Rightarrow> None)"

section \<open>The gate of a dispatched run\<close>

definition row_profile :: "string \<Rightarrow> string \<Rightarrow> string \<Rightarrow> profile" where
  "row_profile prof base key =
     (let p = (ForProfile prof)\<lparr>pf_Runs := 1, pf_Arches := (if key = ''single'' then 1 else 2),
                pf_ArchExclusion := (if key = ''single'' then '''' else key)\<rparr>
      in if base = ''true'' then WithBaseline p else p)"

definition row_ok :: "string \<times> string \<times> string \<times> string \<Rightarrow> bool" where
  "row_ok r =
     (case r of (prof, base, key, v) \<Rightarrow>
        (case ParseDuration v of
           None \<Rightarrow> False
         | Some b \<Rightarrow>
             (WallClock (row_profile prof base key) \<le> b) = ((prof, base, key) \<noteq> (''full'', ''true'', ''all'')) \<and>
             b + 3 * hour \<le> (if key = ''all'' then 7080 * minute else 6600 * minute)))"

lemma budget_rows_ok: "list_all row_ok budget_table"
  by code_simp

lemma budget_rows_total:
  "list_all (\<lambda>p. list_all (\<lambda>b. list_all (\<lambda>k. find (\<lambda>(p', b', k', v). p' = p \<and> b' = b \<and> k' = k) budget_table \<noteq> None)
     [''heavy'', ''off'', ''single'', ''all'']) [''true'', ''false'']) [''fast'', ''headline'', ''full'']"
  by code_simp

lemma workflow_env_simps:
  "workflow_env d ''BENCH_PROFILE'' = input_or (in_profile d) ''full''"
  "workflow_env d ''BENCH_TARGET'' = input_or (in_target d) ''both''"
  "workflow_env d ''BENCH_COMPETITORS'' = input_or (in_competitors d) ''all''"
  "workflow_env d ''BENCH_CELLS'' = in_cells d"
  "workflow_env d ''BENCH_RATED_CELLS'' = in_rated_cells d"
  "workflow_env d ''BENCH_ARCH_EXCLUSIVE'' = in_arch d"
  "workflow_env d ''BENCH_BASELINE'' = (if in_baseline d = ''true'' then ''1'' else '''')"
  "workflow_env d ''BENCH_BUDGET'' =
     budget_lookup (input_or (in_profile d) ''full'') (if in_baseline d = ''true'' then ''true'' else ''false'') (policy_key d)"
  by (simp_all add: workflow_env_def)

lemma trim_consts: "trim_space '''' = ''''" "trim_space ''all'' = ''all''" "trim_space ''heavy'' = ''heavy''" "trim_space ''off'' = ''off''"
  by (simp_all add: trim_space_id is_space_def)

lemma baseline_consts: "BaselineEnabled ''1''" "\<not> BaselineEnabled ''''"
  by code_simp+

lemma tier_profile_workflow:
  assumes "inputs_valid d"
  shows "tier_profile (workflow_env d) =
    Inr ((ForProfile (input_or (in_profile d) ''full''))\<lparr>pf_Runs := 1, pf_Arches := (if policy_key d = ''single'' then 1 else 2),
      pf_ArchExclusion := (if policy_key d = ''single'' then '''' else policy_key d)\<rparr>)"
proof -
  let ?t = "input_or (in_target d) ''both''"
  have "?t \<noteq> ''''" by (simp add: input_or_def)
  then have t: "envOrDefault (workflow_env d) ''BENCH_TARGET'' defaultClusterTarget = ?t"
    by (simp add: envOrDefault_def workflow_env_simps)
  have "in_arch d \<in> {'''', ''all'', ''heavy'', ''off''}" using assms by (simp add: inputs_valid_def)
  then have key: "policy_key d = ''single'' \<longleftrightarrow> ?t \<noteq> ''both''" by (auto simp: policy_key_def input_or_def)
  have r: "resolveArchExclusion (workflow_env d) ?t = Inr (if policy_key d = ''single'' then '''' else policy_key d)"
    using \<open>in_arch d \<in> _\<close> unfolding key
    by (auto simp: resolveArchExclusion_def workflow_env_simps policy_key_def input_or_def trim_consts
        ExclusionAll_def ExclusionHeavy_def ExclusionOff_def)
  show ?thesis
    unfolding tier_profile_def Let_def t r by (simp add: workflow_env_simps key)
qed

text \<open>A dispatch that runs the profile's whole grid: every column, every cell, and the profile's own
  rated cells, or a profile without a rated sweep, which ignores \<open>rated_cells\<close>.\<close>

definition unscoped :: "dispatch \<Rightarrow> bool" where
  "unscoped d \<longleftrightarrow> trim_space (in_cells d) = '''' \<and>
     trim_space (input_or (in_competitors d) ''all'') \<in> set ['''', ''all''] \<and>
     (trim_space (in_rated_cells d) = '''' \<or> in_profile d = ''fast'')"

lemma tierProjection_workflow:
  assumes "unscoped d" and "in_profile d = ''fast'' \<Longrightarrow> pf_RatedPasses p = 0"
  shows "tierProjection counts (workflow_env d) p = Inr (if in_baseline d = ''true'' then WithBaseline p else p)"
  using assms
  by (auto simp: tierProjection_def scopedProjection_def workflow_env_simps Let_def baselineProjection_def
      baseline_consts unscoped_def)

lemma policy_key_valid: "inputs_valid d \<Longrightarrow> policy_key d \<in> set [''heavy'', ''off'', ''single'', ''all'']"
  by (auto simp: inputs_valid_def policy_key_def input_or_def)

lemma profile_key_valid: "inputs_valid d \<Longrightarrow> input_or (in_profile d) ''full'' \<in> set [''fast'', ''headline'', ''full'']"
  by (auto simp: inputs_valid_def input_or_def)

lemma budget_lookup_row:
  assumes "p \<in> set [''fast'', ''headline'', ''full'']" and "b \<in> set [''true'', ''false'']"
    and "k \<in> set [''heavy'', ''off'', ''single'', ''all'']"
  shows "row_ok (p, b, k, budget_lookup p b k)" and "budget_lookup p b k \<noteq> ''''"
proof -
  obtain x where x: "find (\<lambda>(p', b', k', v). p' = p \<and> b' = b \<and> k' = k) budget_table = Some x"
    using budget_rows_total assms unfolding list_all_iff by (metis not_None_eq)
  then have m: "x \<in> set budget_table" and k: "case x of (p', b', k', v) \<Rightarrow> p' = p \<and> b' = b \<and> k' = k"
    by (auto simp: find_Some_iff in_set_conv_nth)
  then have v: "budget_lookup p b k = snd (snd (snd x))" "x = (p, b, k, snd (snd (snd x)))"
    using x by (auto simp: budget_lookup_def split: prod.splits)
  have ok: "row_ok x" using m budget_rows_ok by (simp add: list_all_iff)
  then show r: "row_ok (p, b, k, budget_lookup p b k)" using v by metis
  have "ParseDuration '''' = None" by code_simp
  then show "budget_lookup p b k \<noteq> ''''" using r by (auto simp: row_ok_def)
qed

text \<open>C25: the workflow's budget table. For every dispatch whose inputs the setup job accepts,
  whatever columns and cells it names, \<open>BENCH_BUDGET\<close> parses and leaves three hours of the job's time
  limit. When the dispatch is unscoped (no \<open>cells\<close>, no \<open>rated_cells\<close> unless the profile is \<open>fast\<close>, and
  all the \<open>competitors\<close>), the gate compares that budget with a projection that fits it, for every
  profile, target, lock policy and baseline switch; the one grid the setup job refuses is the one
  that does not fit. A scoped dispatch is projected from the counts of a dry run, on which nothing
  is assumed here.\<close>

theorem workflow_budget_exact:
  assumes "inputs_valid d"
  shows "\<exists>fitBudget. fit_budget (workflow_env d) = Inr fitBudget \<and> fitBudget + 3 * hour \<le> job_timeout d \<and>
    (unscoped d \<longrightarrow> (\<exists>wallClock. gate_numbers counts (workflow_env d) = Some (wallClock, fitBudget) \<and>
       (wallClock \<le> fitBudget \<longleftrightarrow> \<not> setup_refuses d)))"
proof -
  let ?p = "input_or (in_profile d) ''full''" and ?b = "if in_baseline d = ''true'' then ''true'' else ''false''"
  let ?q = "row_profile ?p ?b (policy_key d)"
  have "?b \<in> set [''true'', ''false'']" by simp
  note row = budget_lookup_row [OF profile_key_valid [OF assms] this policy_key_valid [OF assms]]
  obtain b where b: "ParseDuration (budget_lookup ?p ?b (policy_key d)) = Some b"
    and fit: "WallClock ?q \<le> b \<longleftrightarrow> (?p, ?b, policy_key d) \<noteq> (''full'', ''true'', ''all'')"
    and lim: "b + 3 * hour \<le> (if policy_key d = ''all'' then 7080 * minute else 6600 * minute)"
    using row(1) unfolding row_ok_def by (auto split: option.splits simp del: Pair_inject prod.inject)
  have fb: "fit_budget (workflow_env d) = Inr b"
    using row(2) by (simp add: fit_budget_def workflow_env_simps b Let_def)
  have "pf_RatedPasses (ForProfile ''fast'') = 0" by code_simp
  then have "gate_numbers counts (workflow_env d) = Some (WallClock ?q, b)" if "unscoped d"
    using that by (simp add: gate_numbers_def tier_profile_workflow [OF assms] tierProjection_workflow fb
        input_or_def row_profile_def Let_def)
  moreover have "(?p, ?b, policy_key d) = (''full'', ''true'', ''all'') \<longleftrightarrow> setup_refuses d"
    by (auto simp: setup_refuses_def policy_key_def)
  ultimately show ?thesis using fit lim fb by (auto simp: job_timeout_def)
qed

theorem workflow_budget_exact_witness:
  "let d = \<lparr>in_profile = '''', in_target = ''both'', in_arch = '''', in_baseline = ''true'', in_publish = ''false'',
       in_competitors = '''', in_deploy_competitors = '''', in_sut_env = '''', in_cells = '''', in_rated_cells = ''''\<rparr>
   in inputs_valid d \<and> unscoped d \<and> (\<exists>wallClock fitBudget.
        gate_numbers (\<lambda>_ _ _. Inr (0, 0)) (workflow_env d) = Some (wallClock, fitBudget) \<and> fitBudget < wallClock)"
proof -
  let ?d = "\<lparr>in_profile = '''', in_target = ''both'', in_arch = '''', in_baseline = ''true'', in_publish = ''false'',
    in_competitors = '''', in_deploy_competitors = '''', in_sut_env = '''', in_cells = '''', in_rated_cells = ''''\<rparr>"
  have "inputs_valid ?d" "setup_refuses ?d" "unscoped ?d"
    by (simp_all add: inputs_valid_def setup_refuses_def input_or_def unscoped_def trim_consts)
  then show ?thesis using workflow_budget_exact [of ?d "\<lambda>_ _ _. Inr (0, 0)"] by (auto simp: Let_def not_le)
qed

section \<open>No run without a fit\<close>

lemma FitWithin_ok: "snd (FitWithin p limit) \<longleftrightarrow> WallClock p \<le> limit"
  by (simp add: FitWithin_def Let_def)

lemma publish_arches_events: "publish_arches w dir archs env = (evs, err, env') \<Longrightarrow> \<exists>es. evs = map Published es"
proof (induction archs arbitrary: env evs err env')
  case Nil
  then show ?case by auto
next
  case (Cons a archs)
  show ?case
  proof (cases "tw_Stat w (dir @ ''/results-'' @ a @ ''.json'')")
    case None
    show ?thesis
    proof (cases "tw_Publish w (env(''PUBLISH_RESULTS'' := dir @ ''/results-'' @ a @ ''.json''))")
      case none: None
      obtain evs2 err2 env2 where r: "publish_arches w dir archs (env(''PUBLISH_RESULTS'' := dir @ ''/results-'' @ a @ ''.json'')) = (evs2, err2, env2)"
        by (metis prod_cases3)
      obtain es where "evs2 = map Published es" using Cons.IH [OF r] by blast
      then have "evs = map Published (env(''PUBLISH_RESULTS'' := dir @ ''/results-'' @ a @ ''.json'') # es)"
        using Cons.prems None none r by (simp add: Let_def)
      then show ?thesis by blast
    next
      case (Some e)
      then have "evs = map Published [env(''PUBLISH_RESULTS'' := dir @ ''/results-'' @ a @ ''.json'')]"
        using Cons.prems None by (simp add: Let_def)
      then show ?thesis by blast
    qed
  next
    case (Some e)
    then have "evs = map Published []" using Cons.prems by (simp add: Let_def)
    then show ?thesis by blast
  qed
qed

lemma tier_publish_events: "\<exists>es. fst (tier_publish w env) = map Published es"
proof (cases "envOrDefault env ''BENCH_TARGET'' defaultClusterTarget = ''both''")
  case both: True
  show ?thesis
  proof (cases "tw_LatestDir w")
    case (Inl e)
    with both show ?thesis by (simp add: tier_publish_def)
  next
    case (Inr dir)
    obtain evs err env' where "publish_arches w dir [''amd64'', ''arm64''] env = (evs, err, env')" by (metis prod_cases3)
    with both Inr publish_arches_events [OF this] show ?thesis by (simp add: tier_publish_def)
  qed
next
  case False
  then show ?thesis
    by (auto simp: tier_publish_def split: option.splits intro!: exI [of _ "[env]"])
qed

lemma set_default_other: "k' \<noteq> k \<Longrightarrow> set_default k v e k' = e k'"
  by (simp add: set_default_def)

lemma setBenchEnv_other:
  assumes "k \<notin> set [''BENCH_CELLS'', ''BENCH_DURATION'', ''BENCH_WARMUP'', ''BENCH_RATED_CELLS'', ''BENCH_RATED_DURATION'']"
  shows "setBenchEnvFromProfile p rated env k = env k"
proof -
  have "k \<noteq> ''BENCH_CELLS''" "k \<noteq> ''BENCH_DURATION''" "k \<noteq> ''BENCH_WARMUP''" "k \<noteq> ''BENCH_RATED_CELLS''"
    "k \<noteq> ''BENCH_RATED_DURATION''"
    using assms by auto
  then show ?thesis
    unfolding setBenchEnvFromProfile_def Let_def
    by (simp add: set_default_other if_distrib [of "\<lambda>f. f k"] del: split_paired_All cong: if_cong)
qed

lemma benchTierEnv_other:
  "k \<notin> set [''BENCH_RATED'', ''BENCH_CELLS'', ''BENCH_DURATION'', ''BENCH_WARMUP'', ''BENCH_RATED_CELLS'', ''BENCH_RATED_DURATION''] \<Longrightarrow>
    benchTierEnv p env k = env k"
  unfolding benchTierEnv_def Let_def by (subst setBenchEnv_other) auto

lemma benchTierEnv_keeps:
  "benchTierEnv p env ''BENCH_PUBLISH'' = env ''BENCH_PUBLISH''"
  "benchTierEnv p env ''BENCH_PUBLISH_FORCE'' = env ''BENCH_PUBLISH_FORCE''"
  "benchTierEnv p env ''BENCH_START_DATE'' = env ''BENCH_START_DATE''"
  by (simp_all add: benchTierEnv_other)

text \<open>What a run does after the gate: at most one bench, and the publishes after it.\<close>

lemma tier_run_events:
  assumes "tier_run w p env0 = (evs, err, env')"
  defines "env \<equiv> benchTierEnv p (env0(''BENCH_START_DATE'' := tw_Date w))"
  defines "skip \<equiv> env0 ''BENCH_PUBLISH'' = ''0'' \<or> env0 ''BENCH_PUBLISH'' = ''false''"
  shows "evs = [] \<and> err \<noteq> None \<or>
    (\<exists>es. evs = Benched env # map Published es \<and>
       (es \<noteq> [] \<longrightarrow> \<not> skip \<and> tw_Bench w env = None \<and> publishPolicyGate env (pf_ArchExclusion p) = None))"
proof -
  define skp where "skp \<longleftrightarrow> env ''BENCH_PUBLISH'' = ''0'' \<or> env ''BENCH_PUBLISH'' = ''false''"
  define refused where "refused = (if skp then None else case publishPolicyGate env (pf_ArchExclusion p) of
       Some e \<Rightarrow> Some e | None \<Rightarrow> map_option PreflightFailed (tw_Preflight w env))"
  have skp: "skp = skip" by (simp add: skp_def skip_def env_def benchTierEnv_keeps)
  note run = assms(1) [unfolded tier_run_def Let_def, folded env_def, folded skp_def, folded refused_def]
  show ?thesis
  proof (cases refused)
    case None
    then have gate: "\<not> skip \<longrightarrow> publishPolicyGate env (pf_ArchExclusion p) = None"
      using skp by (auto simp: refused_def split: option.splits)
    show ?thesis
    proof (cases "tw_Bench w env")
      case (Some e)
      then show ?thesis using run None by auto
    next
      case bench: None
      obtain es where es: "fst (tier_publish w env) = map Published es" using tier_publish_events by blast
      show ?thesis
      proof (cases skip)
        case True
        then show ?thesis using run None bench skp by auto
      next
        case False
        then have "evs = Benched env # map Published es"
          using run None bench skp es by (auto split: prod.splits option.splits)
        then show ?thesis using False gate bench by blast
      qed
    qed
  next
    case (Some e)
    then show ?thesis using run by auto
  qed
qed

text \<open>C23: no bench that does not fit, and no publish that is not allowed. Whatever the environment and
  whatever the outside answers, \<open>BenchTier\<close> runs at most one bench, and only when the projected
  wall-clock of the profile it will run is within the budget in force; everything it publishes comes
  after that bench has succeeded, and neither under \<open>BENCH_PUBLISH=0\<close> nor, unless forced, under a
  lock policy whose documents the publish gate refuses.\<close>

theorem bench_tier_gated:
  assumes "BenchTier w env = (ev # evs, err, env')"
  shows "\<exists>wallClock fitBudget benchEnv published. gate_numbers (tw_Counts w) env = Some (wallClock, fitBudget) \<and>
     wallClock \<le> fitBudget \<and> ev = Benched benchEnv \<and> evs = map Published published \<and>
     (published \<noteq> [] \<longrightarrow> tw_Bench w benchEnv = None \<and> env ''BENCH_PUBLISH'' \<noteq> ''0'' \<and> env ''BENCH_PUBLISH'' \<noteq> ''false'' \<and>
        (env ''BENCH_PUBLISH_FORCE'' = ''1'' \<or>
         resolveArchExclusion env (envOrDefault env ''BENCH_TARGET'' defaultClusterTarget) \<in> {Inr '''', Inr ''all''}))"
proof -
  obtain p where p: "tier_profile env = Inr p" using assms by (cases "tier_profile env") (auto simp: BenchTier_def)
  obtain b where b: "fit_budget env = Inr b" using assms p by (cases "fit_budget env") (auto simp: BenchTier_def)
  obtain q where q: "tierProjection (tw_Counts w) env p = Inr q"
    using assms p b by (cases "tierProjection (tw_Counts w) env p") (auto simp: BenchTier_def)
  have fit: "snd (FitWithin q b)" using assms p b q by (auto simp: BenchTier_def Let_def split: prod.splits if_splits)
  then have run: "tier_run w q env = (ev # evs, err, env')"
    using assms p b q by (auto simp: BenchTier_def Let_def split: prod.splits)
  let ?env = "benchTierEnv q (env(''BENCH_START_DATE'' := tw_Date w))"
  obtain es where es: "ev = Benched ?env" "evs = map Published es"
    "es \<noteq> [] \<longrightarrow> \<not> (env ''BENCH_PUBLISH'' = ''0'' \<or> env ''BENCH_PUBLISH'' = ''false'') \<and> tw_Bench w ?env = None \<and>
       publishPolicyGate ?env (pf_ArchExclusion q) = None"
    using tier_run_events [OF run] by auto
  have "gate_numbers (tw_Counts w) env = Some (WallClock q, b)" by (simp add: gate_numbers_def p b q)
  moreover have "WallClock q \<le> b" using fit by (simp add: FitWithin_ok)
  moreover have "env ''BENCH_PUBLISH_FORCE'' = ''1'' \<or>
      resolveArchExclusion env (envOrDefault env ''BENCH_TARGET'' defaultClusterTarget) \<in> {Inr '''', Inr ''all''}"
    if g: "publishPolicyGate ?env (pf_ArchExclusion q) = None"
  proof -
    have "pf_ArchExclusion q = pf_ArchExclusion p"
      using q by (auto simp: tierProjection_def scopedProjection_def baselineProjection_def WithBaseline_def Let_def
          split: sum.splits prod.splits if_splits)
    moreover have "resolveArchExclusion env (envOrDefault env ''BENCH_TARGET'' defaultClusterTarget) = Inr (pf_ArchExclusion p)"
      using p by (auto simp: tier_profile_def Let_def split: sum.splits)
    ultimately show ?thesis
      using g by (auto simp: publishPolicyGate_def benchTierEnv_keeps resolveArchExclusion_def Let_def
          ExclusionAll_def ExclusionHeavy_def ExclusionOff_def split: if_splits)
  qed
  ultimately show ?thesis
    using es by (intro exI [of _ "WallClock q"] exI [of _ b] exI [of _ ?env] exI [of _ es]) simp
qed


definition w_tier_world :: tier_world where
  "w_tier_world = \<lparr>tw_Counts = (\<lambda>_ _ _. Inr (10, 5)), tw_Date = ''20261101'', tw_Preflight = (\<lambda>_. None),
     tw_Bench = (\<lambda>_. None), tw_LatestDir = Inr ''results/v1'', tw_Stat = (\<lambda>_. None), tw_Publish = (\<lambda>_. None)\<rparr>"

definition w_tier_env :: env where
  "w_tier_env = (\<lambda>k. if k = ''BENCH_PROFILE'' then ''full'' else if k = ''BENCH_CELLS'' then ''ws-echo/*'' else '''')"

theorem bench_tier_gated_witness:
  "length (fst (BenchTier w_tier_world w_tier_env)) = 3 \<and>
   (\<exists>wallClock fitBudget. gate_numbers (tw_Counts w_tier_world) w_tier_env = Some (wallClock, fitBudget) \<and> wallClock \<le> fitBudget)"
proof -
  obtain es err env' where e: "BenchTier w_tier_world w_tier_env = (es, err, env')" by (metis prod_cases3)
  have "length (fst (BenchTier w_tier_world w_tier_env)) = 3" by code_simp
  moreover from this e obtain ev evs where "es = ev # evs" by (cases es) auto
  ultimately show ?thesis using e bench_tier_gated [of w_tier_world w_tier_env ev evs err env'] by auto
qed

section \<open>The dry run tells the truth\<close>

lemma has_prefix_before: "c \<notin> set p \<Longrightarrow> has_prefix (l @ c # r) p \<Longrightarrow> has_prefix l p"
  by (auto simp: has_prefix_iff append_eq_append_conv2 Cons_eq_append_conv)

lemma contains_off_sep: "c \<notin> set p \<Longrightarrow> contains (a @ c # b) p \<longleftrightarrow> contains a p \<or> contains b p"
  by (auto simp: contains_split)

lemma contains_count: "contains s p \<Longrightarrow> count_list p c \<le> count_list s c"
  by (auto simp: contains_iff count_list_append)

lemma summary_match_lead: "summary_match s = Some m \<Longrightarrow> has_prefix s summary_lead"
  by (auto simp: summary_match_def split: if_splits)

lemma dryRunSummary_skip_line:
  assumes "\<not> contains l summary_lead"
  shows "dryRunSummary (l @ newline @ rest) = dryRunSummary rest"
  using assms
proof (induction l)
  case Nil
  have "summary_match (CHR 0x0A # rest) = None"
    by (simp add: summary_match_def summary_lead_def has_prefix_def)
  then show ?case by (simp add: newline_def)
next
  case (Cons c l)
  have "\<not> has_prefix (c # l) summary_lead" "\<not> contains l summary_lead" using Cons.prems by auto
  moreover have "CHR 0x0A \<notin> set summary_lead" by (simp add: summary_lead_def)
  ultimately have "summary_match ((c # l) @ newline @ rest) = None"
    using has_prefix_before [of "CHR 0x0A" summary_lead "c # l" rest] summary_match_lead
    by (cases "summary_match ((c # l) @ newline @ rest)") (auto simp: newline_def)
  with Cons show ?case using \<open>\<not> contains l summary_lead\<close> by (simp add: newline_def)
qed

lemma dryRunSummary_skip_lines:
  "\<forall>l\<in>set ls. \<not> contains l summary_lead \<Longrightarrow>
    dryRunSummary (concat (map (\<lambda>l. l @ newline) ls) @ rest) = dryRunSummary rest"
  by (induction ls) (simp_all add: dryRunSummary_skip_line)

lemma summary_match_exact:
  assumes "d1 \<noteq> []" and "d2 \<noteq> []" and "\<forall>c\<in>set d1. is_digit c" and "\<forall>c\<in>set d2. is_digit c"
  shows "summary_match (summary_lead @ d1 @ '' of the '' @ d2 @ '' cells'' @ x) = Some (d1, d2)"
proof -
  have nd: "\<not> is_digit (CHR '' '')" by (simp add: is_digit_def)
  have "takeWhile is_digit (d @ CHR '' '' # y) = d" "dropWhile is_digit (d @ CHR '' '' # y) = CHR '' '' # y"
    if "\<forall>c\<in>set d. is_digit c" for d y
    using that nd by (simp_all add: takeWhile_append2 dropWhile_append2)
  then show ?thesis
    using assms by (simp add: summary_match_def Let_def trim_prefix_def has_prefix_def)
qed

lemma dryRunSummary_exact:
  assumes "d1 \<noteq> []" and "d2 \<noteq> []" and "\<forall>c\<in>set d1. is_digit c" and "\<forall>c\<in>set d2. is_digit c"
  shows "dryRunSummary (''probatorium-runner: dry-run; '' @ summary_lead @ d1 @ '' of the '' @ d2 @ '' cells'' @ x) = Some (d1, d2)"
proof -
  have hit: "dryRunSummary (summary_lead @ s) = Some m" if "summary_match (summary_lead @ s) = Some m" for s m
    using that by (simp add: summary_lead_def)
  have miss: "dryRunSummary (c # s) = dryRunSummary s" if "\<not> has_prefix (c # s) summary_lead" for c s
    using that by (cases "summary_match (c # s)") (auto dest: summary_match_lead)
  have "dryRunSummary (''probatorium-runner: dry-run; '' @ summary_lead @ s) = dryRunSummary (summary_lead @ s)" for s
    by (simp add: miss has_prefix_def summary_lead_def del: dryRunSummary.simps)
  then show ?thesis using hit summary_match_exact [OF assms] by simp
qed

lemma digits_of_count: "\<forall>c\<in>set (itoa (int n)). is_digit c" "itoa (int n) \<noteq> []" "digits_val (itoa (int n)) = n"
  by (auto simp: itoa_def show_nat_ne digits_val_show_nat is_digit_digit dest!: show_nat_chars)

lemma filterCells_sub:
  "filterCells ss aa g = Inr (ss', aa') \<Longrightarrow> set ss' \<subseteq> set ss \<and> set aa' \<subseteq> set aa"
  by (auto simp: filterCells_def Let_def split: if_splits sum.splits)

lemma filterCells_len:
  "filterCells ss aa g = Inr (ss', aa') \<Longrightarrow> length ss' \<le> length ss \<and> length aa' \<le> length aa"
  by (auto simp: filterCells_def Let_def split: if_splits sum.splits)

text \<open>What a dry run of the registry plans.\<close>

lemma dry_plan_facts:
  assumes "plan_run scenario_registry full_registry br bb dir (dry_run_config cells rated) = Inr (plan, cfg)"
  shows "RatedMode cfg" and "RatedCells cfg = rated" and "RatedDuration cfg = 30 * second" and "Runs cfg = 1"
    and "\<forall>c\<in>set (p_Schedule plan). c_Scenario c \<in> set scenario_init \<and> srv_Name (c_Server c) \<in> set (map fst full_registry)"
    and "length (p_Schedule plan) \<le> length scenario_init * length full_registry"
proof -
  let ?c = "dry_run_config cells rated"
  obtain effSc effAdv sch where c: "RatedMode cfg = (RatedMode ?c \<or> br = ''1'' \<or> br = ''true'')" "cfg = ?c\<lparr>RatedMode := RatedMode cfg\<rparr>"
    and f: "filterCells (Registry scenario_registry) (AdaptersSorted bb full_registry) cells = Inr (effSc, effAdv)"
    and o: "orderSchedule (Schedule 1 effSc (map (plan_server full_registry ?c) effAdv)) '''' = Inr sch" "p_Schedule plan = sch"
    using plan_run_cases [OF assms] by (auto simp: dry_run_config_def DefaultConfig_def)
  show "RatedMode cfg" using c(1) by (simp add: dry_run_config_def)
  show "RatedCells cfg = rated" "RatedDuration cfg = 30 * second" "Runs cfg = 1"
    by (subst c(2), simp add: dry_run_config_def DefaultConfig_def)+
  have sch: "p_Schedule plan = Schedule 1 effSc (map (plan_server full_registry ?c) effAdv)"
    using o by (simp add: orderSchedule_def)
  have sub: "set effSc \<subseteq> set scenario_init" "set effAdv \<subseteq> snd ` set full_registry"
    using filterCells_sub [OF f] by (auto simp: set_Registry set_AdaptersSorted)
  have len: "length effSc \<le> length scenario_init" "length effAdv \<le> length full_registry"
    using filterCells_len [OF f] arg_cong [OF mset_Registry, of size]
    by (auto simp: AdaptersSorted_def intro: order_trans [OF _ length_filter_le])
  have srv: "srv_Name (plan_server full_registry ?c a) = a_Name a" for a
    by (simp add: plan_server_def adapterServer_def Let_def)
  have names: "a_Name a \<in> set (map fst full_registry)" if "a \<in> snd ` set full_registry" for a
    using that unfolding full_registry_names by force
  show "\<forall>c\<in>set (p_Schedule plan). c_Scenario c \<in> set scenario_init \<and> srv_Name (c_Server c) \<in> set (map fst full_registry)"
  proof
    fix c assume "c \<in> set (p_Schedule plan)"
    then have "c_Scenario c \<in> set effSc" "c_Server c \<in> plan_server full_registry ?c ` set effAdv"
      unfolding sch by (simp_all add: set_Schedule)
    then show "c_Scenario c \<in> set scenario_init \<and> srv_Name (c_Server c) \<in> set (map fst full_registry)"
      using sub(1) names [OF subsetD [OF sub(2)]] by (auto simp: srv)
  qed
  have "length (applicable_pairs ss sv) \<le> length ss * length sv" for ss sv
    by (induction ss) (auto simp: applicable_pairs_def intro: add_mono length_filter_le)
  then have "length (p_Schedule plan) \<le> length effSc * length effAdv"
    unfolding sch length_Schedule by (metis length_map mult.left_neutral nat_one_as_int)
  also have "\<dots> \<le> length scenario_init * length full_registry" using len by (rule mult_le_mono)
  finally show "length (p_Schedule plan) \<le> length scenario_init * length full_registry" .
qed


lemma rated_line_no_lead:
  assumes "c_Scenario c \<in> set scenario_init" and "srv_Name (c_Server c) \<in> set (map fst full_registry)"
  shows "\<not> contains (rated_line c) summary_lead"
proof -
  have sp: "is_space (CHR '' '')" by (simp add: is_space_def)
  have "CHR '' '' \<notin> set (sc_name (c_Scenario c))" "CHR '' '' \<notin> set (srv_Name (c_Server c))"
    using registry_names_safe(1) [OF assms(1)] registry_names_safe(2) [OF assms(2)] sp unfolding glob_safe_def by metis+
  moreover have "CHR '' '' \<notin> set (itoa (RunIdx c))"
    using itoa_chars [of "CHR '' ''" "RunIdx c"] digit_neq [of _ "CHR '' ''"] by auto
  ultimately have "count_list (rated_line c) (CHR '' '') = 2"
    by (simp add: rated_line_def cell_id_def CellID_def count_list_append count_notin)
  moreover have "count_list summary_lead (CHR '' '') = 5" by (simp add: summary_lead_def)
  ultimately show ?thesis using contains_count [of "rated_line c" summary_lead "CHR '' ''"] by auto
qed

lemma no_w_no_lead: "CHR ''w'' \<notin> set s \<Longrightarrow> \<not> contains s summary_lead"
  using contains_set [of s summary_lead] by (auto simp: summary_lead_def)

lemma itoa_no_w: "CHR ''w'' \<notin> set (itoa i)"
proof
  assume "CHR ''w'' \<in> set (itoa i)"
  then consider "CHR ''w'' = CHR ''-''" | d where "d < 10" "CHR ''w'' = digit d" using itoa_chars by blast
  then obtain d where d: "d < 10" "CHR ''w'' = digit d" by cases (simp, blast)
  then have "(of_char (CHR ''w'') :: nat) = 48 + d" using of_char_digit by simp
  with d(1) show False by simp
qed

lemma rated_banner_no_lead:
  assumes "RatedDuration cfg = 30 * second" and "\<not> contains (RatedCells cfg) summary_lead"
  shows "\<not> contains (rated_banner cfg) summary_lead"
proof -
  let ?a = "''probatorium-runner: rated mode ON (fractions=[0.25 0.5 0.75 0.9] duration='' @ duration_string (30 * second) @ '' cells''"
  let ?s = "if RatedCells cfg = '''' then ''every cell'' else RatedCells cfg"
  have b: "rated_banner cfg = ?a @ CHR ''='' # ?s @ CHR '')'' # []" by (simp add: rated_banner_def assms(1))
  have sep: "CHR ''='' \<notin> set summary_lead" "CHR '')'' \<notin> set summary_lead" by (simp_all add: summary_lead_def)
  have parts: "\<not> contains ?a summary_lead" "\<not> contains ''every cell'' summary_lead" "\<not> contains [] summary_lead" by code_simp+
  show ?thesis
    unfolding b contains_off_sep [OF sep(1)] contains_off_sep [OF sep(2)] using parts assms(2) by presburger
qed

lemma dry_run_lines_no_lead:
  "\<not> contains (''probatorium-runner: seed='' @ itoa seed) summary_lead"
  "\<not> contains (dry_run_header cfg plan) summary_lead"
  by (rule no_w_no_lead, simp add: itoa_no_w dry_run_header_def times_sign_def)+

text \<open>C24: the scope that is gated is the scope that runs. For every cell glob, rated glob and
  environment under which the runner can plan at all, the two counts \<open>mage\<close> reads back out of the dry
  run's stderr with its regular expression are the length of the schedule the runner plans and the
  number of its cells the runner rates, provided the rated glob does not itself spell the summary.\<close>

theorem dry_run_counts_exact:
  assumes "plan_run scenario_registry full_registry (env ''BENCH_RATED'') (env ''BENCH_BASELINE'') (Inl NotExist)
      (dry_run_config cells rated) = Inr (plan, cfg)"
    and "\<not> contains rated summary_lead"
  shows "realized_by_dry_run None seed env cells rated =
    Inr (int (length (p_Schedule plan)), int (length (filter (\<lambda>c. ratesCell cfg (cell_id c)) (p_Schedule plan))))"
proof -
  note facts = dry_plan_facts [OF assms(1)]
  let ?ls = "[rated_banner cfg, ''probatorium-runner: seed='' @ itoa seed, dry_run_header cfg plan] @ map rated_line (rated_cells_of cfg plan)"
  let ?r = "rated_cells_of cfg plan" and ?n = "length (p_Schedule plan)"
  have "\<not> contains (rated_line c) summary_lead" if "c \<in> set ?r" for c
    using that facts(5) by (intro rated_line_no_lead) (simp_all add: rated_cells_of_def del: set_map)
  then have skip: "\<forall>l\<in>set ?ls. \<not> contains l summary_lead"
    using rated_banner_no_lead [OF facts(3)] assms(2) facts(2) dry_run_lines_no_lead
    by (auto simp del: contains.simps)
  have "dry_run_stderr seed cfg plan = concat (map (\<lambda>l. l @ newline) ?ls) @ rated_summary cfg plan @ newline"
    using facts(1) by (simp add: dry_run_stderr_def)
  then have "dryRunSummary (dry_run_stderr seed cfg plan) = dryRunSummary (rated_summary cfg plan @ newline)"
    using dryRunSummary_skip_lines [OF skip] by simp
  also have "\<dots> = Some (itoa (int (length ?r)), itoa (int ?n))"
    using dryRunSummary_exact [OF digits_of_count(2,2,1,1), of "length ?r" ?n]
    by (simp add: rated_summary_def summary_lead_def)
  finally have s: "dryRunSummary (dry_run_stderr seed cfg plan) = Some (itoa (int (length ?r)), itoa (int ?n))" .
  have "length scenario_init * length full_registry \<le> 2000" by code_simp
  then have n: "?n \<le> 2000" using facts(6) by simp
  moreover have "length ?r \<le> ?n" unfolding rated_cells_of_def by (rule length_filter_le)
  ultimately have "digits_int (itoa (int ?n)) = int ?n" "digits_int (itoa (int (length ?r))) = int (length ?r)"
    by (simp_all add: digits_int_def digits_of_count(3))
  then show ?thesis
    by (simp add: realized_by_dry_run_def assms(1) parseDryRunSummary_def s flip: rated_cells_of_def)
qed


theorem dry_run_counts_exact_witness:
  "realized_by_dry_run None 7 (\<lambda>_. '''') '''' RatedCellsGlob = Inr (813, 401)"
proof -
  let ?c = "dry_run_config '''' RatedCellsGlob"
  have g: "\<not> contains RatedCellsGlob summary_lead" by code_simp
  have ps: "plan_server full_registry ?c = (\<lambda>a. adapterServer a (featureSetFor a False))"
    by (intro ext) (simp add: plan_server_def Let_def dry_run_config_def DefaultConfig_def)
  obtain plan cfg where p: "plan_run scenario_registry full_registry '''' '''' (Inl NotExist) ?c = Inr (plan, cfg)"
    by (simp add: plan_run_def Let_def dry_run_config_def DefaultConfig_def parse_rated_glob filterCells_def
        orderSchedule_def newClientLock_def split_def)
  obtain effSc effAdv sch where f: "filterCells (Registry scenario_registry) (AdaptersSorted '''' full_registry) '''' = Inr (effSc, effAdv)"
    and o: "orderSchedule (Schedule 1 effSc (map (plan_server full_registry ?c) effAdv)) '''' = Inr sch" "p_Schedule plan = sch"
    using plan_run_cases [OF p] by (auto simp: dry_run_config_def DefaultConfig_def)
  have sch: "p_Schedule plan = Schedule 1 (Registry scenario_registry) (registry_columns '''')"
    using f o by (simp add: orderSchedule_def filterCells_def registry_columns_def ps)
  have "\<not> BaselineEnabled ''''" by (rule baseline_consts)
  then show ?thesis
    using dry_run_counts_exact [of "\<lambda>_. ''''" "''''" RatedCellsGlob plan cfg 7] p g
      full_grid_counts [OF dry_plan_facts(1,2) [OF p], of 1 "''''"] sch
    by simp
qed

end
