(* ===== verification/ValidationCells.thy ===== *)
theory ValidationCells
  imports Prelude "HOL-Library.Word"
begin

text \<open>
  The validation half of the results document (\<open>src/report/schema.go\<close>): the per-cell result,
  the tier summaries, the slow-fire ring and the soak summary, with the two readings of "the
  property loop ran" that \<open>src/report/gate.go\<close> has.

  A counter is an \<open>int\<close> inside the 64-bit range; a sum or product of counters is wrapped where
  the code computes one. A pointer is an option. A \<open>float64\<close> is its bit pattern: nothing in
  this part of the program computes with one, they are only printed.
\<close>

type_synonym float64 = "64 word"
type_synonym tally_map = "int gomap"


section \<open>The document's types\<close>

record latency_buckets =
  Lt100ms :: int
  Lt1s :: int
  Lt2s :: int
  Lt5s :: int
  Lt10s :: int
  Lt20s :: int
  Ge20s :: int
  TimeoutBucket :: int

definition Total :: "latency_buckets \<Rightarrow> int" where
  "Total b = wrap64 (Lt100ms b + Lt1s b + Lt2s b + Lt5s b + Lt10s b + Lt20s b + Ge20s b + TimeoutBucket b)"

record walker_latency =
  wl_Dial :: latency_buckets
  wl_Write :: latency_buckets
  wl_Read :: latency_buckets

record event_stamp =
  es_TS :: string
  es_SinceReadyMs :: int
  es_Cause :: string
  es_Err :: string
  es_LocalAddr :: string
  es_RemoteAddr :: string

record event_span =
  sp_Count :: int
  sp_First :: event_stamp
  sp_Last :: event_stamp

record refapp_sched =
  rs_At :: string
  rs_Unavailable :: string
  rs_Threads :: int
  rs_LeaderCPUsAllowedList :: string
  rs_ThreadMasks :: tally_map
  rs_GOMAXPROCS :: int
  rs_GOMAXPROCSNote :: string

record slow_fire =
  sf_TS :: string
  sf_SinceReadyMs :: int
  sf_DialMs :: int
  sf_WriteMs :: int
  sf_ReadMs :: int
  sf_Outcome :: string
  sf_Err :: string
  sf_Status :: string
  sf_NRead :: int
  sf_LocalAddr :: string
  sf_RemoteAddr :: string
  sf_ValidatorSkewMs :: int

record tier3_summary =
  SeedsAttempted :: int
  SeedsPassed :: int
  SeedsFailed :: int
  SeedsErrored :: int

record soak_summary =
  SoakDuration :: duration
  RestartedProcesses :: int
  GoroutineLeakDetected :: bool
  HeapGrowthMB :: float64
  PerHourErrorRate :: float64

record property_informational =
  pi_Label :: string
  pi_Violations :: int
  pi_AbsolvedEvaluations :: int
  pi_Absolved :: bool
  pi_FirstMessage :: string

record tier1_summary =
  RequestsSent :: int
  Requests2xx :: int
  Requests4xx :: int
  Requests401 :: int
  Requests404 :: int
  Requests429 :: int
  WalkerLogins :: int
  WalkerRelogins :: int
  WalkerLogouts :: int
  Requests5xx :: int
  RequestsError :: int
  Requests5xxExpected :: int
  RequestsPanicExpected :: int
  InvariantHits :: int
  RequestsCutAtDeadline :: int
  PropertyEvaluations :: int
  PropertySkips :: int
  PropertyLoopSkipped :: string
  PropertyViolations :: int
  PropertyViolationIDs :: "string list"
  PropertyInformational :: "property_informational gomap"
  PropertyPollErrors :: int
  AdaptiveSwitches :: int
  PeakConnsPerWorker :: float64
  MeanBytesPerReq :: float64
  EngineZeroWitness :: tally_map
  EngineAcceptCount :: int
  EngineCloseCount :: int
  EngineTransplantDetached :: int
  EngineTransplantAdopted :: int
  EngineAsyncPromotedConns :: int
  PeakStandbyActiveConns :: int
  EngineRequestsTotal :: int
  EngineErrorCount :: int
  EngineErrorClasses :: tally_map
  EngineStandbyErrorCount :: int
  EngineCounters :: tally_map
  Adversarial :: tally_map
  H2CChurn :: tally_map
  WSTorture :: tally_map
  SSEKill :: tally_map
  WSEcho :: tally_map
  SSEEarlyErrs :: "string list"
  H2CLatency :: "walker_latency option"
  WSLatency :: "walker_latency option"
  H2CSlowReads :: "slow_fire list"
  WSSlowReads :: "slow_fire list"
  H2CHangSpan :: "event_span option"
  WSHandshakeFailSpan :: "event_span option"
  RefappSched :: "refapp_sched option"
  ReadyAt :: string
  RefappStderrTail :: "string list"

record validation_cell =
  Refapp :: string
  Engine :: string
  Arch :: string
  Tier1 :: "tier1_summary option"
  Tier3 :: "tier3_summary option"
  Soak :: "soak_summary option"
  PropertiesPassed :: int
  PropertiesFailed :: int
  PropertiesNotInstrumented :: "string list"
  PropertiesNotJudged :: "string list"
  PropertiesNotJudgedByDesign :: "string list"
  FailureSummaries :: "string gomap"
  Status :: string
  FailureReason :: string
  ResumedFrom :: string

definition ValidationCellOK :: string where "ValidationCellOK = ''ok''"
definition ValidationCellFailed :: string where "ValidationCellFailed = ''failed''"
definition ValidationCellNotRun :: string where "ValidationCellNotRun = ''not_run''"

record resume_provenance =
  rp_From :: string
  rp_PriorStartedAt :: int
  rp_PriorFinishedAt :: int
  rp_InheritedCells :: int
  rp_RanCells :: int
  rp_NotInherited :: "string list"

record validation_results =
  vr_StartedAt :: int
  vr_FinishedAt :: int
  vr_PropertiesPassed :: int
  vr_PropertiesFailed :: int
  vr_FailureSummaries :: "string gomap"
  vr_FaultInjectionSeed :: string
  vr_Tier1 :: "tier1_summary option"
  vr_Tier3 :: "tier3_summary option"
  vr_Cells :: "validation_cell list"
  vr_Resume :: "resume_provenance option"


section \<open>Zero values\<close>

text \<open>The values Go gives a composite literal that names no field.\<close>

definition zero_tier1 :: tier1_summary where
  "zero_tier1 = \<lparr>RequestsSent = 0, Requests2xx = 0, Requests4xx = 0, Requests401 = 0, Requests404 = 0,
     Requests429 = 0, WalkerLogins = 0, WalkerRelogins = 0, WalkerLogouts = 0, Requests5xx = 0,
     RequestsError = 0, Requests5xxExpected = 0, RequestsPanicExpected = 0, InvariantHits = 0,
     RequestsCutAtDeadline = 0, PropertyEvaluations = 0, PropertySkips = 0, PropertyLoopSkipped = '''',
     PropertyViolations = 0, PropertyViolationIDs = [], PropertyInformational = [],
     PropertyPollErrors = 0, AdaptiveSwitches = 0, PeakConnsPerWorker = 0, MeanBytesPerReq = 0,
     EngineZeroWitness = [], EngineAcceptCount = 0, EngineCloseCount = 0, EngineTransplantDetached = 0,
     EngineTransplantAdopted = 0, EngineAsyncPromotedConns = 0, PeakStandbyActiveConns = 0,
     EngineRequestsTotal = 0, EngineErrorCount = 0, EngineErrorClasses = [],
     EngineStandbyErrorCount = 0, EngineCounters = [], Adversarial = [], H2CChurn = [], WSTorture = [],
     SSEKill = [], WSEcho = [], SSEEarlyErrs = [], H2CLatency = None, WSLatency = None,
     H2CSlowReads = [], WSSlowReads = [], H2CHangSpan = None, WSHandshakeFailSpan = None,
     RefappSched = None, ReadyAt = '''', RefappStderrTail = []\<rparr>"

definition zero_cell :: validation_cell where
  "zero_cell = \<lparr>Refapp = '''', Engine = '''', Arch = '''', Tier1 = None, Tier3 = None, Soak = None,
     PropertiesPassed = 0, PropertiesFailed = 0, PropertiesNotInstrumented = [],
     PropertiesNotJudged = [], PropertiesNotJudgedByDesign = [], FailureSummaries = [],
     Status = '''', FailureReason = '''', ResumedFrom = ''''\<rparr>"

lemmas zero_defs [go_simps] = zero_tier1_def zero_cell_def


section \<open>Did the property loop run\<close>

definition ranPropertyLoop :: "validation_cell \<Rightarrow> bool" where
  "ranPropertyLoop c = (case Tier1 c of
     None \<Rightarrow> False
   | Some t \<Rightarrow> PropertyLoopSkipped t = '''' \<and> (PropertyEvaluations t > 0 \<or> PropertySkips t > 0))"

definition propertyLoopRan :: "validation_cell \<Rightarrow> bool" where
  "propertyLoopRan c = (case Tier1 c of
     None \<Rightarrow> False
   | Some t \<Rightarrow> PropertyLoopSkipped t = '''' \<and> wrap64 (PropertyEvaluations t + PropertySkips t) > 0)"

text \<open>Counters that the harness can have produced: non-negative, and small enough that the sum of
  two of them is still a 64-bit number.\<close>

definition counters_ok :: "validation_cell \<Rightarrow> bool" where
  "counters_ok c = (case Tier1 c of
     None \<Rightarrow> True
   | Some t \<Rightarrow> 0 \<le> PropertyEvaluations t \<and> 0 \<le> PropertySkips t
       \<and> in_int64 (PropertyEvaluations t + PropertySkips t))"

lemma loop_readings_agree: "counters_ok c \<Longrightarrow> propertyLoopRan c = ranPropertyLoop c"
  unfolding counters_ok_def propertyLoopRan_def ranPropertyLoop_def
  by (auto simp: wrap64_id split: option.splits)

lemma ranPropertyLoopE:
  assumes "ranPropertyLoop c"
  obtains t where "Tier1 c = Some t" and "PropertyLoopSkipped t = ''''"
    and "PropertyEvaluations t > 0 \<or> PropertySkips t > 0"
  using assms unfolding ranPropertyLoop_def by (auto split: option.splits)

end
