(* ===== verification/Gate.thy ===== *)
theory Gate
  imports ValidationCells
begin

text \<open>
  The absolute zero-signal gate of the validation matrix: \<open>src/report/gate.go\<close> and
  \<open>src/report/zero_witness.go\<close>.

  Each group of checks of the function \<open>Gate\<close> is a definition that returns the violations the
  group appends, in the order the code appends them; \<open>Gate\<close> concatenates the groups and sorts.
  The explanation of a violation is the list of pieces its format string is made of: the floating
  point verbs and the quoting verb are kept as pieces with their argument, everything else is
  text. Maps are association lists, and the theorems hold for every order of them.

  The lemmas characterise the gate by an independent reading of what a clean run is, show that
  no violation is lost or invented by a reordering of the cells, that the duplicate check is
  exact, and give the coverage report by quantifiers over the cells.
\<close>


section \<open>Violations and options\<close>

datatype piece =
    Lit string
  | Quoted string
  | Fixed nat float64
  | Ratio int int

type_synonym why = "piece list"

record violation =
  v_Refapp :: string
  v_Engine :: string
  v_Arch :: string
  v_Field :: string
  v_Value :: int
  v_Why :: why

definition WSEchoSlowTolerance :: int where "WSEchoSlowTolerance = 3"
definition WSEchoSlowKey :: string where "WSEchoSlowKey = ''ws_echo_timeout_slow''"
definition WSEchoSlowOverNKey :: string where "WSEchoSlowOverNKey = ''ws_echo_slow_over_n''"
definition WSEchoSlowNoCleanKey :: string where "WSEchoSlowNoCleanKey = ''ws_echo_slow_no_clean_fire''"

record gate_options =
  ToleratesWSEchoSlow :: bool
  ExpectedCells :: int
  RequireTier3 :: bool
  RequireSoak :: bool
  RequireProperties :: bool
  RequireInstrumented :: bool
  RequireCoverage :: bool
  ExpectInstrumented :: "string list"
  ExpectAdaptiveSwitch :: bool
  H2CUpgradeRefapps :: "string list option"

definition WaivedUninstrumented :: "string gomap" where
  "WaivedUninstrumented = [
    (''I-RACE'', ''instrumented only in the race tier, whose refapps are -race builds (cgo, built on a GitHub-hosted runner and shipped to the nodes); a normal run deploys no such refapp''),
    (''I-CHECKPTR'', ''instrumented only in cells whose refapp is a -tags=checkptr build; a run that deploys none has no cell that can judge it''),
    (''I-RFC-1'', ''needs the response-scraping MITM in front of each refapp''),
    (''I-RFC-2'', ''needs the response-scraping MITM in front of each refapp''),
    (''I-MEM-2'', ''instrumented only in cells long enough to idle the refapp twice (20 min or more; the soak's 1 h cells); a 150 s nightly cell never idles''),
    (''I-ENG-IOURING'', ''instrumented only in the io_uring cells of the instrumented tier (refapps built -tags=checkptr,validation); a normal run deploys no such refapp''),
    (''I-ENG-ADAPTIVE'', ''instrumented only in adaptive cells; a run whose engine subset excludes adaptive (VALIDATE_MATRIX_ENGINES) has no cell that can judge it'')]"

definition DefaultH2CUpgradeRefapps :: "string list" where
  "DefaultH2CUpgradeRefapps = [''kitchen_sink'']"


section \<open>Predicates no cell reached\<close>

definition everyCellLists :: "validation_cell list \<Rightarrow> (validation_cell \<Rightarrow> string list) \<Rightarrow> string list" where
  "everyCellLists cells lst =
     (let ran = filter ranPropertyLoop cells;
          seen = tally (concat (map lst ran));
          total = int (length ran)
      in if total = 0 then []
         else sort (map fst (filter (\<lambda>(ident, n). n = total) seen)))"

definition UninstrumentedEverywhere :: "validation_cell list \<Rightarrow> string list" where
  "UninstrumentedEverywhere cells = everyCellLists cells PropertiesNotInstrumented"

definition NotJudgedEverywhere :: "validation_cell list \<Rightarrow> string list" where
  "NotJudgedEverywhere cells = everyCellLists cells PropertiesNotJudged"

record coverage_gap =
  g_ID :: string
  g_Cells :: int
  g_ByDesign :: int

definition Structural :: "coverage_gap \<Rightarrow> bool" where
  "Structural g \<longleftrightarrow> g_Cells g > 0 \<and> g_ByDesign g = g_Cells g"

definition Coverage :: "validation_cell list \<Rightarrow> coverage_gap list" where
  "Coverage cells =
     (let ran = filter propertyLoopRan cells;
          notJudged = tally (concat (map PropertiesNotJudged ran));
          byDesign = tally (concat (map (\<lambda>c. filter (\<lambda>ident. ident \<in> set (PropertiesNotJudged c))
                                               (PropertiesNotJudgedByDesign c)) ran));
          judged = (\<lambda>ident. \<exists>c\<in>set ran.
                      ident \<notin> set (PropertiesNotJudged c) \<and> ident \<notin> set (PropertiesNotInstrumented c))
      in sort_key g_ID
           (map (\<lambda>(ident, n). \<lparr>g_ID = ident, g_Cells = n, g_ByDesign = mget byDesign ident\<rparr>)
              (filter (\<lambda>(ident, n). \<not> judged ident) notJudged)))"


section \<open>Explanations\<close>

definition deadCellReasonMax :: nat where "deadCellReasonMax = 160"

definition deadCellWhy :: "validation_cell \<Rightarrow> string" where
  "deadCellWhy c =
     (let base = ''dead cell: no requests were sent''
      in if FailureReason c = '''' then base
         else let reason = (if length (FailureReason c) > deadCellReasonMax
                            then take deadCellReasonMax (FailureReason c) @ ''...''
                            else FailureReason c);
                  status = (if Status c = '''' then ''unrecorded'' else Status c)
              in base @ '' ('' @ status @ '': '' @ reason @ '')'')"

definition causeCounters :: "string list gomap" where
  "causeCounters = [
    (''h2c_hang'', [''h2c_hang_eof'', ''h2c_hang_timeout'', ''h2c_hang_reset'', ''h2c_hang_other'']),
    (''ws_handshake_fail'', [''ws_handshake_fail_eof'', ''ws_handshake_fail_timeout'',
       ''ws_handshake_fail_reset'', ''ws_handshake_fail_status'', ''ws_handshake_fail_other'']),
    (''ws_echo_corrupt'', [''ws_echo_egress_interleave'', ''ws_echo_other_corrupt''])]"

definition causeSuffix :: "tally_map \<Rightarrow> string \<Rightarrow> string" where
  "causeSuffix m key = (case map_of causeCounters key of
     None \<Rightarrow> ''''
   | Some causes \<Rightarrow>
       (let parts = map (\<lambda>c. trim_prefix c (key @ ''_'') @ ''='' @ itoa (mget m c))
                      (filter (\<lambda>c. mget m c > 0) causes)
        in if parts = [] then '''' else '' ('' @ join parts '', '' @ '')''))"

definition slowRefusedSuffix :: "tally_map \<Rightarrow> string \<Rightarrow> string" where
  "slowRefusedSuffix m key =
     (if key \<noteq> ''ws_echo_timeout'' then ''''
      else let over = mget m WSEchoSlowOverNKey;
               noClean = mget m WSEchoSlowNoCleanKey;
               refused = wrap64 (over + noClean)
           in if refused = 0 then ''''
              else let tot = mget m key;
                       why = (if over > 0 then [itoa over @ '' SLOW_CLASS fire(s): latency over the race tier's tolerance, not a wedge''] else [])
                         @ (if noClean > 0 then [itoa noClean @ '' SLOW_CLASS fire(s) refused because no fire drained cleanly since the first SLOW one''] else []);
                       counters = WSEchoSlowOverNKey @ ''='' @ itoa over @ '', '' @ WSEchoSlowNoCleanKey @ ''='' @ itoa noClean
                   in if refused \<ge> tot
                      then '' -- '' @ join why ''; '' @ '' ('' @ counters @ '')''
                      else '' -- '' @ itoa refused @ '' of '' @ itoa tot @ '' were SLOW_CLASS fires the race tier refused: ''
                        @ join why ''; '' @ '' ('' @ counters @ ''); the others were WEDGE_CLASS, INDETERMINATE or had no capture'')"

definition slowFireDetail :: "tier1_summary \<Rightarrow> string \<Rightarrow> slow_fire list" where
  "slowFireDetail t key =
     (if key = ''h2c_hang'' then H2CSlowReads t
      else if key = ''ws_handshake_fail'' then WSSlowReads t
      else [])"

definition IsFailedSlowFire :: "slow_fire \<Rightarrow> bool" where
  "IsFailedSlowFire f \<longleftrightarrow> has_prefix (sf_Outcome f) ''hang-'' \<or> has_prefix (sf_Outcome f) ''handshake-fail-''"

fun FirstFailedSlowFire :: "slow_fire list \<Rightarrow> why" where
  "FirstFailedSlowFire [] = []"
| "FirstFailedSlowFire (f # ring) =
     (if \<not> IsFailedSlowFire f then FirstFailedSlowFire ring
      else [Lit ('' first: '' @ sf_TS f @ '' read='' @ itoa (sf_ReadMs f) @ ''ms outcome='' @ sf_Outcome f)]
        @ (if sf_Err f \<noteq> '''' then [Lit '' err='', Quoted (sf_Err f)] else [])
        @ (if sf_Status f \<noteq> '''' then [Lit '' status='', Quoted (sf_Status f)] else [])
        @ (if sf_LocalAddr f \<noteq> '''' then [Lit ('' local='' @ sf_LocalAddr f)] else [])
        @ (if sf_ValidatorSkewMs f > 0 then [Lit ('' validator_skew='' @ itoa (sf_ValidatorSkewMs f) @ ''ms'')] else []))"


section \<open>Checks on one cell\<close>

definition viol :: "validation_cell \<Rightarrow> string \<Rightarrow> int \<Rightarrow> why \<Rightarrow> violation" where
  "viol c field v why = \<lparr>v_Refapp = Refapp c, v_Engine = Engine c, v_Arch = Arch c,
     v_Field = field, v_Value = v, v_Why = why\<rparr>"

definition gatedTier1Keys :: "(string \<times> string \<times> string) list" where
  "gatedTier1Keys = [
    (''adversarial'', ''adv_wrong_accepted'', ''a malformed request was accepted''),
    (''adversarial'', ''adv_hang_until_timeout'', ''a malformed request hung the server''),
    (''h2c_churn'', ''h2c_hang'', ''an h2c request was neither answered nor declined''),
    (''h2c_churn'', ''h2c_crashed'', ''the server crashed under h2c churn''),
    (''ws_torture'', ''ws_accepted_bad_frame'', ''an invalid WebSocket frame was accepted''),
    (''ws_torture'', ''ws_hang_no_close'', ''a WebSocket conn never completed its close''),
    (''ws_torture'', ''ws_handshake_fail'', ''a WebSocket upgrade handshake failed''),
    (''sse_kill'', ''sse_handshake_fail'', ''an SSE handshake failed''),
    (''sse_kill'', ''sse_server_closed_early'', ''the server sent FIN on an SSE stream before the client did''),
    (''sse_kill'', ''sse_peer_reset_early'', ''an SSE stream was reset before the client hung up (engine or transport -- see sse_early_errs)''),
    (''sse_kill'', ''sse_read_err_early'', ''an SSE stream failed with an unclassified read error (see sse_early_errs)''),
    (''ws_echo'', ''ws_echo_corrupt'', ''a 64 KiB WebSocket echo was not the byte image of the frame sent''),
    (''ws_echo'', ''ws_echo_reorder'', ''a 64 KiB WebSocket echo arrived out of sequence''),
    (''ws_echo'', ''ws_echo_missing'', ''a WebSocket echo connection ended with frames still unanswered''),
    (''ws_echo'', ''ws_echo_timeout'', ''a WebSocket echo connection stopped delivering before its hold expired'')]"

definition slice_tally :: "tier1_summary \<Rightarrow> string \<Rightarrow> tally_map" where
  "slice_tally t slc =
     (if slc = ''adversarial'' then Adversarial t
      else if slc = ''h2c_churn'' then H2CChurn t
      else if slc = ''ws_torture'' then WSTorture t
      else if slc = ''sse_kill'' then SSEKill t
      else if slc = ''ws_echo'' then WSEcho t
      else [])"

definition requests_checks :: "validation_cell \<Rightarrow> tier1_summary \<Rightarrow> violation list" where
  "requests_checks c t =
     (if RequestsSent t = 0 then [viol c ''tier_1.requests_sent'' 0 [Lit (deadCellWhy c)]] else [])
     @ (if Requests5xx t > 0 then [viol c ''tier_1.requests_5xx'' (Requests5xx t)
          [Lit ''unexpected 5xx (designed 5xx are tallied in requests_5xx_expected)'']] else [])
     @ (if RequestsError t > 0 then [viol c ''tier_1.requests_error'' (RequestsError t)
          [Lit ''transport/timeout errors (deadline cutoffs are tallied in requests_cut_at_deadline)'']] else [])
     @ (if InvariantHits t > 0 then [viol c ''tier_1.invariant_hits'' (InvariantHits t)
          [Lit ''the refapp reported an invariant violation'']] else [])"

definition relogin_budget :: "tier1_summary \<Rightarrow> int" where
  "relogin_budget t = wrap64 (WalkerLogouts t + wrap64 (WalkerLogins t * 10))"

definition relogin_check :: "validation_cell \<Rightarrow> tier1_summary \<Rightarrow> violation list" where
  "relogin_check c t =
     (if WalkerRelogins t > 0 \<and> WalkerLogins t > 0 then
        (let budget = relogin_budget t
         in if WalkerRelogins t > budget
            then [viol c ''tier_1.walker_relogins'' (WalkerRelogins t)
              [Lit (''walkers re-logged in '' @ itoa (WalkerRelogins t) @ '' times against ''
                 @ itoa (WalkerLogouts t) @ '' deliberate logout(s) and '' @ itoa (WalkerLogins t)
                 @ '' login(s) (budget '' @ itoa budget @ ''): the server is not honouring the session'')]]
            else [])
      else [])"

definition property_checks :: "gate_options \<Rightarrow> validation_cell \<Rightarrow> tier1_summary \<Rightarrow> violation list" where
  "property_checks opts c t =
     (if PropertyViolations t > 0 then [viol c ''tier_1.property_violations'' (PropertyViolations t)
        [Lit (''property predicate(s) violated: '' @ join (PropertyViolationIDs t) '', '')]] else [])
     @ (if RequireProperties opts \<and> PropertyEvaluations t = 0 \<and> PropertyLoopSkipped t = ''''
        then [viol c ''tier_1.property_evaluations'' 0
          [Lit ''the property loop never evaluated a predicate (refapp /debug/vars unreachable?)'']] else [])"

definition mustUpgrade :: "gate_options \<Rightarrow> string \<Rightarrow> bool" where
  "mustUpgrade opts refapp \<longleftrightarrow> refapp \<in> set (case H2CUpgradeRefapps opts of
     None \<Rightarrow> DefaultH2CUpgradeRefapps | Some rs \<Rightarrow> rs)"

definition h2c_vacuous_check :: "gate_options \<Rightarrow> validation_cell \<Rightarrow> tier1_summary \<Rightarrow> violation list" where
  "h2c_vacuous_check opts c t =
     (let sent = mget (H2CChurn t) ''h2c_sent''
      in if mustUpgrade opts (Refapp c) \<and> sent > 0 \<and> mget (H2CChurn t) ''h2c_upgraded'' = 0
         then [viol c ''tier_1.h2c_churn.h2c_upgraded'' 0
           [Lit (''vacuous h2c slice: '' @ itoa sent
              @ '' upgrade preambles, not one 101 -- h2c_hang/h2c_crashed judged nothing'')]]
         else [])"

definition gated_checks :: "validation_cell \<Rightarrow> tier1_summary \<Rightarrow> violation list" where
  "gated_checks c t = concat (map (\<lambda>(slc, key, why).
     let m = slice_tally t slc; v = mget m key
     in if v > 0
        then [viol c (''tier_1.'' @ slc @ ''.'' @ key) v
          ([Lit (why @ causeSuffix m key @ slowRefusedSuffix m key)]
             @ FirstFailedSlowFire (slowFireDetail t key))]
        else []) gatedTier1Keys)"

definition slow_check :: "gate_options \<Rightarrow> validation_cell \<Rightarrow> tier1_summary \<Rightarrow> violation list" where
  "slow_check opts c t =
     (let v = mget (WSEcho t) WSEchoSlowKey; field = ''tier_1.ws_echo.'' @ WSEchoSlowKey
      in if v > 0 then
           (if \<not> ToleratesWSEchoSlow opts then [viol c field v
              [Lit (itoa v @ '' timed-out 64 KiB WebSocket echo fire(s) classified SLOW_CLASS, in a tier that does not tolerate them: only the race tier records these (VALIDATE_GATE_TOLERATE_WS_ECHO_SLOW) and every other tier's timing budget is real'')]]
            else if \<not> ranPropertyLoop c \<or> ''I-RACE'' \<in> set (PropertiesNotInstrumented c) then [viol c field v
              [Lit ''SLOW_CLASS ws_echo timeouts are tolerated only in a cell that shows a -race build (I-RACE declared by a property loop that ran); this cell does not'']]
            else if v > WSEchoSlowTolerance then [viol c field v
              [Lit (''more than '' @ itoa WSEchoSlowTolerance @ '' SLOW_CLASS 64 KiB WebSocket echo timeouts in one cell: the server is not just late now and then'')]]
            else [])
         else [])"

definition tier1_checks :: "gate_options \<Rightarrow> validation_cell \<Rightarrow> violation list" where
  "tier1_checks opts c = (case Tier1 c of
     None \<Rightarrow> [viol c ''tier_1'' 0 [Lit ''tier 1 never ran'']]
   | Some t \<Rightarrow> requests_checks c t @ relogin_check c t @ property_checks opts c t
       @ h2c_vacuous_check opts c t @ gated_checks c t @ slow_check opts c t)"

definition tier3_never_ran :: "validation_cell \<Rightarrow> bool" where
  "tier3_never_ran c = (case Tier3 c of None \<Rightarrow> True | Some t3 \<Rightarrow> SeedsAttempted t3 = 0)"

definition tier3_checks :: "gate_options \<Rightarrow> validation_cell \<Rightarrow> violation list" where
  "tier3_checks opts c =
     (if tier3_never_ran c
      then (if RequireTier3 opts
            then [viol c ''tier_3.seeds_attempted'' 0 [Lit ''tier 3 (seed replay) never ran'']] else [])
      else (case Tier3 c of None \<Rightarrow> [] | Some t3 \<Rightarrow>
        (if SeedsFailed t3 > 0 then [viol c ''tier_3.seeds_failed'' (SeedsFailed t3) [Lit ''replayed seed(s) failed'']] else [])
        @ (if SeedsErrored t3 > 0 then [viol c ''tier_3.seeds_errored'' (SeedsErrored t3) [Lit ''replayed seed(s) errored'']] else [])))"

text \<open>The two leak indicators, read from a cell's soak summary and from a host's.\<close>

definition leak_checks :: "validation_cell \<Rightarrow> soak_summary \<Rightarrow> violation list" where
  "leak_checks c s =
     (if GoroutineLeakDetected s then [viol c ''soak_summary.goroutine_leak_detected'' 1
        [Lit ''a goroutine leak was detected over the soak'']] else [])
     @ (if RestartedProcesses s > 0 then [viol c ''soak_summary.restarted_processes'' (RestartedProcesses s)
        [Lit ''a server process died and was restarted during the soak'']] else [])"

definition soak_checks :: "gate_options \<Rightarrow> validation_cell \<Rightarrow> violation list" where
  "soak_checks opts c = (case Soak c of
     None \<Rightarrow> (if RequireSoak opts then [viol c ''soak_summary.missing'' 0
               [Lit ''soak mode, but the cell carries no soak summary'']] else [])
   | Some s \<Rightarrow> leak_checks c s)"

definition instrumented_check :: "string \<Rightarrow> validation_cell \<Rightarrow> violation list" where
  "instrumented_check ident c =
     (if \<not> ranPropertyLoop c \<or> ident \<notin> set (PropertiesNotInstrumented c) then []
      else [viol c (''properties_not_instrumented.'' @ ident) 1
        [Lit ''this tier expects the predicate instrumented in every cell (VALIDATE_GATE_EXPECT_INSTRUMENTED) and the cell never declared it; the waiver on record does not apply here'']])"

definition adaptive_check :: "validation_cell \<Rightarrow> violation list" where
  "adaptive_check c = (case Tier1 c of None \<Rightarrow> [] | Some t \<Rightarrow>
     if Engine c \<noteq> ''adaptive'' \<or> \<not> ranPropertyLoop c \<or> AdaptiveSwitches t \<ge> 1 then []
     else [viol c ''tier_1.adaptive_switches'' 0
       [Lit ''this tier expects every adaptive cell to promote at least once (VALIDATE_GATE_EXPECT_ADAPTIVE_SWITCH) and the engine never left its start engine; the cell validated epoll, not the adaptive path. Offered load, as the property loop measured it: peak '',
        Fixed 1 (PeakConnsPerWorker t), Lit '' conns/worker, mean '', Fixed 0 (MeanBytesPerReq t),
        Lit '' bytes/req -- the controller's own two signals, so a peak below its conns/worker threshold is a sizing bug here and a bytes/req above its large-payload threshold is a deliberate suppression, not a defect'']])"


section \<open>Checks on the run\<close>

definition ZeroWitnessMeaning :: "string gomap" where
  "ZeroWitnessMeaning = [
    (''engine_transplant_adopt_slot_occupied'', ''an epoll->io_uring transplant found its target slot already occupied, bumped an error count, returned, and never closed the descriptor: the connection left one engine and arrived at neither (celeris#624)''),
    (''engine_close_missing_conn_state'', ''a close decremented the live-connection gauge with no connection state attached, so OnDisconnect was skipped: the engine and the refapp now disagree about how many connections are open (celeris#624)''),
    (''engine_recv_double_armed'', ''a second recv was armed while one was already in flight; both target the same buffer, so the kernel's second write clobbers the first's unread bytes as mid-stream corruption (celeris#484)''),
    (''engine_recv_cqe_unaccounted'', ''a recv completion arrived that no armed recv accounts for (celeris#484)''),
    (''engine_recv_sq_full'', ''prepareRecv returned early because the submission queue was full, leaving needsRecv set (celeris#607's standing guard: this read zero across the entire investigation that produced it)''),
    (''engine_recv_stall_episodes'', ''a dirty connection with needsRecv set was skipped because a send was outstanding (celeris#607's standing guard)'')]"

definition engineRequestCoverageFactor :: int where "engineRequestCoverageFactor = 10"

definition witness_checks :: "validation_cell \<Rightarrow> violation list" where
  "witness_checks c = (case Tier1 c of None \<Rightarrow> [] | Some t \<Rightarrow>
     if \<not> ranPropertyLoop c then []
     else concat (map (\<lambda>k. let n = mget (EngineZeroWitness t) k
            in if n > 0 then [viol c (''tier_1.'' @ k) n
                 [Lit (case map_of ZeroWitnessMeaning k of None \<Rightarrow> '''' | Some d \<Rightarrow> d)]] else [])
          (sorted_keys (EngineZeroWitness t))))"

definition engine_check :: "validation_cell \<Rightarrow> violation list" where
  "engine_check c = (case Tier1 c of None \<Rightarrow> [] | Some t \<Rightarrow>
     if \<not> ranPropertyLoop c \<or> EngineRequestsTotal t \<le> 0 \<or> RequestsSent t \<le> 0 then []
     else if wrap64 (EngineRequestsTotal t * engineRequestCoverageFactor) < RequestsSent t
     then [viol c ''tier_1.engine_requests_total'' (EngineRequestsTotal t)
       [Lit (''the engine counted '' @ itoa (EngineRequestsTotal t) @ '' requests while the walker sent ''
          @ itoa (RequestsSent t) @ '' on the other side of the socket, a factor of ''),
        Ratio (RequestsSent t) (EngineRequestsTotal t),
        Lit ''. An engine that stops counting its own requests takes every request rate derived from it (the delta of engine_requests_total between series rows) and the adaptive controller's bytes-per-request with it (celeris#626)'']]
     else [])"

definition run_viol :: "string \<Rightarrow> int \<Rightarrow> why \<Rightarrow> violation" where
  "run_viol field v why = \<lparr>v_Refapp = ''*'', v_Engine = ''*'', v_Arch = ''*'',
     v_Field = field, v_Value = v, v_Why = why\<rparr>"

definition missing_cells :: "gate_options \<Rightarrow> validation_cell list \<Rightarrow> violation list" where
  "missing_cells opts cells =
     (if ExpectedCells opts > 0 \<and> int (length cells) < ExpectedCells opts
      then [run_viol ''cells'' (int (length cells))
        [Lit (''expected '' @ itoa (ExpectedCells opts) @ '' cells, got '' @ itoa (int (length cells))
           @ '': a cell crashed, was skipped, or never reported'')]]
      else [])"

text \<open>\<open>strings.SplitN(s, sep, n)\<close> for a one-byte separator and a positive \<open>n\<close>.\<close>

fun splitN :: "nat \<Rightarrow> char \<Rightarrow> string \<Rightarrow> string list" where
  "splitN 0 sep s = []"
| "splitN (Suc 0) sep s = [s]"
| "splitN (Suc (Suc n)) sep s =
     (if sep \<in> set s
      then takeWhile (\<lambda>c. c \<noteq> sep) s # splitN (Suc n) sep (tl (dropWhile (\<lambda>c. c \<noteq> sep) s))
      else [s])"

definition cell_key :: "validation_cell \<Rightarrow> string" where
  "cell_key c = Refapp c @ ''/'' @ Engine c @ ''/'' @ Arch c"

definition duplicate_viol :: "int gomap \<Rightarrow> string \<Rightarrow> violation" where
  "duplicate_viol seen k =
     (let parts = splitN 3 (CHR ''/'') k
      in \<lparr>v_Refapp = parts ! 0, v_Engine = parts ! 1, v_Arch = parts ! 2,
          v_Field = ''cells.duplicate'', v_Value = mget seen k,
          v_Why = [Lit ''the same cell is reported more than once: the cell count is not a coverage claim'']\<rparr>)"

definition duplicate_cells :: "validation_cell list \<Rightarrow> violation list" where
  "duplicate_cells cells =
     (let seen = tally (map cell_key cells);
          dupes = sort (map fst (filter (\<lambda>(k, n). n > 1) seen))
      in map (duplicate_viol seen) dupes)"

definition uninstrumented_checks :: "validation_cell list \<Rightarrow> violation list" where
  "uninstrumented_checks cells =
     map (\<lambda>ident. run_viol (''properties_not_instrumented.'' @ ident) 0
       [Lit ''the predicate was requested by tier but not instrumented in every cell that ran a property loop: it verified nothing anywhere. Wire it up, or add it to report.WaivedUninstrumented with a reason''])
     (filter (\<lambda>ident. map_of WaivedUninstrumented ident = None) (UninstrumentedEverywhere cells))"

definition coverage_checks :: "validation_cell list \<Rightarrow> violation list" where
  "coverage_checks cells =
     map (\<lambda>g. run_viol (''properties.coverage.'' @ g_ID g) (g_Cells g)
       [Lit (g_ID g @ '' reached no verdict in ANY cell ('' @ itoa (g_Cells g) @ '' cell(s) never judged it, ''
          @ itoa (wrap64 (g_Cells g - g_ByDesign g)) @ '' of them had the time): the predicate was requested by the tier and stayed silent, which on an absolute gate is not the same as zero signal'')])
     (filter (\<lambda>g. \<not> Structural g) (Coverage cells))"

definition host_soak_checks :: "soak_summary option gomap \<Rightarrow> violation list" where
  "host_soak_checks soaks =
     concat (map (\<lambda>h. case map_of soaks h of
         Some (Some s) \<Rightarrow> leak_checks (zero_cell\<lparr>Refapp := ''soak'', Engine := ''*'', Arch := h\<rparr>) s
       | _ \<Rightarrow> []) (sorted_keys soaks))"


section \<open>The gate\<close>

definition violation_key :: "violation \<Rightarrow> string \<times> string \<times> string \<times> string" where
  "violation_key v = (v_Refapp v, v_Engine v, v_Arch v, v_Field v)"

definition gate_findings ::
  "validation_cell list \<Rightarrow> soak_summary option gomap \<Rightarrow> gate_options \<Rightarrow> violation list" where
  "gate_findings cells soaks opts =
     missing_cells opts cells
     @ duplicate_cells cells
     @ concat (map (\<lambda>c. tier1_checks opts c @ tier3_checks opts c) cells)
     @ concat (map (soak_checks opts) cells)
     @ concat (map (\<lambda>ident. concat (map (instrumented_check ident) cells)) (ExpectInstrumented opts))
     @ (if ExpectAdaptiveSwitch opts then concat (map adaptive_check cells) else [])
     @ concat (map witness_checks cells)
     @ concat (map engine_check cells)
     @ (if RequireInstrumented opts then uninstrumented_checks cells else [])
     @ (if RequireCoverage opts then coverage_checks cells else [])
     @ host_soak_checks soaks"

text \<open>The final \<open>sort.Slice\<close> is a parameter: two violations of one cell can have the same field.\<close>

definition Gate ::
  "(violation list \<Rightarrow> violation list) \<Rightarrow> validation_cell list \<Rightarrow> soak_summary option gomap
   \<Rightarrow> gate_options \<Rightarrow> violation list" where
  "Gate sortViolations cells soaks opts = sortViolations (gate_findings cells soaks opts)"

interpretation violation_sort: slice_sort violation_key "sort_key violation_key"
  by unfold_locales simp_all


section \<open>What a clean run is\<close>

text \<open>
  The reading of the gate that does not follow the code: every counter that is a defect is zero,
  every tier that had to run ran, every cell was reported once, and no predicate stayed silent.
  It is stated with quantifiers over cells and counters and with unbounded arithmetic.
\<close>

definition slow_allowance :: "gate_options \<Rightarrow> validation_cell \<Rightarrow> int" where
  "slow_allowance opts c =
     (if ToleratesWSEchoSlow opts \<and> ranPropertyLoop c \<and> ''I-RACE'' \<notin> set (PropertiesNotInstrumented c)
      then WSEchoSlowTolerance else 0)"

definition clean_tier1 :: "gate_options \<Rightarrow> validation_cell \<Rightarrow> tier1_summary \<Rightarrow> bool" where
  "clean_tier1 opts c t \<longleftrightarrow>
     RequestsSent t \<noteq> 0
     \<and> Requests5xx t \<le> 0 \<and> RequestsError t \<le> 0 \<and> InvariantHits t \<le> 0 \<and> PropertyViolations t \<le> 0
     \<and> (0 < WalkerLogins t \<and> 0 < WalkerRelogins t \<longrightarrow>
          WalkerRelogins t \<le> WalkerLogouts t + 10 * WalkerLogins t)
     \<and> (RequireProperties opts \<longrightarrow> PropertyEvaluations t \<noteq> 0 \<or> PropertyLoopSkipped t \<noteq> '''')
     \<and> (mustUpgrade opts (Refapp c) \<and> 0 < mget (H2CChurn t) ''h2c_sent'' \<longrightarrow>
          mget (H2CChurn t) ''h2c_upgraded'' \<noteq> 0)
     \<and> (\<forall>(slc, key, why) \<in> set gatedTier1Keys. mget (slice_tally t slc) key \<le> 0)
     \<and> mget (WSEcho t) WSEchoSlowKey \<le> slow_allowance opts c"

definition clean_tier3 :: "gate_options \<Rightarrow> validation_cell \<Rightarrow> bool" where
  "clean_tier3 opts c \<longleftrightarrow> (case Tier3 c of
     None \<Rightarrow> \<not> RequireTier3 opts
   | Some t3 \<Rightarrow> if SeedsAttempted t3 = 0 then \<not> RequireTier3 opts
               else SeedsFailed t3 \<le> 0 \<and> SeedsErrored t3 \<le> 0)"

definition no_leak :: "soak_summary \<Rightarrow> bool" where
  "no_leak s \<longleftrightarrow> \<not> GoroutineLeakDetected s \<and> RestartedProcesses s \<le> 0"

definition clean_engine :: "gate_options \<Rightarrow> validation_cell \<Rightarrow> tier1_summary \<Rightarrow> bool" where
  "clean_engine opts c t \<longleftrightarrow> (ranPropertyLoop c \<longrightarrow>
     (ExpectAdaptiveSwitch opts \<and> Engine c = ''adaptive'' \<longrightarrow> 1 \<le> AdaptiveSwitches t)
     \<and> (\<forall>k. mget (EngineZeroWitness t) k \<le> 0)
     \<and> (0 < EngineRequestsTotal t \<longrightarrow> RequestsSent t \<le> 10 * EngineRequestsTotal t)
     \<and> (\<forall>ident\<in>set (ExpectInstrumented opts). ident \<notin> set (PropertiesNotInstrumented c)))"

definition clean_cell :: "gate_options \<Rightarrow> validation_cell \<Rightarrow> bool" where
  "clean_cell opts c \<longleftrightarrow>
     (\<exists>t. Tier1 c = Some t \<and> clean_tier1 opts c t \<and> clean_engine opts c t)
     \<and> clean_tier3 opts c
     \<and> (case Soak c of None \<Rightarrow> \<not> RequireSoak opts | Some s \<Rightarrow> no_leak s)"

text \<open>A predicate the property loops never declared, and one they ran and never judged although
  some cell had the time.\<close>

definition uninstrumented_in_all :: "validation_cell list \<Rightarrow> string \<Rightarrow> bool" where
  "uninstrumented_in_all cells ident \<longleftrightarrow> (\<exists>c\<in>set cells. ranPropertyLoop c)
     \<and> (\<forall>c\<in>set cells. ranPropertyLoop c \<longrightarrow> ident \<in> set (PropertiesNotInstrumented c))"

definition never_judged :: "validation_cell list \<Rightarrow> string \<Rightarrow> bool" where
  "never_judged cells ident \<longleftrightarrow>
     (\<exists>c\<in>set cells. ranPropertyLoop c \<and> ident \<in> set (PropertiesNotJudged c))
     \<and> (\<forall>c\<in>set cells. ranPropertyLoop c \<longrightarrow>
          ident \<in> set (PropertiesNotJudged c) \<or> ident \<in> set (PropertiesNotInstrumented c))"

definition had_time :: "validation_cell list \<Rightarrow> string \<Rightarrow> bool" where
  "had_time cells ident \<longleftrightarrow> (\<exists>c\<in>set cells. ranPropertyLoop c
     \<and> ident \<in> set (PropertiesNotJudged c) \<and> ident \<notin> set (PropertiesNotJudgedByDesign c))"

definition clean_run ::
  "validation_cell list \<Rightarrow> soak_summary option gomap \<Rightarrow> gate_options \<Rightarrow> bool" where
  "clean_run cells soaks opts \<longleftrightarrow>
     (0 < ExpectedCells opts \<longrightarrow> ExpectedCells opts \<le> int (length cells))
     \<and> distinct (map (\<lambda>c. (Refapp c, Engine c, Arch c)) cells)
     \<and> (\<forall>c\<in>set cells. clean_cell opts c)
     \<and> (RequireInstrumented opts \<longrightarrow>
          (\<forall>ident. uninstrumented_in_all cells ident \<longrightarrow> ident \<in> fst ` set WaivedUninstrumented))
     \<and> (RequireCoverage opts \<longrightarrow> (\<forall>ident. \<not> (never_judged cells ident \<and> had_time cells ident)))
     \<and> (\<forall>h s. map_of soaks h = Some (Some s) \<longrightarrow> no_leak s)"

text \<open>What the harness guarantees of the cells it writes: names without the separator, property
  lists without repetitions, counters whose sums stay in 64 bits.\<close>

definition tier1_wf :: "tier1_summary \<Rightarrow> bool" where
  "tier1_wf t \<longleftrightarrow> 0 \<le> WalkerLogouts t \<and> in_int64 (WalkerLogouts t + 10 * WalkerLogins t)
     \<and> in_int64 (10 * EngineRequestsTotal t)"

definition cell_wf :: "validation_cell \<Rightarrow> bool" where
  "cell_wf c \<longleftrightarrow> CHR ''/'' \<notin> set (Refapp c) \<and> CHR ''/'' \<notin> set (Engine c)
     \<and> distinct (PropertiesNotInstrumented c) \<and> distinct (PropertiesNotJudged c)
     \<and> distinct (PropertiesNotJudgedByDesign c) \<and> counters_ok c
     \<and> (case Tier1 c of None \<Rightarrow> True | Some t \<Rightarrow> tier1_wf t)"


section \<open>The cell checks are silent exactly on clean cells\<close>

named_theorems gate_nil \<open>when a group of checks appends nothing\<close>

lemma relogin_budget_wf:
  "tier1_wf t \<Longrightarrow> 0 < WalkerLogins t \<Longrightarrow> relogin_budget t = WalkerLogouts t + 10 * WalkerLogins t"
proof -
  assume wf: "tier1_wf t" and pos: "0 < WalkerLogins t"
  have "in_int64 (WalkerLogins t * 10)"
    using wf pos by (auto simp: tier1_wf_def in_int64_def)
  then show ?thesis using wf by (simp add: relogin_budget_def wrap64_id tier1_wf_def mult.commute)
qed

lemma relogin_nil [gate_nil]:
  assumes "tier1_wf t"
  shows "relogin_check c t = [] \<longleftrightarrow> (0 < WalkerLogins t \<and> 0 < WalkerRelogins t \<longrightarrow>
    WalkerRelogins t \<le> WalkerLogouts t + 10 * WalkerLogins t)"
  unfolding relogin_check_def using relogin_budget_wf [OF assms] by (auto simp: Let_def not_less)

lemma requests_nil [gate_nil]:
  "requests_checks c t = [] \<longleftrightarrow>
     RequestsSent t \<noteq> 0 \<and> Requests5xx t \<le> 0 \<and> RequestsError t \<le> 0 \<and> InvariantHits t \<le> 0"
  by (simp add: requests_checks_def not_less)

lemma property_nil [gate_nil]:
  "property_checks opts c t = [] \<longleftrightarrow> PropertyViolations t \<le> 0
     \<and> (RequireProperties opts \<longrightarrow> PropertyEvaluations t \<noteq> 0 \<or> PropertyLoopSkipped t \<noteq> '''')"
  by (auto simp: property_checks_def not_less)

lemma h2c_vacuous_nil [gate_nil]:
  "h2c_vacuous_check opts c t = [] \<longleftrightarrow>
     (mustUpgrade opts (Refapp c) \<and> 0 < mget (H2CChurn t) ''h2c_sent'' \<longrightarrow>
      mget (H2CChurn t) ''h2c_upgraded'' \<noteq> 0)"
  by (simp add: h2c_vacuous_check_def Let_def)

lemma gated_nil [gate_nil]:
  "gated_checks c t = [] \<longleftrightarrow> (\<forall>(slc, key, why) \<in> set gatedTier1Keys. mget (slice_tally t slc) key \<le> 0)"
proof -
  have "gated_checks c t = [] \<longleftrightarrow> (\<forall>r\<in>set gatedTier1Keys. case r of (slc, key, why) \<Rightarrow>
      \<not> 0 < mget (slice_tally t slc) key)"
    unfolding gated_checks_def concat_eq_Nil_conv by (auto simp: Let_def split: if_splits)
  then show ?thesis by (simp add: not_less)
qed

lemma slow_nil [gate_nil]:
  "slow_check opts c t = [] \<longleftrightarrow> mget (WSEcho t) WSEchoSlowKey \<le> slow_allowance opts c"
  by (auto simp: slow_check_def slow_allowance_def Let_def WSEchoSlowTolerance_def)

lemma tier3_nil [gate_nil]: "tier3_checks opts c = [] \<longleftrightarrow> clean_tier3 opts c"
  by (auto simp: tier3_checks_def clean_tier3_def tier3_never_ran_def not_less split: option.splits)

lemma leak_nil [gate_nil]: "leak_checks c s = [] \<longleftrightarrow> no_leak s"
  by (simp add: leak_checks_def no_leak_def not_less)

lemma soak_nil [gate_nil]:
  "soak_checks opts c = [] \<longleftrightarrow> (case Soak c of None \<Rightarrow> \<not> RequireSoak opts | Some s \<Rightarrow> no_leak s)"
  by (simp add: soak_checks_def leak_nil split: option.splits)

lemma mget_pos_key: "0 < mget m k \<Longrightarrow> k \<in> fst ` set m"
  by (auto simp: mget_def split: option.splits dest!: map_of_SomeD) force

lemma witness_nil [gate_nil]:
  "witness_checks c = [] \<longleftrightarrow> (\<forall>t. Tier1 c = Some t \<longrightarrow> ranPropertyLoop c \<longrightarrow>
     (\<forall>k. mget (EngineZeroWitness t) k \<le> 0))"
proof (cases "Tier1 c")
  case (Some t)
  have "(\<forall>k\<in>fst ` set (EngineZeroWitness t). \<not> 0 < mget (EngineZeroWitness t) k) \<longleftrightarrow>
      (\<forall>k. mget (EngineZeroWitness t) k \<le> 0)"
    using mget_pos_key [of "EngineZeroWitness t"] by (meson not_less)
  then show ?thesis using Some by (auto simp: witness_checks_def Let_def split: if_splits)
qed (simp add: witness_checks_def)

lemma engine_nil [gate_nil]:
  assumes "cell_wf c"
  shows "engine_check c = [] \<longleftrightarrow> (\<forall>t. Tier1 c = Some t \<longrightarrow> ranPropertyLoop c \<longrightarrow>
     0 < EngineRequestsTotal t \<longrightarrow> RequestsSent t \<le> 10 * EngineRequestsTotal t)"
proof (cases "Tier1 c")
  case (Some t)
  then have "in_int64 (EngineRequestsTotal t * 10)"
    using assms by (simp add: cell_wf_def tier1_wf_def mult.commute)
  then show ?thesis using Some
    by (auto simp: engine_check_def engineRequestCoverageFactor_def wrap64_id not_less)
qed (simp add: engine_check_def)

lemma adaptive_nil [gate_nil]:
  "adaptive_check c = [] \<longleftrightarrow> (\<forall>t. Tier1 c = Some t \<longrightarrow> ranPropertyLoop c \<longrightarrow>
     Engine c = ''adaptive'' \<longrightarrow> 1 \<le> AdaptiveSwitches t)"
  by (auto simp: adaptive_check_def split: option.splits)

lemma instrumented_nil [gate_nil]:
  "instrumented_check ident c = [] \<longleftrightarrow> (ranPropertyLoop c \<longrightarrow> ident \<notin> set (PropertiesNotInstrumented c))"
  by (simp add: instrumented_check_def)

lemma tier1_nil:
  assumes "cell_wf c"
  shows "tier1_checks opts c = [] \<longleftrightarrow> (\<exists>t. Tier1 c = Some t \<and> clean_tier1 opts c t)"
proof (cases "Tier1 c")
  case (Some t)
  with assms have "tier1_wf t" by (simp add: cell_wf_def)
  note rel = relogin_nil [OF this]
  show ?thesis
    unfolding tier1_checks_def clean_tier1_def Some option.case append_is_Nil_conv
      rel requests_nil property_nil h2c_vacuous_nil gated_nil slow_nil
    by (simp only: option.inject) blast
qed (simp add: tier1_checks_def)

text \<open>All checks made on one cell, whatever group of the code makes them.\<close>

lemma cell_nil:
  assumes "cell_wf c"
  shows "clean_cell opts c \<longleftrightarrow>
    tier1_checks opts c = [] \<and> tier3_checks opts c = [] \<and> soak_checks opts c = []
    \<and> (\<forall>ident\<in>set (ExpectInstrumented opts). instrumented_check ident c = [])
    \<and> (ExpectAdaptiveSwitch opts \<longrightarrow> adaptive_check c = [])
    \<and> witness_checks c = [] \<and> engine_check c = []"
  unfolding tier1_nil [OF assms] engine_nil [OF assms] tier3_nil soak_nil instrumented_nil
    adaptive_nil witness_nil clean_cell_def clean_engine_def
  by (cases "Tier1 c") (simp, simp, blast)


section \<open>Duplicates, instrumentation and coverage\<close>

lemma splitN_cell_key:
  assumes "CHR ''/'' \<notin> set (Refapp c)" and "CHR ''/'' \<notin> set (Engine c)"
  shows "splitN 3 (CHR ''/'') (cell_key c) = [Refapp c, Engine c, Arch c]"
proof -
  have cut: "takeWhile (\<lambda>x. x \<noteq> s) (u @ s # v) = u \<and> dropWhile (\<lambda>x. x \<noteq> s) (u @ s # v) = s # v"
    if "s \<notin> set u" for s :: char and u v
    using that by (induction u) auto
  show ?thesis
    using cut [OF assms(1)] cut [OF assms(2)]
    by (simp add: cell_key_def numeral_3_eq_3)
qed

lemma splitN_length: "length (splitN 3 (CHR ''/'') (cell_key c)) = 3"
proof -
  have sep: "s \<in> set (tl (dropWhile (\<lambda>x. x \<noteq> s) (u @ s # v @ s # w)))" for s :: char and u v w
    by (induction u) auto
  show ?thesis
    using sep [of "CHR ''/''" "Refapp c" "Engine c" "Arch c"]
    by (simp add: cell_key_def numeral_3_eq_3)
qed

lemma cell_key_eq:
  assumes "cell_wf c" and "cell_wf d"
  shows "cell_key c = cell_key d \<longleftrightarrow> Refapp c = Refapp d \<and> Engine c = Engine d \<and> Arch c = Arch d"
proof
  have split: "splitN 3 (CHR ''/'') (cell_key x) = [Refapp x, Engine x, Arch x]" if "cell_wf x" for x
    using that splitN_cell_key [of x] unfolding cell_wf_def by blast
  assume "cell_key c = cell_key d"
  then have "[Refapp c, Engine c, Arch c] = [Refapp d, Engine d, Arch d]"
    using split [OF assms(1)] split [OF assms(2)] by (simp only:)
  then show "Refapp c = Refapp d \<and> Engine c = Engine d \<and> Arch c = Arch d"
    by (simp only: list.inject)
qed (simp add: cell_key_def)

text \<open>How many entries report the cell \<open>(r, e, a)\<close>.\<close>

definition entries :: "validation_cell list \<Rightarrow> string \<Rightarrow> string \<Rightarrow> string \<Rightarrow> nat" where
  "entries cells r e a = length (filter (\<lambda>c. Refapp c = r \<and> Engine c = e \<and> Arch c = a) cells)"

lemma count_cell_key:
  assumes "\<forall>c\<in>set cells. cell_wf c" and "cell_wf d"
  shows "count_list (map cell_key cells) (cell_key d) = entries cells (Refapp d) (Engine d) (Arch d)"
  using assms by (induction cells) (auto simp: entries_def cell_key_eq)

lemma duplicate_viol_cell:
  assumes "\<forall>c\<in>set cells. cell_wf c" and "cell_wf c"
  shows "duplicate_viol (tally (map cell_key cells)) (cell_key c) =
    \<lparr>v_Refapp = Refapp c, v_Engine = Engine c, v_Arch = Arch c, v_Field = ''cells.duplicate'',
     v_Value = int (entries cells (Refapp c) (Engine c) (Arch c)),
     v_Why = [Lit ''the same cell is reported more than once: the cell count is not a coverage claim'']\<rparr>"
proof -
  have "splitN 3 (CHR ''/'') (cell_key c) = [Refapp c, Engine c, Arch c]"
    using assms(2) splitN_cell_key [of c] unfolding cell_wf_def by blast
  then show ?thesis
    unfolding duplicate_viol_def Let_def mget_tally count_cell_key [OF assms] by simp
qed

lemma dupes_set:
  "set (sort (map fst (filter (\<lambda>(k, n). n > 1) (tally ks)))) = {k \<in> set ks. 1 < count_list ks k}"
  by (force simp: tally_mem image_iff)

lemma duplicate_mem:
  assumes "\<forall>c\<in>set cells. cell_wf c"
  shows "v \<in> set (duplicate_cells cells) \<longleftrightarrow>
    (\<exists>c\<in>set cells. 1 < entries cells (Refapp c) (Engine c) (Arch c)
       \<and> v = duplicate_viol (tally (map cell_key cells)) (cell_key c))"
proof -
  have "v \<in> set (duplicate_cells cells) \<longleftrightarrow>
    (\<exists>c\<in>set cells. 1 < count_list (map cell_key cells) (cell_key c)
       \<and> v = duplicate_viol (tally (map cell_key cells)) (cell_key c))"
    unfolding duplicate_cells_def Let_def set_map dupes_set by blast
  then show ?thesis using count_cell_key [OF assms] assms by metis
qed

lemma entries_distinct:
  "distinct (map (\<lambda>c. (Refapp c, Engine c, Arch c)) cells) \<longleftrightarrow>
     (\<forall>c\<in>set cells. \<not> 1 < entries cells (Refapp c) (Engine c) (Arch c))"
proof -
  let ?f = "\<lambda>c. (Refapp c, Engine c, Arch c)"
  have count: "entries cells r e a = count_list (map ?f cells) (r, e, a)" for r e a
    unfolding entries_def by (induction cells) auto
  show ?thesis unfolding distinct_iff_count_mem [of "map ?f cells"] count
    by (simp only: set_map ball_simps not_less)
qed

lemma duplicate_nil [gate_nil]:
  assumes "\<forall>c\<in>set cells. cell_wf c"
  shows "duplicate_cells cells = [] \<longleftrightarrow> distinct (map (\<lambda>c. (Refapp c, Engine c, Arch c)) cells)"
proof -
  have "duplicate_cells cells = [] \<longleftrightarrow> (\<forall>v. v \<notin> set (duplicate_cells cells))" by auto
  then show ?thesis unfolding duplicate_mem [OF assms] entries_distinct by blast
qed

lemma everyCellLists_mem:
  assumes "\<forall>c\<in>set cells. distinct (lst c)"
  shows "ident \<in> set (everyCellLists cells lst) \<longleftrightarrow> (\<exists>c\<in>set cells. ranPropertyLoop c)
     \<and> (\<forall>c\<in>set cells. ranPropertyLoop c \<longrightarrow> ident \<in> set (lst c))"
proof (cases "filter ranPropertyLoop cells = []")
  case True
  then show ?thesis by (simp add: everyCellLists_def filter_empty_conv)
next
  case False
  let ?ran = "filter ranPropertyLoop cells"
  let ?ks = "concat (map lst ?ran)"
  have cnt: "count_list ?ks ident = length (filter (\<lambda>c. ident \<in> set (lst c)) ?ran)"
    by (rule count_list_concat_map) (use assms in simp)
  have "ident \<in> set (everyCellLists cells lst) \<longleftrightarrow> ident \<in> set ?ks \<and> count_list ?ks ident = length ?ran"
    using False by (simp add: everyCellLists_def Let_def image_iff tally_mem split_beta)
  also have "\<dots> \<longleftrightarrow> (\<forall>c\<in>set ?ran. ident \<in> set (lst c))"
  proof
    assume "ident \<in> set ?ks \<and> count_list ?ks ident = length ?ran"
    then show "\<forall>c\<in>set ?ran. ident \<in> set (lst c)"
      unfolding cnt using length_filter_all [of "\<lambda>c. ident \<in> set (lst c)" ?ran] by blast
  next
    assume all: "\<forall>c\<in>set ?ran. ident \<in> set (lst c)"
    moreover have "\<exists>c. c \<in> set ?ran" using False by (metis list.set_sel(1))
    ultimately show "ident \<in> set ?ks \<and> count_list ?ks ident = length ?ran"
      unfolding cnt using length_filter_all [of "\<lambda>c. ident \<in> set (lst c)" ?ran] by auto
  qed
  finally show ?thesis using False by (auto simp: filter_empty_conv)
qed

text \<open>The cells with a running property loop that list the predicate as not judged.\<close>

definition silent_cells :: "validation_cell list \<Rightarrow> string \<Rightarrow> nat" where
  "silent_cells cells ident =
     length (filter (\<lambda>c. ranPropertyLoop c \<and> ident \<in> set (PropertiesNotJudged c)) cells)"

definition short_cells :: "validation_cell list \<Rightarrow> string \<Rightarrow> nat" where
  "short_cells cells ident = length (filter (\<lambda>c. ranPropertyLoop c \<and> ident \<in> set (PropertiesNotJudged c)
     \<and> ident \<in> set (PropertiesNotJudgedByDesign c)) cells)"

lemma Coverage_mem:
  assumes "\<forall>c\<in>set cells. cell_wf c"
  shows "g \<in> set (Coverage cells) \<longleftrightarrow> never_judged cells (g_ID g)
     \<and> g = \<lparr>g_ID = g_ID g, g_Cells = int (silent_cells cells (g_ID g)),
            g_ByDesign = int (short_cells cells (g_ID g))\<rparr>"
proof -
  have ran: "filter propertyLoopRan cells = filter ranPropertyLoop cells"
    by (rule filter_cong) (use assms loop_readings_agree in \<open>auto simp: cell_wf_def\<close>)
  let ?ran = "filter ranPropertyLoop cells"
  let ?nj = "concat (map PropertiesNotJudged ?ran)"
  let ?bd = "concat (map (\<lambda>c. filter (\<lambda>i. i \<in> set (PropertiesNotJudged c)) (PropertiesNotJudgedByDesign c)) ?ran)"
  have nj: "count_list ?nj i = silent_cells cells i" for i
    unfolding silent_cells_def
    by (subst count_list_concat_map) (use assms in \<open>auto simp: cell_wf_def filter_filter\<close>)
  have bd: "count_list ?bd i = short_cells cells i" for i
    unfolding short_cells_def
    by (subst count_list_concat_map)
      (use assms in \<open>auto simp: cell_wf_def filter_filter conj_commute conj_left_commute\<close>)
  show ?thesis
    unfolding Coverage_def Let_def ran never_judged_def set_sort
    by (auto simp: tally_mem mget_tally nj bd image_iff)
qed

lemma structural_iff:
  assumes "never_judged cells i"
  shows "0 < int (silent_cells cells i) \<and> int (short_cells cells i) = int (silent_cells cells i)
    \<longleftrightarrow> \<not> had_time cells i"
proof -
  have "0 < silent_cells cells i"
    using assms unfolding never_judged_def silent_cells_def length_filter_pos by blast
  moreover have "short_cells cells i = silent_cells cells i \<longleftrightarrow>
      (\<forall>c\<in>set cells. ranPropertyLoop c \<and> i \<in> set (PropertiesNotJudged c) \<longrightarrow>
        ranPropertyLoop c \<and> i \<in> set (PropertiesNotJudged c) \<and> i \<in> set (PropertiesNotJudgedByDesign c))"
    unfolding short_cells_def silent_cells_def by (rule length_filter_subset_eq) blast
  ultimately show ?thesis unfolding had_time_def by auto
qed

lemma coverage_nil [gate_nil]:
  assumes "\<forall>c\<in>set cells. cell_wf c"
  shows "coverage_checks cells = [] \<longleftrightarrow> (\<forall>ident. \<not> (never_judged cells ident \<and> had_time cells ident))"
proof -
  note structural = structural_iff [of cells]
  have "coverage_checks cells = [] \<longleftrightarrow> (\<forall>g\<in>set (Coverage cells). Structural g)"
    by (simp add: coverage_checks_def filter_empty_conv)
  also have "\<dots> \<longleftrightarrow> (\<forall>i. never_judged cells i \<longrightarrow>
      Structural \<lparr>g_ID = i, g_Cells = int (silent_cells cells i), g_ByDesign = int (short_cells cells i)\<rparr>)"
    unfolding Ball_def Coverage_mem [OF assms] by (metis coverage_gap.select_convs(1))
  finally show ?thesis using structural by (simp add: Structural_def)
qed

lemma uninstrumented_nil [gate_nil]:
  assumes "\<forall>c\<in>set cells. cell_wf c"
  shows "uninstrumented_checks cells = [] \<longleftrightarrow>
    (\<forall>ident. uninstrumented_in_all cells ident \<longrightarrow> ident \<in> fst ` set WaivedUninstrumented)"
proof -
  have "\<forall>c\<in>set cells. distinct (PropertiesNotInstrumented c)"
    using assms unfolding cell_wf_def by blast
  note mem = everyCellLists_mem [OF this]
  have "uninstrumented_checks cells = [] \<longleftrightarrow>
      (\<forall>ident\<in>set (UninstrumentedEverywhere cells). map_of WaivedUninstrumented ident \<noteq> None)"
    by (simp add: uninstrumented_checks_def filter_empty_conv)
  then show ?thesis
    unfolding UninstrumentedEverywhere_def uninstrumented_in_all_def Ball_def mem map_of_eq_None_iff
    by blast
qed

lemma host_soak_nil [gate_nil]:
  "host_soak_checks soaks = [] \<longleftrightarrow> (\<forall>h s. map_of soaks h = Some (Some s) \<longrightarrow> no_leak s)"
proof -
  have key: "map_of soaks h = Some x \<Longrightarrow> h \<in> fst ` set soaks" for h x
    by (metis map_of_eq_None_iff option.distinct(1))
  have "host_soak_checks soaks = [] \<longleftrightarrow> (\<forall>h\<in>fst ` set soaks. \<forall>s. map_of soaks h = Some (Some s) \<longrightarrow> no_leak s)"
    unfolding host_soak_checks_def concat_eq_Nil_conv set_map set_sorted_keys ball_simps
    by (auto simp: leak_nil split: option.splits)
  then show ?thesis using key by blast
qed

lemma missing_nil [gate_nil]:
  "missing_cells opts cells = [] \<longleftrightarrow> (0 < ExpectedCells opts \<longrightarrow> ExpectedCells opts \<le> int (length cells))"
  by (auto simp: missing_cells_def not_less)

lemma Gate_set:
  "slice_sort violation_key srt \<Longrightarrow> set (Gate srt cells soaks opts) = set (gate_findings cells soaks opts)"
  unfolding Gate_def by (rule slice_sort.srt_set)

lemma concat_map_nil: "concat (map f xs) = [] \<longleftrightarrow> (\<forall>x\<in>set xs. f x = [])"
  by auto

lemma if_list_nil: "(if P then xs else []) = [] \<longleftrightarrow> (P \<longrightarrow> xs = [])"
  by simp

lemma findings_nil:
  assumes "\<forall>c\<in>set cells. cell_wf c"
  shows "gate_findings cells soaks opts = [] \<longleftrightarrow> clean_run cells soaks opts"
proof -
  have cells: "(\<forall>c\<in>set cells. clean_cell opts c) \<longleftrightarrow> (\<forall>c\<in>set cells.
    tier1_checks opts c = [] \<and> tier3_checks opts c = [] \<and> soak_checks opts c = []
    \<and> (\<forall>ident\<in>set (ExpectInstrumented opts). instrumented_check ident c = [])
    \<and> (ExpectAdaptiveSwitch opts \<longrightarrow> adaptive_check c = [])
    \<and> witness_checks c = [] \<and> engine_check c = [])"
    using assms cell_nil by blast
  show ?thesis
    unfolding gate_findings_def clean_run_def append_is_Nil_conv concat_map_nil if_list_nil
      missing_nil duplicate_nil [OF assms] uninstrumented_nil [OF assms] coverage_nil [OF assms]
      host_soak_nil cells
    by blast
qed

lemma Gate_nil:
  "slice_sort violation_key srt \<Longrightarrow> Gate srt cells soaks opts = [] \<longleftrightarrow> gate_findings cells soaks opts = []"
  unfolding Gate_def by (rule slice_sort.srt_nil)

text \<open>C1: the absolute gate returns no violation exactly when the run is clean in the independent
  reading: no cell is missing or reported twice, in every cell tier 1 ran, requests were sent,
  every gated counter is zero, the re-logins stay within the budget, the tiers and summaries that
  are required are there, no predicate is undeclared everywhere without a waiver or silent
  everywhere with the time to speak, and no host leaked. Cells are assumed well formed: names
  without the separator, property lists without repetition, counters small enough for 64 bits.\<close>

theorem gate_passes_iff_clean:
  assumes "slice_sort violation_key srt" and "\<forall>c\<in>set cells. cell_wf c"
  shows "Gate srt cells soaks opts = [] \<longleftrightarrow> clean_run cells soaks opts"
  unfolding Gate_nil [OF assms(1)] by (rule findings_nil [OF assms(2)])

definition sample_cell :: validation_cell where
  "sample_cell = zero_cell\<lparr>Refapp := ''r'', Engine := ''e'', Arch := ''a'',
     Tier1 := Some (zero_tier1\<lparr>RequestsSent := 5, PropertyEvaluations := 2\<rparr>)\<rparr>"

definition sample_bad_cell :: validation_cell where
  "sample_bad_cell = sample_cell\<lparr>Arch := ''b'',
     Tier1 := Some (zero_tier1\<lparr>RequestsSent := 5, H2CChurn := [(''h2c_hang'', 2)]\<rparr>)\<rparr>"

definition sample_options :: gate_options where
  "sample_options = \<lparr>ToleratesWSEchoSlow = False, ExpectedCells = 1, RequireTier3 = False,
     RequireSoak = False, RequireProperties = False, RequireInstrumented = True,
     RequireCoverage = True, ExpectInstrumented = [], ExpectAdaptiveSwitch = True,
     H2CUpgradeRefapps = None\<rparr>"

lemma sample_wf: "\<forall>c\<in>set [sample_cell]. cell_wf c" "\<forall>c\<in>set [sample_cell, sample_bad_cell]. cell_wf c"
  by code_simp+

lemma sample_gate:
  "Gate (sort_key violation_key) [sample_cell] [] sample_options = []"
  "Gate (sort_key violation_key) [sample_cell, sample_bad_cell] [] sample_options \<noteq> []"
  by code_simp+

theorem gate_passes_iff_clean_witness:
  "clean_run [sample_cell] [] sample_options
   \<and> \<not> clean_run [sample_cell, sample_bad_cell] [] sample_options"
  using gate_passes_iff_clean [OF violation_sort.slice_sort_axioms sample_wf(1)]
    gate_passes_iff_clean [OF violation_sort.slice_sort_axioms sample_wf(2)] sample_gate
  by blast


section \<open>Every gated counter is reported\<close>

lemma findings_cell:
  assumes "slice_sort violation_key srt" and "c \<in> set cells" and "v \<in> set (tier1_checks opts c)"
  shows "v \<in> set (Gate srt cells soaks opts)"
  using assms(2,3) unfolding Gate_set [OF assms(1)] gate_findings_def by auto

text \<open>A positive gated counter is never lost: in any run and under any options, every cell whose
  tally of a gated key is positive has a violation in the report that carries the cell's identity,
  the dotted path of the counter and its value.\<close>

theorem gated_counter_reported:
  assumes "slice_sort violation_key srt" and "c \<in> set cells" and "Tier1 c = Some t" and "(slc, key, why) \<in> set gatedTier1Keys"
    and "0 < mget (slice_tally t slc) key"
  shows "\<exists>v\<in>set (Gate srt cells soaks opts). v_Refapp v = Refapp c \<and> v_Engine v = Engine c
    \<and> v_Arch v = Arch c \<and> v_Field v = ''tier_1.'' @ slc @ ''.'' @ key \<and> v_Value v = mget (slice_tally t slc) key"
proof -
  obtain w where w: "viol c (''tier_1.'' @ slc @ ''.'' @ key) (mget (slice_tally t slc) key) w \<in> set (gated_checks c t)"
    using assms(4,5) unfolding gated_checks_def by (fastforce simp: Let_def)
  then have "viol c (''tier_1.'' @ slc @ ''.'' @ key) (mget (slice_tally t slc) key) w \<in> set (tier1_checks opts c)"
    unfolding tier1_checks_def assms(3) option.case set_append by blast
  then have "viol c (''tier_1.'' @ slc @ ''.'' @ key) (mget (slice_tally t slc) key) w \<in> set (Gate srt cells soaks opts)"
    by (rule findings_cell [OF assms(1,2)])
  then show ?thesis by (rule bexI [rotated]) (simp add: viol_def)
qed

theorem gated_counter_reported_witness:
  "\<exists>v\<in>set (Gate (sort_key violation_key) [sample_cell, sample_bad_cell] [] sample_options). v_Refapp v = Refapp sample_bad_cell
    \<and> v_Engine v = Engine sample_bad_cell \<and> v_Arch v = Arch sample_bad_cell
    \<and> v_Field v = ''tier_1.'' @ ''h2c_churn'' @ ''.'' @ ''h2c_hang''
    \<and> v_Value v = mget (slice_tally (zero_tier1\<lparr>RequestsSent := 5, H2CChurn := [(''h2c_hang'', 2)]\<rparr>) ''h2c_churn'') ''h2c_hang''"
proof (rule gated_counter_reported)
  show "slice_sort violation_key (sort_key violation_key)" by (rule violation_sort.slice_sort_axioms)
  show "sample_bad_cell \<in> set [sample_cell, sample_bad_cell]" by simp
  show "Tier1 sample_bad_cell = Some (zero_tier1\<lparr>RequestsSent := 5, H2CChurn := [(''h2c_hang'', 2)]\<rparr>)"
    by (simp add: sample_bad_cell_def)
  show "(''h2c_churn'', ''h2c_hang'', ''an h2c request was neither answered nor declined'') \<in> set gatedTier1Keys"
    by (simp add: gatedTier1Keys_def)
  show "0 < mget (slice_tally (zero_tier1\<lparr>RequestsSent := 5, H2CChurn := [(''h2c_hang'', 2)]\<rparr>) ''h2c_churn'') ''h2c_hang''"
    by code_simp
qed


section \<open>The report does not depend on the order of the document\<close>

lemma mset_filter_cong: "mset xs = mset ys \<Longrightarrow> mset (filter P xs) = mset (filter P ys)"
  by simp

lemma duplicate_perm:
  assumes "mset cells = mset cells'"
  shows "duplicate_cells cells = duplicate_cells cells'"
proof -
  have keys: "mset (map cell_key cells) = mset (map cell_key cells')" using assms by simp
  have "duplicate_viol (tally (map cell_key cells)) k = duplicate_viol (tally (map cell_key cells')) k" for k
    unfolding duplicate_viol_def mget_tally_cong [OF keys] ..
  moreover have "sort (map fst (filter (\<lambda>(k, n). n > 1) (tally (map cell_key cells)))) =
      sort (map fst (filter (\<lambda>(k, n). n > 1) (tally (map cell_key cells'))))"
    by (intro sort_cong_mset mset_map_filter_cong mset_tally keys)
  ultimately show ?thesis unfolding duplicate_cells_def Let_def by simp
qed

lemma everyCellLists_perm:
  assumes "mset cells = mset cells'"
  shows "everyCellLists cells lst = everyCellLists cells' lst"
proof -
  have ran: "mset (filter ranPropertyLoop cells) = mset (filter ranPropertyLoop cells')"
    using assms by simp
  then have len: "length (filter ranPropertyLoop cells) = length (filter ranPropertyLoop cells')"
    by (metis size_mset)
  have "sort (map fst (filter (\<lambda>(k, n). n = m) (tally (concat (map lst (filter ranPropertyLoop cells)))))) =
      sort (map fst (filter (\<lambda>(k, n). n = m) (tally (concat (map lst (filter ranPropertyLoop cells'))))))" for m
    by (intro sort_cong_mset mset_map_filter_cong mset_tally mset_concat_map ran)
  then show ?thesis unfolding everyCellLists_def Let_def len by simp
qed

lemma Coverage_perm:
  assumes "mset cells = mset cells'"
  shows "mset (Coverage cells) = mset (Coverage cells')"
proof -
  have ran: "mset (filter propertyLoopRan cells) = mset (filter propertyLoopRan cells')"
    using assms by simp
  note set_eq = mset_eq_setD [OF ran]
  have bd: "mget (tally (concat (map f (filter propertyLoopRan cells)))) i =
      mget (tally (concat (map f (filter propertyLoopRan cells')))) i" for f i
    by (intro mget_tally_cong mset_concat_map ran)
  show ?thesis unfolding Coverage_def Let_def mset_sort bd set_eq
    by (intro mset_map_filter_cong mset_tally mset_concat_map ran)
qed

lemma coverage_checks_perm:
  "mset cells = mset cells' \<Longrightarrow> mset (coverage_checks cells) = mset (coverage_checks cells')"
  unfolding coverage_checks_def by (intro mset_map_filter_cong Coverage_perm)

lemma host_soak_perm:
  assumes "mset soaks = mset soaks'" and "distinct (map fst soaks)"
  shows "host_soak_checks soaks = host_soak_checks soaks'"
proof -
  have dist: "distinct (map fst soaks')" using assms by (metis mset_eq_imp_distinct_iff mset_map)
  have set: "set soaks = set soaks'" using assms(1) by (rule mset_eq_setD)
  then have "sorted_keys soaks = sorted_keys soaks'"
    using assms(2) dist by (intro sorted_keys_cong) simp_all
  moreover have "map_of soaks = map_of soaks'"
    using map_of_eqI assms(2) dist set by (metis map_of_inject_set)
  ultimately show ?thesis by (simp only: host_soak_checks_def)
qed

lemma findings_perm:
  assumes "mset cells = mset cells'" and "mset soaks = mset soaks'" and "distinct (map fst soaks)"
  shows "mset (gate_findings cells soaks opts) = mset (gate_findings cells' soaks' opts)"
proof -
  have cm: "mset (concat (map f cells)) = mset (concat (map f cells'))" for f :: "validation_cell \<Rightarrow> violation list"
    by (rule mset_concat_map [OF assms(1)])
  have inst: "mset (concat (map (\<lambda>i. concat (map (g i) cells)) is)) =
      mset (concat (map (\<lambda>i. concat (map (g i) cells')) is))"
    for g :: "string \<Rightarrow> validation_cell \<Rightarrow> violation list" and "is"
    by (induction "is") (simp_all only: list.map concat.simps mset_append cm)
  have len: "length cells = length cells'" using assms(1) by (rule mset_eq_length)
  have un: "uninstrumented_checks cells = uninstrumented_checks cells'"
    unfolding uninstrumented_checks_def UninstrumentedEverywhere_def everyCellLists_perm [OF assms(1)] ..
  show ?thesis
    unfolding gate_findings_def mset_append missing_cells_def len duplicate_perm [OF assms(1)] un inst cm
      host_soak_perm [OF assms(2,3)] if_distrib [of mset] coverage_checks_perm [OF assms(1)] ..
qed

text \<open>The report is a function of the set of recorded cells and host summaries, not of the order
  the document lists them in: permuting the cells and the hosts permutes at most violations that
  agree in refapp, engine, arch and field, and the report is sorted by those four.\<close>

theorem gate_order_independent:
  assumes "slice_sort violation_key srt"
    and "mset cells = mset cells'" and "mset soaks = mset soaks'" and "distinct (map fst soaks)"
  shows "mset (Gate srt cells soaks opts) = mset (Gate srt cells' soaks' opts)
    \<and> map violation_key (Gate srt cells soaks opts) = map violation_key (Gate srt cells' soaks' opts)
    \<and> sorted (map violation_key (Gate srt cells soaks opts))"
proof -
  note perm = findings_perm [OF assms(2-4), of opts]
  have "mset (srt (gate_findings cells soaks opts)) = mset (srt (gate_findings cells' soaks' opts))"
    unfolding slice_sort.srt_mset [OF assms(1)] by (rule perm)
  then show ?thesis
    unfolding Gate_def using slice_sort.srt_keys [OF assms(1) perm] slice_sort.srt_sorted [OF assms(1)] by blast
qed

theorem gate_order_independent_witness:
  "mset (Gate (sort_key violation_key) [sample_cell, sample_bad_cell] [] sample_options)
     = mset (Gate (sort_key violation_key) [sample_bad_cell, sample_cell] [] sample_options)
    \<and> map violation_key (Gate (sort_key violation_key) [sample_cell, sample_bad_cell] [] sample_options)
     = map violation_key (Gate (sort_key violation_key) [sample_bad_cell, sample_cell] [] sample_options)
    \<and> sorted (map violation_key (Gate (sort_key violation_key) [sample_cell, sample_bad_cell] [] sample_options))"
  by (rule gate_order_independent [OF violation_sort.slice_sort_axioms]) (simp_all add: add_mset_commute)


section \<open>The coverage report\<close>

lemma Coverage_distinct: "distinct (map g_ID (Coverage cells))"
proof -
  let ?mk = "\<lambda>bd (ident, n). \<lparr>g_ID = ident, g_Cells = n, g_ByDesign = mget bd ident\<rparr>"
  have "map g_ID (map (?mk bd) xs) = map fst xs" for bd xs by (induction xs) auto
  moreover have "distinct (map fst (filter P (tally ks)))" for P and ks :: "string list"
    using distinct_tally [of ks] by (simp add: distinct_map_filter)
  ultimately have "distinct (map g_ID (map (?mk bd) (filter P (tally ks))))" for bd P and ks :: "string list"
    by (simp only:)
  moreover have "distinct (map g_ID (sort_key g_ID xs)) = distinct (map g_ID xs)" for xs :: "coverage_gap list"
    by (rule mset_eq_imp_distinct_iff) simp
  ultimately show ?thesis unfolding Coverage_def Let_def by blast
qed

text \<open>The coverage report lists, once each and in order of their names, exactly the predicates
  that some property loop ran without a verdict and that every running loop either did not judge
  or did not declare, with the number of cells that did not judge it and how many of those were
  too short to do so; the gap is structural exactly when no cell had the time.\<close>

theorem coverage_report_exact:
  assumes "\<forall>c\<in>set cells. cell_wf c"
  shows "sorted_wrt (<) (map g_ID (Coverage cells))
    \<and> (g \<in> set (Coverage cells) \<longleftrightarrow> never_judged cells (g_ID g)
         \<and> g_Cells g = int (silent_cells cells (g_ID g)) \<and> g_ByDesign g = int (short_cells cells (g_ID g)))
    \<and> (g \<in> set (Coverage cells) \<longrightarrow> Structural g = (\<not> had_time cells (g_ID g)))"
proof (intro conjI)
  show "sorted_wrt (<) (map g_ID (Coverage cells))"
    using Coverage_distinct [of cells] unfolding strict_sorted_iff
    by (simp add: Coverage_def Let_def)
  show mem: "g \<in> set (Coverage cells) \<longleftrightarrow> never_judged cells (g_ID g)
         \<and> g_Cells g = int (silent_cells cells (g_ID g)) \<and> g_ByDesign g = int (short_cells cells (g_ID g))"
    unfolding Coverage_mem [OF assms] by (cases g) simp
  show "g \<in> set (Coverage cells) \<longrightarrow> Structural g = (\<not> had_time cells (g_ID g))"
    using mem structural_iff [of cells "g_ID g"] unfolding Structural_def by auto
qed

theorem coverage_report_exact_witness:
  "sorted_wrt (<) (map g_ID (Coverage [sample_cell\<lparr>PropertiesNotJudged := [''I-MEM-1'']\<rparr>]))
   \<and> \<lparr>g_ID = ''I-MEM-1'', g_Cells = 1, g_ByDesign = 0\<rparr>
        \<in> set (Coverage [sample_cell\<lparr>PropertiesNotJudged := [''I-MEM-1'']\<rparr>])
   \<and> had_time [sample_cell\<lparr>PropertiesNotJudged := [''I-MEM-1'']\<rparr>] ''I-MEM-1''"
proof -
  let ?cs = "[sample_cell\<lparr>PropertiesNotJudged := [''I-MEM-1'']\<rparr>]"
  let ?g = "\<lparr>g_ID = ''I-MEM-1'', g_Cells = 1, g_ByDesign = 0\<rparr>"
  have wf: "\<forall>c\<in>set ?cs. cell_wf c" by code_simp
  have mem: "?g \<in> set (Coverage ?cs)" by code_simp
  have "\<not> Structural ?g" by code_simp
  then have "had_time ?cs (g_ID ?g)" using coverage_report_exact [OF wf, of ?g] mem by blast
  then have "had_time ?cs ''I-MEM-1''" by (simp only: coverage_gap.select_convs)
  then show ?thesis using coverage_report_exact [OF wf, of ?g] mem by blast
qed

end
