(* ===== verification/Diff.thy ===== *)
theory Diff
  imports Gate
begin

text \<open>
  The relative comparison of validation cells, \<open>src/report/diff.go\<close>: counters that are zero on
  exactly one of two sides, between two documents and, in a matrix run, between every two engines
  of an arch and every two arches of an engine.

  The groups of \<open>DiffCells\<close> are Go maps; the model keeps them in the order of their first cell,
  and the statements below are about the set of divergences, which does not depend on it. The
  severities in use have different ranks, so the comparison function of both sorts is the
  lexicographic order on rank, slice and counter.

  The lemmas show that the comparison does not depend on which side is first, give the matrix
  comparison as a set of pairs of cells, and prove that the absolute gate subsumes it.
\<close>


section \<open>Divergences\<close>

record divergence =
  d_Kind :: string
  d_Slice :: string
  d_Counter :: string
  d_ValA :: int
  d_ValB :: int
  d_HostA :: string
  d_HostB :: string
  d_Severity :: string

definition KindZeroAsymmetric :: string where "KindZeroAsymmetric = ''zero-asymmetric''"
definition SeverityHigh :: string where "SeverityHigh = ''high''"
definition SeverityMed :: string where "SeverityMed = ''med''"
definition SeverityLow :: string where "SeverityLow = ''low''"

definition invariantCounters :: "(string \<times> string \<times> string) list" where
  "invariantCounters = [
    (''adversarial'', ''adv_wrong_accepted'', SeverityHigh),
    (''adversarial'', ''adv_hang_until_timeout'', SeverityMed),
    (''h2c_churn'', ''h2c_crashed'', SeverityHigh),
    (''h2c_churn'', ''h2c_hang'', SeverityMed),
    (''ws_torture'', ''ws_accepted_bad_frame'', SeverityHigh),
    (''ws_torture'', ''ws_hang_no_close'', SeverityMed),
    (''sse_kill'', ''sse_handshake_fail'', SeverityLow),
    (''ws_echo'', ''ws_echo_corrupt'', SeverityHigh),
    (''ws_echo'', ''ws_echo_reorder'', SeverityHigh),
    (''ws_echo'', ''ws_echo_missing'', SeverityMed),
    (''ws_echo'', ''ws_echo_timeout'', SeverityMed)]"

definition pickCounter :: "tier1_summary option \<Rightarrow> string \<Rightarrow> string \<Rightarrow> int" where
  "pickCounter t slc counter = (case t of
     None \<Rightarrow> 0
   | Some t \<Rightarrow> mget (if slc = ''adversarial'' then Adversarial t
                     else if slc = ''h2c_churn'' then H2CChurn t
                     else if slc = ''ws_torture'' then WSTorture t
                     else if slc = ''sse_kill'' then SSEKill t
                     else if slc = ''ws_echo'' then WSEcho t
                     else []) counter)"

definition isZeroAsymmetric :: "int \<Rightarrow> int \<Rightarrow> bool" where
  "isZeroAsymmetric a b \<longleftrightarrow> (a = 0) \<noteq> (b = 0)"

definition severityRank :: "string \<Rightarrow> int" where
  "severityRank s = (if s = SeverityHigh then 0 else if s = SeverityMed then 1
                     else if s = SeverityLow then 2 else 3)"

definition divergence_key :: "divergence \<Rightarrow> int \<times> string \<times> string" where
  "divergence_key d = (severityRank (d_Severity d), d_Slice d, d_Counter d)"

definition zero_asymmetric :: "string \<Rightarrow> string \<Rightarrow> int \<Rightarrow> int \<Rightarrow> string \<Rightarrow> string \<Rightarrow> string \<Rightarrow> divergence list" where
  "zero_asymmetric slc counter valA valB hostA hostB sev =
     (if isZeroAsymmetric valA valB
      then [\<lparr>d_Kind = KindZeroAsymmetric, d_Slice = slc, d_Counter = counter, d_ValA = valA,
             d_ValB = valB, d_HostA = hostA, d_HostB = hostB, d_Severity = sev\<rparr>]
      else [])"

definition tier1_divergences :: "tier1_summary option \<Rightarrow> tier1_summary option \<Rightarrow> string \<Rightarrow> string \<Rightarrow> divergence list" where
  "tier1_divergences a b hostA hostB =
     (if a \<noteq> None \<and> b \<noteq> None
      then concat (map (\<lambda>(slc, counter, sev).
             zero_asymmetric slc counter (pickCounter a slc counter) (pickCounter b slc counter) hostA hostB sev)
             invariantCounters)
      else [])"

definition tier3_divergences :: "tier3_summary option \<Rightarrow> tier3_summary option \<Rightarrow> string \<Rightarrow> string \<Rightarrow> divergence list" where
  "tier3_divergences a b hostA hostB = (case (a, b) of
     (Some x, Some y) \<Rightarrow>
       zero_asymmetric ''tier_3'' ''seeds_failed'' (SeedsFailed x) (SeedsFailed y) hostA hostB SeverityHigh
   | _ \<Rightarrow> [])"

definition DiffValidation ::
  "validation_results option \<Rightarrow> validation_results option \<Rightarrow> string \<Rightarrow> string \<Rightarrow> divergence list" where
  "DiffValidation a b hostA hostB = (case (a, b) of
     (Some x, Some y) \<Rightarrow> sort_key divergence_key
        (tier1_divergences (vr_Tier1 x) (vr_Tier1 y) hostA hostB
         @ tier3_divergences (vr_Tier3 x) (vr_Tier3 y) hostA hostB)
   | _ \<Rightarrow> [])"


section \<open>The matrix\<close>

definition toVR :: "validation_cell \<Rightarrow> validation_results option" where
  "toVR c = Some \<lparr>vr_StartedAt = 0, vr_FinishedAt = 0, vr_PropertiesPassed = 0, vr_PropertiesFailed = 0,
     vr_FailureSummaries = [], vr_FaultInjectionSeed = '''', vr_Tier1 = Tier1 c, vr_Tier3 = Tier3 c,
     vr_Cells = [], vr_Resume = None\<rparr>"

definition label :: "validation_cell \<Rightarrow> string" where
  "label c = Engine c @ ''-'' @ Arch c"

text \<open>\<open>m[k] = append(m[k], c)\<close> over all cells.\<close>

definition group_by :: "('a \<Rightarrow> 'k) \<Rightarrow> 'a list \<Rightarrow> ('k \<times> 'a list) list" where
  "group_by f xs = fold (\<lambda>x m. mput m (f x) (case map_of m (f x) of None \<Rightarrow> [x] | Some g \<Rightarrow> g @ [x])) xs []"

fun index_pairs :: "'a list \<Rightarrow> ('a \<times> 'a) list" where
  "index_pairs [] = []"
| "index_pairs (x # xs) = map (Pair x) xs @ index_pairs xs"

definition diff_group :: "(validation_cell \<Rightarrow> string) \<Rightarrow> validation_cell list \<Rightarrow> divergence list" where
  "diff_group f grp = concat (map (\<lambda>(x, y). DiffValidation (toVR x) (toVR y) (label x) (label y))
     (index_pairs (sort_key f grp)))"

definition DiffCells :: "validation_cell list \<Rightarrow> divergence list" where
  "DiffCells cells =
     (if length cells < 2 then []
      else let byArch = group_by (\<lambda>c. (Refapp c, Arch c)) cells;
               byEngine = group_by (\<lambda>c. (Refapp c, Engine c)) cells
           in sort_key divergence_key
                (concat (map (\<lambda>(k, g). diff_group Engine g) byArch)
                 @ concat (map (\<lambda>(k, g). diff_group Arch g) byEngine)))"


section \<open>One comparison\<close>

definition swap_sides :: "divergence \<Rightarrow> divergence" where
  "swap_sides d = d\<lparr>d_ValA := d_ValB d, d_ValB := d_ValA d, d_HostA := d_HostB d, d_HostB := d_HostA d\<rparr>"

lemma sort_key_map: "(\<And>x. g (f x) = g x) \<Longrightarrow> sort_key g (map f xs) = map f (sort_key g xs)"
proof (induction xs)
  case (Cons x xs)
  have ins: "insort_key g (f x) (map f ys) = map f (insort_key g x ys)" for ys
    by (induction ys) (simp_all add: Cons.prems)
  show ?case using Cons by (simp add: ins)
qed simp

lemma zero_asymmetric_swap:
  "zero_asymmetric slc counter b a hostB hostA sev = map swap_sides (zero_asymmetric slc counter a b hostA hostB sev)"
  by (auto simp: zero_asymmetric_def swap_sides_def isZeroAsymmetric_def)

lemma tier1_divergences_swap:
  "tier1_divergences b a hostB hostA = map swap_sides (tier1_divergences a b hostA hostB)"
proof -
  have "concat (map (\<lambda>(slc, counter, sev). zero_asymmetric slc counter (pickCounter b slc counter)
          (pickCounter a slc counter) hostB hostA sev) xs) =
        map swap_sides (concat (map (\<lambda>(slc, counter, sev). zero_asymmetric slc counter (pickCounter a slc counter)
          (pickCounter b slc counter) hostA hostB sev) xs))" for xs
    by (induction xs) (auto simp: zero_asymmetric_swap [where a = "pickCounter a _ _"])
  then show ?thesis unfolding tier1_divergences_def by simp
qed

text \<open>The comparison of two validation results does not depend on which of them is the first:
  exchanging the sides exchanges the two values and the two host labels in every divergence and
  changes neither which divergences are found nor their order.\<close>

theorem diff_symmetric:
  "DiffValidation b a hostB hostA = map swap_sides (DiffValidation a b hostA hostB)"
proof -
  have key: "divergence_key (swap_sides d) = divergence_key d" for d
    by (simp add: divergence_key_def swap_sides_def)
  show ?thesis
    unfolding DiffValidation_def tier3_divergences_def
    by (auto simp: tier1_divergences_swap [of _ _ hostB hostA] sort_key_map [where g = divergence_key and f = swap_sides, OF key, symmetric]
        zero_asymmetric_swap [of _ _ _ _ hostB hostA] split: option.splits)
qed


section \<open>The groups\<close>

lemma map_of_group_fold:
  "map_of (fold (\<lambda>x m. mput m (f x) (case map_of m (f x) of None \<Rightarrow> [x] | Some g \<Rightarrow> g @ [x])) xs m) k =
     (let g = filter (\<lambda>x. f x = k) xs
      in case map_of m k of None \<Rightarrow> (if g = [] then None else Some g) | Some h \<Rightarrow> Some (h @ g))"
  by (induction xs arbitrary: m) (auto simp: Let_def split: option.splits)

lemma map_of_group_by:
  "map_of (group_by f xs) k = (let g = filter (\<lambda>x. f x = k) xs in if g = [] then None else Some g)"
  by (simp add: group_by_def map_of_group_fold)

lemma distinct_group_by: "distinct (map fst (group_by f xs))"
proof -
  have "distinct (map fst m) \<Longrightarrow> distinct (map fst
      (fold (\<lambda>x m. mput m (f x) (case map_of m (f x) of None \<Rightarrow> [x] | Some g \<Rightarrow> g @ [x])) xs m))" for m
    by (induction xs arbitrary: m) (simp_all add: distinct_mput)
  then show ?thesis by (simp add: group_by_def)
qed

lemma group_by_mem:
  "(k, g) \<in> set (group_by f xs) \<longleftrightarrow> g = filter (\<lambda>x. f x = k) xs \<and> k \<in> f ` set xs"
  using map_of_eq_Some_iff [OF distinct_group_by [of f xs], of k g]
  by (auto simp: map_of_group_by Let_def filter_empty_conv split: if_splits)

lemma index_pairs_sorted:
  assumes "distinct (map f xs)" and "sorted (map (f :: 'a \<Rightarrow> 'b :: linorder) xs)"
  shows "set (index_pairs xs) = {(x, y). x \<in> set xs \<and> y \<in> set xs \<and> f x < f y}"
  using assms
proof (induction xs)
  case (Cons a xs)
  then have lt: "y \<in> set xs \<Longrightarrow> f a < f y" for y by (auto simp: order.strict_iff_order)
  then have "set (index_pairs (a # xs)) = Pair a ` set xs \<union> {(x, y). x \<in> set xs \<and> y \<in> set xs \<and> f x < f y}"
    using Cons by simp
  also have "\<dots> = {(x, y). x \<in> set (a # xs) \<and> y \<in> set (a # xs) \<and> f x < f y}"
    using lt by (auto dest: order.asym)
  finally show ?case .
qed simp

lemma diff_group_mem:
  assumes "distinct (map f grp)"
  shows "d \<in> set (diff_group f grp) \<longleftrightarrow> (\<exists>x\<in>set grp. \<exists>y\<in>set grp. f x < f y
     \<and> d \<in> set (DiffValidation (toVR x) (toVR y) (label x) (label y)))"
proof -
  have "distinct (map f (sort_key f grp)) = distinct (map f grp)"
    by (rule mset_eq_imp_distinct_iff) simp
  then have "set (index_pairs (sort_key f grp)) = {(x, y). x \<in> set grp \<and> y \<in> set grp \<and> f x < f y}"
    using index_pairs_sorted [of f "sort_key f grp"] assms by simp
  then show ?thesis unfolding diff_group_def set_concat set_map by auto
qed

text \<open>The cells of a group differ in the remaining coordinate when no cell is reported twice.\<close>

lemma distinct_map_filter_key:
  assumes "distinct (map (\<lambda>x. (h x, f x)) xs)"
  shows "distinct (map f (filter (\<lambda>x. h x = k) xs))"
  using assms by (induction xs) (auto simp: image_iff)

lemma grouped_mem:
  assumes "distinct (map (\<lambda>x. (h x, f x)) cells)"
  shows "d \<in> set (concat (map (\<lambda>(k, g). diff_group f g) (group_by h cells))) \<longleftrightarrow>
    (\<exists>x\<in>set cells. \<exists>y\<in>set cells. h x = h y \<and> f x < f y
       \<and> d \<in> set (DiffValidation (toVR x) (toVR y) (label x) (label y)))"
proof -
  have "d \<in> set (concat (map (\<lambda>(k, g). diff_group f g) (group_by h cells))) \<longleftrightarrow>
      (\<exists>k\<in>h ` set cells. d \<in> set (diff_group f (filter (\<lambda>x. h x = k) cells)))"
    by (auto simp: group_by_mem Bex_def)
  then show ?thesis
    unfolding diff_group_mem [OF distinct_map_filter_key [OF assms]] set_filter
    by (simp only: Bex_def mem_Collect_eq image_iff) metis
qed

text \<open>In a matrix with no cell reported twice, the divergences are exactly those of the pairs of
  cells of one refapp that share the arch and differ in the engine, or share the engine and differ
  in the arch, each pair compared once, the alphabetically smaller name first.\<close>

theorem diff_cells_pairs:
  assumes "distinct (map (\<lambda>c. (Refapp c, Engine c, Arch c)) cells)"
  shows "d \<in> set (DiffCells cells) \<longleftrightarrow> (\<exists>x\<in>set cells. \<exists>y\<in>set cells. Refapp x = Refapp y
     \<and> (Arch x = Arch y \<and> Engine x < Engine y \<or> Engine x = Engine y \<and> Arch x < Arch y)
     \<and> d \<in> set (DiffValidation (toVR x) (toVR y) (label x) (label y)))"
proof (cases "length cells < 2")
  case True
  then have "\<And>x y. x \<in> set cells \<Longrightarrow> y \<in> set cells \<Longrightarrow> x = y"
    by (cases cells; cases "tl cells") auto
  then show ?thesis using True unfolding DiffCells_def by fastforce
next
  case False
  have inj: "inj_on (\<lambda>c. (Refapp c, Engine c, Arch c)) (set cells)" and dist: "distinct cells"
    using assms by (simp_all add: distinct_map)
  have arch: "distinct (map (\<lambda>c. ((Refapp c, Arch c), Engine c)) cells)"
    and engine: "distinct (map (\<lambda>c. ((Refapp c, Engine c), Arch c)) cells)"
    using inj dist by (auto simp: distinct_map inj_on_def)
  have "set (DiffCells cells) =
      set (concat (map (\<lambda>(k, g). diff_group Engine g) (group_by (\<lambda>c. (Refapp c, Arch c)) cells)))
      \<union> set (concat (map (\<lambda>(k, g). diff_group Arch g) (group_by (\<lambda>c. (Refapp c, Engine c)) cells)))"
    using False by (simp only: DiffCells_def if_False Let_def set_sort set_append)
  then show ?thesis
    using grouped_mem [OF arch, of d] grouped_mem [OF engine, of d] by (simp only: Un_iff prod.inject) blast
qed


section \<open>The gate subsumes the comparison\<close>

lemma invariantCounters_gated:
  "\<forall>(slc, key, sev) \<in> set invariantCounters. (slc, key) \<in> (\<lambda>(s, k, w). (s, k)) ` set gatedTier1Keys"
  by code_simp

lemma pickCounter_slice: "pickCounter (Some t) slc key = mget (slice_tally t slc) key"
  by (simp add: pickCounter_def slice_tally_def)

text \<open>Counters count: none is negative, and a replay that reports a failed seed attempted one.\<close>

definition counts_ok :: "validation_cell \<Rightarrow> bool" where
  "counts_ok c \<longleftrightarrow>
     (\<forall>t. Tier1 c = Some t \<longrightarrow> (\<forall>(slc, key, sev) \<in> set invariantCounters. 0 \<le> mget (slice_tally t slc) key))
     \<and> (\<forall>t. Tier3 c = Some t \<longrightarrow> 0 \<le> SeedsFailed t \<and> (0 < SeedsFailed t \<longrightarrow> SeedsAttempted t \<noteq> 0))"

lemma tier1_positive_dirty:
  assumes "Tier1 c = Some t" and "(slc, key, sev) \<in> set invariantCounters"
    and "0 < mget (slice_tally t slc) key"
  shows "tier1_checks opts c \<noteq> []"
proof -
  obtain why where "(slc, key, why) \<in> set gatedTier1Keys"
    using invariantCounters_gated assms(2) by fastforce
  then have "gated_checks c t \<noteq> []" unfolding gated_nil using assms(3) by fastforce
  then show ?thesis by (simp add: tier1_checks_def assms(1))
qed

lemma diff_validation_dirty:
  assumes "d \<in> set (DiffValidation (toVR x) (toVR y) hostA hostB)" and "counts_ok x" and "counts_ok y"
  shows "\<exists>c\<in>{x, y}. tier1_checks opts c @ tier3_checks opts c \<noteq> []"
proof -
  consider "d \<in> set (tier1_divergences (Tier1 x) (Tier1 y) hostA hostB)"
    | "d \<in> set (tier3_divergences (Tier3 x) (Tier3 y) hostA hostB)"
    using assms(1) by (auto simp: DiffValidation_def toVR_def)
  then show ?thesis
  proof cases
    case 1
    then obtain t u where t: "Tier1 x = Some t" and u: "Tier1 y = Some u"
      by (auto simp: tier1_divergences_def split: if_splits)
    from 1 obtain slc key sev where row: "(slc, key, sev) \<in> set invariantCounters"
      and "isZeroAsymmetric (mget (slice_tally t slc) key) (mget (slice_tally u slc) key)"
      unfolding tier1_divergences_def t u pickCounter_slice
      by (auto simp: zero_asymmetric_def split: if_splits)
    moreover have "0 \<le> mget (slice_tally t slc) key" "0 \<le> mget (slice_tally u slc) key"
      using assms(2,3) t u row unfolding counts_ok_def by fastforce+
    ultimately have "0 < mget (slice_tally t slc) key \<or> 0 < mget (slice_tally u slc) key"
      unfolding isZeroAsymmetric_def by linarith
    then show ?thesis using tier1_positive_dirty [OF t row] tier1_positive_dirty [OF u row] by auto
  next
    case 2
    then obtain t u where t: "Tier3 x = Some t" and u: "Tier3 y = Some u"
      and asym: "isZeroAsymmetric (SeedsFailed t) (SeedsFailed u)"
      by (cases "Tier3 x"; cases "Tier3 y")
        (auto simp: tier3_divergences_def zero_asymmetric_def split: if_splits)
    have "0 \<le> SeedsFailed t" "0 \<le> SeedsFailed u"
      using assms(2,3) t u unfolding counts_ok_def by blast+
    then have "0 < SeedsFailed t \<or> 0 < SeedsFailed u"
      using asym unfolding isZeroAsymmetric_def by linarith
    moreover have "0 < SeedsFailed t \<Longrightarrow> tier3_checks opts x \<noteq> []"
      using assms(2) t unfolding counts_ok_def tier3_nil clean_tier3_def by auto
    moreover have "0 < SeedsFailed u \<Longrightarrow> tier3_checks opts y \<noteq> []"
      using assms(3) u unfolding counts_ok_def tier3_nil clean_tier3_def by auto
    ultimately show ?thesis by auto
  qed
qed

lemma index_pairs_mem: "(x, y) \<in> set (index_pairs xs) \<Longrightarrow> x \<in> set xs \<and> y \<in> set xs"
  by (induction xs) auto

lemma diff_cells_source:
  assumes "d \<in> set (DiffCells cells)"
  obtains x y where "x \<in> set cells" and "y \<in> set cells"
    and "d \<in> set (DiffValidation (toVR x) (toVR y) (label x) (label y))"
proof -
  have sub: "\<exists>x\<in>set cells. \<exists>y\<in>set cells. d \<in> set (DiffValidation (toVR x) (toVR y) (label x) (label y))"
    if "d \<in> set (diff_group f g)" and "(k, g) \<in> set (group_by h cells)" for f g k and h :: "validation_cell \<Rightarrow> 'k"
  proof -
    from that(1) obtain x y where "(x, y) \<in> set (index_pairs (sort_key f g))"
      and "d \<in> set (DiffValidation (toVR x) (toVR y) (label x) (label y))"
      unfolding diff_group_def by auto
    moreover from that(2) have "set g \<subseteq> set cells" by (auto simp: group_by_mem)
    ultimately show ?thesis using index_pairs_mem [of x y "sort_key f g"] by auto
  qed
  from assms have "\<exists>x\<in>set cells. \<exists>y\<in>set cells. d \<in> set (DiffValidation (toVR x) (toVR y) (label x) (label y))"
    unfolding DiffCells_def by (auto simp: Let_def split: if_splits dest: sub)
  then show ?thesis using that by blast
qed

text \<open>C38: the absolute gate subsumes the relative comparison: whenever comparing the cells of a run
  across engines or arches finds a divergence, the gate fails the run, whatever its options.\<close>

theorem diff_implies_gate:
  assumes "slice_sort violation_key srt" and "\<forall>c\<in>set cells. counts_ok c" and "DiffCells cells \<noteq> []"
  shows "Gate srt cells soaks opts \<noteq> []"
proof -
  from assms(3) obtain d where "d \<in> set (DiffCells cells)" by (meson list.set_sel(1))
  then obtain x y where xy: "x \<in> set cells" "y \<in> set cells"
    and "d \<in> set (DiffValidation (toVR x) (toVR y) (label x) (label y))"
    by (rule diff_cells_source)
  then obtain c where "c \<in> set cells" "tier1_checks opts c @ tier3_checks opts c \<noteq> []"
    using diff_validation_dirty assms(2) by blast
  then have "concat (map (\<lambda>c. tier1_checks opts c @ tier3_checks opts c) cells) \<noteq> []"
    unfolding concat_map_nil by blast
  then show ?thesis unfolding Gate_nil [OF assms(1)] gate_findings_def append_is_Nil_conv by blast
qed

definition sample_pair :: "validation_cell list" where
  "sample_pair = [sample_cell, sample_bad_cell]"

lemma sample_pair_facts:
  "DiffCells sample_pair \<noteq> []"
  "distinct (map (\<lambda>c. (Refapp c, Engine c, Arch c)) sample_pair)"
  by code_simp+

lemma sample_pair_counts: "\<forall>c\<in>set sample_pair. counts_ok c"
proof -
  have "\<forall>c\<in>set sample_pair. Tier3 c = None \<and> Tier1 c \<noteq> None \<and>
      (\<forall>(slc, key, sev) \<in> set invariantCounters. 0 \<le> mget (slice_tally (the (Tier1 c)) slc) key)"
    by code_simp
  then show ?thesis unfolding counts_ok_def by fastforce
qed

theorem diff_implies_gate_witness:
  "DiffCells sample_pair \<noteq> [] \<and> Gate (sort_key violation_key) sample_pair [] sample_options \<noteq> []"
  using diff_implies_gate [OF violation_sort.slice_sort_axioms sample_pair_counts sample_pair_facts(1), of "[]" sample_options]
    sample_pair_facts(1) by blast

theorem diff_cells_pairs_witness:
  "\<lparr>d_Kind = ''zero-asymmetric'', d_Slice = ''h2c_churn'', d_Counter = ''h2c_hang'', d_ValA = 0,
    d_ValB = 2, d_HostA = ''e-a'', d_HostB = ''e-b'', d_Severity = ''med''\<rparr> \<in> set (DiffCells sample_pair)"
proof -
  let ?d = "\<lparr>d_Kind = ''zero-asymmetric'', d_Slice = ''h2c_churn'', d_Counter = ''h2c_hang'', d_ValA = 0,
    d_ValB = 2, d_HostA = ''e-a'', d_HostB = ''e-b'', d_Severity = ''med''\<rparr>"
  have "\<exists>x\<in>set sample_pair. \<exists>y\<in>set sample_pair. Refapp x = Refapp y
     \<and> (Arch x = Arch y \<and> Engine x < Engine y \<or> Engine x = Engine y \<and> Arch x < Arch y)
     \<and> ?d \<in> set (DiffValidation (toVR x) (toVR y) (label x) (label y))"
    by code_simp
  then show ?thesis using diff_cells_pairs [OF sample_pair_facts(2), of ?d] by (simp only:)
qed

end
