(* ===== verification/MatrixPlan.thy ===== *)
theory MatrixPlan
  imports Gate
begin

text \<open>
  Planning of a validation matrix run: \<open>src/cmd/validator/matrix.go\<close> (which cells there are) and
  \<open>src/cmd/validator/resume.go\<close> (which of them an interrupted run already made final).

  A path is the list of the elements the code joins, and the file system a function from paths to
  nodes. Error texts are values of \<open>matrix_error\<close> with the arguments of their format string. The
  document of the interrupted run is read by two parameters, the file read and the JSON decoder.

  The lemmas show that the plan is the product of the refapps and the engines, and that a resume
  splits it exactly: each planned cell is either inherited, once and with the verdict the earlier
  document recorded first, or run again.
\<close>


section \<open>The plan\<close>

datatype fs_node = NFile bool | NDir "string list option"
type_synonym path = "string list"
type_synonym fs = "path \<Rightarrow> fs_node option"

definition is_file :: "fs_node option \<Rightarrow> bool" where
  "is_file n = (case n of Some (NFile _) \<Rightarrow> True | _ \<Rightarrow> False)"

definition is_dir :: "fs_node option \<Rightarrow> bool" where
  "is_dir n = (case n of Some (NDir _) \<Rightarrow> True | _ \<Rightarrow> False)"

definition read_dir :: "fs \<Rightarrow> path \<Rightarrow> string list option" where
  "read_dir fs p = (case fs p of Some (NDir (Some names)) \<Rightarrow> Some (sort names) | _ \<Rightarrow> None)"

record matrix_config =
  SeedServices :: string
  Enabled :: bool
  ResumeFrom :: string
  Refapps :: string
  Engines :: string
  RefappRoot :: string
  BinDir :: string

record matrix_cell =
  mc_Refapp :: string
  mc_Engine :: string

datatype matrix_error =
    UnreadableRoot string
  | NoRefapps string string
  | RefappNotFound string string string
  | NoEngines string
  | OneSpecManyRefapps string "string list"
  | UnreadableDoc path string
  | BadDoc path string
  | NoValidationBlock path
  | ForeignArch string path string string

definition discoverRefapps :: "fs \<Rightarrow> string \<Rightarrow> matrix_error + string list" where
  "discoverRefapps fs root = (case read_dir fs [root] of
     None \<Rightarrow> Inl (UnreadableRoot root)
   | Some names \<Rightarrow> Inr (sort (filter (\<lambda>n. is_dir (fs [root, n]) \<and> fs [root, n, ''main.go''] \<noteq> None) names)))"

definition discoverRefappBins :: "fs \<Rightarrow> string \<Rightarrow> matrix_error + string list" where
  "discoverRefappBins fs binDir = (case read_dir fs [binDir] of
     None \<Rightarrow> Inl (UnreadableRoot binDir)
   | Some names \<Rightarrow> Inr (sort (filter (\<lambda>n. \<not> is_dir (fs [binDir, n]) \<and> \<not> has_prefix n ''.'') names)))"

definition keep_engine :: "string \<Rightarrow> string \<Rightarrow> bool" where
  "keep_engine goos e \<longleftrightarrow> e \<noteq> '''' \<and> (e \<in> {''iouring'', ''epoll'', ''adaptive''} \<longrightarrow> goos = ''linux'')"

definition expandEngines :: "string \<Rightarrow> string \<Rightarrow> string list" where
  "expandEngines goos spec =
     (if to_lower spec = ''auto''
      then (if goos = ''linux'' then [''iouring'', ''epoll'', ''std'', ''adaptive''] else [''std''])
      else filter (keep_engine goos) (map (\<lambda>e. trim_space (to_lower e)) (split_on (CHR '','') spec)))"

definition refappRoot :: "matrix_config \<Rightarrow> string" where
  "refappRoot m = (if RefappRoot m = '''' then ''validation/refapp'' else RefappRoot m)"

definition all_refapps :: "fs \<Rightarrow> matrix_config \<Rightarrow> matrix_error + string list" where
  "all_refapps fs m =
     (let root = refappRoot m;
          discovered = discoverRefapps fs root;
          discovered = (if (discovered = Inr [] \<or> isl discovered) \<and> BinDir m \<noteq> ''''
                        then (case discoverRefappBins fs (BinDir m) of
                                Inr (b # bs) \<Rightarrow> Inr (b # bs) | _ \<Rightarrow> discovered)
                        else discovered)
      in case discovered of
           Inl e \<Rightarrow> Inl e
         | Inr [] \<Rightarrow> Inl (NoRefapps root (BinDir m))
         | Inr ds \<Rightarrow> Inr ds)"

fun named_refapps :: "fs \<Rightarrow> matrix_config \<Rightarrow> string list \<Rightarrow> matrix_error + string list" where
  "named_refapps fs m [] = Inr []"
| "named_refapps fs m (s # ss) =
     (let slug = trim_space s
      in if slug = '''' then named_refapps fs m ss
         else if fs [refappRoot m, slug, ''main.go''] \<noteq> None
                 \<or> BinDir m \<noteq> '''' \<and> is_file (fs [BinDir m, slug])
         then (case named_refapps fs m ss of Inl e \<Rightarrow> Inl e | Inr rs \<Rightarrow> Inr (slug # rs))
         else Inl (RefappNotFound slug (refappRoot m) (BinDir m)))"

definition resolveMatrixPlan :: "fs \<Rightarrow> string \<Rightarrow> matrix_config \<Rightarrow> matrix_error + matrix_cell list" where
  "resolveMatrixPlan fs goos m =
     (let want = trim_space (Refapps m);
          want = (if want = '''' then ''all'' else want)
      in case (if want = ''all'' then all_refapps fs m
               else named_refapps fs m (split_on (CHR '','') want)) of
           Inl e \<Rightarrow> Inl e
         | Inr refapps \<Rightarrow>
             (let engineSpec = trim_space (Engines m);
                  engineSpec = (if engineSpec = '''' then ''auto'' else engineSpec);
                  engines = expandEngines goos engineSpec
              in if engines = [] then Inl (NoEngines engineSpec)
                 else Inr (concat (map (\<lambda>r. map (\<lambda>e. \<lparr>mc_Refapp = r, mc_Engine = e\<rparr>) engines)
                                 (sort refapps)))))"

definition checkMatrixSpecFlag :: "string \<Rightarrow> matrix_cell list \<Rightarrow> matrix_error option" where
  "checkMatrixSpecFlag openapiPath plan =
     (if openapiPath = '''' then None
      else let names = remdups (map mc_Refapp plan)
           in if length names \<le> 1 then None else Some (OneSpecManyRefapps openapiPath (sort names)))"

text \<open>The OpenAPI document of a refapp: its own or none, never another's.\<close>

definition specFileSuffix :: string where "specFileSuffix = ''.openapi.yaml''"

definition resolveRefappSpec :: "fs \<Rightarrow> string \<Rightarrow> string \<Rightarrow> path option" where
  "resolveRefappSpec fs specDir slug =
     (let dir = (if specDir = '''' then ''validation/spec'' else specDir);
          candidate = [dir, slug @ specFileSuffix]
      in if is_file (fs candidate) then Some candidate else None)"

definition findRefappBin :: "fs \<Rightarrow> string \<Rightarrow> string \<Rightarrow> string \<Rightarrow> path option" where
  "findRefappBin fs goarch dir slug =
     (if dir = '''' then None
      else find (\<lambda>p. fs p = Some (NFile True))
             [[dir, ''refapp-'' @ slug @ ''-'' @ goarch], [dir, slug]])"

definition watchableStagingDir :: "fs \<Rightarrow> string \<Rightarrow> string" where
  "watchableStagingDir fs dir = (if dir = '''' then '''' else if read_dir fs [dir] = None then '''' else dir)"

text \<open>How an adaptive cell is sized.\<close>

definition adaptiveCellWorkers :: int where "adaptiveCellWorkers = 2"
definition adaptiveCellConcurrencyFloor :: int where "adaptiveCellConcurrencyFloor = 110"

definition cellRefappWorkers :: "string \<Rightarrow> int \<Rightarrow> int" where
  "cellRefappWorkers engine capFromFlag =
     (if capFromFlag > 0 \<or> engine \<noteq> ''adaptive'' then capFromFlag else adaptiveCellWorkers)"

definition wsEchoSlowTolerance :: "bool \<Rightarrow> int" where
  "wsEchoSlowTolerance raceTier = (if raceTier then WSEchoSlowTolerance else 0)"

definition cellConcurrencyFloor :: "string \<Rightarrow> int" where
  "cellConcurrencyFloor engine = (if engine \<noteq> ''adaptive'' then 0 else adaptiveCellConcurrencyFloor)"

definition pad2 :: "int \<Rightarrow> string" where
  "pad2 n = (if 0 \<le> n \<and> n < 10 then ''0'' @ itoa n else itoa n)"

definition cellOutDirName :: "nat \<Rightarrow> matrix_cell \<Rightarrow> string" where
  "cellOutDirName idx mc = ''cell-'' @ pad2 (int idx) @ ''-'' @ mc_Refapp mc @ ''-'' @ mc_Engine mc"


section \<open>Resuming\<close>

record resume_merge =
  rm_From :: string
  rm_Inherited :: "validation_cell list"
  rm_NotInherited :: "string list"
  rm_PriorStartedAt :: int
  rm_PriorFinishedAt :: int

definition provenance :: "resume_merge option \<Rightarrow> int \<Rightarrow> resume_provenance option" where
  "provenance r nran = map_option (\<lambda>r. \<lparr>rp_From = rm_From r, rp_PriorStartedAt = rm_PriorStartedAt r,
     rp_PriorFinishedAt = rm_PriorFinishedAt r, rp_InheritedCells = int (length (rm_Inherited r)),
     rp_RanCells = nran, rp_NotInherited = rm_NotInherited r\<rparr>) r"

definition inherited_cells :: "resume_merge option \<Rightarrow> validation_cell list" where
  "inherited_cells r = (case r of None \<Rightarrow> [] | Some r \<Rightarrow> rm_Inherited r)"

definition results_path :: "string \<Rightarrow> path" where
  "results_path dir = [dir, ''validate-results.json'']"

definition loadResumeDoc ::
  "(path \<Rightarrow> string + string) \<Rightarrow> (string \<Rightarrow> string + validation_results option) \<Rightarrow> string
   \<Rightarrow> matrix_error + validation_results" where
  "loadResumeDoc readFile unmarshal dir = (case readFile (results_path dir) of
     Inl e \<Rightarrow> Inl (UnreadableDoc (results_path dir) e)
   | Inr b \<Rightarrow> (case unmarshal b of
       Inl e \<Rightarrow> Inl (BadDoc (results_path dir) e)
     | Inr None \<Rightarrow> Inl (NoValidationBlock (results_path dir))
     | Inr (Some v) \<Rightarrow> Inr v))"

definition matrixCellIsFinal :: "validation_cell \<Rightarrow> bool" where
  "matrixCellIsFinal c \<longleftrightarrow>
     (case Tier1 c of Some t \<Rightarrow> RequestsSent t > 0 | None \<Rightarrow> False)
     \<or> wrap64 (PropertiesPassed c + PropertiesFailed c) > 0"

definition plan_key :: "matrix_cell \<Rightarrow> string" where
  "plan_key mc = mc_Refapp mc @ ''/'' @ mc_Engine mc"

definition prior_key :: "validation_cell \<Rightarrow> string" where
  "prior_key c = Refapp c @ ''/'' @ Engine c"

definition wanted_map :: "matrix_cell list \<Rightarrow> (string \<times> nat) list" where
  "wanted_map plan = fold (\<lambda>(i, mc) m. mput m (plan_key mc) i) (enumerate 0 plan) []"

text \<open>The loop over the earlier document's cells, with the inherited cells by plan index and the
  reasons for those left behind.\<close>

fun resume_loop ::
  "(string \<times> nat) list \<Rightarrow> string \<Rightarrow> string \<Rightarrow> validation_cell list
   \<Rightarrow> (nat \<times> validation_cell) list \<Rightarrow> string list
   \<Rightarrow> matrix_error + (nat \<times> validation_cell) list \<times> string list" where
  "resume_loop wanted dir arch [] byIdx ns = Inr (byIdx, ns)"
| "resume_loop wanted dir arch (c # cs) byIdx ns =
     (if arch \<noteq> '''' \<and> Arch c \<noteq> '''' \<and> Arch c \<noteq> arch
      then Inl (ForeignArch (prior_key c) (results_path dir) (Arch c) arch)
      else if \<not> matrixCellIsFinal c
      then resume_loop wanted dir arch cs byIdx (ns @ [prior_key c @ '': recorded with no requests and no property verdict (mid-flight when the previous run ended) -- re-run, not inherited''])
      else case map_of wanted (prior_key c) of
        None \<Rightarrow> resume_loop wanted dir arch cs byIdx (ns @ [prior_key c @ '': final in the previous run but not in this run's plan -- dropped, not inherited''])
      | Some idx \<Rightarrow>
          if idx \<in> fst ` set byIdx
          then resume_loop wanted dir arch cs byIdx (ns @ [prior_key c @ '': listed more than once in the previous document -- inherited once''])
          else resume_loop wanted dir arch cs (mput byIdx idx (c\<lparr>ResumedFrom := dir\<rparr>)) ns)"

definition planResume ::
  "(path \<Rightarrow> string + string) \<Rightarrow> (string \<Rightarrow> string + validation_results option)
   \<Rightarrow> matrix_cell list \<Rightarrow> string \<Rightarrow> string \<Rightarrow> matrix_error + matrix_cell list \<times> resume_merge" where
  "planResume readFile unmarshal plan dir arch = (case loadResumeDoc readFile unmarshal dir of
     Inl e \<Rightarrow> Inl e
   | Inr doc \<Rightarrow> (case resume_loop (wanted_map plan) dir arch (vr_Cells doc) [] [] of
       Inl e \<Rightarrow> Inl e
     | Inr (byIdx, ns) \<Rightarrow> Inr
         (map snd (filter (\<lambda>(i, mc). i \<notin> fst ` set byIdx) (enumerate 0 plan)),
          \<lparr>rm_From = dir,
           rm_Inherited = map (\<lambda>i. the (map_of byIdx i)) (sort (map fst byIdx)),
           rm_NotInherited = sort ns,
           rm_PriorStartedAt = vr_StartedAt doc, rm_PriorFinishedAt = vr_FinishedAt doc\<rparr>)))"


section \<open>A resume splits the plan\<close>

text \<open>The first entry of the earlier document that makes a planned cell final.\<close>

definition final_entry :: "validation_cell list \<Rightarrow> string \<Rightarrow> validation_cell option" where
  "final_entry cs k = find (\<lambda>c. prior_key c = k \<and> matrixCellIsFinal c) cs"

lemma wanted_map_of:
  assumes "distinct (map plan_key plan)"
  shows "map_of (wanted_map plan) k = Some i \<longleftrightarrow> i < length plan \<and> plan_key (plan ! i) = k"
proof -
  have gen: "map_of (fold (\<lambda>(i, mc) m. mput m (plan_key mc) i) (enumerate n mcs) m) k = Some i \<longleftrightarrow>
      (\<exists>j<length mcs. plan_key (mcs ! j) = k \<and> i = n + j)
      \<or> (k \<notin> plan_key ` set mcs \<and> map_of m k = Some i)"
    if "distinct (map plan_key mcs)" for n m mcs
    using that
  proof (induction mcs arbitrary: n m)
    case (Cons mc mcs)
    have ex: "(\<exists>j<length (mc # mcs). plan_key ((mc # mcs) ! j) = k \<and> i = n + j) \<longleftrightarrow>
        plan_key mc = k \<and> i = n \<or> (\<exists>j<length mcs. plan_key (mcs ! j) = k \<and> i = Suc n + j)"
      by (auto simp: less_Suc_eq_0_disj)
    have none: "k \<notin> plan_key ` set mcs \<Longrightarrow> \<not> (\<exists>j<length mcs. plan_key (mcs ! j) = k \<and> i = Suc n + j)"
      by (metis image_eqI nth_mem)
    show ?case using Cons none unfolding ex by auto
  qed simp
  show ?thesis unfolding wanted_map_def using gen [OF assms, of 0 "[]"] by auto
qed

lemma wanted_map_None:
  assumes "distinct (map plan_key plan)"
  shows "map_of (wanted_map plan) k = None \<longleftrightarrow> k \<notin> plan_key ` set plan"
proof -
  have "map_of (wanted_map plan) k \<noteq> None \<longleftrightarrow> (\<exists>i<length plan. plan_key (plan ! i) = k)"
    using wanted_map_of [OF assms, of k] by auto
  then show ?thesis by (metis image_iff in_set_conv_nth)
qed

text \<open>What the loop has collected: the earlier binding, or the first final entry for the key.\<close>

lemma resume_loop_map:
  assumes "distinct (map plan_key plan)"
    and "resume_loop (wanted_map plan) dir arch cs byIdx ns = Inr (byIdx', ns')"
  shows "map_of byIdx' i = (case map_of byIdx i of Some c \<Rightarrow> Some c
    | None \<Rightarrow> if i < length plan
              then map_option (\<lambda>c. c\<lparr>ResumedFrom := dir\<rparr>) (final_entry cs (plan_key (plan ! i))) else None)"
  using assms(2)
proof (induction cs arbitrary: byIdx ns)
  case (Cons c cs)
  note wm = wanted_map_of [OF assms(1), of "prior_key c"]
  show ?case
  proof (cases "matrixCellIsFinal c")
    case False
    then have "final_entry (c # cs) k = final_entry cs k" for k by (simp add: final_entry_def)
    then show ?thesis using Cons False by (auto split: if_splits option.splits)
  next
    case True
    show ?thesis
    proof (cases "map_of (wanted_map plan) (prior_key c)")
      case None
      then have "i < length plan \<Longrightarrow> final_entry (c # cs) (plan_key (plan ! i)) = final_entry cs (plan_key (plan ! i))"
        using wanted_map_None [OF assms(1)] by (auto simp: final_entry_def)
      then show ?thesis using Cons True None by (auto split: if_splits option.splits)
    next
      case (Some idx)
      then have idx: "idx < length plan" "plan_key (plan ! idx) = prior_key c" using wm by blast+
      then have other: "final_entry (c # cs) (plan_key (plan ! i)) = final_entry cs (plan_key (plan ! i))"
        if "i < length plan" "i \<noteq> idx" using that assms(1)
        by (auto simp: final_entry_def distinct_conv_nth)
      have self: "final_entry (c # cs) (plan_key (plan ! idx)) = Some c"
        using idx True by (simp add: final_entry_def)
      show ?thesis
      proof (cases "idx \<in> fst ` set byIdx")
        case mem: True
        then obtain y where y: "map_of byIdx idx = Some y" by (metis map_of_eq_None_iff not_None_eq)
        have "\<exists>ns0. resume_loop (wanted_map plan) dir arch cs byIdx ns0 = Inr (byIdx', ns')"
          using Cons.prems \<open>matrixCellIsFinal c\<close> Some mem by (auto split: if_splits)
        then have IH: "map_of byIdx' i = (case map_of byIdx i of Some c \<Rightarrow> Some c
          | None \<Rightarrow> if i < length plan then map_option (\<lambda>c. c\<lparr>ResumedFrom := dir\<rparr>)
              (final_entry cs (plan_key (plan ! i))) else None)"
          using Cons.IH by blast
        show ?thesis unfolding IH using y other by (cases "i = idx") (simp_all split: option.splits)
      next
        case False
        then have "map_of byIdx idx = None" by (metis map_of_eq_None_iff)
        moreover have "resume_loop (wanted_map plan) dir arch cs (mput byIdx idx (c\<lparr>ResumedFrom := dir\<rparr>)) ns
            = Inr (byIdx', ns')"
          using Cons.prems \<open>matrixCellIsFinal c\<close> Some False by (simp split: if_splits)
        ultimately have none: "map_of byIdx idx = None" and IH: "map_of byIdx' i =
          (case map_of (mput byIdx idx (c\<lparr>ResumedFrom := dir\<rparr>)) i of Some c \<Rightarrow> Some c
           | None \<Rightarrow> if i < length plan then map_option (\<lambda>c. c\<lparr>ResumedFrom := dir\<rparr>)
               (final_entry cs (plan_key (plan ! i))) else None)"
          using Cons.IH by blast+
        show ?thesis unfolding IH using none idx self other by (cases "i = idx") (simp_all split: option.splits)
      qed
    qed
  qed
qed (simp add: final_entry_def split: option.splits)

lemma resume_loop_distinct:
  "resume_loop wanted dir arch cs byIdx ns = Inr (byIdx', ns') \<Longrightarrow> distinct (map fst byIdx)
   \<Longrightarrow> distinct (map fst byIdx')"
  by (induction wanted dir arch cs byIdx ns rule: resume_loop.induct)
    (auto split: if_splits option.splits simp: distinct_mput)

lemma enumerate_nth: "enumerate 0 xs = map (\<lambda>i. (i, xs ! i)) [0..<length xs]"
  by (rule nth_equalityI) (simp_all add: nth_enumerate_eq)

lemma filter_indices: "map (\<lambda>i. xs ! i) (filter (\<lambda>i. P (xs ! i)) [0..<length xs]) = filter P xs"
proof -
  have "filter P (map (\<lambda>i. xs ! i) [0..<length xs]) = map (\<lambda>i. xs ! i) (filter (\<lambda>i. P (xs ! i)) [0..<length xs])"
    by (simp add: filter_map comp_def)
  then show ?thesis by (simp add: map_nth)
qed

lemma sorted_keys_filter:
  assumes "distinct (map fst m)" and "\<forall>i. map_of m i \<noteq> None \<longrightarrow> i < n"
  shows "sort (map fst m) = filter (\<lambda>i. map_of m i \<noteq> None) [0..<n]"
proof (rule sorted_distinct_set_unique)
  show "set (sort (map fst m)) = set (filter (\<lambda>i. map_of m i \<noteq> None) [0..<n])"
    using assms(2) by (auto simp: map_of_eq_None_iff)
  show "sorted (filter (\<lambda>i. map_of m i \<noteq> None) [0..<n])" by (rule sorted_wrt_filter) simp
qed (use assms in simp_all)

text \<open>The result of a resume by reference: what is inherited and what remains, in plan order.\<close>

definition resumed :: "string \<Rightarrow> validation_cell list \<Rightarrow> matrix_cell \<Rightarrow> validation_cell option" where
  "resumed dir cs mc = map_option (\<lambda>c. c\<lparr>ResumedFrom := dir\<rparr>) (final_entry cs (plan_key mc))"

text \<open>The cells a resume leaves to run, as a function of the earlier document's cells.\<close>

definition resume_remaining :: "string \<Rightarrow> string \<Rightarrow> validation_cell list \<Rightarrow> matrix_cell list \<Rightarrow> matrix_cell list" where
  "resume_remaining dir arch cs plan = (case resume_loop (wanted_map plan) dir arch cs [] [] of
     Inl _ \<Rightarrow> [] | Inr (byIdx, ns) \<Rightarrow> map snd (filter (\<lambda>(i, mc). i \<notin> fst ` set byIdx) (enumerate 0 plan)))"

lemma resume_loop_resumed:
  assumes "distinct (map plan_key plan)"
    and "resume_loop (wanted_map plan) dir arch cs [] [] = Inr (byIdx, ns)"
  shows "map_of byIdx i = (if i < length plan then resumed dir cs (plan ! i) else None)"
  using resume_loop_map [OF assms] by (simp add: resumed_def)

lemma resume_remaining_filter:
  assumes "distinct (map plan_key plan)"
    and "resume_loop (wanted_map plan) dir arch cs [] [] = Inr (byIdx, ns)"
  shows "resume_remaining dir arch cs plan = filter (\<lambda>mc. final_entry cs (plan_key mc) = None) plan"
proof -
  have mem: "i \<in> fst ` set byIdx \<longleftrightarrow> map_of byIdx i \<noteq> None" for i
    by (simp add: map_of_eq_None_iff)
  have "resume_remaining dir arch cs plan = map (\<lambda>i. plan ! i) (filter (\<lambda>i. map_of byIdx i = None) [0..<length plan])"
    unfolding resume_remaining_def assms(2) enumerate_nth by (simp add: filter_map comp_def mem)
  also have "filter (\<lambda>i. map_of byIdx i = None) [0..<length plan] =
      filter (\<lambda>i. resumed dir cs (plan ! i) = None) [0..<length plan]"
    by (rule filter_cong) (simp_all add: resume_loop_resumed [OF assms])
  finally show ?thesis
    unfolding filter_indices [where P = "\<lambda>mc. resumed dir cs mc = None"] by (simp add: resumed_def)
qed

lemma planResume_split:
  assumes dist: "distinct (map plan_key plan)"
    and load: "loadResumeDoc readFile unmarshal dir = Inr doc"
    and res: "planResume readFile unmarshal plan dir arch = Inr (remaining, merge)"
  shows "remaining = filter (\<lambda>mc. final_entry (vr_Cells doc) (plan_key mc) = None) plan"
    and "rm_Inherited merge = List.map_filter (resumed dir (vr_Cells doc)) plan"
proof -
  obtain byIdx ns where loop: "resume_loop (wanted_map plan) dir arch (vr_Cells doc) [] [] = Inr (byIdx, ns)"
    and rem: "remaining = map snd (filter (\<lambda>(i, mc). i \<notin> fst ` set byIdx) (enumerate 0 plan))"
    and inh: "rm_Inherited merge = map (\<lambda>i. the (map_of byIdx i)) (sort (map fst byIdx))"
    using res load by (auto simp: planResume_def split: sum.splits)
  note m = resume_loop_resumed [OF dist loop]
  show "remaining = filter (\<lambda>mc. final_entry (vr_Cells doc) (plan_key mc) = None) plan"
    using resume_remaining_filter [OF dist loop] unfolding rem resume_remaining_def loop by simp
  have "sort (map fst byIdx) = filter (\<lambda>i. map_of byIdx i \<noteq> None) [0..<length plan]"
    by (rule sorted_keys_filter)
      (use resume_loop_distinct [OF loop] m in \<open>auto split: if_splits\<close>)
  also have "\<dots> = filter (\<lambda>i. resumed dir (vr_Cells doc) (plan ! i) \<noteq> None) [0..<length plan]"
    by (rule filter_cong) (simp_all add: m)
  finally have "rm_Inherited merge = map (\<lambda>i. the (resumed dir (vr_Cells doc) (plan ! i)))
      (filter (\<lambda>i. resumed dir (vr_Cells doc) (plan ! i) \<noteq> None) [0..<length plan])"
    unfolding inh by (simp add: m)
  also have "\<dots> = map (\<lambda>mc. the (resumed dir (vr_Cells doc) mc))
      (filter (\<lambda>mc. resumed dir (vr_Cells doc) mc \<noteq> None) plan)"
    unfolding filter_indices [where P = "\<lambda>mc. resumed dir (vr_Cells doc) mc \<noteq> None", symmetric] by simp
  finally show "rm_Inherited merge = List.map_filter (resumed dir (vr_Cells doc)) plan"
    by (simp add: List.map_filter_def comp_def)
qed

lemma length_split:
  "length (filter (\<lambda>x. f x = None) xs) + length (List.map_filter f xs) = length xs"
  by (induction xs) (auto simp: map_filter_simps split: option.splits)

lemma planResume_remaining:
  "loadResumeDoc readFile unmarshal dir = Inr doc \<Longrightarrow>
   planResume readFile unmarshal plan dir arch = Inr (remaining, merge) \<Longrightarrow>
   remaining = resume_remaining dir arch (vr_Cells doc) plan"
  by (auto simp: planResume_def resume_remaining_def split: sum.splits)

interpretation matrix_resume: resumable plan_key "\<lambda>cs k. final_entry cs k \<noteq> None"
  "\<lambda>cs plan. distinct (map plan_key plan) \<and> \<not> isl (resume_loop (wanted_map plan) dir arch cs [] [])"
  "resume_remaining dir arch" for dir arch
proof
  fix cs plan
  assume ok: "distinct (map plan_key plan) \<and> \<not> isl (resume_loop (wanted_map plan) dir arch cs [] [])"
  then obtain byIdx ns where "resume_loop (wanted_map plan) dir arch cs [] [] = Inr (byIdx, ns)"
    by (cases "resume_loop (wanted_map plan) dir arch cs [] []") auto
  then show "resume_remaining dir arch cs plan = filter (\<lambda>mc. \<not> final_entry cs (plan_key mc) \<noteq> None) plan"
    using ok resume_remaining_filter by simp
qed


text \<open>A resume splits the plan exactly. The cells to run again are the planned cells the earlier
  document holds no final entry for; the inherited ones are, in plan order and once each, the first
  final entry of each other planned cell, unchanged but for the mark of where it comes from; and no
  cell of the plan is lost: the two parts together have as many cells as the plan.\<close>

theorem planResume_partitions:
  assumes "distinct (map plan_key plan)" and "loadResumeDoc readFile unmarshal dir = Inr doc"
    and "planResume readFile unmarshal plan dir arch = Inr (remaining, merge)"
  shows "remaining = filter (\<lambda>mc. final_entry (vr_Cells doc) (plan_key mc) = None) plan
    \<and> rm_Inherited merge = List.map_filter (resumed dir (vr_Cells doc)) plan
    \<and> length remaining + length (rm_Inherited merge) = length plan"
proof -
  have "filter (\<lambda>mc. final_entry (vr_Cells doc) (plan_key mc) = None) plan =
      filter (\<lambda>mc. resumed dir (vr_Cells doc) mc = None) plan"
    by (simp add: resumed_def)
  then show ?thesis
    using planResume_split [OF assms] length_split [of "resumed dir (vr_Cells doc)" plan] by simp
qed

definition sample_plan :: "matrix_cell list" where
  "sample_plan = [\<lparr>mc_Refapp = ''r'', mc_Engine = ''e''\<rparr>, \<lparr>mc_Refapp = ''s'', mc_Engine = ''e''\<rparr>]"

definition sample_doc :: validation_results where
  "sample_doc = \<lparr>vr_StartedAt = 1, vr_FinishedAt = 2, vr_PropertiesPassed = 0, vr_PropertiesFailed = 0,
     vr_FailureSummaries = [], vr_FaultInjectionSeed = '''', vr_Tier1 = None, vr_Tier3 = None,
     vr_Cells = [sample_cell, sample_cell\<lparr>Refapp := ''s'', Tier1 := None\<rparr>], vr_Resume = None\<rparr>"

abbreviation "sample_read \<equiv> \<lambda>_ :: path. (Inr '''' :: string + string)"
abbreviation "sample_unmarshal \<equiv> \<lambda>_ :: string. (Inr (Some sample_doc) :: string + validation_results option)"

theorem planResume_partitions_witness:
  "\<exists>merge. planResume sample_read sample_unmarshal sample_plan ''d'' ''a'' = Inr ([sample_plan ! 1], merge)
    \<and> rm_Inherited merge = List.map_filter (resumed ''d'' (vr_Cells sample_doc)) sample_plan
    \<and> rm_Inherited merge = [sample_cell\<lparr>ResumedFrom := ''d''\<rparr>]"
proof -
  have dist: "distinct (map plan_key sample_plan)" by code_simp
  have load: "loadResumeDoc sample_read sample_unmarshal ''d'' = Inr sample_doc" by (simp add: loadResumeDoc_def)
  obtain p where p: "planResume sample_read sample_unmarshal sample_plan ''d'' ''a'' = Inr ([sample_plan ! 1], p)"
    and "rm_Inherited p = [sample_cell\<lparr>ResumedFrom := ''d''\<rparr>]"
  proof -
    have "(case planResume sample_read sample_unmarshal sample_plan ''d'' ''a'' of
        Inl _ \<Rightarrow> False | Inr (r, p) \<Rightarrow> r = [sample_plan ! 1] \<and> rm_Inherited p = [sample_cell\<lparr>ResumedFrom := ''d''\<rparr>])"
      by code_simp
    then show ?thesis using that by (auto split: sum.splits)
  qed
  then show ?thesis using planResume_partitions [OF dist load p] by blast
qed


section \<open>What makes a resume fail\<close>

definition foreign_arch :: "string \<Rightarrow> validation_cell \<Rightarrow> bool" where
  "foreign_arch arch c \<longleftrightarrow> arch \<noteq> '''' \<and> Arch c \<noteq> '''' \<and> Arch c \<noteq> arch"

lemma resume_loop_error:
  "resume_loop wanted dir arch cs byIdx ns = Inl e \<longleftrightarrow>
     (\<exists>c. find (foreign_arch arch) cs = Some c \<and> e = ForeignArch (prior_key c) (results_path dir) (Arch c) arch)"
proof (induction cs arbitrary: byIdx ns)
  case (Cons c cs)
  show ?case
  proof (cases "foreign_arch arch c")
    case True
    then have "resume_loop wanted dir arch (c # cs) byIdx ns =
        Inl (ForeignArch (prior_key c) (results_path dir) (Arch c) arch)"
      by (simp add: foreign_arch_def)
    with True show ?thesis by auto
  next
    case False
    then have eq: "(arch \<noteq> '''' \<and> Arch c \<noteq> '''' \<and> Arch c \<noteq> arch) = False"
      unfolding foreign_arch_def by blast
    have "\<exists>byIdx' ns'. resume_loop wanted dir arch (c # cs) byIdx ns = resume_loop wanted dir arch cs byIdx' ns'"
      unfolding resume_loop.simps eq if_False
      by (cases "matrixCellIsFinal c"; cases "map_of wanted (prior_key c)") (simp_all split: if_split, blast+)
    then obtain byIdx' ns' where
      "resume_loop wanted dir arch (c # cs) byIdx ns = resume_loop wanted dir arch cs byIdx' ns'"
      by blast
    then show ?thesis using Cons.IH False by (simp only: find.simps if_False)
  qed
qed simp

text \<open>A resume fails for exactly two reasons: the earlier document could not be read, decoded or is
  not a validation document, or it holds a cell of another arch, and then the error names the first
  such cell. In no other case, whatever the document says, is the resume refused.\<close>

theorem planResume_errors:
  "planResume readFile unmarshal plan dir arch = Inl e \<longleftrightarrow>
     loadResumeDoc readFile unmarshal dir = Inl e
     \<or> (\<exists>doc c. loadResumeDoc readFile unmarshal dir = Inr doc
          \<and> find (foreign_arch arch) (vr_Cells doc) = Some c
          \<and> e = ForeignArch (prior_key c) (results_path dir) (Arch c) arch)"
proof (cases "loadResumeDoc readFile unmarshal dir")
  case (Inr doc)
  have "planResume readFile unmarshal plan dir arch = Inl e \<longleftrightarrow>
      resume_loop (wanted_map plan) dir arch (vr_Cells doc) [] [] = Inl e"
    by (simp add: planResume_def Inr split: sum.splits)
  then show ?thesis unfolding resume_loop_error using Inr by simp
qed (simp add: planResume_def)


section \<open>The plan of a full run\<close>

lemma distinct_product_keys:
  assumes "distinct rs" and "distinct es" and "\<forall>r\<in>set rs. CHR ''/'' \<notin> set r"
  shows "distinct (map plan_key (concat (map (\<lambda>r. map (\<lambda>e. \<lparr>mc_Refapp = r, mc_Engine = e\<rparr>) es) rs)))"
  using assms
proof (induction rs)
  case (Cons r rs)
  have "distinct (map plan_key (map (\<lambda>e. \<lparr>mc_Refapp = r, mc_Engine = e\<rparr>) es))"
    using Cons.prems by (simp add: plan_key_def distinct_map inj_on_def)
  moreover have "x \<notin> plan_key ` set (concat (map (\<lambda>r. map (\<lambda>e. \<lparr>mc_Refapp = r, mc_Engine = e\<rparr>) es) rs))"
    if x: "x \<in> set (map plan_key (map (\<lambda>e. \<lparr>mc_Refapp = r, mc_Engine = e\<rparr>) es))" for x
  proof
    assume "x \<in> plan_key ` set (concat (map (\<lambda>r. map (\<lambda>e. \<lparr>mc_Refapp = r, mc_Engine = e\<rparr>) es) rs))"
    then obtain r' e' where "r' \<in> set rs" "x = r' @ CHR ''/'' # e'"
      by (auto simp: plan_key_def)
    moreover obtain e where "x = r @ CHR ''/'' # e" using x by (auto simp: plan_key_def)
    ultimately have "r' = r" using Cons.prems(3) append_sep_eq [of "CHR ''/''" r' r e' e] by auto
    then show False using Cons.prems(1) \<open>r' \<in> set rs\<close> by simp
  qed
  ultimately show ?case using Cons by (simp only: list.map concat.simps map_append distinct_append
      distinct.simps list.set ball_simps) auto
qed simp

text \<open>With every refapp selected on a Linux host that has the source tree, the plan is the product of
  the directories under the refapp root that hold a main.go, sorted, and the four engines in their
  fixed order; every (refapp, engine) pair is planned once and the keys the resume matches on are
  distinct.\<close>

theorem full_matrix_plan:
  assumes "fs [refappRoot m] = Some (NDir (Some names))" and "distinct names"
    and "\<forall>n\<in>set names. CHR ''/'' \<notin> set n"
    and "Refapps m = ''all''" and "Engines m = ''auto''"
    and "refapps = filter (\<lambda>n. is_dir (fs [refappRoot m, n]) \<and> fs [refappRoot m, n, ''main.go''] \<noteq> None) names"
    and "refapps \<noteq> []"
  shows "resolveMatrixPlan fs ''linux'' m = Inr (concat (map (\<lambda>r. map (\<lambda>e. \<lparr>mc_Refapp = r, mc_Engine = e\<rparr>)
       [''iouring'', ''epoll'', ''std'', ''adaptive'']) (sort refapps)))
    \<and> distinct (map plan_key (concat (map (\<lambda>r. map (\<lambda>e. \<lparr>mc_Refapp = r, mc_Engine = e\<rparr>)
       [''iouring'', ''epoll'', ''std'', ''adaptive'']) (sort refapps))))"
proof
  have disc: "discoverRefapps fs (refappRoot m) = Inr (sort refapps)"
    using assms(1,6) by (simp add: discoverRefapps_def read_dir_def filter_sort sort_key_id_if_sorted)
  have ne: "sort refapps \<noteq> []" using assms(7) by (metis sort_key_simps(1) set_sort set_empty)
  then have all: "all_refapps fs m = Inr (sort refapps)"
    unfolding all_refapps_def Let_def disc by (simp split: list.splits)
  have trims: "trim_space ''all'' = ''all''" "trim_space ''auto'' = ''auto''" by code_simp+
  have engines: "expandEngines ''linux'' ''auto'' = [''iouring'', ''epoll'', ''std'', ''adaptive'']" by code_simp
  show "resolveMatrixPlan fs ''linux'' m = Inr (concat (map (\<lambda>r. map (\<lambda>e. \<lparr>mc_Refapp = r, mc_Engine = e\<rparr>)
       [''iouring'', ''epoll'', ''std'', ''adaptive'']) (sort refapps)))"
    unfolding resolveMatrixPlan_def Let_def assms(4,5) trims
    by (simp add: all engines sort_key_id_if_sorted)
  show "distinct (map plan_key (concat (map (\<lambda>r. map (\<lambda>e. \<lparr>mc_Refapp = r, mc_Engine = e\<rparr>)
       [''iouring'', ''epoll'', ''std'', ''adaptive'']) (sort refapps))))"
    by (rule distinct_product_keys) (use assms in simp_all)
qed

definition sample_fs :: fs where
  "sample_fs p = (if p = [''R''] then Some (NDir (Some [''b'', ''x'', ''a'']))
     else if p = [''R'', ''a''] \<or> p = [''R'', ''b''] \<or> p = [''R'', ''x''] then Some (NDir (Some []))
     else if p = [''R'', ''a'', ''main.go''] \<or> p = [''R'', ''b'', ''main.go''] then Some (NFile False)
     else None)"

definition sample_matrix :: matrix_config where
  "sample_matrix = \<lparr>SeedServices = '''', Enabled = True, ResumeFrom = '''', Refapps = ''all'',
     Engines = ''auto'', RefappRoot = ''R'', BinDir = ''''\<rparr>"

theorem full_matrix_plan_witness:
  "resolveMatrixPlan sample_fs ''linux'' sample_matrix =
     Inr (concat (map (\<lambda>r. map (\<lambda>e. \<lparr>mc_Refapp = r, mc_Engine = e\<rparr>)
       [''iouring'', ''epoll'', ''std'', ''adaptive'']) [''a'', ''b'']))"
proof -
  have root: "refappRoot sample_matrix = ''R''" by (simp add: refappRoot_def sample_matrix_def)
  have dir: "sample_fs [''R''] = Some (NDir (Some [''b'', ''x'', ''a'']))" by (simp add: sample_fs_def)
  have found: "[''b'', ''a''] = filter (\<lambda>n. is_dir (sample_fs [''R'', n]) \<and> sample_fs [''R'', n, ''main.go''] \<noteq> None)
      [''b'', ''x'', ''a'']"
    by (simp add: sample_fs_def is_dir_def)
  have order: "sort [''b'', ''a''] = [''a'', ''b'']" by code_simp
  have "resolveMatrixPlan sample_fs ''linux'' sample_matrix =
      Inr (concat (map (\<lambda>r. map (\<lambda>e. \<lparr>mc_Refapp = r, mc_Engine = e\<rparr>)
       [''iouring'', ''epoll'', ''std'', ''adaptive'']) (sort [''b'', ''a''])))"
    by (rule full_matrix_plan [where m = sample_matrix and fs = sample_fs and names = "[''b'', ''x'', ''a'']",
          unfolded root, OF dir _ _ _ _ found, THEN conjunct1])
      (simp_all add: sample_matrix_def)
  then show ?thesis unfolding order .
qed

end
