(* ===== verification/MatrixRun.thy ===== *)
theory MatrixRun
  imports MatrixPlan
begin

text \<open>
  The loop that executes a matrix plan, \<open>src/cmd/validator/matrix_run.go\<close>, with the document it
  writes (\<open>buildMatrixDoc\<close> of \<open>resume.go\<close>).

  What the loop asks of the outside at iteration \<open>i\<close> is the record \<open>matrix_env\<close>: whether the drain
  file is there, whether the staging directory can be read, what the cell returned (the code has
  this as the field \<open>runCell\<close>), whether the partial document could be written, and whether the run
  was cancelled. An error is its text with the answers to the two \<open>errors.Is\<close> questions the code
  asks. The reason for stopping early is the value of its format arguments.

  The lemmas give the loop by the number of cells it attempted, bound the failures it can
  accumulate, characterise the exit status, show that failures scoped to one engine or one refapp
  do not stop a run, and that a run interrupted anywhere and resumed reports every planned cell
  exactly once.
\<close>


section \<open>Outcomes\<close>

record go_error =
  ge_text :: string
  ge_fatal :: bool
  ge_enospc :: bool

definition fatalDriverError :: "string \<Rightarrow> go_error" where
  "fatalDriverError why = \<lparr>ge_text = ''fatal: remote driver unavailable: '' @ why, ge_fatal = True, ge_enospc = False\<rparr>"

definition fatalStagingError :: "string \<Rightarrow> string \<Rightarrow> go_error" where
  "fatalStagingError dir err = \<lparr>ge_text = ''fatal: refapp staging dir '' @ dir @ '' is unreadable: '' @ err,
     ge_fatal = True, ge_enospc = False\<rparr>"

definition fatalCause :: "go_error option \<Rightarrow> string option" where
  "fatalCause err = (case err of
     None \<Rightarrow> None
   | Some e \<Rightarrow> if ge_fatal e then Some (ge_text e)
               else if ge_enospc e then Some (''fatal: out of disk space: '' @ ge_text e)
               else None)"

definition defaultMaxConsecutiveFailures :: int where "defaultMaxConsecutiveFailures = 8"

definition resolveFailureCaps :: "string \<Rightarrow> string \<Rightarrow> int \<Rightarrow> int \<times> int" where
  "resolveFailureCaps consecutiveEnv totalEnv planLen =
     (let consecutive = (case atoi (trim_space consecutiveEnv) of
            Some v \<Rightarrow> if consecutiveEnv \<noteq> '''' then v else defaultMaxConsecutiveFailures
          | None \<Rightarrow> defaultMaxConsecutiveFailures);
          half = quot planLen 2;
          tot = (if half < defaultMaxConsecutiveFailures then defaultMaxConsecutiveFailures else half);
          tot = (case atoi (trim_space totalEnv) of
            Some v \<Rightarrow> if totalEnv \<noteq> '''' then v else tot | None \<Rightarrow> tot)
      in (consecutive, tot))"

text \<open>The one-line form of a driver message.\<close>

definition cellFailureReason :: "string \<Rightarrow> string" where
  "cellFailureReason msg =
     (let flat = join (words_of [] msg) '' ''
      in if length flat > 300 then take 300 flat @ ''...'' else flat)"

record ledger_entry =
  o_cell :: matrix_cell
  o_idx :: nat
  o_status :: string
  o_reason :: string
  o_dir :: string

definition o_name :: "ledger_entry \<Rightarrow> string" where
  "o_name e = mc_Refapp (o_cell e) @ ''/'' @ mc_Engine (o_cell e)"

definition classifyCell :: "matrix_cell \<Rightarrow> nat \<Rightarrow> validation_cell \<Rightarrow> go_error option \<Rightarrow> ledger_entry" where
  "classifyCell mc idx cell err =
     (let out = (\<lambda>status reason. \<lparr>o_cell = mc, o_idx = idx, o_status = status, o_reason = reason,
                                   o_dir = cellOutDirName idx mc\<rparr>);
          did_run = matrixCellIsFinal cell
      in case err of
           None \<Rightarrow> if did_run then out ValidationCellOK ''''
                   else out ValidationCellNotRun ''cell produced no requests and no property verdicts''
         | Some e \<Rightarrow> if did_run then out ValidationCellFailed (ge_text e)
                     else out ValidationCellNotRun (ge_text e))"

definition badCells :: "ledger_entry list \<Rightarrow> ledger_entry list" where
  "badCells ledger = filter (\<lambda>e. o_status e \<noteq> ValidationCellOK) ledger"

definition countByStatus :: "ledger_entry list \<Rightarrow> nat \<times> nat" where
  "countByStatus ledger =
     (length (filter (\<lambda>e. o_status e = ValidationCellFailed) ledger),
      length (filter (\<lambda>e. o_status e = ValidationCellNotRun) ledger))"


section \<open>The loop\<close>

record validator_config =
  vc_Target :: string
  vc_Arch :: string
  vc_OutDir :: string

record matrix_env =
  env_drain :: "nat \<Rightarrow> bool"
  env_staging :: "nat \<Rightarrow> string option"
  env_runCell :: "matrix_cell \<Rightarrow> nat \<Rightarrow> validation_cell \<times> go_error option"
  env_persist :: "nat \<Rightarrow> go_error option"
  env_cancelled :: "nat \<Rightarrow> bool"

datatype abort_reason =
    DrainRequested nat
  | StagingLost go_error nat
  | FatalCell string nat
  | FatalPersist string nat
  | RunCancelled
  | ConsecutiveCap int int nat
  | TotalCap int nat int nat

record loop_state =
  ls_cells :: "validation_cell list"
  ls_ledger :: "ledger_entry list"
  ls_attempted :: nat
  ls_consecutive :: int
  ls_failures :: int
  ls_fatal :: "go_error option"
  ls_abort :: "abort_reason option"

record matrix_runner =
  mr_plan :: "matrix_cell list"
  mr_maxConsecutive :: int
  mr_maxTotal :: int
  mr_stagingDir :: string
  mr_resume :: "resume_merge option"

text \<open>One iteration: the checks before the cell, the cell and its record, the checks after it.
  A reason to stop is left in \<open>ls_abort\<close>.\<close>

definition staging_error :: "matrix_runner \<Rightarrow> matrix_env \<Rightarrow> nat \<Rightarrow> go_error option" where
  "staging_error r env i =
     (if mr_stagingDir r = '''' then None
      else map_option (fatalStagingError (mr_stagingDir r)) (env_staging env i))"

definition after_cell ::
  "matrix_runner \<Rightarrow> matrix_env \<Rightarrow> nat \<Rightarrow> go_error option \<Rightarrow> ledger_entry \<Rightarrow> loop_state \<Rightarrow> loop_state" where
  "after_cell r env i err out s =
     (let unrun = length (mr_plan r) - i - 1
      in case fatalCause err of
           Some why \<Rightarrow> s\<lparr>ls_fatal := err, ls_abort := Some (FatalCell why unrun)\<rparr>
         | None \<Rightarrow> (case fatalCause (env_persist env i) of
             Some why \<Rightarrow> s\<lparr>ls_fatal := env_persist env i, ls_abort := Some (FatalPersist why unrun)\<rparr>
           | None \<Rightarrow>
               if env_cancelled env i then s\<lparr>ls_abort := Some RunCancelled\<rparr>
               else if o_status out = ValidationCellOK then s\<lparr>ls_consecutive := 0\<rparr>
               else let s = s\<lparr>ls_consecutive := ls_consecutive s + 1, ls_failures := ls_failures s + 1\<rparr>
                    in if mr_maxConsecutive r > 0 \<and> ls_consecutive s \<ge> mr_maxConsecutive r
                       then s\<lparr>ls_abort := Some (ConsecutiveCap (ls_consecutive s) (mr_maxConsecutive r) unrun)\<rparr>
                       else if mr_maxTotal r > 0 \<and> ls_failures s \<ge> mr_maxTotal r
                       then s\<lparr>ls_abort := Some (TotalCap (ls_failures s) (length (mr_plan r)) (mr_maxTotal r) unrun)\<rparr>
                       else s))"

definition loop_body :: "matrix_runner \<Rightarrow> matrix_env \<Rightarrow> nat \<Rightarrow> matrix_cell \<Rightarrow> loop_state \<Rightarrow> loop_state" where
  "loop_body r env i mc s =
     (let left = length (mr_plan r) - i
      in if env_drain env i then s\<lparr>ls_abort := Some (DrainRequested left)\<rparr>
         else case staging_error r env i of
           Some e \<Rightarrow> s\<lparr>ls_fatal := Some e, ls_abort := Some (StagingLost e left)\<rparr>
         | None \<Rightarrow>
             (let (cell, err) = env_runCell env mc i;
                  out = classifyCell mc i cell err;
                  cell = cell\<lparr>Status := o_status out, FailureReason := o_reason out\<rparr>
              in after_cell r env i err out
                   (s\<lparr>ls_cells := ls_cells s @ [cell], ls_ledger := ls_ledger s @ [out],
                      ls_attempted := ls_attempted s + 1\<rparr>)))"

fun run_loop :: "matrix_runner \<Rightarrow> matrix_env \<Rightarrow> nat \<Rightarrow> matrix_cell list \<Rightarrow> loop_state \<Rightarrow> loop_state" where
  "run_loop r env i [] s = s"
| "run_loop r env i (mc # mcs) s =
     (let s' = loop_body r env i mc s
      in if ls_abort s' \<noteq> None then s' else run_loop r env (Suc i) mcs s')"

definition init_loop :: "matrix_runner \<Rightarrow> loop_state" where
  "init_loop r = \<lparr>ls_cells = inherited_cells (mr_resume r), ls_ledger = [], ls_attempted = 0,
     ls_consecutive = 0, ls_failures = 0, ls_fatal = None, ls_abort = None\<rparr>"

definition resolve_caps :: "string \<Rightarrow> string \<Rightarrow> matrix_runner \<Rightarrow> matrix_runner" where
  "resolve_caps consecutiveEnv totalEnv r =
     (if mr_maxConsecutive r = 0 \<or> mr_maxTotal r = 0 then
        (let (c, t) = resolveFailureCaps consecutiveEnv totalEnv (int (length (mr_plan r)))
         in r\<lparr>mr_maxConsecutive := (if mr_maxConsecutive r = 0 then c else mr_maxConsecutive r),
              mr_maxTotal := (if mr_maxTotal r = 0 then t else mr_maxTotal r)\<rparr>)
      else r)"

definition matrix_run :: "matrix_runner \<Rightarrow> matrix_env \<Rightarrow> loop_state" where
  "matrix_run r env = run_loop r env 0 (mr_plan r) (init_loop r)"


section \<open>The document and the exit status\<close>

definition SchemaVersion :: string where "SchemaVersion = ''5.24''"

record matrix_doc =
  md_SchemaVersion :: string
  md_HostArchPair :: string
  md_Validation :: validation_results

definition buildMatrixDoc ::
  "validator_config \<Rightarrow> int \<Rightarrow> int \<Rightarrow> validation_cell list \<Rightarrow> resume_merge option \<Rightarrow> matrix_doc" where
  "buildMatrixDoc cfg startedAt now cells resume =
     \<lparr>md_SchemaVersion = SchemaVersion, md_HostArchPair = vc_Target cfg @ ''-'' @ vc_Arch cfg,
      md_Validation = \<lparr>vr_StartedAt = startedAt, vr_FinishedAt = now,
        vr_PropertiesPassed = fold (\<lambda>c n. wrap64 (n + PropertiesPassed c)) cells 0,
        vr_PropertiesFailed = fold (\<lambda>c n. wrap64 (n + PropertiesFailed c)) cells 0,
        vr_FailureSummaries = fold (\<lambda>c m. fold (\<lambda>(ident, msg) m.
            mput m (Refapp c @ ''/'' @ Engine c @ ''/'' @ ident) msg) (FailureSummaries c) m) cells [],
        vr_FaultInjectionSeed = '''', vr_Tier1 = None, vr_Tier3 = None, vr_Cells = cells,
        vr_Resume = provenance resume (int (length cells) - int (length (inherited_cells resume)))\<rparr>\<rparr>"

definition inheritedBad :: "resume_merge option \<Rightarrow> validation_cell list" where
  "inheritedBad resume = filter (\<lambda>c. Status c \<noteq> '''' \<and> Status c \<noteq> ValidationCellOK) (inherited_cells resume)"

datatype exit_clause =
    CellsDidNotPass nat nat nat nat "string list" path
  | InheritedDidNotPass nat string "string list"
  | FatalStop go_error
  | WriteFailed go_error

text \<open>\<open>errors.Join\<close> drops the nil errors; no clause is the nil error.\<close>

definition exitError ::
  "validator_config \<Rightarrow> matrix_runner \<Rightarrow> loop_state \<Rightarrow> go_error option \<Rightarrow> exit_clause list" where
  "exitError cfg r s writeErr =
     (let bad = badCells (ls_ledger s);
          inh = inheritedBad (mr_resume r);
          inheritedErr = (if inh = [] then [] else [InheritedDidNotPass (length inh)
            (case mr_resume r of Some m \<Rightarrow> rm_From m | None \<Rightarrow> '''')
            (map (\<lambda>c. Refapp c @ ''/'' @ Engine c @ '' ('' @ Status c @ '')'') inh)]);
          fatal = (case ls_fatal s of None \<Rightarrow> [] | Some e \<Rightarrow> [FatalStop e]);
          (failed, notRun) = countByStatus bad
      in if bad \<noteq> [] then
           CellsDidNotPass (length bad) (ls_attempted s) failed notRun (map o_name bad)
             [vc_OutDir cfg, ''cell-failures.txt''] # inheritedErr @ fatal
         else if inheritedErr \<noteq> [] then inheritedErr @ fatal
         else if fatal \<noteq> [] then fatal
         else case writeErr of None \<Rightarrow> [] | Some e \<Rightarrow> [WriteFailed e])"


section \<open>What a run records\<close>

definition outcome :: "matrix_env \<Rightarrow> nat \<times> matrix_cell \<Rightarrow> ledger_entry" where
  "outcome env = (\<lambda>(i, mc). classifyCell mc i (fst (env_runCell env mc i)) (snd (env_runCell env mc i)))"

definition recorded :: "matrix_env \<Rightarrow> nat \<times> matrix_cell \<Rightarrow> validation_cell" where
  "recorded env x = (fst (env_runCell env (snd x) (fst x)))
     \<lparr>Status := o_status (outcome env x), FailureReason := o_reason (outcome env x)\<rparr>"

text \<open>One more cell in the books.\<close>

definition book :: "matrix_env \<Rightarrow> nat \<times> matrix_cell \<Rightarrow> loop_state \<Rightarrow> loop_state" where
  "book env x s = s\<lparr>ls_cells := ls_cells s @ [recorded env x], ls_ledger := ls_ledger s @ [outcome env x],
     ls_attempted := ls_attempted s + 1\<rparr>"

lemma after_cell_keeps [simp]:
  "ls_cells (after_cell r env i err out s) = ls_cells s"
  "ls_ledger (after_cell r env i err out s) = ls_ledger s"
  "ls_attempted (after_cell r env i err out s) = ls_attempted s"
  by (simp_all add: after_cell_def Let_def split: option.splits)

text \<open>What the loop body does before the checks on the cell's outcome.\<close>

lemma loop_body_cases:
  obtains (stop) "ls_abort (loop_body r env i mc s) \<noteq> None"
      and "env_drain env i \<or> staging_error r env i \<noteq> None"
      and "ls_cells (loop_body r env i mc s) = ls_cells s" and "ls_ledger (loop_body r env i mc s) = ls_ledger s"
      and "ls_attempted (loop_body r env i mc s) = ls_attempted s"
  | (ran) "\<not> env_drain env i" and "staging_error r env i = None"
      and "loop_body r env i mc s = after_cell r env i (snd (env_runCell env mc i)) (outcome env (i, mc)) (book env (i, mc) s)"
proof (cases "env_drain env i")
  case True
  then show ?thesis by (intro stop) (simp_all add: loop_body_def)
next
  case False
  show ?thesis
  proof (cases "staging_error r env i")
    case None
    with False show ?thesis
      by (intro ran) (simp_all add: loop_body_def book_def recorded_def outcome_def split_beta Let_def)
  next
    case (Some e)
    with False show ?thesis by (intro stop) (simp_all add: loop_body_def)
  qed
qed

lemma run_loop_shape:
  obtains n where "n \<le> length mcs"
    and "ls_cells (run_loop r env i mcs s) = ls_cells s @ map (recorded env) (enumerate i (take n mcs))"
    and "ls_ledger (run_loop r env i mcs s) = ls_ledger s @ map (outcome env) (enumerate i (take n mcs))"
    and "ls_attempted (run_loop r env i mcs s) = ls_attempted s + n"
    and "ls_abort s = None \<Longrightarrow> ls_abort (run_loop r env i mcs s) = None \<Longrightarrow> n = length mcs"
proof (induction mcs arbitrary: i s thesis)
  case Nil
  then show ?case by simp
next
  case (Cons mc mcs)
  let ?s = "loop_body r env i mc s"
  show ?case
  proof (rule loop_body_cases [of r env i mc s])
    assume stop: "ls_abort ?s \<noteq> None" "ls_cells ?s = ls_cells s" "ls_ledger ?s = ls_ledger s"
      "ls_attempted ?s = ls_attempted s"
    then show ?thesis by (intro Cons.prems [of 0]) simp_all
  next
    assume ran: "?s = after_cell r env i (snd (env_runCell env mc i)) (outcome env (i, mc)) (book env (i, mc) s)"
    then have rec: "ls_cells ?s = ls_cells s @ [recorded env (i, mc)]" "ls_ledger ?s = ls_ledger s @ [outcome env (i, mc)]"
      "ls_attempted ?s = ls_attempted s + 1"
      by (simp_all add: book_def)
    show ?thesis
    proof (cases "ls_abort ?s = None")
      case False
      with rec show ?thesis by (intro Cons.prems [of 1]) (simp_all add: Let_def)
    next
      case True
      then have eq: "run_loop r env i (mc # mcs) s = run_loop r env (Suc i) mcs ?s" by simp
      show ?thesis
        by (rule Cons.IH [of "Suc i" ?s], rule Cons.prems [of "Suc _"])
          (use True rec in \<open>simp_all add: eq del: run_loop.simps\<close>)
    qed
  qed
qed

lemma matrix_run_shape:
  "\<exists>n \<le> length (mr_plan r). ls_attempted (matrix_run r env) = n
    \<and> ls_cells (matrix_run r env) = inherited_cells (mr_resume r) @ map (recorded env) (enumerate 0 (take n (mr_plan r)))
    \<and> ls_ledger (matrix_run r env) = map (outcome env) (enumerate 0 (take n (mr_plan r)))
    \<and> (ls_abort (matrix_run r env) = None \<longrightarrow> n = length (mr_plan r))"
  unfolding matrix_run_def
  by (rule run_loop_shape [of "mr_plan r" r env 0 "init_loop r"]) (auto simp: init_loop_def)

text \<open>Whatever happens to a matrix run, its document holds the inherited cells followed by exactly the
  cells it attempted, which are an initial part of the plan in plan order, each as its run returned
  it and stamped with its verdict; the ledger has the same cells; and the run attempted the whole
  plan unless it has a reason for stopping.\<close>

theorem matrix_run_records:
  "\<exists>n \<le> length (mr_plan r). ls_attempted (matrix_run r env) = n
    \<and> ls_cells (matrix_run r env) = inherited_cells (mr_resume r) @ map (recorded env) (enumerate 0 (take n (mr_plan r)))
    \<and> ls_ledger (matrix_run r env) = map (outcome env) (enumerate 0 (take n (mr_plan r)))
    \<and> (ls_abort (matrix_run r env) = None \<longrightarrow> n = length (mr_plan r))"
  by (rule matrix_run_shape)

definition sample_runner :: matrix_runner where
  "sample_runner = \<lparr>mr_plan = sample_plan, mr_maxConsecutive = 2, mr_maxTotal = 2, mr_stagingDir = '''',
     mr_resume = None\<rparr>"

definition sample_env :: matrix_env where
  "sample_env = \<lparr>env_drain = (\<lambda>i. False), env_staging = (\<lambda>i. None),
     env_runCell = (\<lambda>mc i. (sample_cell\<lparr>Refapp := mc_Refapp mc, Engine := mc_Engine mc\<rparr>,
        if i = 0 then Some \<lparr>ge_text = ''boom'', ge_fatal = False, ge_enospc = False\<rparr> else None)),
     env_persist = (\<lambda>i. None), env_cancelled = (\<lambda>i. False)\<rparr>"

lemma sample_run_abort: "ls_abort (matrix_run sample_runner sample_env) = None"
  by code_simp

theorem matrix_run_records_witness:
  "ls_attempted (matrix_run sample_runner sample_env) = 2
   \<and> ls_ledger (matrix_run sample_runner sample_env) = map (outcome sample_env) (enumerate 0 sample_plan)"
proof -
  have "mr_plan sample_runner = sample_plan" "length sample_plan = 2"
    by (simp_all add: sample_runner_def sample_plan_def)
  then show ?thesis using matrix_run_records [of sample_runner sample_env] sample_run_abort by auto
qed


section \<open>The failure caps\<close>

definition bad :: "ledger_entry \<Rightarrow> bool" where
  "bad e \<longleftrightarrow> o_status e \<noteq> ValidationCellOK"

text \<open>The bad outcomes at the end of a ledger, and the runs of bad outcomes anywhere in it.\<close>

definition trailing :: "ledger_entry list \<Rightarrow> nat" where
  "trailing L = length (takeWhile bad (rev L))"

definition runs_within :: "int \<Rightarrow> ledger_entry list \<Rightarrow> bool" where
  "runs_within m L \<longleftrightarrow> (\<forall>us bs vs. L = us @ bs @ vs \<and> list_all bad bs \<longrightarrow> int (length bs) \<le> m)"

definition counted :: "loop_state \<Rightarrow> bool" where
  "counted s \<longleftrightarrow> ls_consecutive s = int (trailing (ls_ledger s))
     \<and> ls_failures s = int (length (filter bad (ls_ledger s)))"

lemma trailing_append: "trailing (L @ [e]) = (if bad e then Suc (trailing L) else 0)"
  by (simp add: trailing_def)

lemma suffix_trailing:
  assumes "L = us @ bs" and "list_all bad bs"
  shows "length bs \<le> trailing L"
proof -
  have "takeWhile bad (rev bs @ rev us) = rev bs @ takeWhile bad (rev us)"
    using assms(2) by (intro takeWhile_append2) (simp add: list_all_iff)
  then show ?thesis by (simp add: assms(1) trailing_def)
qed

lemma trailing_run: "\<exists>us bs. L = us @ bs \<and> list_all bad bs \<and> length bs = trailing L"
proof (intro exI conjI)
  show "L = rev (dropWhile bad (rev L)) @ rev (takeWhile bad (rev L))"
    by (metis rev_append rev_rev_ident takeWhile_dropWhile_id)
  show "list_all bad (rev (takeWhile bad (rev L)))" by (auto simp: list_all_iff dest: set_takeWhileD)
qed (simp add: trailing_def)

lemma runs_within_append:
  assumes "runs_within m L" and "bad e \<Longrightarrow> int (trailing L) + 1 \<le> m" and "0 \<le> m"
  shows "runs_within m (L @ [e])"
  unfolding runs_within_def
proof (intro allI impI)
  fix us bs vs
  assume *: "L @ [e] = us @ bs @ vs \<and> list_all bad bs"
  show "int (length bs) \<le> m"
  proof (cases vs rule: rev_cases)
    case (snoc vs' v)
    then have "L = us @ bs @ vs'" using * by simp
    then show ?thesis using assms(1) * unfolding runs_within_def by blast
  next
    case Nil
    show ?thesis
    proof (cases bs rule: rev_cases)
      case (snoc bs' b)
      with * Nil have "L = us @ bs'" "b = e" by simp_all
      moreover have "list_all bad bs'" "bad b" using * snoc by simp_all
      ultimately show ?thesis using suffix_trailing [of L us bs'] assms(2) snoc by simp
    qed (use assms(3) in simp)
  qed
qed

lemma runs_within_trailing: "runs_within m L \<Longrightarrow> int (trailing L) \<le> m"
  using trailing_run [of L] unfolding runs_within_def by (metis append_Nil2)

lemma runs_within_mono: "runs_within m L \<Longrightarrow> m \<le> m' \<Longrightarrow> runs_within m' L"
  unfolding runs_within_def by force

text \<open>The invariant of the loop: the counters count the ledger, and as long as the run has not
  stopped both are below their caps.\<close>

definition below_caps :: "matrix_runner \<Rightarrow> loop_state \<Rightarrow> bool" where
  "below_caps r s \<longleftrightarrow> counted s
     \<and> (0 < mr_maxTotal r \<longrightarrow> ls_failures s < mr_maxTotal r)
     \<and> (0 < mr_maxConsecutive r \<longrightarrow> runs_within (mr_maxConsecutive r - 1) (ls_ledger s))"

definition within_caps :: "matrix_runner \<Rightarrow> loop_state \<Rightarrow> bool" where
  "within_caps r s \<longleftrightarrow>
     (0 < mr_maxTotal r \<longrightarrow> int (length (filter bad (ls_ledger s))) \<le> mr_maxTotal r)
     \<and> (0 < mr_maxConsecutive r \<longrightarrow> runs_within (mr_maxConsecutive r) (ls_ledger s))"

lemma below_within: "below_caps r s \<Longrightarrow> within_caps r s"
  by (auto simp: below_caps_def within_caps_def counted_def intro: runs_within_mono)

lemma book_within:
  assumes "below_caps r s"
  shows "within_caps r (book env x s)"
proof -
  have "runs_within (mr_maxConsecutive r) (ls_ledger s @ [outcome env x])" if pos: "0 < mr_maxConsecutive r"
  proof (rule runs_within_append)
    have r: "runs_within (mr_maxConsecutive r - 1) (ls_ledger s)"
      using assms pos by (simp add: below_caps_def)
    then show "runs_within (mr_maxConsecutive r) (ls_ledger s)" by (rule runs_within_mono) simp
    show "int (trailing (ls_ledger s)) + 1 \<le> mr_maxConsecutive r" using runs_within_trailing [OF r] by simp
  qed (use pos in simp)
  then show ?thesis using assms by (auto simp: within_caps_def below_caps_def counted_def book_def)
qed

lemma within_caps_cong: "ls_ledger s = ls_ledger s' \<Longrightarrow> within_caps r s = within_caps r s'"
  by (simp add: within_caps_def)

lemma after_cell_below:
  assumes "below_caps r s" and "ls_abort (after_cell r env i err (outcome env x) (book env x s)) = None"
  shows "below_caps r (after_cell r env i err (outcome env x) (book env x s))"
proof -
  let ?s = "after_cell r env i err (outcome env x) (book env x s)"
  have led: "ls_ledger ?s = ls_ledger s @ [outcome env x]" by (simp add: book_def)
  show ?thesis
  proof (cases "bad (outcome env x)")
    case False
    have "ls_consecutive ?s = 0" "ls_failures ?s = ls_failures s"
      using assms(2) False
      by (simp_all add: after_cell_def book_def bad_def Let_def split: option.splits if_splits)
    moreover have "runs_within (mr_maxConsecutive r - 1) (ls_ledger s @ [outcome env x])" if "0 < mr_maxConsecutive r"
      by (rule runs_within_append) (use assms(1) False that in \<open>auto simp: below_caps_def\<close>)
    ultimately show ?thesis using assms(1) False unfolding below_caps_def counted_def led
      by (auto simp: trailing_append)
  next
    case True
    have cnt: "ls_consecutive ?s = ls_consecutive s + 1" "ls_failures ?s = ls_failures s + 1"
      and caps: "0 < mr_maxConsecutive r \<longrightarrow> ls_consecutive s + 1 < mr_maxConsecutive r"
        "0 < mr_maxTotal r \<longrightarrow> ls_failures s + 1 < mr_maxTotal r"
      using assms(2) True
      by (auto simp: after_cell_def book_def bad_def Let_def split: option.splits if_splits)
    have "runs_within (mr_maxConsecutive r - 1) (ls_ledger s @ [outcome env x])" if "0 < mr_maxConsecutive r"
      by (rule runs_within_append) (use assms(1) caps that in \<open>auto simp: below_caps_def counted_def\<close>)
    then show ?thesis using assms(1) True caps unfolding below_caps_def counted_def led cnt
      by (simp add: trailing_append)
  qed
qed

lemma run_loop_caps:
  "below_caps r s \<Longrightarrow> ls_abort s = None \<Longrightarrow> within_caps r (run_loop r env i mcs s)"
proof (induction mcs arbitrary: i s)
  case Nil
  then show ?case by (simp add: below_within)
next
  case (Cons mc mcs)
  let ?s = "loop_body r env i mc s"
  show ?case
  proof (rule loop_body_cases [of r env i mc s])
    assume "ls_abort ?s \<noteq> None" "ls_ledger ?s = ls_ledger s"
    then show ?thesis using below_within [OF Cons.prems(1)] within_caps_cong [of ?s s] by simp
  next
    assume ran: "?s = after_cell r env i (snd (env_runCell env mc i)) (outcome env (i, mc)) (book env (i, mc) s)"
    show ?thesis
    proof (cases "ls_abort ?s = None")
      case True
      have "below_caps r ?s"
        using after_cell_below [OF Cons.prems(1)] True unfolding ran by blast
      then show ?thesis using Cons.IH True by simp
    next
      case False
      have "ls_ledger ?s = ls_ledger (book env (i, mc) s)" by (simp add: ran)
      then show ?thesis
        using False book_within [OF Cons.prems(1), of env "(i, mc)"]
          within_caps_cong [of ?s "book env (i, mc) s" r] by simp
    qed
  qed
qed

lemma init_below: "below_caps r (init_loop r)"
  by (simp add: below_caps_def counted_def init_loop_def trailing_def runs_within_def)

text \<open>The failure caps bound the damage of a matrix that fails wholesale: with a positive total cap at
  most that many cells of the ledger did not pass, and with a positive consecutive cap no longer
  run of consecutive cells did not, whatever the cells and the environment do.\<close>

theorem failure_caps_bound:
  assumes "0 < mr_maxTotal r" and "0 < mr_maxConsecutive r"
  shows "int (length (badCells (ls_ledger (matrix_run r env)))) \<le> mr_maxTotal r
    \<and> (\<forall>us bs vs. ls_ledger (matrix_run r env) = us @ bs @ vs \<and> list_all bad bs \<longrightarrow>
         int (length bs) \<le> mr_maxConsecutive r)"
proof -
  have "within_caps r (matrix_run r env)"
    unfolding matrix_run_def by (rule run_loop_caps [OF init_below]) (simp add: init_loop_def)
  then show ?thesis
    using assms unfolding within_caps_def runs_within_def badCells_def bad_def by blast
qed

theorem failure_caps_bound_witness:
  "int (length (badCells (ls_ledger (matrix_run sample_runner sample_env)))) \<le> 2"
  using failure_caps_bound [of sample_runner sample_env] by (simp add: sample_runner_def)


section \<open>Runs that complete\<close>

text \<open>Nothing outside the cells' verdicts gives the run a reason to stop.\<close>

definition quiet :: "matrix_runner \<Rightarrow> matrix_env \<Rightarrow> bool" where
  "quiet r env \<longleftrightarrow> (\<forall>i<length (mr_plan r). \<not> env_drain env i \<and> staging_error r env i = None
     \<and> fatalCause (snd (env_runCell env (mr_plan r ! i) i)) = None
     \<and> fatalCause (env_persist env i) = None \<and> \<not> env_cancelled env i)"

definition verdicts :: "matrix_runner \<Rightarrow> matrix_env \<Rightarrow> ledger_entry list" where
  "verdicts r env = map (outcome env) (enumerate 0 (mr_plan r))"

lemma runs_within_prefix: "runs_within m (L @ M) \<Longrightarrow> runs_within m L"
proof -
  assume r: "runs_within m (L @ M)"
  have "int (length bs) \<le> m" if "L = us @ bs @ vs" "list_all bad bs" for us bs vs
    using r that unfolding runs_within_def by (metis append.assoc)
  then show ?thesis unfolding runs_within_def by blast
qed

lemma quiet_step:
  assumes "quiet r env" and "i < length (mr_plan r)" and "mc = mr_plan r ! i" and "below_caps r s"
    and "ls_abort s = None"
    and "0 < mr_maxTotal r \<longrightarrow> int (length (filter bad (ls_ledger s @ [outcome env (i, mc)]))) < mr_maxTotal r"
    and "0 < mr_maxConsecutive r \<longrightarrow> runs_within (mr_maxConsecutive r - 1) (ls_ledger s @ [outcome env (i, mc)])"
  shows "ls_abort (loop_body r env i mc s) = None"
    and "ls_ledger (loop_body r env i mc s) = ls_ledger s @ [outcome env (i, mc)]"
    and "below_caps r (loop_body r env i mc s)"
proof -
  let ?after = "after_cell r env i (snd (env_runCell env mc i)) (outcome env (i, mc)) (book env (i, mc) s)"
  have q: "\<not> env_drain env i" "staging_error r env i = None" "fatalCause (snd (env_runCell env mc i)) = None"
    "fatalCause (env_persist env i) = None" "\<not> env_cancelled env i"
    using assms(1) [unfolded quiet_def, rule_format, OF assms(2)] unfolding assms(3) by simp_all
  have eq: "loop_body r env i mc s = ?after"
    using q by (cases rule: loop_body_cases [of r env i mc s]) simp_all
  have cnt: "ls_consecutive s = int (trailing (ls_ledger s))" "ls_failures s = int (length (filter bad (ls_ledger s)))"
    using assms(4) by (simp_all add: below_caps_def counted_def)
  have con: "ls_consecutive s + 1 < mr_maxConsecutive r" if "bad (outcome env (i, mc))" "0 < mr_maxConsecutive r"
    using runs_within_trailing [of "mr_maxConsecutive r - 1" "ls_ledger s @ [outcome env (i, mc)]"] assms(7) that
    by (simp add: trailing_append cnt)
  have tot: "ls_failures s + 1 < mr_maxTotal r" if "bad (outcome env (i, mc))" "0 < mr_maxTotal r"
    using assms(6) that by (simp add: cnt)
  show abort: "ls_abort (loop_body r env i mc s) = None"
  proof (cases "bad (outcome env (i, mc))")
    case True
    then show ?thesis unfolding eq using q assms(5) con [OF True] tot [OF True]
      by (fastforce simp: after_cell_def book_def bad_def Let_def)
  next
    case False
    then show ?thesis unfolding eq using q assms(5) by (simp add: after_cell_def book_def bad_def)
  qed
  show "ls_ledger (loop_body r env i mc s) = ls_ledger s @ [outcome env (i, mc)]"
    unfolding eq by (simp add: book_def)
  show "below_caps r (loop_body r env i mc s)"
    using after_cell_below [OF assms(4)] abort unfolding eq by blast
qed

lemma quiet_run:
  assumes "quiet r env"
    and tot: "0 < mr_maxTotal r \<longrightarrow> int (length (filter bad (verdicts r env))) < mr_maxTotal r"
    and con: "0 < mr_maxConsecutive r \<longrightarrow> runs_within (mr_maxConsecutive r - 1) (verdicts r env)"
    and "mr_plan r = pre @ mcs" and "i = length pre"
    and "ls_ledger s = map (outcome env) (enumerate 0 pre)" and "below_caps r s" and "ls_abort s = None"
  shows "ls_abort (run_loop r env i mcs s) = None"
  using assms(4-)
proof (induction mcs arbitrary: pre i s)
  case (Cons mc mcs)
  let ?e = "outcome env (i, mc)"
  have split: "verdicts r env = (ls_ledger s @ [?e]) @ map (outcome env) (enumerate (Suc i) mcs)"
    using Cons.prems by (simp add: verdicts_def enumerate_append_eq)
  have i: "i < length (mr_plan r)" "mc = mr_plan r ! i" using Cons.prems by simp_all
  have "int (length (filter bad (ls_ledger s @ [?e]))) \<le> int (length (filter bad (verdicts r env)))"
    unfolding split by simp
  then have t: "0 < mr_maxTotal r \<longrightarrow> int (length (filter bad (ls_ledger s @ [?e]))) < mr_maxTotal r"
    using tot by linarith
  have c: "0 < mr_maxConsecutive r \<longrightarrow> runs_within (mr_maxConsecutive r - 1) (ls_ledger s @ [?e])"
    using con unfolding split by (blast intro: runs_within_prefix)
  note step = quiet_step [OF assms(1) i Cons.prems(4,5) t c]
  have "ls_abort (run_loop r env (Suc i) mcs (loop_body r env i mc s)) = None"
    by (rule Cons.IH [of "pre @ [mc]"]) (use Cons.prems step in \<open>simp_all add: enumerate_append_eq\<close>)
  then show ?case using step(1) by simp
qed simp

lemma matrix_run_quiet:
  assumes "quiet r env"
    and "0 < mr_maxTotal r \<longrightarrow> int (length (filter bad (verdicts r env))) < mr_maxTotal r"
    and "0 < mr_maxConsecutive r \<longrightarrow> runs_within (mr_maxConsecutive r - 1) (verdicts r env)"
  shows "ls_abort (matrix_run r env) = None"
  unfolding matrix_run_def
  by (rule quiet_run [OF assms, of "[]"]) (simp_all add: init_below, simp_all add: init_loop_def)

text \<open>The plan of a full matrix: refapps outer, engines inner.\<close>

definition product_plan :: "string list \<Rightarrow> string list \<Rightarrow> matrix_cell list" where
  "product_plan rs es = concat (map (\<lambda>r. map (\<lambda>e. \<lparr>mc_Refapp = r, mc_Engine = e\<rparr>) es) rs)"

lemma length_product_plan [simp]: "length (product_plan rs es) = length rs * length es"
  by (induction rs) (simp_all add: product_plan_def)

lemma product_plan_engine:
  assumes "i < length (product_plan rs es)"
  shows "mc_Engine (product_plan rs es ! i) = es ! (i mod length es)"
proof -
  have "product_plan rs es = map (\<lambda>(r, e). \<lparr>mc_Refapp = r, mc_Engine = e\<rparr>) (List.product rs es)"
    by (induction rs) (simp_all add: product_plan_def comp_def)
  then show ?thesis using assms by (simp add: product_nth)
qed

lemma product_plan_count:
  "distinct es \<Longrightarrow> length (filter (\<lambda>mc. mc_Engine mc = e) (product_plan rs es)) \<le> length rs"
proof (induction rs)
  case (Cons r rs)
  have "length (filter (\<lambda>mc. mc_Engine mc = e) (map (\<lambda>e. \<lparr>mc_Refapp = r, mc_Engine = e\<rparr>) es)) \<le> 1"
    using Cons.prems by (induction es) (auto simp: filter_empty_conv)
  then show ?case using Cons by (simp add: product_plan_def)
qed (simp add: product_plan_def)

lemma engine_runs:
  assumes "mr_plan r = product_plan rs es" and "distinct es" and "2 \<le> length es"
    and "\<forall>i<length (mr_plan r). bad (outcome env (i, mr_plan r ! i)) \<longrightarrow> mc_Engine (mr_plan r ! i) = e"
  shows "runs_within 1 (verdicts r env)"
  unfolding runs_within_def
proof (intro allI impI)
  fix us bs vs
  assume v: "verdicts r env = us @ bs @ vs \<and> list_all bad bs"
  have nth: "verdicts r env ! j = outcome env (j, mr_plan r ! j)" if "j < length (mr_plan r)" for j
    using that by (simp add: verdicts_def nth_enumerate_eq)
  have len: "length (verdicts r env) = length (mr_plan r)" by (simp add: verdicts_def)
  have eng: "es ! (j mod length es) = e" if "length us \<le> j" "j < length us + length bs" for j
  proof -
    have j: "j < length (mr_plan r)" using that v len by simp
    have "verdicts r env ! j = bs ! (j - length us)" using v that by (simp add: nth_append)
    moreover have "bad (bs ! (j - length us))" using v that by (simp add: list_all_length)
    ultimately have "bad (outcome env (j, mr_plan r ! j))" using nth [OF j] by simp
    then show ?thesis using assms(1,4) j product_plan_engine [of j rs es] by simp
  qed
  show "int (length bs) \<le> 1"
  proof (rule ccontr)
    assume "\<not> int (length bs) \<le> 1"
    then have more: "1 < length bs" by simp
    have pos: "0 < length es" using assms(3) by linarith
    from more have "es ! (length us mod length es) = es ! (Suc (length us) mod length es)"
      using eng [of "length us"] eng [of "Suc (length us)"] by force
    moreover have "length us mod length es < length es" "Suc (length us) mod length es < length es"
      by (intro mod_less_divisor pos)+
    ultimately have "length us mod length es = Suc (length us) mod length es"
      using nth_eq_iff_index_eq [OF assms(2)] by blast
    then show False using assms(3) by (auto simp: mod_Suc split: if_splits)
  qed
qed

text \<open>A defect scoped to one engine never costs the other cells their run: on a full matrix over
  the four engines with the default caps, when the only cells that do not pass are cells of one
  engine and nothing outside the cells stops the run, the run attempts the whole plan.\<close>

theorem engine_defect_completes:
  assumes "mr_plan r = product_plan rs [''iouring'', ''epoll'', ''std'', ''adaptive'']"
    and "(mr_maxConsecutive r, mr_maxTotal r) = resolveFailureCaps '''' '''' (int (length (mr_plan r)))"
    and "quiet r env"
    and "\<forall>i<length (mr_plan r). bad (outcome env (i, mr_plan r ! i)) \<longrightarrow> mc_Engine (mr_plan r ! i) = e"
  shows "ls_abort (matrix_run r env) = None \<and> ls_attempted (matrix_run r env) = length (mr_plan r)"
proof -
  let ?es = "[''iouring'', ''epoll'', ''std'', ''adaptive'']"
  have "atoi (trim_space '''') = None" by code_simp
  then have caps: "mr_maxConsecutive r = 8" "mr_maxTotal r = (if 2 * int (length rs) < 8 then 8 else 2 * int (length rs))"
    using assms(2) assms(1) by (simp_all add: resolveFailureCaps_def defaultMaxConsecutiveFailures_def quot_nonneg Let_def)
  have "runs_within 1 (verdicts r env)" by (rule engine_runs [OF assms(1) _ _ assms(4)]) simp_all
  then have c: "runs_within (mr_maxConsecutive r - 1) (verdicts r env)" by (rule runs_within_mono) (simp add: caps)
  have "length (filter bad (verdicts r env)) = length (filter (\<lambda>i. bad (outcome env (i, mr_plan r ! i))) [0..<length (mr_plan r)])"
    by (simp add: verdicts_def enumerate_nth filter_map comp_def)
  also have "\<dots> \<le> length (filter (\<lambda>i. mc_Engine (mr_plan r ! i) = e) [0..<length (mr_plan r)])"
    unfolding length_filter_conv_card by (rule card_mono) (use assms(4) in auto)
  also have "\<dots> = length (filter (\<lambda>mc. mc_Engine mc = e) (mr_plan r))"
    unfolding filter_indices [of "mr_plan r" "\<lambda>mc. mc_Engine mc = e", symmetric] by simp
  also have "\<dots> \<le> length rs" unfolding assms(1) by (rule product_plan_count) simp
  finally have "ls_abort (matrix_run r env) = None"
    by (intro matrix_run_quiet [OF assms(3)]) (use c caps in auto)
  then show ?thesis using matrix_run_shape [of r env] by auto
qed

definition sample_full_runner :: matrix_runner where
  "sample_full_runner = \<lparr>mr_plan = product_plan [''r''] [''iouring'', ''epoll'', ''std'', ''adaptive''],
     mr_maxConsecutive = 8, mr_maxTotal = 8, mr_stagingDir = '''', mr_resume = None\<rparr>"

definition sample_adaptive_env :: matrix_env where
  "sample_adaptive_env = sample_env\<lparr>env_runCell := (\<lambda>mc i. (sample_cell\<lparr>Refapp := mc_Refapp mc, Engine := mc_Engine mc\<rparr>,
     if mc_Engine mc = ''adaptive'' then Some \<lparr>ge_text = ''boom'', ge_fatal = False, ge_enospc = False\<rparr> else None))\<rparr>"

theorem engine_defect_completes_witness:
  "ls_attempted (matrix_run sample_full_runner sample_adaptive_env) = 4
   \<and> badCells (ls_ledger (matrix_run sample_full_runner sample_adaptive_env)) \<noteq> []"
proof -
  have bad: "badCells (ls_ledger (matrix_run sample_full_runner sample_adaptive_env)) \<noteq> []" by code_simp
  have len: "length (mr_plan sample_full_runner) = 4" by code_simp
  have "ls_abort (matrix_run sample_full_runner sample_adaptive_env) = None
      \<and> ls_attempted (matrix_run sample_full_runner sample_adaptive_env) = length (mr_plan sample_full_runner)"
  proof (rule engine_defect_completes [where rs = "[''r'']" and e = "''adaptive''"])
    show "mr_plan sample_full_runner = product_plan [''r''] [''iouring'', ''epoll'', ''std'', ''adaptive'']"
      by (simp add: sample_full_runner_def)
    show "(mr_maxConsecutive sample_full_runner, mr_maxTotal sample_full_runner) =
        resolveFailureCaps '''' '''' (int (length (mr_plan sample_full_runner)))"
      by code_simp
    show "quiet sample_full_runner sample_adaptive_env"
      by (simp add: quiet_def staging_error_def sample_full_runner_def sample_adaptive_env_def sample_env_def fatalCause_def)
    show "\<forall>i<length (mr_plan sample_full_runner). bad (outcome sample_adaptive_env (i, mr_plan sample_full_runner ! i)) \<longrightarrow>
        mc_Engine (mr_plan sample_full_runner ! i) = ''adaptive''"
      by code_simp
  qed
  with bad len show ?thesis by simp
qed


section \<open>The exit status\<close>

lemma exitError_nil:
  "exitError cfg r s writeErr = [] \<longleftrightarrow>
     badCells (ls_ledger s) = [] \<and> inheritedBad (mr_resume r) = [] \<and> ls_fatal s = None \<and> writeErr = None"
  by (cases "ls_fatal s"; cases writeErr) (simp_all add: exitError_def Let_def split_beta)

text \<open>C5: the process exits without an error exactly when every attempted cell ran and passed, no inherited
  cell is recorded as not passing, nothing fatal stopped the run and the document was written.
  Then each cell of the ledger has evidence and its run returned no error. A run that was drained
  or cancelled can still exit without an error; the gate's cell count is what fails it.\<close>

theorem exit_nil_iff:
  "exitError cfg r (matrix_run r env) writeErr = [] \<longleftrightarrow>
     (\<forall>i<ls_attempted (matrix_run r env).
        matrixCellIsFinal (fst (env_runCell env (mr_plan r ! i) i)) \<and> snd (env_runCell env (mr_plan r ! i) i) = None)
     \<and> (\<forall>c\<in>set (inherited_cells (mr_resume r)). Status c = '''' \<or> Status c = ValidationCellOK)
     \<and> ls_fatal (matrix_run r env) = None \<and> writeErr = None"
proof -
  obtain n where n: "n \<le> length (mr_plan r)" "ls_attempted (matrix_run r env) = n"
    "ls_ledger (matrix_run r env) = map (outcome env) (enumerate 0 (take n (mr_plan r)))"
    using matrix_run_shape [of r env] by blast
  have nb: "\<not> bad (outcome env (i, mc)) \<longleftrightarrow> matrixCellIsFinal (fst (env_runCell env mc i)) \<and> snd (env_runCell env mc i) = None"
    for i mc
    by (auto simp: bad_def outcome_def classifyCell_def Let_def ValidationCellOK_def ValidationCellFailed_def
        ValidationCellNotRun_def split: option.splits if_splits)
  have "badCells (ls_ledger (matrix_run r env)) = [] \<longleftrightarrow> (\<forall>i<n. \<not> bad (outcome env (i, mr_plan r ! i)))"
    unfolding n(3) badCells_def enumerate_nth using n(1)
    by (auto simp: filter_empty_conv bad_def)
  moreover have "inheritedBad (mr_resume r) = [] \<longleftrightarrow>
      (\<forall>c\<in>set (inherited_cells (mr_resume r)). Status c = '''' \<or> Status c = ValidationCellOK)"
    by (auto simp: inheritedBad_def filter_empty_conv)
  ultimately show ?thesis unfolding exitError_nil nb n(2) by blast
qed

theorem exit_nil_iff_witness:
  "exitError \<lparr>vc_Target = ''t'', vc_Arch = ''a'', vc_OutDir = ''o''\<rparr> sample_runner (matrix_run sample_runner sample_env) None \<noteq> []"
proof -
  have "\<not> (\<forall>i<ls_attempted (matrix_run sample_runner sample_env).
      matrixCellIsFinal (fst (env_runCell sample_env (mr_plan sample_runner ! i) i))
      \<and> snd (env_runCell sample_env (mr_plan sample_runner ! i) i) = None)"
    by code_simp
  then show ?thesis unfolding exit_nil_iff by blast
qed


section \<open>Interrupt and resume\<close>

text \<open>A cell's run reports the cell it was asked to run.\<close>

definition faithful_env :: "string \<Rightarrow> matrix_env \<Rightarrow> bool" where
  "faithful_env arch env \<longleftrightarrow> (\<forall>mc i. Refapp (fst (env_runCell env mc i)) = mc_Refapp mc
     \<and> Engine (fst (env_runCell env mc i)) = mc_Engine mc \<and> Arch (fst (env_runCell env mc i)) = arch)"

lemma recorded_identity:
  assumes "faithful_env arch env"
  shows "prior_key (recorded env (i, mc)) = plan_key mc" and "Arch (recorded env (i, mc)) = arch"
  using assms by (simp_all add: faithful_env_def recorded_def prior_key_def plan_key_def)

lemma map_recorded:
  assumes "faithful_env arch env"
  shows "map prior_key (map (recorded env) (enumerate i mcs)) = map plan_key mcs"
    and "\<forall>c\<in>set (map (recorded env) (enumerate i mcs)). Arch c = arch"
  by (induction mcs arbitrary: i) (simp_all add: recorded_identity [OF assms])

lemma matrix_run_arch:
  assumes "faithful_env arch env" and "\<forall>c\<in>set (inherited_cells (mr_resume r)). Arch c = arch"
  shows "\<forall>c\<in>set (ls_cells (matrix_run r env)). Arch c = arch"
proof -
  obtain n where "ls_cells (matrix_run r env) = inherited_cells (mr_resume r) @ map (recorded env) (enumerate 0 (take n (mr_plan r)))"
    using matrix_run_shape [of r env] by blast
  then show ?thesis using map_recorded(2) [OF assms(1), of 0 "take n (mr_plan r)"] assms(2) by auto
qed

lemma mset_filter_partition:
  "mset (map f (filter (\<lambda>x. g x \<noteq> None) xs)) + mset (map f (filter (\<lambda>x. g x = None) xs)) = mset (map f xs)"
  by (induction xs) auto

lemma resumed_keys:
  "map prior_key (List.map_filter (resumed dir cs) plan) =
     map plan_key (filter (\<lambda>mc. final_entry cs (plan_key mc) \<noteq> None) plan)"
proof (induction plan)
  case (Cons mc plan)
  have "prior_key c = plan_key mc" if "final_entry cs (plan_key mc) = Some c" for c
    using that by (auto simp: final_entry_def find_Some_iff)
  then show ?case using Cons
    by (cases "final_entry cs (plan_key mc)") (simp_all add: map_filter_simps resumed_def prior_key_def)
qed (simp add: map_filter_simps)

lemma resumed_arch:
  assumes "\<forall>c\<in>set cs. Arch c = arch"
  shows "\<forall>c\<in>set (List.map_filter (resumed dir cs) plan). Arch c = arch"
proof -
  have "Arch c = arch" if "final_entry cs k = Some c" for k c
    using that assms by (auto simp: final_entry_def find_Some_iff)
  then show ?thesis by (auto simp: List.map_filter_def resumed_def)
qed

lemma duplicate_nil_distinct: "distinct (map cell_key cells) \<Longrightarrow> duplicate_cells cells = []"
proof -
  assume "distinct (map cell_key cells)"
  then have "{k \<in> set (map cell_key cells). 1 < count_list (map cell_key cells) k} = {}"
    by (auto simp: distinct_iff_count_mem not_less)
  then have "sort (map fst (filter (\<lambda>(k, n). n > 1) (tally (map cell_key cells)))) = []"
    unfolding set_empty [symmetric] dupes_set .
  then show ?thesis by (simp add: duplicate_cells_def Let_def)
qed

lemma same_arch_distinct:
  assumes "distinct (map prior_key cells)" and "\<forall>c\<in>set cells. Arch c = arch"
  shows "distinct (map cell_key cells)"
proof -
  have "cell_key c = prior_key c @ ''/'' @ arch" if "c \<in> set cells" for c
    using that assms(2) by (simp add: cell_key_def prior_key_def)
  then have "map cell_key cells = map (\<lambda>k. k @ ''/'' @ arch) (map prior_key cells)" by simp
  then show ?thesis using assms(1) by (simp add: distinct_map inj_on_def)
qed

text \<open>The resumed run of a document of this arch.\<close>

lemma resumed_run_covers:
  assumes dist: "distinct (map plan_key plan)" and load: "loadResumeDoc readFile unmarshal dir = Inr doc"
    and arch: "\<forall>c\<in>set (vr_Cells doc). Arch c = arch"
    and res: "planResume readFile unmarshal plan dir arch = Inr (remaining, merge)"
    and env: "faithful_env arch env" and r: "mr_plan r = remaining" "mr_resume r = Some merge"
    and fin: "ls_abort (matrix_run r env) = None"
  shows "mset (map prior_key (ls_cells (matrix_run r env))) = mset (map plan_key plan)"
    and "\<forall>c\<in>set (ls_cells (matrix_run r env)). Arch c = arch"
proof -
  note split = planResume_split [OF dist load res]
  have cells: "ls_cells (matrix_run r env) = List.map_filter (resumed dir (vr_Cells doc)) plan
      @ map (recorded env) (enumerate 0 remaining)"
    using matrix_run_shape [of r env] fin r split(2) by (auto simp: inherited_cells_def)
  have "mset (map prior_key (ls_cells (matrix_run r env))) =
      mset (map plan_key (filter (\<lambda>mc. final_entry (vr_Cells doc) (plan_key mc) \<noteq> None) plan))
      + mset (map plan_key (filter (\<lambda>mc. final_entry (vr_Cells doc) (plan_key mc) = None) plan))"
    unfolding cells map_append mset_append resumed_keys map_recorded(1) [OF env] split(1) ..
  also have "\<dots> = mset (map plan_key plan)" by (rule mset_filter_partition)
  finally show "mset (map prior_key (ls_cells (matrix_run r env))) = mset (map plan_key plan)" .
  show "\<forall>c\<in>set (ls_cells (matrix_run r env)). Arch c = arch"
    unfolding cells using resumed_arch [OF arch] map_recorded(2) [OF env, of 0 remaining] by auto
qed

text \<open>C2: a matrix run interrupted at any point and in any way, and resumed from the document it wrote, ends
  with every planned cell reported exactly once: the resume is accepted, and when the resumed run
  is not itself stopped, the cells of its document are a rearrangement of the plan, so that the
  gate finds neither a missing nor a repeated cell. The interrupted run may itself be a resume.
  The document is assumed to be read back as it was written.\<close>

theorem interrupted_run_resumes:
  assumes "distinct (map plan_key plan)" and "faithful_env arch env1" and "\<forall>c\<in>set (inherited_cells (mr_resume r1)). Arch c = arch"
    and "loadResumeDoc readFile unmarshal dir =
           Inr (md_Validation (buildMatrixDoc cfg t now (ls_cells (matrix_run r1 env1)) (mr_resume r1)))"
    and "faithful_env arch env2" and "ExpectedCells opts = int (length plan)"
  shows "\<exists>remaining merge. planResume readFile unmarshal plan dir arch = Inr (remaining, merge)
    \<and> (\<forall>r2. mr_plan r2 = remaining \<and> mr_resume r2 = Some merge \<and> ls_abort (matrix_run r2 env2) = None \<longrightarrow>
         mset (map prior_key (ls_cells (matrix_run r2 env2))) = mset (map plan_key plan)
         \<and> missing_cells opts (ls_cells (matrix_run r2 env2)) = []
         \<and> duplicate_cells (ls_cells (matrix_run r2 env2)) = [])"
proof -
  let ?doc = "md_Validation (buildMatrixDoc cfg t now (ls_cells (matrix_run r1 env1)) (mr_resume r1))"
  have arch: "\<forall>c\<in>set (vr_Cells ?doc). Arch c = arch"
    using matrix_run_arch [OF assms(2,3)] by (simp add: buildMatrixDoc_def)
  then have none: "find (foreign_arch arch) (vr_Cells ?doc) = None"
    by (auto simp: find_None_iff foreign_arch_def)
  have ok: "\<not> isl (planResume readFile unmarshal plan dir arch)"
  proof
    assume "isl (planResume readFile unmarshal plan dir arch)"
    then obtain e where "resume_loop (wanted_map plan) dir arch (vr_Cells ?doc) [] [] = Inl e"
      unfolding planResume_def assms(4) by (auto split: sum.splits)
    then show False using none unfolding resume_loop_error by simp
  qed
  then obtain remaining merge where res: "planResume readFile unmarshal plan dir arch = Inr (remaining, merge)"
    by (cases "planResume readFile unmarshal plan dir arch") auto
  show ?thesis
  proof (intro exI conjI allI impI)
    fix r2
    assume r2: "mr_plan r2 = remaining \<and> mr_resume r2 = Some merge \<and> ls_abort (matrix_run r2 env2) = None"
    let ?cells = "ls_cells (matrix_run r2 env2)"
    have keys: "mset (map prior_key ?cells) = mset (map plan_key plan)" and same: "\<forall>c\<in>set ?cells. Arch c = arch"
      using resumed_run_covers [OF assms(1,4) arch res assms(5)] r2 by blast+
    show "mset (map prior_key ?cells) = mset (map plan_key plan)" by (rule keys)
    have "length ?cells = length plan" using keys by (metis length_map size_mset)
    then show "missing_cells opts ?cells = []" using assms(6) by (simp add: missing_cells_def)
    have "distinct (map prior_key ?cells)" using keys assms(1) by (metis mset_eq_imp_distinct_iff)
    then show "duplicate_cells ?cells = []" using same by (intro duplicate_nil_distinct same_arch_distinct)
  qed (rule res)
qed

definition sample_drained :: loop_state where
  "sample_drained = matrix_run (sample_runner\<lparr>mr_plan := sample_plan\<rparr>) (sample_env\<lparr>env_drain := (\<lambda>i. i = 1)\<rparr>)"

abbreviation "sample_cfg \<equiv> \<lparr>vc_Target = ''t'', vc_Arch = ''a'', vc_OutDir = ''o''\<rparr>"

theorem interrupted_run_resumes_witness:
  "\<exists>remaining merge. planResume (\<lambda>_. Inr '''')
      (\<lambda>_. Inr (Some (md_Validation (buildMatrixDoc sample_cfg 1 2 (ls_cells sample_drained) None))))
      sample_plan ''d'' ''a'' = Inr (remaining, merge)
    \<and> length remaining = 1
    \<and> duplicate_cells (ls_cells (matrix_run (sample_runner\<lparr>mr_plan := remaining, mr_resume := Some merge\<rparr>) sample_env)) = []"
proof -
  let ?doc = "md_Validation (buildMatrixDoc sample_cfg 1 2 (ls_cells sample_drained) None)"
  have dist: "distinct (map plan_key sample_plan)" by code_simp
  have faithful: "faithful_env ''a'' sample_env" "faithful_env ''a'' (sample_env\<lparr>env_drain := (\<lambda>i. i = 1)\<rparr>)"
    by (simp_all add: faithful_env_def sample_env_def sample_cell_def)
  have inh: "\<forall>c\<in>set (inherited_cells (mr_resume (sample_runner\<lparr>mr_plan := sample_plan\<rparr>))). Arch c = ''a''"
    by (simp add: inherited_cells_def sample_runner_def)
  have load: "loadResumeDoc (\<lambda>_. Inr '''') (\<lambda>_. Inr (Some ?doc)) ''d'' =
      Inr (md_Validation (buildMatrixDoc sample_cfg 1 2
        (ls_cells (matrix_run (sample_runner\<lparr>mr_plan := sample_plan\<rparr>) (sample_env\<lparr>env_drain := (\<lambda>i. i = 1)\<rparr>)))
        (mr_resume (sample_runner\<lparr>mr_plan := sample_plan\<rparr>))))"
    by (simp add: loadResumeDoc_def sample_drained_def sample_runner_def)
  have exp: "ExpectedCells (sample_options\<lparr>ExpectedCells := 2\<rparr>) = int (length sample_plan)"
    by (simp add: sample_plan_def)
  obtain remaining merge where res: "planResume (\<lambda>_. Inr '''') (\<lambda>_. Inr (Some ?doc)) sample_plan ''d'' ''a'' = Inr (remaining, merge)"
    and all: "\<forall>r2. mr_plan r2 = remaining \<and> mr_resume r2 = Some merge \<and> ls_abort (matrix_run r2 sample_env) = None \<longrightarrow>
         duplicate_cells (ls_cells (matrix_run r2 sample_env)) = []"
    using interrupted_run_resumes [OF dist faithful(2) inh load faithful(1) exp] by blast
  have "case planResume (\<lambda>_. Inr '''') (\<lambda>_. Inr (Some ?doc)) sample_plan ''d'' ''a'' of Inl _ \<Rightarrow> False
      | Inr (rem, mrg) \<Rightarrow> length rem = 1
          \<and> ls_abort (matrix_run (sample_runner\<lparr>mr_plan := rem, mr_resume := Some mrg\<rparr>) sample_env) = None"
    by code_simp
  then have "length remaining = 1"
    and "ls_abort (matrix_run (sample_runner\<lparr>mr_plan := remaining, mr_resume := Some merge\<rparr>) sample_env) = None"
    unfolding res by simp_all
  then show ?thesis using res all by auto
qed


section \<open>Repeated resumes end\<close>

lemma final_entry_mem:
  "final_entry cs k \<noteq> None \<longleftrightarrow> (\<exists>c\<in>set cs. prior_key c = k \<and> matrixCellIsFinal c)"
  by (auto simp: final_entry_def find_None_iff)

lemma final_recorded [simp]:
  "matrixCellIsFinal (recorded env x) = matrixCellIsFinal (fst (env_runCell env (snd x) (fst x)))"
  by (simp add: recorded_def matrixCellIsFinal_def)

lemma resume_loop_ok:
  "isl (resume_loop wanted dir arch cs b n) \<longleftrightarrow> isl (resume_loop wanted' dir' arch cs b' n')"
proof -
  have "isl (resume_loop w d arch cs m k) \<longleftrightarrow> find (foreign_arch arch) cs \<noteq> None" for w d m k
  proof -
    have "isl (resume_loop w d arch cs m k) \<longleftrightarrow> (\<exists>e. resume_loop w d arch cs m k = Inl e)"
      by (cases "resume_loop w d arch cs m k") simp_all
    then show ?thesis unfolding resume_loop_error by auto
  qed
  then show ?thesis by simp
qed

text \<open>What was final before a resumed run is final in its document.\<close>

lemma final_kept:
  assumes "rm_Inherited merge = List.map_filter (resumed dir cs) plan" and "mr_resume r = Some merge"
    and "mc \<in> set plan" and "final_entry cs (plan_key mc) \<noteq> None"
  shows "final_entry (ls_cells (matrix_run r env)) (plan_key mc) \<noteq> None"
proof -
  obtain c where c: "final_entry cs (plan_key mc) = Some c" using assms(4) by blast
  then have "prior_key c = plan_key mc" "matrixCellIsFinal c"
    by (auto simp: final_entry_def find_Some_iff)
  then have "prior_key (c\<lparr>ResumedFrom := dir\<rparr>) = plan_key mc" "matrixCellIsFinal (c\<lparr>ResumedFrom := dir\<rparr>)"
    by (simp_all add: prior_key_def matrixCellIsFinal_def)
  moreover have "resumed dir cs mc = Some (c\<lparr>ResumedFrom := dir\<rparr>)" using c by (simp add: resumed_def)
  then have "c\<lparr>ResumedFrom := dir\<rparr> \<in> set (inherited_cells (mr_resume r))"
    using assms(1-3) by (force simp: inherited_cells_def List.map_filter_def)
  then have "c\<lparr>ResumedFrom := dir\<rparr> \<in> set (ls_cells (matrix_run r env))"
    using matrix_run_shape [of r env] by auto
  ultimately show ?thesis unfolding final_entry_mem by blast
qed

text \<open>C40: repeated resumes make progress and so end: when a resumed run makes at least one of its cells
  final, the next resume, from the document that run wrote, has strictly fewer cells to run, and
  none that was not already left by the previous one.\<close>

theorem resumes_make_progress:
  assumes dist: "distinct (map plan_key plan)"
    and load: "loadResumeDoc readFile unmarshal dir = Inr doc"
    and res: "planResume readFile unmarshal plan dir arch = Inr (remaining, merge)"
    and env: "faithful_env arch env" and r: "mr_plan r = remaining" "mr_resume r = Some merge"
    and fin: "i < ls_attempted (matrix_run r env)" "matrixCellIsFinal (fst (env_runCell env (remaining ! i) i))"
    and load2: "loadResumeDoc readFile2 unmarshal2 dir2 =
      Inr (md_Validation (buildMatrixDoc cfg t now (ls_cells (matrix_run r env)) (mr_resume r)))"
    and res2: "planResume readFile2 unmarshal2 plan dir2 arch = Inr (remaining2, merge2)"
  shows "length remaining2 < length remaining \<and> set remaining2 \<subseteq> set remaining"
proof -
  let ?cells = "ls_cells (matrix_run r env)"
  note split = planResume_split [OF dist load res]
  have rem2: "remaining2 = filter (\<lambda>mc. final_entry ?cells (plan_key mc) = None) plan"
    using planResume_split(1) [OF dist load2 res2] by (simp add: buildMatrixDoc_def)
  have kept: "final_entry ?cells (plan_key mc) \<noteq> None"
    if "mc \<in> set plan" "final_entry (vr_Cells doc) (plan_key mc) \<noteq> None" for mc
    by (rule final_kept [OF split(2) r(2) that])
  obtain n where n: "n \<le> length remaining" "ls_attempted (matrix_run r env) = n"
    "?cells = inherited_cells (mr_resume r) @ map (recorded env) (enumerate 0 (take n remaining))"
    using matrix_run_shape [of r env] r(1) by blast
  have i: "i < n" "i < length remaining" using fin(1) n by simp_all
  have "enumerate 0 (take n remaining) ! i \<in> set (enumerate 0 (take n remaining))" using i by (intro nth_mem) simp
  then have "(i, remaining ! i) \<in> set (enumerate 0 (take n remaining))"
    using i by (simp add: nth_enumerate_eq)
  then have "recorded env (i, remaining ! i) \<in> set ?cells" unfolding n(3) by force
  then have made: "final_entry ?cells (plan_key (remaining ! i)) \<noteq> None"
    unfolding final_entry_mem using fin(2) recorded_identity(1) [OF env] by force
  have ok1: "distinct (map plan_key plan) \<and> \<not> isl (resume_loop (wanted_map plan) dir arch (vr_Cells doc) [] [])"
    using dist res load by (auto simp: planResume_def split: sum.splits)
  have "\<not> isl (resume_loop (wanted_map plan) dir2 arch ?cells [] [])"
    using res2 load2 by (auto simp: planResume_def buildMatrixDoc_def split: sum.splits)
  then have ok2: "distinct (map plan_key plan) \<and> \<not> isl (resume_loop (wanted_map plan) dir arch ?cells [] [])"
    using dist resume_loop_ok by blast
  have r1: "remaining = resume_remaining dir arch (vr_Cells doc) plan" by (rule planResume_remaining [OF load res])
  have r2: "remaining2 = resume_remaining dir arch ?cells plan"
    using matrix_resume.remaining_law [OF ok2] rem2 by simp
  have "remaining ! i \<in> set (resume_remaining dir arch (vr_Cells doc) plan)" using i r1 by simp
  with ok1 ok2 kept have "length (resume_remaining dir arch ?cells plan) < length (resume_remaining dir arch (vr_Cells doc) plan)"
    using made by (rule matrix_resume.progress)
  then have "length remaining2 < length remaining" by (simp only: r1 [symmetric] r2 [symmetric])
  moreover have "remaining2 = filter (\<lambda>mc. \<not> final_entry ?cells (plan_key mc) \<noteq> None) remaining"
    unfolding r1 r2 using ok1 ok2 kept by (rule matrix_resume.remaining_again)
  ultimately show ?thesis by auto
qed

definition sample_merge :: resume_merge where
  "sample_merge = snd (projr (planResume sample_read sample_unmarshal sample_plan ''d'' ''a''))"

definition sample_resumed_runner :: matrix_runner where
  "sample_resumed_runner = sample_runner\<lparr>mr_plan := [sample_plan ! 1], mr_resume := Some sample_merge\<rparr>"

definition sample_resumed_doc :: validation_results where
  "sample_resumed_doc = md_Validation (buildMatrixDoc sample_cfg 1 2
     (ls_cells (matrix_run sample_resumed_runner sample_env)) (mr_resume sample_resumed_runner))"

theorem resumes_make_progress_witness:
  "\<exists>remaining2 merge2. planResume sample_read (\<lambda>_. Inr (Some sample_resumed_doc)) sample_plan ''d2'' ''a'' = Inr (remaining2, merge2)
     \<and> length remaining2 < length [sample_plan ! 1]"
proof -
  have dist: "distinct (map plan_key sample_plan)" by code_simp
  have load: "loadResumeDoc sample_read sample_unmarshal ''d'' = Inr sample_doc" by (simp add: loadResumeDoc_def)
  have res: "planResume sample_read sample_unmarshal sample_plan ''d'' ''a'' = Inr ([sample_plan ! 1], sample_merge)"
  proof -
    have "case planResume sample_read sample_unmarshal sample_plan ''d'' ''a'' of
        Inl _ \<Rightarrow> False | Inr (rem, mrg) \<Rightarrow> rem = [sample_plan ! 1]"
      by code_simp
    then show ?thesis unfolding sample_merge_def by (auto split: sum.splits)
  qed
  have env: "faithful_env ''a'' sample_env" by (simp add: faithful_env_def sample_env_def sample_cell_def)
  have r: "mr_plan sample_resumed_runner = [sample_plan ! 1]" "mr_resume sample_resumed_runner = Some sample_merge"
    by (simp_all add: sample_resumed_runner_def)
  have fin: "0 < ls_attempted (matrix_run sample_resumed_runner sample_env)"
    "matrixCellIsFinal (fst (env_runCell sample_env ([sample_plan ! 1] ! 0) 0))"
    by code_simp+
  have load2: "loadResumeDoc sample_read (\<lambda>_. Inr (Some sample_resumed_doc)) ''d2'' =
      Inr (md_Validation (buildMatrixDoc sample_cfg 1 2
        (ls_cells (matrix_run sample_resumed_runner sample_env)) (mr_resume sample_resumed_runner)))"
    by (simp add: loadResumeDoc_def sample_resumed_doc_def)
  have "\<not> isl (planResume sample_read (\<lambda>_. Inr (Some sample_resumed_doc)) sample_plan ''d2'' ''a'')"
    by code_simp
  then obtain rem2 merge2 where res2: "planResume sample_read (\<lambda>_. Inr (Some sample_resumed_doc)) sample_plan ''d2'' ''a'' = Inr (rem2, merge2)"
    by (cases "planResume sample_read (\<lambda>_. Inr (Some sample_resumed_doc)) sample_plan ''d2'' ''a''") auto
  show ?thesis using resumes_make_progress [OF dist load res env r fin load2 res2] res2 by blast
qed

end
