(* ===== verification/Properties.thy ===== *)
theory Properties
  imports GoFloat
begin

text \<open>
  The invariants the validator evaluates once per second: \<open>src/validation/properties\<close>.

  A predicate is a function of one snapshot of the refapp and of a context with the rolling
  history; its result is the verdict with its message, and a skip is a passing verdict whose
  message has the prefix \<open>skip: \<close>, as in the code. The \<open>Engine*\<close> fields of \<open>Snapshot\<close> that no
  predicate judges are one function from the name the counter has in \<open>/debug/vars\<close>. A time is
  the number of nanoseconds since Go's zero time. The slope predicates compute in \<open>float64\<close>
  without fused operations; \<open>math.Sqrt\<close>, \<open>math.Exp\<close> and \<open>math.Erfinv\<close> are arguments. The one-line
  descriptions of the specs are left out.

  The lemmas: what each predicate's failure says about the samples, that the scatter floor of
  \<open>I-MEM-1\<close> can only remove violations, and that a slope predicate reaches no verdict before
  fifteen minutes of samples.
\<close>


section \<open>Snapshots and contexts\<close>

type_synonym gotime = int

record snapshot =
  sn_TS :: int
  sn_PID :: int
  sn_GoroutineCount :: int
  sn_HeapInuseBytes :: int
  sn_HeapAllocBytes :: int
  sn_AcceptedConnTotal :: int
  sn_ClosedConnTotal :: int
  sn_ActiveConns :: int
  sn_PanicCount :: int
  sn_Engine :: "string \<Rightarrow> int"
  sn_ExpectedPanics :: int
  sn_OldestOpenConnLastByteAgeMs :: int
  sn_RSSBytes :: int
  sn_RaceReports :: int
  sn_CheckptrReports :: int
  sn_RateLimitAllowed :: int
  sn_RateLimitRejected :: int
  sn_SessionsCreatedTotal :: int
  sn_SessionsExpiredTotal :: int
  sn_JWTValidatedOK :: int
  sn_JWTValidatedFail :: int
  sn_SessionCookieDrops :: int
  sn_DriverWritesIssued :: int
  sn_DriverReadsIssued :: int
  sn_DriverReadHits :: int
  sn_DriverReadMisses :: int
  sn_AdaptiveSwitches :: int
  sn_ResponsesBadFraming :: int
  sn_ResponsesHeadWithBody :: int
  sn_Responses204WithBody :: int
  sn_Responses304WithBody :: int
  sn_ResponsesCRLFInHeader :: int
  sn_ResponsesNULInHeader :: int
  sn_ResponsesMissingChunkEnd :: int
  sn_RatelimitTokenViolations :: int
  sn_SessionOwnerMismatches :: int
  sn_JWTLateAdmits :: int
  sn_IouringSQECorruptions :: int
  sn_OpenConnsTracked :: int
  sn_CheckptrBuild :: bool
  sn_ValidationBuild :: bool
  sn_RaceBuild :: bool
  sn_EngineName :: string
  sn_InstrumentedProperties :: string
  sn_IdleWindow :: int

definition zero_snapshot :: snapshot where
  "zero_snapshot = \<lparr>sn_TS = 0, sn_PID = 0, sn_GoroutineCount = 0, sn_HeapInuseBytes = 0, sn_HeapAllocBytes = 0,
     sn_AcceptedConnTotal = 0, sn_ClosedConnTotal = 0, sn_ActiveConns = 0, sn_PanicCount = 0, sn_Engine = (\<lambda>_. 0),
     sn_ExpectedPanics = 0, sn_OldestOpenConnLastByteAgeMs = 0, sn_RSSBytes = 0, sn_RaceReports = 0,
     sn_CheckptrReports = 0, sn_RateLimitAllowed = 0, sn_RateLimitRejected = 0, sn_SessionsCreatedTotal = 0,
     sn_SessionsExpiredTotal = 0, sn_JWTValidatedOK = 0, sn_JWTValidatedFail = 0, sn_SessionCookieDrops = 0,
     sn_DriverWritesIssued = 0, sn_DriverReadsIssued = 0, sn_DriverReadHits = 0, sn_DriverReadMisses = 0,
     sn_AdaptiveSwitches = 0, sn_ResponsesBadFraming = 0, sn_ResponsesHeadWithBody = 0, sn_Responses204WithBody = 0,
     sn_Responses304WithBody = 0, sn_ResponsesCRLFInHeader = 0, sn_ResponsesNULInHeader = 0,
     sn_ResponsesMissingChunkEnd = 0, sn_RatelimitTokenViolations = 0, sn_SessionOwnerMismatches = 0,
     sn_JWTLateAdmits = 0, sn_IouringSQECorruptions = 0, sn_OpenConnsTracked = 0, sn_CheckptrBuild = False,
     sn_ValidationBuild = False, sn_RaceBuild = False, sn_EngineName = '''', sn_InstrumentedProperties = '''',
     sn_IdleWindow = 0\<rparr>"

record prop_context =
  cx_RunStartedAt :: gotime
  cx_Now :: gotime
  cx_IdleMode :: bool
  cx_IdleWindow :: int
  cx_IdleBaselineGoroutines :: int
  cx_LoadStartedAt :: gotime
  cx_BaselineGoroutines :: int
  cx_History :: "snapshot list"

type_synonym verdict = "bool \<times> string"
type_synonym predicate = "snapshot \<Rightarrow> prop_context \<Rightarrow> verdict"

record spec =
  sp_ID :: string
  sp_Tier :: string
  sp_Predicate :: predicate
  sp_Persist :: int
  sp_MinObservation :: duration
  sp_Shadow :: "(string \<times> predicate) option"

definition skipPrefix :: string where "skipPrefix = ''skip: ''"

definition Skip :: "string \<Rightarrow> verdict" where
  "Skip reason = (True, skipPrefix @ reason)"

definition IsSkip :: "verdict \<Rightarrow> bool" where
  "IsSkip v \<longleftrightarrow> fst v \<and> has_prefix (snd v) skipPrefix"

definition pass :: verdict where "pass = (True, '''')"

text \<open>\<open>Time.Unix\<close>: whole seconds since 1970, rounded down.\<close>

definition unix_epoch :: int where "unix_epoch = 62135596800"

definition time_Unix :: "gotime \<Rightarrow> int" where
  "time_Unix t = t div second - unix_epoch"

definition simple_spec :: "string \<Rightarrow> string \<Rightarrow> int \<Rightarrow> predicate \<Rightarrow> spec" where
  "simple_spec i tier persist p =
     \<lparr>sp_ID = i, sp_Tier = tier, sp_Predicate = p, sp_Persist = persist, sp_MinObservation = 0, sp_Shadow = None\<rparr>"


section \<open>Connections\<close>

definition connCloseDeadlineNativeMs :: int where "connCloseDeadlineNativeMs = 45000"
definition connCloseDeadlineStdMs :: int where "connCloseDeadlineStdMs = 150000"
definition connClosePersistSamples :: int where "connClosePersistSamples = 5"
definition connDriftPersistSamples :: int where "connDriftPersistSamples = 30"

definition connCloseDeadlineMsFor :: "string \<Rightarrow> int" where
  "connCloseDeadlineMsFor engine =
     (if engine = ''std'' then connCloseDeadlineStdMs else connCloseDeadlineNativeMs)"

definition iconn1 :: predicate where
  "iconn1 snap ctx =
     (let deadline = connCloseDeadlineMsFor (sn_EngineName snap)
      in if sn_OldestOpenConnLastByteAgeMs snap > deadline
         then (False, ''I-CONN-1 violated: oldest open conn last-byte age '' @ itoa (sn_OldestOpenConnLastByteAgeMs snap)
                 @ ''ms > '' @ itoa deadline @ ''ms (engine '' @ go_quote (sn_EngineName snap)
                 @ ''); suggests FD leak or stuck reader'')
         else pass)"

definition ICONN1 :: spec where
  "ICONN1 = simple_spec ''I-CONN-1'' ''core'' connClosePersistSamples iconn1"

definition connDrift :: "snapshot \<Rightarrow> int" where
  "connDrift s = wrap64 (sn_AcceptedConnTotal s - sn_ClosedConnTotal s - sn_ActiveConns s)"

text \<open>The scan over the history from its last element: samples of the current second are passed
  over, the run ends at the first drift of zero or of the other sign.\<close>

fun drift_run :: "int \<Rightarrow> int \<Rightarrow> snapshot list \<Rightarrow> int" where
  "drift_run ts diff [] = 0"
| "drift_run ts diff (h # hs) =
     (if sn_TS h = ts then drift_run ts diff hs
      else if connDrift h = 0 \<or> (connDrift h > 0) \<noteq> (diff > 0) then 0
      else 1 + drift_run ts diff hs)"

definition iconn2 :: predicate where
  "iconn2 snap ctx =
     (let diff = connDrift snap
      in if diff = 0 then pass
         else let run = 1 + drift_run (sn_TS snap) diff (rev (cx_History ctx))
              in if run < connDriftPersistSamples then pass
                 else (False, ''I-CONN-2 violated: accepted('' @ itoa (sn_AcceptedConnTotal snap) @ '') - closed(''
                         @ itoa (sn_ClosedConnTotal snap) @ '') - active('' @ itoa (sn_ActiveConns snap) @ '') = ''
                         @ itoa diff @ '' (want 0) for '' @ itoa run
                         @ '' consecutive samples; engine conn accounting drift''))"

definition ICONN2 :: spec where
  "ICONN2 = simple_spec ''I-CONN-2'' ''core'' 0 iconn2"


section \<open>Responses\<close>

text \<open>The paragraph sign of the messages is the two UTF-8 bytes of U+00A7.\<close>

definition section_sign :: string where "section_sign = [CHR 0xC2, CHR 0xA7]"

definition irfc1 :: predicate where
  "irfc1 snap ctx =
     (if sn_ResponsesBadFraming snap > 0
      then (False, ''I-RFC-1 violated: '' @ itoa (sn_ResponsesBadFraming snap)
              @ '' responses with bad framing (CL mismatch / double TE / missing chunked terminator)'')
      else if sn_ResponsesHeadWithBody snap > 0
      then (False, ''I-RFC-1 violated: '' @ itoa (sn_ResponsesHeadWithBody snap)
              @ '' HEAD responses carried a body (RFC 9110 '' @ section_sign @ ''9.3.2)'')
      else if sn_Responses204WithBody snap > 0
      then (False, ''I-RFC-1 violated: '' @ itoa (sn_Responses204WithBody snap)
              @ '' 204 responses carried a body (RFC 9110 '' @ section_sign @ ''15.3.5)'')
      else if sn_Responses304WithBody snap > 0
      then (False, ''I-RFC-1 violated: '' @ itoa (sn_Responses304WithBody snap)
              @ '' 304 responses carried a body (RFC 9110 '' @ section_sign @ ''15.4.5)'')
      else if sn_ResponsesMissingChunkEnd snap > 0
      then (False, ''I-RFC-1 violated: '' @ itoa (sn_ResponsesMissingChunkEnd snap)
              @ '' chunked responses without a terminating zero-length chunk'')
      else pass)"

definition IRFC1 :: spec where
  "IRFC1 = simple_spec ''I-RFC-1'' ''core'' 0 irfc1"

definition irfc2 :: predicate where
  "irfc2 snap ctx =
     (if sn_ResponsesCRLFInHeader snap > 0
      then (False, ''I-RFC-2 violated: '' @ itoa (sn_ResponsesCRLFInHeader snap)
              @ '' response headers carried CRLF (header-smuggling vector)'')
      else if sn_ResponsesNULInHeader snap > 0
      then (False, ''I-RFC-2 violated: '' @ itoa (sn_ResponsesNULInHeader snap)
              @ '' response headers carried NUL (RFC 9110 '' @ section_sign @ ''5.5)'')
      else pass)"

definition IRFC2 :: spec where
  "IRFC2 = simple_spec ''I-RFC-2'' ''core'' 0 irfc2"


section \<open>Panics, races and the pointer checker\<close>

definition ipanicPersistence :: int where "ipanicPersistence = 3"

definition unexpectedPanics :: "snapshot \<Rightarrow> int" where
  "unexpectedPanics s = wrap64 (sn_PanicCount s - sn_ExpectedPanics s)"

definition sameSample :: "snapshot \<Rightarrow> snapshot \<Rightarrow> bool" where
  "sameSample h s \<longleftrightarrow> sn_TS h = sn_TS s \<and> sn_PanicCount h = sn_PanicCount s
     \<and> sn_ExpectedPanics h = sn_ExpectedPanics s
     \<and> sn_GoroutineCount h = sn_GoroutineCount s \<and> sn_HeapInuseBytes h = sn_HeapInuseBytes s"

text \<open>The trailing excess samples, counted from the end and at most \<open>k\<close> of them.\<close>

fun panic_run :: "nat \<Rightarrow> snapshot list \<Rightarrow> int" where
  "panic_run 0 hs = 0"
| "panic_run (Suc k) [] = 0"
| "panic_run (Suc k) (h # hs) = (if unexpectedPanics h \<le> 0 then 0 else 1 + panic_run k hs)"

definition ipanic :: predicate where
  "ipanic snap ctx =
     (if unexpectedPanics snap \<le> 0 then pass
      else let seen = panic_run (nat ipanicPersistence) (rev (cx_History ctx));
               seen = (if cx_History ctx = [] \<or> \<not> sameSample (last (cx_History ctx)) snap then seen + 1 else seen)
           in if seen < ipanicPersistence then pass
              else (False, ''I-PANIC violated: '' @ itoa (unexpectedPanics snap) @ '' unexpected panic(s) (panic_count=''
                      @ itoa (sn_PanicCount snap) @ '', expected='' @ itoa (sn_ExpectedPanics snap) @ '')''))"

definition IPANIC :: spec where
  "IPANIC = simple_spec ''I-PANIC'' ''core'' 0 ipanic"

definition irace :: predicate where
  "irace snap ctx =
     (if sn_RaceReports snap > 0
      then (False, ''I-RACE violated: '' @ itoa (sn_RaceReports snap)
              @ '' race-detector reports observed; run was built with -race'')
      else pass)"

definition IRACE :: spec where
  "IRACE = simple_spec ''I-RACE'' ''core'' 0 irace"

definition icheckptr :: predicate where
  "icheckptr snap ctx =
     (if sn_CheckptrReports snap > 0
      then (False, ''I-CHECKPTR violated: '' @ itoa (sn_CheckptrReports snap)
              @ '' checkptr reports observed; review SIMD / unsafe.Pointer paths'')
      else pass)"

definition ICHECKPTR :: spec where
  "ICHECKPTR = simple_spec ''I-CHECKPTR'' ''core'' 0 icheckptr"


section \<open>Middleware, drivers and engines\<close>

definition imwratelimit :: predicate where
  "imwratelimit snap ctx =
     (if sn_RatelimitTokenViolations snap > 0
      then (False, ''I-MW-RATELIMIT violated: '' @ itoa (sn_RatelimitTokenViolations snap)
              @ '' token-bucket assertion(s) fired (validation build)'')
      else if sn_RateLimitAllowed snap < 0
      then (False, ''I-MW-RATELIMIT violated: allowed counter went negative ('' @ itoa (sn_RateLimitAllowed snap) @ '')'')
      else if sn_RateLimitRejected snap < 0
      then (False, ''I-MW-RATELIMIT violated: rejected counter went negative ('' @ itoa (sn_RateLimitRejected snap) @ '')'')
      else pass)"

definition IMWRateLimit :: spec where
  "IMWRateLimit = simple_spec ''I-MW-RATELIMIT'' ''middleware'' 0 imwratelimit"

definition imwsession :: predicate where
  "imwsession snap ctx =
     (if sn_SessionOwnerMismatches snap > 0
      then (False, ''I-MW-SESSION violated: '' @ itoa (sn_SessionOwnerMismatches snap)
              @ '' session-owner mismatch(es): a request presented a known session id under a different owner'')
      else if sn_SessionCookieDrops snap > 0
      then (False, ''I-MW-SESSION violated: '' @ itoa (sn_SessionCookieDrops snap)
              @ '' id-changing session cookie(s) dropped before reaching the client (celeris session.DroppedCookies; mutate the session before writing the body)'')
      else if sn_SessionsCreatedTotal snap < 0 \<or> sn_SessionsExpiredTotal snap < 0
      then (False, ''I-MW-SESSION violated: counters negative (created='' @ itoa (sn_SessionsCreatedTotal snap)
              @ '' expired='' @ itoa (sn_SessionsExpiredTotal snap) @ '')'')
      else if sn_SessionsCreatedTotal snap = 0 \<and> sn_SessionsExpiredTotal snap > 0
      then (False, ''I-MW-SESSION violated: '' @ itoa (sn_SessionsExpiredTotal snap)
              @ '' sessions expired with zero ever created'')
      else pass)"

definition IMWSession :: spec where
  "IMWSession = simple_spec ''I-MW-SESSION'' ''middleware'' 0 imwsession"

definition imwjwt :: predicate where
  "imwjwt snap ctx =
     (if sn_JWTLateAdmits snap > 0
      then (False, ''I-MW-JWT violated: '' @ itoa (sn_JWTLateAdmits snap)
              @ '' expired token(s) accepted (validation build)'')
      else if sn_JWTValidatedOK snap < 0 \<or> sn_JWTValidatedFail snap < 0
      then (False, ''I-MW-JWT violated: counters negative (ok='' @ itoa (sn_JWTValidatedOK snap)
              @ '' fail='' @ itoa (sn_JWTValidatedFail snap) @ '')'')
      else pass)"

definition IMWJWT :: spec where
  "IMWJWT = simple_spec ''I-MW-JWT'' ''middleware'' 0 imwjwt"

definition idrv :: predicate where
  "idrv snap ctx =
     (if sn_DriverReadMisses snap > 0
      then (False, ''I-DRV violated: '' @ itoa (sn_DriverReadMisses snap)
              @ '' driver read-after-write inconsistencies (writes='' @ itoa (sn_DriverWritesIssued snap)
              @ '' reads='' @ itoa (sn_DriverReadsIssued snap) @ '' hits='' @ itoa (sn_DriverReadHits snap) @ '')'')
      else if sn_DriverReadsIssued snap > 0 \<and> sn_DriverReadHits snap > sn_DriverReadsIssued snap
      then (False, ''I-DRV validator-internal: hits('' @ itoa (sn_DriverReadHits snap) @ '') > reads_issued(''
              @ itoa (sn_DriverReadsIssued snap) @ '')'')
      else pass)"

definition IDRV :: spec where
  "IDRV = simple_spec ''I-DRV'' ''driver'' 0 idrv"

definition iengiouring :: predicate where
  "iengiouring snap ctx =
     (if sn_IouringSQECorruptions snap > 0
      then (False, ''I-ENG-IOURING violated: '' @ itoa (sn_IouringSQECorruptions snap)
              @ '' SQE corruption(s) detected (validation build)'')
      else pass)"

definition IENGIOURing :: spec where
  "IENGIOURing = simple_spec ''I-ENG-IOURING'' ''engine'' 0 iengiouring"

definition adaptiveSwitchBudgetPerHour :: int where "adaptiveSwitchBudgetPerHour = 600"

text \<open>The oldest history sample of the last hour is the base of the count; \<open>-1\<close> when there is none.\<close>

definition switch_base :: "prop_context \<Rightarrow> int" where
  "switch_base ctx =
     (let cutoff = time_Unix (cx_Now ctx - hour)
      in case find (\<lambda>h. sn_TS h \<ge> cutoff) (cx_History ctx) of
           None \<Rightarrow> - 1 | Some h \<Rightarrow> sn_AdaptiveSwitches h)"

definition iengadaptive :: predicate where
  "iengadaptive snap ctx =
     (if sn_AdaptiveSwitches snap < 0
      then (False, ''I-ENG-ADAPTIVE violated: switches counter negative ('' @ itoa (sn_AdaptiveSwitches snap) @ '')'')
      else let base = switch_base ctx; delta = sn_AdaptiveSwitches snap - base
           in if base \<ge> 0 \<and> delta > adaptiveSwitchBudgetPerHour
              then (False, ''I-ENG-ADAPTIVE violated: '' @ itoa delta
                      @ '' adaptive switches in last hour exceeds budget of '' @ itoa adaptiveSwitchBudgetPerHour)
              else pass)"

definition IENGAdaptive :: spec where
  "IENGAdaptive = simple_spec ''I-ENG-ADAPTIVE'' ''engine'' 0 iengadaptive"

section \<open>Persistence\<close>

text \<open>Skips and passes.\<close>

lemma IsSkip_Skip [simp]: "IsSkip (Skip r)"
  by (simp add: IsSkip_def Skip_def)

lemma IsSkip_pass [simp]: "\<not> IsSkip pass"
  by (simp add: IsSkip_def pass_def has_prefix_def skipPrefix_def)

lemma IsSkip_fail [simp]: "\<not> IsSkip (False, m)"
  by (simp add: IsSkip_def)

lemma fst_Skip [simp]: "fst (Skip r)" and fst_pass [simp]: "fst pass"
  by (simp_all add: Skip_def pass_def)

lemma drift_run_takeWhile:
  "(\<And>h. h \<in> set hs \<Longrightarrow> sn_TS h \<noteq> ts) \<Longrightarrow>
   drift_run ts diff hs = int (length (takeWhile (\<lambda>h. connDrift h \<noteq> 0 \<and> (connDrift h > 0) = (diff > 0)) hs))"
  by (induction hs) auto

lemma panic_run_nonneg: "0 \<le> panic_run k hs"
  by (induction k hs rule: panic_run.induct) auto

lemma panic_run_ge: "int n \<le> panic_run k hs \<longleftrightarrow> n \<le> k \<and> n \<le> length hs \<and> (\<forall>h\<in>set (take n hs). unexpectedPanics h > 0)"
proof (induction k hs arbitrary: n rule: panic_run.induct)
  case (3 k h hs)
  show ?case
  proof (cases n)
    case (Suc m)
    with 3 [of m] show ?thesis by auto
  qed (simp add: panic_run_nonneg)
qed auto

lemma iengadaptive_fails:
  "\<not> fst (iengadaptive snap ctx) \<longleftrightarrow> sn_AdaptiveSwitches snap < 0 \<or>
     (\<exists>i<length (cx_History ctx). time_Unix (cx_Now ctx - hour) \<le> sn_TS (cx_History ctx ! i) \<and>
        (\<forall>j<i. sn_TS (cx_History ctx ! j) < time_Unix (cx_Now ctx - hour)) \<and>
        0 \<le> sn_AdaptiveSwitches (cx_History ctx ! i) \<and>
        600 < sn_AdaptiveSwitches snap - sn_AdaptiveSwitches (cx_History ctx ! i))"
proof (cases "find (\<lambda>h. sn_TS h \<ge> time_Unix (cx_Now ctx - hour)) (cx_History ctx)")
  case None
  then have "\<not> (\<exists>i<length (cx_History ctx). time_Unix (cx_Now ctx - hour) \<le> sn_TS (cx_History ctx ! i))"
    by (auto simp: find_None_iff)
  then show ?thesis using None by (auto simp: iengadaptive_def switch_base_def Let_def)
next
  case (Some h)
  then obtain i where i: "i < length (cx_History ctx)" "h = cx_History ctx ! i"
      "time_Unix (cx_Now ctx - hour) \<le> sn_TS h" "\<And>j. j < i \<Longrightarrow> sn_TS (cx_History ctx ! j) < time_Unix (cx_Now ctx - hour)"
    by (auto simp: find_Some_iff not_le)
  then have u: "i' = i" if "i' < length (cx_History ctx)" "time_Unix (cx_Now ctx - hour) \<le> sn_TS (cx_History ctx ! i')"
      "\<forall>j<i'. sn_TS (cx_History ctx ! j) < time_Unix (cx_Now ctx - hour)" for i'
    using that by (metis linorder_neqE_nat not_le)
  have "\<not> fst (iengadaptive snap ctx) \<longleftrightarrow> sn_AdaptiveSwitches snap < 0 \<or>
      0 \<le> sn_AdaptiveSwitches h \<and> 600 < sn_AdaptiveSwitches snap - sn_AdaptiveSwitches h"
    using Some by (auto simp: iengadaptive_def switch_base_def Let_def adaptiveSwitchBudgetPerHour_def)
  with i u show ?thesis by blast
qed

text \<open>C28: The predicates that compare the sample under judgement with earlier ones, I-CONN-2, I-PANIC and
  I-ENG-ADAPTIVE, are exact on the histories the evaluator gives them, which end in that sample, when
  no earlier sample has its second. I-CONN-2 fails exactly when the connection balance of the last 30
  samples is off zero, always with the sign of the current one; I-PANIC fails exactly when each of
  the last 3 samples shows more panics than expected; I-ENG-ADAPTIVE fails exactly when the switch
  counter is negative or has grown by more than 600 since the first sample of the last hour, where
  it was not negative. None of them ever skips. (The slope predicates of \<open>i_mem.go\<close>, which fit a
  line to the history, are the subject of a property of \<open>MemProperties\<close>.)\<close>

theorem lookback_predicates_exact:
  assumes "cx_History ctx = hs @ [snap]" and "\<forall>h\<in>set hs. sn_TS h \<noteq> sn_TS snap"
  shows "(\<not> fst (iconn2 snap ctx) \<longleftrightarrow> 30 \<le> length (hs @ [snap])
       \<and> (\<forall>h\<in>set (drop (length (hs @ [snap]) - 30) (hs @ [snap])).
            connDrift h \<noteq> 0 \<and> (connDrift h > 0) = (connDrift snap > 0)))
    \<and> (\<not> fst (ipanic snap ctx) \<longleftrightarrow> 3 \<le> length (hs @ [snap])
       \<and> (\<forall>h\<in>set (drop (length (hs @ [snap]) - 3) (hs @ [snap])). unexpectedPanics h > 0))
    \<and> (\<not> fst (iengadaptive snap ctx) \<longleftrightarrow> sn_AdaptiveSwitches snap < 0 \<or>
       (\<exists>i<length (hs @ [snap]). time_Unix (cx_Now ctx - hour) \<le> sn_TS ((hs @ [snap]) ! i)
          \<and> (\<forall>j<i. sn_TS ((hs @ [snap]) ! j) < time_Unix (cx_Now ctx - hour))
          \<and> 0 \<le> sn_AdaptiveSwitches ((hs @ [snap]) ! i)
          \<and> 600 < sn_AdaptiveSwitches snap - sn_AdaptiveSwitches ((hs @ [snap]) ! i)))
    \<and> \<not> IsSkip (iconn2 snap ctx) \<and> \<not> IsSkip (ipanic snap ctx) \<and> \<not> IsSkip (iengadaptive snap ctx)"
proof (intro conjI)
  let ?P = "\<lambda>h. connDrift h \<noteq> 0 \<and> (connDrift h > 0) = (connDrift snap > 0)"
  have last: "set (drop (length (hs @ [snap]) - Suc n) (hs @ [snap])) = insert snap (set (drop (length hs - n) hs))" for n
    by simp
  have run: "drift_run (sn_TS snap) (connDrift snap) (rev (hs @ [snap])) = int (length (takeWhile ?P (rev hs)))"
    using assms(2) drift_run_takeWhile [of "rev hs" "sn_TS snap" "connDrift snap"] by simp
  have "\<not> fst (iconn2 snap ctx) \<longleftrightarrow> connDrift snap \<noteq> 0 \<and> 29 \<le> length (takeWhile ?P (rev hs))"
    unfolding iconn2_def Let_def assms(1) run by (auto simp: connDriftPersistSamples_def)
  also have "\<dots> \<longleftrightarrow> connDrift snap \<noteq> 0 \<and> 29 \<le> length hs \<and> (\<forall>h\<in>set (drop (length hs - 29) hs). ?P h)"
    unfolding length_takeWhile_ge by (simp add: take_rev)
  also have "\<dots> \<longleftrightarrow> 30 \<le> length (hs @ [snap]) \<and> (\<forall>h\<in>set (drop (length (hs @ [snap]) - 30) (hs @ [snap])). ?P h)"
    using last [of 29] by auto
  finally show "\<not> fst (iconn2 snap ctx) \<longleftrightarrow> 30 \<le> length (hs @ [snap])
       \<and> (\<forall>h\<in>set (drop (length (hs @ [snap]) - 30) (hs @ [snap])). ?P h)" .
  have "sameSample snap snap" by (simp add: sameSample_def)
  then have "\<not> fst (ipanic snap ctx) \<longleftrightarrow> unexpectedPanics snap > 0 \<and> int 3 \<le> panic_run 3 (rev (hs @ [snap]))"
    unfolding ipanic_def Let_def assms(1) by (auto simp: ipanicPersistence_def)
  also have "\<dots> \<longleftrightarrow> 3 \<le> length (hs @ [snap])
       \<and> (\<forall>h\<in>set (drop (length (hs @ [snap]) - 3) (hs @ [snap])). unexpectedPanics h > 0)"
    unfolding panic_run_ge take_rev set_rev length_rev using last [of 2] by auto
  finally show "\<not> fst (ipanic snap ctx) \<longleftrightarrow> 3 \<le> length (hs @ [snap])
       \<and> (\<forall>h\<in>set (drop (length (hs @ [snap]) - 3) (hs @ [snap])). unexpectedPanics h > 0)" .
  show "\<not> fst (iengadaptive snap ctx) \<longleftrightarrow> sn_AdaptiveSwitches snap < 0 \<or>
       (\<exists>i<length (hs @ [snap]). time_Unix (cx_Now ctx - hour) \<le> sn_TS ((hs @ [snap]) ! i)
          \<and> (\<forall>j<i. sn_TS ((hs @ [snap]) ! j) < time_Unix (cx_Now ctx - hour))
          \<and> 0 \<le> sn_AdaptiveSwitches ((hs @ [snap]) ! i)
          \<and> 600 < sn_AdaptiveSwitches snap - sn_AdaptiveSwitches ((hs @ [snap]) ! i))"
    using iengadaptive_fails [of snap ctx] unfolding assms(1) .
  show "\<not> IsSkip (iconn2 snap ctx)" "\<not> IsSkip (ipanic snap ctx)" "\<not> IsSkip (iengadaptive snap ctx)"
    by (simp_all add: iconn2_def ipanic_def iengadaptive_def Let_def)
qed

definition w_panic :: "int \<Rightarrow> snapshot" where
  "w_panic ts = zero_snapshot\<lparr>sn_TS := ts, sn_PanicCount := 2, sn_ExpectedPanics := 1\<rparr>"

definition w_panic_ctx :: prop_context where
  "w_panic_ctx = \<lparr>cx_RunStartedAt = 0, cx_Now = 0, cx_IdleMode = False, cx_IdleWindow = 0, cx_IdleBaselineGoroutines = 0,
     cx_LoadStartedAt = 0, cx_BaselineGoroutines = 0, cx_History = [w_panic 1, w_panic 2] @ [w_panic 3]\<rparr>"

theorem lookback_predicates_exact_witness:
  "cx_History w_panic_ctx = [w_panic 1, w_panic 2] @ [w_panic 3] \<and> \<not> fst (ipanic (w_panic 3) w_panic_ctx)
   \<and> fst (iconn2 (w_panic 3) w_panic_ctx)"
proof -
  have h: "cx_History w_panic_ctx = [w_panic 1, w_panic 2] @ [w_panic 3]" by (simp add: w_panic_ctx_def)
  have d: "\<forall>h\<in>set [w_panic 1, w_panic 2]. sn_TS h \<noteq> sn_TS (w_panic 3)" by (simp add: w_panic_def)
  have u: "unexpectedPanics (w_panic k) = 1" for k
    by (simp add: unexpectedPanics_def w_panic_def zero_snapshot_def wrap64_def)
  show ?thesis using lookback_predicates_exact [OF h d] h by (simp add: u)
qed


end
