(* ===== verification/MemProperties.thy ===== *)
theory MemProperties
  imports Properties
begin

text \<open>
  The memory invariants and the registry: \<open>src/validation/properties/i_mem.go\<close>,
  \<open>i_mem_scatter.go\<close>, \<open>i_tier1_walker.go\<close> and \<open>registry.go\<close>.

  The slope predicates fit a line to the bucket minima of a series. Every \<open>float64\<close> operation is
  the exact one followed by \<open>f64\<close>; the code is compiled without fused multiply-add on amd64,
  and that is what is modelled. \<open>+Inf\<close> occurs only as the value of the scatter floor, and
  is \<open>None\<close>.
\<close>


section \<open>The judged series\<close>

definition slopeWarmup :: duration where "slopeWarmup = 5 * minute"
definition slopeMinSpan :: duration where "slopeMinSpan = 10 * minute"
definition slopeMinSamples :: int where "slopeMinSamples = 60"
definition slopeMinObservation :: duration where "slopeMinObservation = slopeWarmup + slopeMinSpan"
definition slopeBucket :: duration where "slopeBucket = 150 * second"
definition slopePersistSamples :: int where "slopePersistSamples = slopeBucket div second"
definition slopeNoiseK :: rat where "slopeNoiseK = 8"
definition heapSlopeWindow :: duration where "heapSlopeWindow = hour"
definition goroutineSlopeWindow :: duration where "goroutineSlopeWindow = 10 * minute"

type_synonym series = "(int \<times> rat) list"

definition inSeries :: "snapshot \<Rightarrow> int \<Rightarrow> (snapshot \<Rightarrow> bool) \<Rightarrow> bool" where
  "inSeries s cutoffTS keep \<longleftrightarrow> sn_TS s \<ge> cutoffTS \<and> keep s"

definition slope_start :: "prop_context \<Rightarrow> gotime" where
  "slope_start ctx = (if cx_LoadStartedAt ctx \<noteq> 0 then cx_LoadStartedAt ctx else cx_RunStartedAt ctx)"

definition slope_cutoff :: "prop_context \<Rightarrow> duration \<Rightarrow> gotime" where
  "slope_cutoff ctx window =
     (let cutoff = cx_Now ctx - window; warm = slope_start ctx + slopeWarmup
      in if warm > cutoff then warm else cutoff)"

definition slopeWindow ::
    "prop_context \<Rightarrow> duration \<Rightarrow> (snapshot \<Rightarrow> bool) \<Rightarrow> (snapshot \<Rightarrow> rat) \<Rightarrow> series \<times> bool" where
  "slopeWindow ctx window keep y =
     (if slope_start ctx = 0 then ([], False)
      else let cutoffTS = time_Unix (slope_cutoff ctx window);
               series = map (\<lambda>s. (sn_TS s, y s)) (filter (\<lambda>s. inSeries s cutoffTS keep) (cx_History ctx))
           in if int (length series) < slopeMinSamples then (series, False)
              else if wrap64 (fst (last series) - fst (hd series)) < slopeMinSpan div second then (series, False)
              else (series, True))"


section \<open>Buckets\<close>

record bucket =
  b_x :: rat
  b_min :: rat
  b_max :: rat
  b_n :: int
  b_distinct :: int

definition bucket_width :: int where "bucket_width = slopeBucket div second"

text \<open>The loop variables of \<open>buckets\<close>: the index and the content of the open bucket, the last value
  and the finished buckets.\<close>

record bucket_state =
  bs_cur :: int
  bs_b :: bucket
  bs_last :: rat
  bs_out :: "bucket list"

definition flush :: "bucket_state \<Rightarrow> bucket_state" where
  "flush st = (if bs_cur st \<ge> 0 \<and> b_n (bs_b st) \<ge> quot bucket_width 2
               then st\<lparr>bs_out := bs_out st @ [bs_b st]\<rparr> else st)"

definition bucket_step :: "int \<Rightarrow> int \<times> rat \<Rightarrow> bucket_state \<Rightarrow> bucket_state" where
  "bucket_step t0 p st =
     (let idx = quot (wrap64 (fst p - t0)) bucket_width; v = snd p;
          st = (if idx \<noteq> bs_cur st
                then (flush st)\<lparr>bs_cur := idx,
                       bs_b := \<lparr>b_x = f64 (of_int (wrap64 (idx * bucket_width))), b_min = v, b_max = v, b_n = 0, b_distinct = 1\<rparr>,
                       bs_last := v\<rparr>
                else let b = bs_b st;
                         b = (if v < b_min b then b\<lparr>b_min := v\<rparr> else b);
                         b = (if v > b_max b then b\<lparr>b_max := v\<rparr> else b)
                     in if v \<noteq> bs_last st
                        then st\<lparr>bs_b := b\<lparr>b_distinct := b_distinct b + 1\<rparr>, bs_last := v\<rparr>
                        else st\<lparr>bs_b := b\<rparr>)
      in st\<lparr>bs_b := (bs_b st)\<lparr>b_n := b_n (bs_b st) + 1\<rparr>\<rparr>)"

definition init_buckets :: bucket_state where
  "init_buckets = \<lparr>bs_cur = - 1, bs_b = \<lparr>b_x = 0, b_min = 0, b_max = 0, b_n = 0, b_distinct = 0\<rparr>, bs_last = 0, bs_out = []\<rparr>"

definition buckets :: "series \<Rightarrow> bucket list" where
  "buckets series = (case series of [] \<Rightarrow> []
     | (t0, _) # _ \<Rightarrow> bs_out (flush (fold (bucket_step t0) series init_buckets)))"

type_synonym points = "(rat \<times> rat) list"

definition troughs :: "bucket list \<Rightarrow> points" where
  "troughs bs = map (\<lambda>b. (b_x b, b_min b)) bs"


section \<open>The fit and its floors\<close>

definition fsum :: "rat list \<Rightarrow> rat" where
  "fsum xs = fold (\<lambda>x s. f64 (s + x)) xs 0"

definition slope :: "points \<Rightarrow> rat" where
  "slope pts =
     (let n = of_nat (length pts)
      in if n < 2 then 0
         else let sx = fsum (map fst pts); sy = fsum (map snd pts);
                  sxy = fsum (map (\<lambda>(x, y). f64 (x * y)) pts);
                  sxx = fsum (map (\<lambda>(x, y). f64 (x * x)) pts);
                  denom = f64 (f64 (n * sxx) - f64 (sx * sx))
              in if denom = 0 then 0 else f64 (f64 (f64 (n * sxy) - f64 (sx * sy)) / denom))"

definition slopeOf :: "series \<Rightarrow> rat" where
  "slopeOf series = slope (troughs (buckets series))"

definition troughLevel :: "bucket list \<Rightarrow> rat" where
  "troughLevel bs = (if bs = [] then 0 else f64 (fsum (map b_min bs) / of_nat (length bs)))"

definition sorted_median :: "rat list \<Rightarrow> rat" where
  "sorted_median v =
     (let v = sort v; n = length v
      in if n mod 2 = 1 then v ! (n div 2) else f64 (f64 (v ! (n div 2 - 1) + v ! (n div 2)) / 2))"

definition samplingNoise :: "bucket list \<Rightarrow> rat" where
  "samplingNoise bs =
     (if bs = [] then 0
      else sorted_median (map (\<lambda>b. f64 (f64 (b_max b - b_min b) / of_int (max 1 (b_distinct b)))) bs))"

text \<open>The functions of package \<open>math\<close> the scatter estimate calls.\<close>

record go_math =
  m_Sqrt :: "rat \<Rightarrow> rat"
  m_Exp :: "rat \<Rightarrow> rat"
  m_Erfinv :: "rat \<Rightarrow> rat"

definition scatterTrim :: rat where "scatterTrim = 3 / 4"
definition math_Sqrt2 :: rat where
  "math_Sqrt2 = f64 (141421356237309504880168872420969807856967187537694 / 10 ^ 50)"
definition math_2Pi :: rat where
  "math_2Pi = f64 (2 * (314159265358979323846264338327950288419716939937510582097494459 / 10 ^ 62))"

definition medianOf :: "rat list \<Rightarrow> rat" where "medianOf = sorted_median"

definition diffs :: "points \<Rightarrow> rat list" where
  "diffs pts = map (\<lambda>(p, q). f64 (snd q - snd p)) (zip pts (tl pts))"

definition trimmedDiffScale :: "go_math \<Rightarrow> points \<Rightarrow> rat" where
  "trimmedDiffScale M pts =
     (let d = diffs pts; m = medianOf d;
          sq = sort (map (\<lambda>v. f64 (f64 (v - m) * f64 (v - m))) d);
          k = \<lceil>f64 (scatterTrim * of_nat (length sq))\<rceil>;
          s = fsum (take (nat k) sq);
          f = (if k < int (length sq)
               then let p = f64 (of_int k / of_nat (length sq));
                        z = f64 (math_Sqrt2 * m_Erfinv M p);
                        e = m_Exp M (f64 (f64 (f64 (- z) * z) / 2))
                    in f64 (1 - f64 (f64 (f64 (f64 (2 * z) * e) / m_Sqrt M math_2Pi) / p))
               else 1)
      in f64 (m_Sqrt M (f64 (f64 (s / of_int k) / f)) / math_Sqrt2))"

text \<open>The critical values in thousandths, from index 4.\<close>

definition scatter_crit_milli :: "int list" where
  "scatter_crit_milli =
     [22342, 26005, 11139, 7737, 6220, 6547, 5663, 5171, 4807, 4893, 4614, 4451,
      4279, 4336, 4205, 4101, 3999, 4036, 3943, 3883, 3822, 3857, 3812, 3759, 3719, 3737, 3699]"

definition heapScatterCrit :: "rat list" where
  "heapScatterCrit = [0, 0, 0, 0] @ map (\<lambda>c. f64 (of_int c / 1000)) scatter_crit_milli"

definition scatterFloor :: "go_math \<Rightarrow> points \<Rightarrow> rat option" where
  "scatterFloor M pts =
     (let n = length pts
      in if n < 4 then None
         else let sx = fsum (map fst pts); mx = f64 (sx / of_nat n);
                  sxx = fsum (map (\<lambda>(x, y). f64 (f64 (x - mx) * f64 (x - mx))) pts)
              in if sxx = 0 then None
                 else let c = (if n < length heapScatterCrit then heapScatterCrit ! n else last heapScatterCrit)
                      in Some (f64 (f64 (f64 (c * trimmedDiffScale M pts) / m_Sqrt M sxx)
                           * f64 (fst (last pts) - fst (hd pts)))))"


section \<open>The slope predicates\<close>

text \<open>\<open>scatterAlpha\<close> is only compared with zero and printed, so it is the flag and its rendering.\<close>

record slope_spec =
  ss_id :: string
  ss_what :: string
  ss_window :: duration
  ss_budget :: rat
  ss_relFloor :: rat
  ss_scatter :: bool
  ss_y :: "snapshot \<Rightarrow> rat"
  ss_keep :: "snapshot \<Rightarrow> bool"
  ss_fmtV :: "rat \<Rightarrow> string"

definition heapScatterAlpha_text :: string where "heapScatterAlpha_text = ''0.001''"

definition skipWindow :: string where
  "skipWindow = ''slope window not judgeable yet (needs '' @ duration_string slopeWarmup @ '' warm-up, then ''
     @ duration_string slopeMinSpan @ '' / '' @ itoa slopeMinSamples @ '' samples)''"

definition fmt0 :: "rat \<Rightarrow> string" where "fmt0 v = itoa (round_half_even v)"

definition fmtBytes :: "rat \<Rightarrow> string" where
  "fmtBytes v =
     (if \<bar>v\<bar> \<ge> 2 ^ 30 then fmt_fixed 2 (v / 2 ^ 30) @ '' GB''
      else if \<bar>v\<bar> \<ge> 2 ^ 20 then fmt_fixed 2 (v / 2 ^ 20) @ '' MB''
      else if \<bar>v\<bar> \<ge> 2 ^ 10 then fmt_fixed 1 (v / 2 ^ 10) @ '' KB''
      else fmt0 v @ '' B'')"

definition fmtCount :: "rat \<Rightarrow> string" where "fmtCount v = fmt_fixed 2 v"

definition windowSpan :: "series \<Rightarrow> string" where
  "windowSpan series = itoa (int (length series)) @ '' samples over ''
     @ duration_string (wrap64 ((fst (last series) - fst (hd series)) * second))"

text \<open>What the verdict is computed from.\<close>

record slope_fit =
  sf_slope :: rat
  sf_fitted :: rat
  sf_raw :: rat
  sf_rise :: rat
  sf_level :: rat
  sf_noise :: rat
  sf_floorBudget :: rat
  sf_floorRel :: rat
  sf_floorNoise :: rat
  sf_floorScat :: "rat option"
  sf_floor :: "rat option"

definition fmax_inf :: "rat option \<Rightarrow> rat option \<Rightarrow> rat option" where
  "fmax_inf a b = (case (a, b) of (Some x, Some y) \<Rightarrow> Some (max x y) | _ \<Rightarrow> None)"

definition slope_fit_of :: "go_math \<Rightarrow> slope_spec \<Rightarrow> bucket list \<Rightarrow> slope_fit" where
  "slope_fit_of M sp bs =
     (let pts = troughs bs; s = slope pts;
          fitted = f64 (s * f64 (fst (last pts) - fst (hd pts)));
          raw = f64 (snd (last pts) - snd (hd pts));
          level = troughLevel bs; noise = samplingNoise bs;
          floorBudget = f64 (ss_budget sp * of_int (slopeMinSpan div second));
          floorRel = f64 (ss_relFloor sp * level);
          floorNoise = f64 (slopeNoiseK * noise);
          fl = max floorBudget (max floorRel floorNoise);
          floorScat = (if ss_scatter sp then scatterFloor M pts else Some 0);
          fl' = (if ss_scatter sp then fmax_inf (Some fl) floorScat else Some fl)
      in \<lparr>sf_slope = s, sf_fitted = fitted, sf_raw = raw, sf_rise = min fitted raw, sf_level = level, sf_noise = noise,
          sf_floorBudget = floorBudget, sf_floorRel = floorRel, sf_floorNoise = floorNoise,
          sf_floorScat = floorScat, sf_floor = fl'\<rparr>)"

definition below_floor :: "slope_fit \<Rightarrow> bool" where
  "below_floor ft = (case sf_floor ft of None \<Rightarrow> True | Some fl \<Rightarrow> sf_rise ft < fl)"

text \<open>The message of a violation; an infinite floor never gets here.\<close>

definition slope_message :: "slope_spec \<Rightarrow> series \<Rightarrow> bucket list \<Rightarrow> slope_fit \<Rightarrow> string" where
  "slope_message sp series bs ft =
     (let V = ss_fmtV sp; inf = (\<lambda>x. case x of None \<Rightarrow> ''+Inf'' | Some r \<Rightarrow> V r);
          scat = (if ss_scatter sp
                  then '', trough scatter (slope test at '' @ heapScatterAlpha_text @ '', ''
                    @ itoa (int (length bs)) @ '' troughs) '' @ inf (sf_floorScat ft) else '''')
      in ss_id sp @ '' violated: '' @ ss_what sp @ '' trough slope '' @ V (sf_slope ft) @ ''/s exceeds ''
         @ V (ss_budget sp) @ ''/s budget; rise '' @ V (sf_rise ft) @ '' (fitted '' @ V (sf_fitted ft)
         @ '', trough-to-trough '' @ V (sf_raw ft) @ '') over '' @ windowSpan series @ '' (''
         @ itoa (int (length bs)) @ '' troughs) clears the floor '' @ inf (sf_floor ft) @ '' = max(budget x ''
         @ duration_string slopeMinSpan @ '' = '' @ V (sf_floorBudget ft) @ '', '' @ fmt0 (f64 (ss_relFloor sp * 100))
         @ ''% of level '' @ V (sf_level ft) @ '' = '' @ V (sf_floorRel ft) @ '', '' @ fmt0 slopeNoiseK
         @ ''x sampling noise '' @ V (sf_noise ft) @ '' = '' @ V (sf_floorNoise ft) @ scat @ ''); ''
         @ V (snd (hd series)) @ '' -> '' @ V (snd (last series)))"

definition judge :: "go_math \<Rightarrow> slope_spec \<Rightarrow> prop_context \<Rightarrow> verdict" where
  "judge M sp ctx =
     (case slopeWindow ctx (ss_window sp) (ss_keep sp) (ss_y sp) of (series, ok) \<Rightarrow>
        if \<not> ok then Skip skipWindow
        else let bs = buckets series; ft = slope_fit_of M sp bs
             in if sf_slope ft \<le> ss_budget sp then pass
                else if below_floor ft then pass
                else (False, slope_message sp series bs ft))"

definition keep_all :: "snapshot \<Rightarrow> bool" where "keep_all s = True"

definition heap_y :: "snapshot \<Rightarrow> rat" where "heap_y s = f64 (of_int (sn_HeapInuseBytes s))"
definition goroutine_y :: "snapshot \<Rightarrow> rat" where "goroutine_y s = f64 (of_int (sn_GoroutineCount s))"
definition rss_y :: "snapshot \<Rightarrow> rat" where "rss_y s = f64 (of_int (sn_RSSBytes s))"
definition rss_keep :: "snapshot \<Rightarrow> bool" where "rss_keep s \<longleftrightarrow> sn_RSSBytes s > 0"

definition heapSlopeSpec :: slope_spec where
  "heapSlopeSpec = \<lparr>ss_id = ''I-MEM-1'', ss_what = ''heap_inuse'', ss_window = heapSlopeWindow, ss_budget = 1024,
     ss_relFloor = f64 (3 / 100), ss_scatter = True, ss_y = heap_y, ss_keep = keep_all, ss_fmtV = fmtBytes\<rparr>"

definition legacyHeapSlopeSpec :: slope_spec where
  "legacyHeapSlopeSpec = heapSlopeSpec\<lparr>ss_scatter := False\<rparr>"

definition goroutineSlopeSpec :: slope_spec where
  "goroutineSlopeSpec = \<lparr>ss_id = ''I-MEM-3'', ss_what = ''goroutine count'', ss_window = goroutineSlopeWindow,
     ss_budget = f64 (2 / 10), ss_relFloor = f64 (5 / 100), ss_scatter = False, ss_y = goroutine_y,
     ss_keep = keep_all, ss_fmtV = fmtCount\<rparr>"

definition rssSlopeSpec :: slope_spec where
  "rssSlopeSpec = \<lparr>ss_id = ''I-MEM-4'', ss_what = ''RSS'', ss_window = heapSlopeWindow, ss_budget = 64 * 1024,
     ss_relFloor = f64 (5 / 100), ss_scatter = False, ss_y = rss_y, ss_keep = rss_keep, ss_fmtV = fmtBytes\<rparr>"

definition IMEM1ShadowLabel :: string where
  "IMEM1ShadowLabel = ''I-MEM-1 (pre-scatter-floor rule, informational)''"

definition imem1 :: "go_math \<Rightarrow> predicate" where "imem1 M snap ctx = judge M heapSlopeSpec ctx"
definition imem1_shadow :: "go_math \<Rightarrow> predicate" where "imem1_shadow M snap ctx = judge M legacyHeapSlopeSpec ctx"
definition imem3 :: "go_math \<Rightarrow> predicate" where "imem3 M snap ctx = judge M goroutineSlopeSpec ctx"

definition imem4 :: "go_math \<Rightarrow> predicate" where
  "imem4 M snap ctx =
     (if sn_RSSBytes snap \<le> 0 then Skip ''RSS not sampled (no pid, non-linux host, or remote refapp)''
      else judge M rssSlopeSpec ctx)"

definition IMEM1 :: "go_math \<Rightarrow> spec" where
  "IMEM1 M = \<lparr>sp_ID = ''I-MEM-1'', sp_Tier = ''core'', sp_Predicate = imem1 M, sp_Persist = slopePersistSamples,
     sp_MinObservation = slopeMinObservation, sp_Shadow = Some (IMEM1ShadowLabel, imem1_shadow M)\<rparr>"

definition IMEM3 :: "go_math \<Rightarrow> spec" where
  "IMEM3 M = \<lparr>sp_ID = ''I-MEM-3'', sp_Tier = ''core'', sp_Predicate = imem3 M, sp_Persist = slopePersistSamples,
     sp_MinObservation = slopeMinObservation, sp_Shadow = None\<rparr>"

definition IMEM4 :: "go_math \<Rightarrow> spec" where
  "IMEM4 M = \<lparr>sp_ID = ''I-MEM-4'', sp_Tier = ''core'', sp_Predicate = imem4 M, sp_Persist = slopePersistSamples,
     sp_MinObservation = slopeMinObservation, sp_Shadow = None\<rparr>"


section \<open>Idle goroutines\<close>

definition IdleSettle :: duration where "IdleSettle = 30 * second"
definition goroutineBaselinePad :: int where "goroutineBaselinePad = 8"
definition idlePersistSamples :: int where "idlePersistSamples = 3"

text \<open>The scan from the end of the history while the idle window is the current one.\<close>

fun idle_scan :: "int \<Rightarrow> snapshot list \<Rightarrow> int option \<Rightarrow> int option" where
  "idle_scan w [] r = r"
| "idle_scan w (h # hs) r = (if sn_IdleWindow h \<noteq> w then r else idle_scan w hs (Some (sn_TS h)))"

definition idleWindowStart :: "prop_context \<Rightarrow> int option" where
  "idleWindowStart ctx = idle_scan (cx_IdleWindow ctx) (rev (cx_History ctx)) None"

definition imem2 :: predicate where
  "imem2 snap ctx =
     (if cx_IdleWindow ctx = 0 then Skip ''no idle window (the orchestrator is driving load)''
      else if cx_IdleWindow ctx = 1 then Skip ''first idle window: establishing the idle baseline''
      else if cx_IdleBaselineGoroutines ctx \<le> 0 then Skip ''no idle baseline (the first idle window was never left)''
      else if (case idleWindowStart ctx of None \<Rightarrow> True
               | Some start \<Rightarrow> wrap64 ((sn_TS snap - start) * second) < IdleSettle)
      then Skip ''idle window has not settled yet''
      else let budget = wrap64 (cx_IdleBaselineGoroutines ctx + goroutineBaselinePad)
           in if sn_GoroutineCount snap > budget
              then (False, ''I-MEM-2 violated: idle goroutine count '' @ itoa (sn_GoroutineCount snap) @ '' in idle window ''
                      @ itoa (cx_IdleWindow ctx) @ '' exceeds first-idle baseline('' @ itoa (cx_IdleBaselineGoroutines ctx)
                      @ '')+'' @ itoa goroutineBaselinePad @ ''='' @ itoa budget)
              else pass)"

definition IMEM2 :: spec where
  "IMEM2 = simple_spec ''I-MEM-2'' ''core'' idlePersistSamples imem2"


section \<open>The registry\<close>

definition alwaysOK :: predicate where "alwaysOK snap ctx = pass"

text \<open>The predicates the orchestrator's tally callback raises; here they always pass.\<close>

definition tier1_walker_specs :: "spec list" where
  "tier1_walker_specs = map (\<lambda>i. simple_spec i ''tier-1-walker'' 0 alwaysOK)
     [''I-ADV-ACCEPTED'', ''I-H2C-CRASHED'', ''I-WS-ACCEPTED'', ''I-WS-HANG'', ''I-H2C-HANG'', ''I-WS-HANDSHAKE'',
      ''I-H2C-STALL'', ''I-WS-STALL'', ''I-WS-ECHO-STALL'', ''I-WS-ECHO-SLOW'', ''I-WS-ECHO'', ''I-LIVENESS'', ''I-HANG'']"

definition registered :: "go_math \<Rightarrow> spec list" where
  "registered M =
     [ICONN1, ICONN2, IRFC1, IRFC2, IMEM1 M, IMEM2, IMEM3 M, IMEM4 M, IPANIC, IRACE, ICHECKPTR,
      IMWRateLimit, IMWSession, IMWJWT, IDRV, IENGIOURing, IENGAdaptive] @ tier1_walker_specs"

definition All :: "go_math \<Rightarrow> spec list" where
  "All M = sort_key sp_ID (registered M)"

definition ByTier :: "go_math \<Rightarrow> string \<Rightarrow> spec list" where
  "ByTier M tier = (if tier = '''' then All M else filter (\<lambda>s. sp_Tier s = tier) (All M))"

definition ByID :: "go_math \<Rightarrow> string \<Rightarrow> spec option" where
  "ByID M i = find (\<lambda>s. sp_ID s = i) (All M)"

text \<open>\<open>SelectPredicates\<close> of \<open>src/validation/checker/poll.go\<close>; the set of the seen ids is a list.\<close>

fun select_add :: "spec list \<Rightarrow> spec list \<times> string list \<Rightarrow> spec list \<times> string list" where
  "select_add [] st = st"
| "select_add (p # ps) (pool, seen) =
     (if sp_ID p \<in> set seen then select_add ps (pool, seen)
      else select_add ps (pool @ [p], sp_ID p # seen))"

fun select_tiers :: "go_math \<Rightarrow> string list \<Rightarrow> spec list \<times> string list \<Rightarrow> spec list \<times> string list" where
  "select_tiers M [] st = st"
| "select_tiers M (t # ts) st =
     (let t = trim_space t
      in if t = '''' then select_tiers M ts st else select_tiers M ts (select_add (ByTier M t) st))"

definition SelectPredicates :: "go_math \<Rightarrow> string \<Rightarrow> spec list" where
  "SelectPredicates M tier =
     (let pool = (if tier = '''' then All M else fst (select_tiers M (split_on (CHR '','') tier) ([], [])))
      in filter (\<lambda>p. sp_Tier p \<noteq> ''tier-1-walker'') pool)"

section \<open>Verdicts of the slope predicates\<close>

abbreviation window_of :: "slope_spec \<Rightarrow> prop_context \<Rightarrow> series \<times> bool" where
  "window_of sp ctx \<equiv> slopeWindow ctx (ss_window sp) (ss_keep sp) (ss_y sp)"

lemma judge_skip: "IsSkip (judge M sp ctx) \<longleftrightarrow> \<not> snd (window_of sp ctx)"
  by (simp add: judge_def Let_def case_prod_unfold)

lemma judge_fail:
  "\<not> fst (judge M sp ctx) \<longleftrightarrow> snd (window_of sp ctx)
     \<and> sf_slope (slope_fit_of M sp (buckets (fst (window_of sp ctx)))) > ss_budget sp
     \<and> \<not> below_floor (slope_fit_of M sp (buckets (fst (window_of sp ctx))))"
  by (auto simp: judge_def Let_def case_prod_unfold)

lemma legacy_below_floor:
  "below_floor (slope_fit_of M (sp\<lparr>ss_scatter := False\<rparr>) bs) \<Longrightarrow> below_floor (slope_fit_of M sp bs)"
  by (auto simp: below_floor_def slope_fit_of_def Let_def fmax_inf_def split: option.splits)

lemma legacy_slope: "sf_slope (slope_fit_of M (sp\<lparr>ss_scatter := False\<rparr>) bs) = sf_slope (slope_fit_of M sp bs)"
  by (simp add: slope_fit_of_def Let_def)

lemma scatter_only_absolves:
  "IsSkip (judge M (sp\<lparr>ss_scatter := False\<rparr>) ctx) = IsSkip (judge M sp ctx)"
  "\<not> fst (judge M sp ctx) \<Longrightarrow> \<not> fst (judge M (sp\<lparr>ss_scatter := False\<rparr>) ctx)"
  unfolding judge_skip judge_fail by (auto simp: legacy_slope dest: legacy_below_floor)

lemma slopeWindow_judgeable:
  assumes "snd (slopeWindow ctx window keep y)"
  defines "hs \<equiv> filter (\<lambda>s. inSeries s (time_Unix (slope_cutoff ctx window)) keep) (cx_History ctx)"
  shows "slope_start ctx \<noteq> 0" and "60 \<le> length hs" and "600 \<le> wrap64 (sn_TS (last hs) - sn_TS (hd hs))"
    and "fst (slopeWindow ctx window keep y) = map (\<lambda>s. (sn_TS s, y s)) hs"
proof -
  from assms show "slope_start ctx \<noteq> 0" and l: "60 \<le> length hs"
    and "fst (slopeWindow ctx window keep y) = map (\<lambda>s. (sn_TS s, y s)) hs"
    by (auto simp: slopeWindow_def Let_def slopeMinSamples_def split: if_splits)
  then have "hs \<noteq> []" by auto
  with assms show "600 \<le> wrap64 (sn_TS (last hs) - sn_TS (hd hs))"
    by (auto simp: slopeWindow_def Let_def slopeMinSpan_def go_simps last_map hd_map split: if_splits)
qed

lemma slope_cutoff_warm: "slope_start ctx + slopeWarmup \<le> slope_cutoff ctx window"
  by (simp add: slope_cutoff_def Let_def)

lemma time_Unix_mono: "t \<le> t' \<Longrightarrow> time_Unix t \<le> time_Unix t'"
  by (simp add: time_Unix_def second_def zdiv_mono1)

lemma time_Unix_add: "time_Unix (t + n * second) = time_Unix t + n"
  by (simp add: time_Unix_def second_def)

lemma judgeable_span:
  assumes "snd (slopeWindow ctx window keep y)"
    and "\<And>h. h \<in> set (cx_History ctx) \<Longrightarrow> in_int64 (sn_TS h) \<and> 0 \<le> sn_TS h"
  obtains h where "h \<in> set (cx_History ctx)" and "time_Unix (slope_start ctx) + 900 \<le> sn_TS h"
proof -
  define hs where "hs = filter (\<lambda>s. inSeries s (time_Unix (slope_cutoff ctx window)) keep) (cx_History ctx)"
  note w = slopeWindow_judgeable [OF assms(1), folded hs_def]
  then have ne: "hs \<noteq> []" by auto
  then have m: "hd hs \<in> set hs" "last hs \<in> set hs" by auto
  then have hist: "hd hs \<in> set (cx_History ctx)" "last hs \<in> set (cx_History ctx)" by (auto simp: hs_def)
  have "in_int64 (sn_TS (last hs) - sn_TS (hd hs))"
    using assms(2) [OF hist(1)] assms(2) [OF hist(2)] by (simp add: in_int64_def)
  with w(3) have "600 \<le> sn_TS (last hs) - sn_TS (hd hs)" by (simp add: wrap64_id)
  moreover have "time_Unix (slope_start ctx + slopeWarmup) \<le> sn_TS (hd hs)"
    using m(1) time_Unix_mono [OF slope_cutoff_warm, of ctx window] by (auto simp: hs_def inSeries_def)
  moreover have "time_Unix (slope_start ctx + slopeWarmup) = time_Unix (slope_start ctx) + 300"
    using time_Unix_add [of "slope_start ctx" 300] by (simp add: slopeWarmup_def go_simps)
  ultimately have "time_Unix (slope_start ctx) + 900 \<le> sn_TS (last hs)" by linarith
  with that [OF hist(2)] show thesis .
qed

lemma above_floors:
  assumes "\<not> below_floor (slope_fit_of M sp bs)"
  shows "f64 (ss_budget sp * 600) \<le> sf_rise (slope_fit_of M sp bs)"
    and "f64 (ss_relFloor sp * troughLevel bs) \<le> sf_rise (slope_fit_of M sp bs)"
    and "f64 (8 * samplingNoise bs) \<le> sf_rise (slope_fit_of M sp bs)"
    and "ss_scatter sp \<longrightarrow> (\<exists>floorScat. scatterFloor M (troughs bs) = Some floorScat \<and>
      floorScat \<le> sf_rise (slope_fit_of M sp bs))"
  using assms
  by (auto simp: below_floor_def slope_fit_of_def Let_def slopeMinSpan_def go_simps slopeNoiseK_def fmax_inf_def not_less
      split: if_splits option.splits)

definition slope_specs :: "slope_spec list" where
  "slope_specs = [heapSlopeSpec, legacyHeapSlopeSpec, goroutineSlopeSpec, rssSlopeSpec]"

lemma slope_specs_budget: "sp \<in> set slope_specs \<Longrightarrow> 0 \<le> ss_budget sp"
  using f64_mono [of 0 "2 / 10"]
  by (auto simp: slope_specs_def heapSlopeSpec_def legacyHeapSlopeSpec_def goroutineSlopeSpec_def rssSlopeSpec_def f64_def [of 0])

text \<open>C27: A violation of a slope predicate means real growth. Whatever the floating-point fit does, the
  window it judged holds at least 60 samples over at least ten minutes, all of them taken five
  minutes or more after the start of the sustained load, and the fitted slope exceeds the budget.
  Both rises, the fitted one and the one from the first trough to the last, reach every floor of the
  predicate: ten minutes of the budgeted slope, the relative floor, eight times the sampling noise,
  and for I-MEM-1 the scatter floor, which is then finite.\<close>

theorem slope_violation_means_growth:
  fixes M :: go_math and sp :: slope_spec and ctx :: prop_context
  assumes "\<not> fst (judge M sp ctx)" and "sp \<in> set slope_specs"
  defines "hs \<equiv> filter (\<lambda>s. inSeries s (time_Unix (slope_cutoff ctx (ss_window sp))) (ss_keep sp)) (cx_History ctx)"
  defines "bs \<equiv> buckets (map (\<lambda>s. (sn_TS s, ss_y sp s)) hs)"
  defines "rise \<equiv> min (f64 (slope (troughs bs) * f64 (b_x (last bs) - b_x (hd bs)))) (f64 (b_min (last bs) - b_min (hd bs)))"
  shows "60 \<le> length hs \<and> 600 \<le> wrap64 (sn_TS (last hs) - sn_TS (hd hs))
       \<and> (\<forall>h\<in>set hs. time_Unix (slope_start ctx + 5 * minute) \<le> sn_TS h)
       \<and> ss_budget sp < slope (troughs bs)
       \<and> f64 (ss_budget sp * 600) \<le> rise \<and> f64 (ss_relFloor sp * troughLevel bs) \<le> rise
       \<and> f64 (8 * samplingNoise bs) \<le> rise
       \<and> (sp = heapSlopeSpec \<longrightarrow> (\<exists>floorScat. scatterFloor M (troughs bs) = Some floorScat \<and> floorScat \<le> rise))"
proof -
  from assms(1) have w: "snd (window_of sp ctx)"
    and f: "ss_budget sp < sf_slope (slope_fit_of M sp (buckets (fst (window_of sp ctx))))"
    and g: "\<not> below_floor (slope_fit_of M sp (buckets (fst (window_of sp ctx))))"
    unfolding judge_fail by auto
  note ww = slopeWindow_judgeable [OF w, folded hs_def]
  have u: "time_Unix (slope_start ctx + 5 * minute) \<le> sn_TS h" if "h \<in> set hs" for h
    using that time_Unix_mono [OF slope_cutoff_warm, of ctx "ss_window sp"]
    by (auto simp: hs_def inSeries_def slopeWarmup_def)
  have "bs \<noteq> []"
  proof
    assume "bs = []"
    then have e: "buckets (fst (window_of sp ctx)) = []" by (simp add: bs_def ww(4))
    show False using f slope_specs_budget [OF assms(2)] by (simp add: e)
       (simp add: slope_fit_of_def Let_def troughs_def slope_def)
  qed
  then have ends: "last (troughs bs) = (b_x (last bs), b_min (last bs))" "hd (troughs bs) = (b_x (hd bs), b_min (hd bs))"
    by (simp_all add: troughs_def last_map hd_map)
  have b: "buckets (fst (window_of sp ctx)) = bs" by (simp add: bs_def ww(4))
  have r: "sf_rise (slope_fit_of M sp bs) = rise" by (simp add: slope_fit_of_def Let_def ends rise_def)
  have "ss_budget sp < slope (troughs bs)" using f unfolding b by (simp add: slope_fit_of_def Let_def)
  moreover note above_floors [OF g [unfolded b], unfolded r]
  moreover have "sp = heapSlopeSpec \<Longrightarrow> ss_scatter sp" by (simp add: heapSlopeSpec_def)
  ultimately show ?thesis using ww(2,3) u by blast
qed

text \<open>A concrete cell: 75 samples in each of two buckets and one more, 1 goroutine in the first and 512 in the second.\<close>

definition w_gor :: "int \<Rightarrow> int \<Rightarrow> snapshot" where
  "w_gor ts n = zero_snapshot\<lparr>sn_TS := ts, sn_GoroutineCount := n\<rparr>"

definition w_ctx :: prop_context where
  "w_ctx = \<lparr>cx_RunStartedAt = (unix_epoch + 1000) * second, cx_Now = (unix_epoch + 1900) * second, cx_IdleMode = False,
     cx_IdleWindow = 0, cx_IdleBaselineGoroutines = 0, cx_LoadStartedAt = 0, cx_BaselineGoroutines = 0,
     cx_History = map (\<lambda>k. w_gor (1300 + 2 * k) 1) [0..74] @ map (\<lambda>k. w_gor (1750 + 2 * k) 512) [0..74] @ [w_gor 1900 512]\<rparr>"

definition w_math :: go_math where
  "w_math = \<lparr>m_Sqrt = (\<lambda>x. x), m_Exp = (\<lambda>x. x), m_Erfinv = (\<lambda>x. x)\<rparr>"

definition w_points :: series where
  "w_points = map (\<lambda>k. (1300 + 2 * k, 1)) [0..74] @ map (\<lambda>k. (1750 + 2 * k, 512)) [0..74] @ [(1900, 512)]"

lemma w_cutoff: "time_Unix (slope_cutoff w_ctx (ss_window goroutineSlopeSpec)) = 1300"
  by (simp add: w_ctx_def goroutineSlopeSpec_def slope_cutoff_def slope_start_def slopeWarmup_def goroutineSlopeWindow_def
      time_Unix_def unix_epoch_def go_simps Let_def)

lemma w_kept:
  "filter (\<lambda>s. inSeries s 1300 keep_all) (cx_History w_ctx) = cx_History w_ctx"
  by (auto simp: inSeries_def keep_all_def w_ctx_def w_gor_def intro!: filter_True)

lemma w_f64: "f64 1 = 1" "f64 512 = 512"
  using f64_pow2 [of 0] f64_pow2 [of 9] by (simp_all add: pow2_def)

lemma w_window: "window_of goroutineSlopeSpec w_ctx = (w_points, True)"
proof -
  have m: "map (\<lambda>s. (sn_TS s, goroutine_y s)) (cx_History w_ctx) = w_points"
    by (simp add: w_ctx_def w_gor_def w_points_def goroutine_y_def w_f64 comp_def)
  have l: "length w_points = 151" "fst (last w_points) = 1900" "fst (hd w_points) = 1300"
    by (simp_all add: w_points_def upto.simps hd_append)
  have st: "slope_start w_ctx \<noteq> 0" by (simp add: slope_start_def w_ctx_def unix_epoch_def go_simps)
  have sp: "ss_keep goroutineSlopeSpec = keep_all" "ss_y goroutineSlopeSpec = goroutine_y"
    by (simp_all add: goroutineSlopeSpec_def)
  show ?thesis
    unfolding slopeWindow_def Let_def w_cutoff sp w_kept m
    using st by (simp add: l slopeMinSamples_def slopeMinSpan_def go_simps wrap64_id in_int64_def)
qed

lemma w_buckets:
  "buckets w_points = [\<lparr>b_x = 0, b_min = 1, b_max = 1, b_n = 75, b_distinct = 1\<rparr>,
     \<lparr>b_x = 450, b_min = 512, b_max = 512, b_n = 75, b_distinct = 1\<rparr>]"
  by code_simp

lemma w_ctx_fails: "\<not> fst (judge w_math goroutineSlopeSpec w_ctx)"
  unfolding judge_fail w_window fst_conv snd_conv w_buckets by code_simp

theorem slope_violation_means_growth_witness:
  "\<not> fst (judge w_math goroutineSlopeSpec w_ctx)
   \<and> 60 \<le> length (filter (\<lambda>s. inSeries s (time_Unix (slope_cutoff w_ctx (ss_window goroutineSlopeSpec))) (ss_keep goroutineSlopeSpec))
             (cx_History w_ctx))"
proof -
  have "goroutineSlopeSpec \<in> set slope_specs" by (simp add: slope_specs_def)
  with slope_violation_means_growth [OF w_ctx_fails] w_ctx_fails show ?thesis by blast
qed

end
