(* ===== verification/Evaluator.thy ===== *)
theory Evaluator
  imports MemProperties Gate
begin

text \<open>
  The evaluator that drives the predicates over the snapshots of a cell:
  \<open>src/validation/checker/evaluator.go\<close>, with the kinds of \<open>src/report/engine_counter.go\<close> and the
  buckets of \<open>error_class.go\<close>.

  A Go map that is only read by key is a function with the zero value as default; the maps that
  are ranged over are association lists, and a nil map is the empty list. \<open>Observe\<close> is the
  composition of the pieces the method consists of, in their order. Event counts are unbounded.

  The lemmas give the outcome of every predicate by the sequence of its verdicts, without the
  evaluator's streaks, and classify the predicates of a finished cell.
\<close>


section \<open>Engine counters\<close>

datatype engine_counter_kind =
  CounterCumulative | CounterRunningMax | CounterGauge | CounterStatic | CounterPeakGauge

definition EngineCounterKinds :: "engine_counter_kind gomap" where
  "EngineCounterKinds = [
      (''engine_transplant_handoff_refused'', CounterCumulative),
      (''engine_transplant_drain_stopped'', CounterCumulative),
      (''engine_transplant_stranded'', CounterCumulative),
      (''engine_transplant_adopt_refused'', CounterCumulative),
      (''engine_stale_recv_data_transplanted'', CounterCumulative),
      (''engine_stale_recv_data_unattributed'', CounterCumulative),
      (''engine_stale_recv_data_closed'', CounterCumulative),
      (''engine_transplant_handoff_in_flight'', CounterCumulative),
      (''engine_transplant_held'', CounterCumulative),
      (''engine_transplant_reaps'', CounterCumulative),
      (''engine_transplant_reap_misses'', CounterCumulative),
      (''engine_transplant_hold_rescued'', CounterCumulative),
      (''engine_transplant_double_claim'', CounterCumulative),
      (''engine_transplant_claim_deferred'', CounterCumulative),
      (''engine_transplant_reap_failed'', CounterCumulative),
      (''engine_transplant_reap_unsupported'', CounterCumulative),
      (''engine_close_fd_deferred'', CounterCumulative),
      (''engine_close_fd_forced'', CounterCumulative),
      (''engine_close_zc_notif_held'', CounterCumulative),
      (''engine_close_zc_notif_held_now'', CounterPeakGauge),
      (''engine_close_zc_notif_held_bytes'', CounterPeakGauge),
      (''engine_close_zc_notif_forced'', CounterCumulative),
      (''engine_shutdown_zc_buf_retained'', CounterCumulative),
      (''engine_transplant_sweep_passes'', CounterCumulative),
      (''engine_transplant_residual_busy'', CounterPeakGauge),
      (''engine_transplant_residual_detached'', CounterPeakGauge),
      (''engine_transplant_residual_h2'', CounterPeakGauge),
      (''engine_transplant_residual_pinned'', CounterPeakGauge),
      (''engine_transplant_residual_unstarted'', CounterPeakGauge),
      (''engine_recv_resume_while_cancel_pending'', CounterCumulative),
      (''engine_recv_resume_while_recv_in_flight'', CounterCumulative),
      (''engine_recv_arm_declined'', CounterCumulative),
      (''engine_recv_stall_nanos'', CounterCumulative),
      (''engine_recv_stall_max_nanos'', CounterRunningMax),
      (''engine_recv_linked_arms'', CounterCumulative),
      (''engine_recv_linked_blocked_nanos'', CounterCumulative),
      (''engine_recv_linked_blocked_max_nanos'', CounterRunningMax),
      (''engine_detached_conns'', CounterGauge),
      (''engine_detach_window_closes'', CounterCumulative),
      (''engine_zc_sends_submitted'', CounterCumulative),
      (''engine_zc_notifs'', CounterCumulative),
      (''engine_inline_bytes'', CounterCumulative),
      (''engine_ring_bytes'', CounterCumulative),
      (''engine_async_routes'', CounterStatic),
      (''engine_standby_close_count'', CounterCumulative),
      (''engine_workers'', CounterGauge),
      (''engine_bytes_read'', CounterCumulative),
      (''engine_bytes_written'', CounterCumulative)]"

definition ErrorClassKeys :: "string list" where
  "ErrorClassKeys = [
      ''engine_error_accept_fd_limit'', ''engine_error_accept_cancelled'', ''engine_error_accept_other'',
      ''engine_error_conn_table_cap'', ''engine_error_conn_register'', ''engine_error_listener_recreate'',
      ''engine_error_transplant_adopt'', ''engine_error_send_peer_gone'', ''engine_error_send'',
      ''engine_error_request_body'', ''engine_error_handler'']"

definition zero_witness_keys :: "string list" where
  "zero_witness_keys = [
      ''engine_transplant_adopt_slot_occupied'', ''engine_close_missing_conn_state'', ''engine_recv_double_armed'',
      ''engine_recv_cqe_unaccounted'', ''engine_recv_sq_full'', ''engine_recv_stall_episodes'']"

definition engine_counter_keys :: "string list" where
  "engine_counter_keys = [
      ''engine_transplant_handoff_refused'', ''engine_transplant_drain_stopped'',
      ''engine_transplant_stranded'', ''engine_transplant_adopt_refused'',
      ''engine_recv_resume_while_cancel_pending'', ''engine_recv_resume_while_recv_in_flight'',
      ''engine_recv_arm_declined'', ''engine_recv_stall_nanos'', ''engine_recv_stall_max_nanos'',
      ''engine_recv_linked_arms'', ''engine_recv_linked_blocked_nanos'',
      ''engine_recv_linked_blocked_max_nanos'', ''engine_detached_conns'', ''engine_detach_window_closes'',
      ''engine_zc_sends_submitted'', ''engine_zc_notifs'', ''engine_inline_bytes'', ''engine_ring_bytes'',
      ''engine_async_routes'', ''engine_standby_close_count'', ''engine_workers'', ''engine_bytes_read'',
      ''engine_bytes_written'', ''engine_stale_recv_data_closed'', ''engine_stale_recv_data_transplanted'',
      ''engine_stale_recv_data_unattributed'', ''engine_transplant_handoff_in_flight'',
      ''engine_transplant_held'', ''engine_transplant_reaps'', ''engine_transplant_reap_misses'',
      ''engine_transplant_hold_rescued'', ''engine_transplant_double_claim'',
      ''engine_transplant_claim_deferred'', ''engine_transplant_reap_failed'',
      ''engine_transplant_reap_unsupported'', ''engine_transplant_sweep_passes'',
      ''engine_transplant_residual_detached'', ''engine_transplant_residual_h2'',
      ''engine_transplant_residual_pinned'', ''engine_transplant_residual_unstarted'',
      ''engine_transplant_residual_busy'', ''engine_close_fd_deferred'', ''engine_close_fd_forced'',
      ''engine_close_zc_notif_held'', ''engine_close_zc_notif_held_now'',
      ''engine_close_zc_notif_held_bytes'', ''engine_close_zc_notif_forced'',
      ''engine_shutdown_zc_buf_retained'']"

definition reduceEngineCounter :: "engine_counter_kind option \<Rightarrow> int \<Rightarrow> bool \<Rightarrow> int \<Rightarrow> int" where
  "reduceEngineCounter kind held seen reading =
     (if \<not> seen then reading
      else case kind of
        Some CounterRunningMax \<Rightarrow> max held reading
      | Some CounterCumulative \<Rightarrow> reading
      | Some CounterGauge \<Rightarrow> reading
      | Some CounterStatic \<Rightarrow> reading
      | Some CounterPeakGauge \<Rightarrow> max held reading
      | None \<Rightarrow> reading)"


section \<open>The evaluator's state\<close>

record shadow_tally =
  sh_Label :: string
  sh_Violations :: int
  sh_AbsolvedEvaluations :: int
  sh_Absolved :: bool
  sh_FirstMessage :: string

record prop_tally =
  tl_Samples :: int
  tl_PollErrors :: int
  tl_Evaluations :: int
  tl_Skips :: int
  tl_Violations :: int
  tl_ViolationIDs :: "string list"
  tl_Predicates :: "string list"
  tl_NotInstrumented :: "string list"
  tl_AdaptiveSwitches :: int
  tl_PeakConnsPerWorker :: rat
  tl_MeanBytesPerReq :: rat
  tl_EngineZeroWitness :: "int gomap"
  tl_EngineAcceptCount :: int
  tl_EngineCloseCount :: int
  tl_EngineTransplantDetached :: int
  tl_EngineTransplantAdopted :: int
  tl_EngineAsyncPromotedConns :: int
  tl_EngineRequestsTotal :: int
  tl_PeakStandbyActiveConns :: int
  tl_EngineErrorCount :: int
  tl_EngineErrorClasses :: "int gomap"
  tl_EngineStandbyErrorCount :: int
  tl_EngineCounters :: "int gomap"
  tl_NotJudged :: "string list"
  tl_NotJudgedByDesign :: "string list"
  tl_Observed :: duration
  tl_SkippedReason :: string
  tl_FailureSummaries :: "string gomap"
  tl_PerPredicate :: "int gomap"
  tl_Informational :: "shadow_tally gomap"
  tl_IdleWindows :: int
  tl_IdleBaselineGoroutines :: int
  tl_BaselineGoroutines :: int
  tl_LastGoroutines :: int
  tl_FirstHeapInuse :: int
  tl_LastHeapInuse :: int
  tl_FirstRSS :: int
  tl_LastRSS :: int

record evaluator =
  ev_specs :: "spec list"
  ev_ctx :: prop_context
  ev_tally :: prop_tally
  ev_per :: "string \<Rightarrow> int"
  ev_judged :: "string \<Rightarrow> int"
  ev_streak :: "string \<Rightarrow> int"
  ev_shadowStreak :: "string \<Rightarrow> int"
  ev_shadow :: "shadow_tally gomap"
  ev_first :: "string \<Rightarrow> string"
  ev_declared :: "string \<Rightarrow> bool"
  ev_firstPoll :: gotime
  ev_lastPoll :: gotime
  ev_base :: "(int \<times> int) option"
  ev_lastReqs :: int
  ev_lastBytes :: int

record prop_violation =
  pv_ID :: string
  pv_Message :: string
  pv_Snapshot :: snapshot
  pv_First :: bool

definition zero_context :: prop_context where
  "zero_context = \<lparr>cx_RunStartedAt = 0, cx_Now = 0, cx_IdleMode = False, cx_IdleWindow = 0,
     cx_IdleBaselineGoroutines = 0, cx_LoadStartedAt = 0, cx_BaselineGoroutines = 0, cx_History = []\<rparr>"

definition zero_tally :: prop_tally where
  "zero_tally = \<lparr>tl_Samples = 0, tl_PollErrors = 0, tl_Evaluations = 0, tl_Skips = 0, tl_Violations = 0,
     tl_ViolationIDs = [], tl_Predicates = [], tl_NotInstrumented = [], tl_AdaptiveSwitches = 0,
     tl_PeakConnsPerWorker = 0, tl_MeanBytesPerReq = 0, tl_EngineZeroWitness = [], tl_EngineAcceptCount = 0,
     tl_EngineCloseCount = 0, tl_EngineTransplantDetached = 0, tl_EngineTransplantAdopted = 0,
     tl_EngineAsyncPromotedConns = 0, tl_EngineRequestsTotal = 0, tl_PeakStandbyActiveConns = 0,
     tl_EngineErrorCount = 0, tl_EngineErrorClasses = [], tl_EngineStandbyErrorCount = 0, tl_EngineCounters = [],
     tl_NotJudged = [], tl_NotJudgedByDesign = [], tl_Observed = 0, tl_SkippedReason = '''',
     tl_FailureSummaries = [], tl_PerPredicate = [], tl_Informational = [], tl_IdleWindows = 0,
     tl_IdleBaselineGoroutines = 0, tl_BaselineGoroutines = 0, tl_LastGoroutines = 0, tl_FirstHeapInuse = 0,
     tl_LastHeapInuse = 0, tl_FirstRSS = 0, tl_LastRSS = 0\<rparr>"

definition NewEvaluator :: "spec list \<Rightarrow> evaluator" where
  "NewEvaluator specs = \<lparr>ev_specs = specs, ev_ctx = zero_context, ev_tally = zero_tally,
     ev_per = (\<lambda>_. 0), ev_judged = (\<lambda>_. 0), ev_streak = (\<lambda>_. 0), ev_shadowStreak = (\<lambda>_. 0), ev_shadow = [],
     ev_first = (\<lambda>_. ''''), ev_declared = (\<lambda>_. False), ev_firstPoll = 0, ev_lastPoll = 0,
     ev_base = None, ev_lastReqs = 0, ev_lastBytes = 0\<rparr>"

definition HistoryCap :: nat where "HistoryCap = 3600"


section \<open>One observation\<close>

definition upd_tally :: "(prop_tally \<Rightarrow> prop_tally) \<Rightarrow> evaluator \<Rightarrow> evaluator" where
  "upd_tally f e = e\<lparr>ev_tally := f (ev_tally e)\<rparr>"

definition upd_ctx :: "(prop_context \<Rightarrow> prop_context) \<Rightarrow> evaluator \<Rightarrow> evaluator" where
  "upd_ctx f e = e\<lparr>ev_ctx := f (ev_ctx e)\<rparr>"

definition attempt :: "gotime \<Rightarrow> evaluator \<Rightarrow> evaluator" where
  "attempt t e =
     (if t = 0 then e
      else let e = (if ev_firstPoll e = 0 \<or> t < ev_firstPoll e then e\<lparr>ev_firstPoll := t\<rparr> else e);
               e = (if t > ev_lastPoll e then e\<lparr>ev_lastPoll := t\<rparr> else e)
           in upd_tally (tl_Observed_update (\<lambda>_. time_sub (ev_lastPoll e) (ev_firstPoll e))) e)"

definition RecordPollError :: "gotime \<Rightarrow> evaluator \<Rightarrow> evaluator" where
  "RecordPollError t e = attempt t (upd_tally (tl_PollErrors_update (\<lambda>n. n + 1)) e)"

definition first_sample :: "snapshot \<Rightarrow> gotime \<Rightarrow> evaluator \<Rightarrow> evaluator" where
  "first_sample snap now e =
     (if tl_Samples (ev_tally e) = 0
      then upd_ctx (\<lambda>c. c\<lparr>cx_RunStartedAt := now, cx_BaselineGoroutines := sn_GoroutineCount snap\<rparr>)
             (upd_tally (\<lambda>t. t\<lparr>tl_BaselineGoroutines := sn_GoroutineCount snap,
                tl_FirstHeapInuse := sn_HeapInuseBytes snap, tl_FirstRSS := sn_RSSBytes snap\<rparr>) e)
      else e)"

definition record_resources :: "snapshot \<Rightarrow> prop_tally \<Rightarrow> prop_tally" where
  "record_resources snap t =
     (let t = t\<lparr>tl_LastGoroutines := sn_GoroutineCount snap, tl_LastHeapInuse := sn_HeapInuseBytes snap\<rparr>
      in if sn_RSSBytes snap > 0
         then t\<lparr>tl_FirstRSS := (if tl_FirstRSS t = 0 then sn_RSSBytes snap else tl_FirstRSS t),
                tl_LastRSS := sn_RSSBytes snap\<rparr>
         else t)"

definition declared_ids :: "string \<Rightarrow> string list" where
  "declared_ids ps = filter (\<lambda>i. i \<noteq> '''') (map trim_space (split_on (CHR '','') ps))"

definition declare_ids :: "snapshot \<Rightarrow> evaluator \<Rightarrow> evaluator" where
  "declare_ids snap e =
     e\<lparr>ev_declared := (\<lambda>i. i \<in> set (declared_ids (sn_InstrumentedProperties snap)) \<or> ev_declared e i)\<rparr>"

definition idle_bookkeeping :: "snapshot \<Rightarrow> gotime \<Rightarrow> evaluator \<Rightarrow> evaluator" where
  "idle_bookkeeping snap now e =
     (let c = ev_ctx e;
          e = (if cx_History c \<noteq> [] \<and> sn_IdleWindow (last (cx_History c)) = 1 \<and> sn_IdleWindow snap = 0
                  \<and> cx_IdleBaselineGoroutines c = 0
               then let g = sn_GoroutineCount (last (cx_History c))
                    in upd_ctx (\<lambda>c. c\<lparr>cx_IdleBaselineGoroutines := g, cx_LoadStartedAt := now\<rparr>)
                         (upd_tally (\<lambda>t. t\<lparr>tl_IdleBaselineGoroutines := g\<rparr>) e)
               else e);
          e = upd_ctx (\<lambda>c. c\<lparr>cx_IdleWindow := sn_IdleWindow snap, cx_IdleMode := sn_IdleWindow snap > 0\<rparr>) e
      in upd_tally (\<lambda>t. t\<lparr>tl_IdleWindows := max (tl_IdleWindows t) (sn_IdleWindow snap)\<rparr>) e)"

definition recordZeroWitnesses :: "snapshot \<Rightarrow> prop_tally \<Rightarrow> prop_tally" where
  "recordZeroWitnesses snap t =
     (let m = (if tl_EngineZeroWitness t = [] then map (\<lambda>(k, _). (k, 0)) ZeroWitnessMeaning else tl_EngineZeroWitness t)
      in t\<lparr>tl_EngineZeroWitness :=
           fold (\<lambda>k m. if sn_Engine snap k > mget m k then mput m k (sn_Engine snap k) else m) zero_witness_keys m\<rparr>)"

definition recordErrorClasses :: "snapshot \<Rightarrow> prop_tally \<Rightarrow> prop_tally" where
  "recordErrorClasses snap t =
     (let m = (if tl_EngineErrorClasses t = [] then map (\<lambda>k. (k, 0)) ErrorClassKeys else tl_EngineErrorClasses t)
      in t\<lparr>tl_EngineErrorClasses :=
           fold (\<lambda>k m. if sn_Engine snap k > mget m k then mput m k (sn_Engine snap k) else m) ErrorClassKeys m\<rparr>)"

definition recordEngineCounters :: "snapshot \<Rightarrow> prop_tally \<Rightarrow> prop_tally" where
  "recordEngineCounters snap t =
     (if sn_EngineName snap = '''' then t
      else t\<lparr>tl_EngineCounters :=
             fold (\<lambda>k m. mput m k (reduceEngineCounter (map_of EngineCounterKinds k) (mget m k)
                             (map_of m k \<noteq> None) (sn_Engine snap k)))
               engine_counter_keys (tl_EngineCounters t)\<rparr>)"

definition record_peaks :: "snapshot \<Rightarrow> prop_tally \<Rightarrow> prop_tally" where
  "record_peaks snap t =
     (let E = sn_Engine snap;
          cpw = f64 (f64 (of_int (sn_ActiveConns snap)) / f64 (of_int (E ''engine_workers'')))
      in t\<lparr>tl_AdaptiveSwitches := max (tl_AdaptiveSwitches t) (sn_AdaptiveSwitches snap),
           tl_PeakConnsPerWorker := (if E ''engine_workers'' > 0 then max (tl_PeakConnsPerWorker t) cpw
                                     else tl_PeakConnsPerWorker t),
           tl_EngineAcceptCount := max (tl_EngineAcceptCount t) (E ''engine_accept_count''),
           tl_EngineCloseCount := max (tl_EngineCloseCount t) (E ''engine_close_count''),
           tl_EngineTransplantDetached := max (tl_EngineTransplantDetached t) (E ''engine_transplant_detached''),
           tl_EngineTransplantAdopted := max (tl_EngineTransplantAdopted t) (E ''engine_transplant_adopted''),
           tl_EngineAsyncPromotedConns := max (tl_EngineAsyncPromotedConns t) (E ''engine_async_promoted_conns''),
           tl_EngineRequestsTotal := max (tl_EngineRequestsTotal t) (E ''engine_requests_total''),
           tl_PeakStandbyActiveConns := max (tl_PeakStandbyActiveConns t) (E ''engine_standby_active_conns''),
           tl_EngineErrorCount := max (tl_EngineErrorCount t) (E ''engine_error_count''),
           tl_EngineStandbyErrorCount := max (tl_EngineStandbyErrorCount t) (E ''engine_standby_error_count'')\<rparr>)"

definition record_mean :: "snapshot \<Rightarrow> evaluator \<Rightarrow> evaluator" where
  "record_mean snap e =
     (let reqs = sn_Engine snap ''engine_requests_total''
      in if reqs > 0
         then let bytes = wrap64 (sn_Engine snap ''engine_bytes_read'' + sn_Engine snap ''engine_bytes_written'');
                  base = (case ev_base e of None \<Rightarrow> (reqs, bytes) | Some b \<Rightarrow> b);
                  e = e\<lparr>ev_base := Some base, ev_lastReqs := reqs, ev_lastBytes := bytes\<rparr>;
                  dr = wrap64 (reqs - fst base)
              in if dr > 0
                 then upd_tally (\<lambda>t. t\<lparr>tl_MeanBytesPerReq :=
                        f64 (f64 (of_int (wrap64 (bytes - snd base))) / f64 (of_int dr))\<rparr>) e
                 else e
         else e)"

definition append_history :: "snapshot \<Rightarrow> gotime \<Rightarrow> prop_context \<Rightarrow> prop_context" where
  "append_history snap now c =
     (let h = cx_History c @ [snap]
      in c\<lparr>cx_Now := now, cx_History := (if length h > HistoryCap then drop (length h - HistoryCap) h else h)\<rparr>)"

definition evalSpec :: "spec \<Rightarrow> snapshot \<Rightarrow> evaluator \<Rightarrow> evaluator \<times> prop_violation option" where
  "evalSpec s snap e =
     (let v = sp_Predicate s snap (ev_ctx e); i = sp_ID s
      in if IsSkip v then (upd_tally (\<lambda>t. t\<lparr>tl_Skips := tl_Skips t + 1\<rparr>) e, None)
         else let e = upd_tally (\<lambda>t. t\<lparr>tl_Evaluations := tl_Evaluations t + 1\<rparr>) e;
                  e = e\<lparr>ev_judged := (ev_judged e)(i := ev_judged e i + 1)\<rparr>
              in if fst v then (e\<lparr>ev_streak := (ev_streak e)(i := 0)\<rparr>, None)
                 else let e = e\<lparr>ev_streak := (ev_streak e)(i := ev_streak e i + 1)\<rparr>
                      in if ev_streak e i < sp_Persist s then (e, None)
                         else let e = upd_tally (\<lambda>t. t\<lparr>tl_Violations := tl_Violations t + 1\<rparr>) e;
                                  first = (ev_per e i = 0);
                                  e = e\<lparr>ev_per := (ev_per e)(i := ev_per e i + 1)\<rparr>;
                                  e = (if first then e\<lparr>ev_first := (ev_first e)(i := snd v)\<rparr> else e)
                              in (e, Some \<lparr>pv_ID = i, pv_Message = snd v, pv_Snapshot = snap, pv_First = first\<rparr>))"

definition observeShadow :: "spec \<Rightarrow> string \<times> predicate \<Rightarrow> snapshot \<Rightarrow> bool \<Rightarrow> evaluator \<Rightarrow> evaluator" where
  "observeShadow s sh snap declared e =
     (let v = snd sh snap (ev_ctx e); i = sp_ID s
      in if IsSkip v then e
         else if fst v then e\<lparr>ev_shadowStreak := (ev_shadowStreak e)(i := 0)\<rparr>
         else let e = e\<lparr>ev_shadowStreak := (ev_shadowStreak e)(i := ev_shadowStreak e i + 1)\<rparr>
              in if ev_shadowStreak e i < sp_Persist s then e
                 else let t = (case map_of (ev_shadow e) i of
                                 None \<Rightarrow> \<lparr>sh_Label = fst sh, sh_Violations = 0, sh_AbsolvedEvaluations = 0,
                                          sh_Absolved = False, sh_FirstMessage = snd v\<rparr>
                               | Some t \<Rightarrow> t);
                          t = t\<lparr>sh_Violations := sh_Violations t + 1,
                                sh_AbsolvedEvaluations := sh_AbsolvedEvaluations t + (if declared then 0 else 1)\<rparr>
                      in e\<lparr>ev_shadow := mput (ev_shadow e) i t\<rparr>)"

definition eval_one :: "spec \<Rightarrow> snapshot \<Rightarrow> evaluator \<Rightarrow> evaluator \<times> prop_violation list" where
  "eval_one s snap e =
     (case evalSpec s snap e of (e, v) \<Rightarrow>
        ((case sp_Shadow s of None \<Rightarrow> e | Some sh \<Rightarrow> observeShadow s sh snap (v \<noteq> None) e),
         (case v of None \<Rightarrow> [] | Some x \<Rightarrow> [x])))"

fun eval_specs :: "spec list \<Rightarrow> snapshot \<Rightarrow> evaluator \<Rightarrow> evaluator \<times> prop_violation list" where
  "eval_specs [] snap e = (e, [])"
| "eval_specs (s # ss) snap e =
     (case eval_one s snap e of (e, vs) \<Rightarrow>
        case eval_specs ss snap e of (e, ws) \<Rightarrow> (e, vs @ ws))"

text \<open>Everything \<open>Observe\<close> does before the loop over the specs.\<close>

definition observe_prepare :: "snapshot \<Rightarrow> gotime \<Rightarrow> evaluator \<Rightarrow> evaluator" where
  "observe_prepare snap now e =
     (let e = first_sample snap now e;
          e = upd_tally (\<lambda>t. t\<lparr>tl_Samples := tl_Samples t + 1\<rparr>) e;
          e = attempt now e;
          e = upd_tally (record_resources snap) e;
          e = declare_ids snap e;
          e = idle_bookkeeping snap now e;
          e = upd_tally (\<lambda>t. recordEngineCounters snap (recordErrorClasses snap (recordZeroWitnesses snap (record_peaks snap t)))) e;
          e = record_mean snap e
      in upd_ctx (append_history snap now) e)"

definition Observe :: "snapshot \<Rightarrow> gotime \<Rightarrow> evaluator \<Rightarrow> evaluator \<times> prop_violation list" where
  "Observe snap now e = (let e = observe_prepare snap now e in eval_specs (ev_specs e) snap e)"


section \<open>The tally\<close>

definition UninstrumentedIDs :: "string list" where "UninstrumentedIDs = []"

definition DeclaredOnly :: "string list" where
  "DeclaredOnly = [''I-MEM-2'', ''I-DRV'', ''I-RACE'', ''I-ENG-IOURING'', ''I-ENG-ADAPTIVE'', ''I-MW-SESSION'',
     ''I-MW-JWT'', ''I-MW-RATELIMIT'', ''I-CONN-1'', ''I-CHECKPTR'', ''I-RFC-1'', ''I-RFC-2'']"

definition not_instrumented :: "evaluator \<Rightarrow> string \<Rightarrow> bool" where
  "not_instrumented e i \<longleftrightarrow> i \<in> set UninstrumentedIDs
     \<or> (i \<in> set DeclaredOnly \<and> \<not> ev_declared e i)
     \<or> (i = ''I-MEM-4'' \<and> tl_LastRSS (ev_tally e) = 0)"

definition not_judged :: "evaluator \<Rightarrow> string \<Rightarrow> bool" where
  "not_judged e i \<longleftrightarrow> \<not> not_instrumented e i \<and> tl_Samples (ev_tally e) > 0 \<and> ev_judged e i = 0"

definition Tally :: "evaluator \<Rightarrow> prop_tally" where
  "Tally e =
     (let ids = map sp_ID (ev_specs e); obs = tl_Observed (ev_tally e)
      in (ev_tally e)\<lparr>
           tl_Predicates := sort ids,
           tl_PerPredicate := map (\<lambda>i. (i, ev_per e i)) ids,
           tl_NotInstrumented := sort (filter (not_instrumented e) ids),
           tl_NotJudged := sort (filter (not_judged e) ids),
           tl_NotJudgedByDesign := sort (map sp_ID (filter (\<lambda>s. not_judged e (sp_ID s)
              \<and> sp_MinObservation s > 0 \<and> obs < sp_MinObservation s) (ev_specs e))),
           tl_ViolationIDs := sort (filter (\<lambda>i. ev_per e i > 0) ids),
           tl_FailureSummaries := map (\<lambda>i. (i, ev_first e i)) (filter (\<lambda>i. ev_per e i > 0) ids),
           tl_Informational := map (\<lambda>(i, sh). (i, sh\<lparr>sh_Absolved := (ev_per e i = 0)\<rparr>)) (ev_shadow e)\<rparr>)"

definition Passed :: "prop_tally \<Rightarrow> int" where
  "Passed t =
     (if tl_Samples t = 0 then 0
      else int (length (filter (\<lambda>i. i \<notin> set (tl_ViolationIDs t) \<and> i \<notin> set (tl_NotInstrumented t)
                                   \<and> i \<notin> set (tl_NotJudged t)) (tl_Predicates t))))"

definition Failed :: "prop_tally \<Rightarrow> int" where
  "Failed t = int (length (tl_ViolationIDs t))"

section \<open>A cell as a sequence of polls\<close>

datatype poll = Sample snapshot gotime | PollError gotime

fun run_polls :: "poll list \<Rightarrow> evaluator \<Rightarrow> evaluator \<times> prop_violation list list" where
  "run_polls [] e = (e, [])"
| "run_polls (PollError t # ps) e = run_polls ps (RecordPollError t e)"
| "run_polls (Sample snap now # ps) e =
     (case Observe snap now e of (e, vs) \<Rightarrow> case run_polls ps e of (e, vss) \<Rightarrow> (e, vs # vss))"

text \<open>The context the predicates see, without the evaluator.\<close>

definition next_context :: "bool \<Rightarrow> snapshot \<Rightarrow> gotime \<Rightarrow> prop_context \<Rightarrow> prop_context" where
  "next_context fresh snap now c =
     (let c = (if fresh then c\<lparr>cx_RunStartedAt := now, cx_BaselineGoroutines := sn_GoroutineCount snap\<rparr> else c);
          c = (if cx_History c \<noteq> [] \<and> sn_IdleWindow (last (cx_History c)) = 1 \<and> sn_IdleWindow snap = 0
                  \<and> cx_IdleBaselineGoroutines c = 0
               then c\<lparr>cx_IdleBaselineGoroutines := sn_GoroutineCount (last (cx_History c)), cx_LoadStartedAt := now\<rparr>
               else c)
      in append_history snap now (c\<lparr>cx_IdleWindow := sn_IdleWindow snap, cx_IdleMode := sn_IdleWindow snap > 0\<rparr>))"

fun sample_contexts :: "bool \<Rightarrow> prop_context \<Rightarrow> poll list \<Rightarrow> (snapshot \<times> prop_context) list" where
  "sample_contexts fresh c [] = []"
| "sample_contexts fresh c (PollError t # ps) = sample_contexts fresh c ps"
| "sample_contexts fresh c (Sample snap now # ps) =
     (let c = next_context fresh snap now c in (snap, c) # sample_contexts False c ps)"

fun samples :: "poll list \<Rightarrow> (snapshot \<times> gotime) list" where
  "samples [] = []"
| "samples (PollError t # ps) = samples ps"
| "samples (Sample snap now # ps) = (snap, now) # samples ps"

definition verdicts :: "spec \<Rightarrow> poll list \<Rightarrow> verdict list" where
  "verdicts s ps = map (\<lambda>(snap, c). sp_Predicate s snap c) (sample_contexts True zero_context ps)"

section \<open>Frame\<close>

named_theorems ev_frame \<open>what the pieces of an observation leave alone\<close>

definition core where
  "core e = (ev_specs e, ev_per e, ev_judged e, ev_streak e, ev_first e, ev_shadow e, ev_shadowStreak e)"

definition counts where
  "counts t = (tl_Evaluations t, tl_Skips t, tl_Violations t)"

lemma upd_frame [ev_frame]:
  "core (upd_tally f e) = core e" "core (upd_ctx g e) = core e"
  "ev_ctx (upd_tally f e) = ev_ctx e" "ev_ctx (upd_ctx g e) = g (ev_ctx e)"
  "ev_tally (upd_tally f e) = f (ev_tally e)" "ev_tally (upd_ctx g e) = ev_tally e"
  "ev_declared (upd_tally f e) = ev_declared e" "ev_declared (upd_ctx g e) = ev_declared e"
  by (simp_all add: upd_tally_def upd_ctx_def core_def)

lemma attempt_frame [ev_frame]:
  "core (attempt t e) = core e" "ev_ctx (attempt t e) = ev_ctx e" "ev_declared (attempt t e) = ev_declared e"
  "counts (ev_tally (attempt t e)) = counts (ev_tally e)"
  "tl_Samples (ev_tally (attempt t e)) = tl_Samples (ev_tally e)"
  "tl_LastRSS (ev_tally (attempt t e)) = tl_LastRSS (ev_tally e)"
  by (simp_all add: attempt_def Let_def upd_tally_def core_def counts_def)

lemma first_sample_frame [ev_frame]:
  "core (first_sample snap now e) = core e" "ev_declared (first_sample snap now e) = ev_declared e"
  "counts (ev_tally (first_sample snap now e)) = counts (ev_tally e)"
  "tl_Samples (ev_tally (first_sample snap now e)) = tl_Samples (ev_tally e)"
  "tl_LastRSS (ev_tally (first_sample snap now e)) = tl_LastRSS (ev_tally e)"
  by (simp_all add: first_sample_def upd_tally_def upd_ctx_def core_def counts_def)

lemma idle_frame [ev_frame]:
  "core (idle_bookkeeping snap now e) = core e" "ev_declared (idle_bookkeeping snap now e) = ev_declared e"
  "counts (ev_tally (idle_bookkeeping snap now e)) = counts (ev_tally e)"
  "tl_Samples (ev_tally (idle_bookkeeping snap now e)) = tl_Samples (ev_tally e)"
  "tl_LastRSS (ev_tally (idle_bookkeeping snap now e)) = tl_LastRSS (ev_tally e)"
  by (simp_all add: idle_bookkeeping_def upd_tally_def upd_ctx_def core_def counts_def Let_def)

lemma mean_frame [ev_frame]:
  "core (record_mean snap e) = core e" "ev_declared (record_mean snap e) = ev_declared e"
  "ev_ctx (record_mean snap e) = ev_ctx e"
  "counts (ev_tally (record_mean snap e)) = counts (ev_tally e)"
  "tl_Samples (ev_tally (record_mean snap e)) = tl_Samples (ev_tally e)"
  "tl_LastRSS (ev_tally (record_mean snap e)) = tl_LastRSS (ev_tally e)"
  by (simp_all add: record_mean_def upd_tally_def upd_ctx_def core_def counts_def Let_def split: option.splits)

lemma declare_frame [ev_frame]:
  "core (declare_ids snap e) = core e" "ev_ctx (declare_ids snap e) = ev_ctx e"
  "ev_tally (declare_ids snap e) = ev_tally e"
  by (simp_all add: declare_ids_def core_def)

lemma tally_frame [ev_frame]:
  "counts (record_resources snap t) = counts t" "tl_Samples (record_resources snap t) = tl_Samples t"
  "counts (record_peaks snap t) = counts t" "tl_Samples (record_peaks snap t) = tl_Samples t"
  "counts (recordZeroWitnesses snap t) = counts t" "tl_Samples (recordZeroWitnesses snap t) = tl_Samples t"
  "counts (recordErrorClasses snap t) = counts t" "tl_Samples (recordErrorClasses snap t) = tl_Samples t"
  "counts (recordEngineCounters snap t) = counts t" "tl_Samples (recordEngineCounters snap t) = tl_Samples t"
  "counts (tl_Samples_update f t) = counts t" "counts (tl_PollErrors_update f t) = counts t"
  "tl_Samples (tl_PollErrors_update f t) = tl_Samples t"
  "tl_LastRSS (record_peaks snap t) = tl_LastRSS t" "tl_LastRSS (recordZeroWitnesses snap t) = tl_LastRSS t"
  "tl_LastRSS (recordErrorClasses snap t) = tl_LastRSS t" "tl_LastRSS (recordEngineCounters snap t) = tl_LastRSS t"
  by (simp_all add: record_resources_def record_peaks_def recordZeroWitnesses_def recordErrorClasses_def
     recordEngineCounters_def counts_def Let_def)

lemma prepare_core: "core (observe_prepare snap now e) = core e"
  by (simp add: observe_prepare_def ev_frame Let_def)

lemma prepare_counts: "counts (ev_tally (observe_prepare snap now e)) = counts (ev_tally e)"
  by (simp add: observe_prepare_def ev_frame Let_def)

lemma prepare_samples: "tl_Samples (ev_tally (observe_prepare snap now e)) = tl_Samples (ev_tally e) + 1"
  by (simp add: observe_prepare_def ev_frame Let_def)

lemma prepare_declared:
  "ev_declared (observe_prepare snap now e) i \<longleftrightarrow>
     i \<in> set (declared_ids (sn_InstrumentedProperties snap)) \<or> ev_declared e i"
  by (simp add: observe_prepare_def ev_frame Let_def) (simp add: declare_ids_def ev_frame)

lemma idle_ctx:
  "ev_ctx (idle_bookkeeping snap now e) =
     (let c = ev_ctx e;
          c = (if cx_History c \<noteq> [] \<and> sn_IdleWindow (last (cx_History c)) = 1 \<and> sn_IdleWindow snap = 0
                  \<and> cx_IdleBaselineGoroutines c = 0
               then c\<lparr>cx_IdleBaselineGoroutines := sn_GoroutineCount (last (cx_History c)), cx_LoadStartedAt := now\<rparr>
               else c)
      in c\<lparr>cx_IdleWindow := sn_IdleWindow snap, cx_IdleMode := sn_IdleWindow snap > 0\<rparr>)"
  by (simp add: idle_bookkeeping_def Let_def ev_frame)

lemma prepare_ctx:
  "ev_ctx (observe_prepare snap now e) = next_context (tl_Samples (ev_tally e) = 0) snap now (ev_ctx e)"
  by (simp add: observe_prepare_def next_context_def ev_frame Let_def idle_ctx) (auto simp: first_sample_def ev_frame)

lemma prepare_proj [ev_frame]:
  "ev_specs (observe_prepare snap now e) = ev_specs e"
  "ev_per (observe_prepare snap now e) = ev_per e" "ev_judged (observe_prepare snap now e) = ev_judged e"
  "ev_streak (observe_prepare snap now e) = ev_streak e" "ev_first (observe_prepare snap now e) = ev_first e"
  "ev_shadow (observe_prepare snap now e) = ev_shadow e"
  "ev_shadowStreak (observe_prepare snap now e) = ev_shadowStreak e"
  using prepare_core [of snap now e] by (simp_all add: core_def)


section \<open>One predicate\<close>

text \<open>The part of the evaluator's state one predicate reads and writes, and its step.\<close>

record pstate =
  ps_per :: int
  ps_judged :: int
  ps_streak :: int
  ps_first :: string

definition proj :: "evaluator \<Rightarrow> string \<Rightarrow> pstate" where
  "proj e i = \<lparr>ps_per = ev_per e i, ps_judged = ev_judged e i, ps_streak = ev_streak e i, ps_first = ev_first e i\<rparr>"

definition declares_now :: "int \<Rightarrow> verdict \<Rightarrow> pstate \<Rightarrow> bool" where
  "declares_now persist v p \<longleftrightarrow> \<not> IsSkip v \<and> \<not> fst v \<and> persist \<le> ps_streak p + 1"

definition pstep :: "int \<Rightarrow> verdict \<Rightarrow> pstate \<Rightarrow> pstate" where
  "pstep persist v p =
     (if IsSkip v then p
      else \<lparr>ps_per = ps_per p + (if declares_now persist v p then 1 else 0),
            ps_judged = ps_judged p + 1,
            ps_streak = (if fst v then 0 else ps_streak p + 1),
            ps_first = (if declares_now persist v p \<and> ps_per p = 0 then snd v else ps_first p)\<rparr>)"

definition violation_of :: "spec \<Rightarrow> snapshot \<Rightarrow> verdict \<Rightarrow> pstate \<Rightarrow> prop_violation option" where
  "violation_of s snap v p =
     (if declares_now (sp_Persist s) v p
      then Some \<lparr>pv_ID = sp_ID s, pv_Message = snd v, pv_Snapshot = snap, pv_First = (ps_per p = 0)\<rparr> else None)"

lemma evalSpec_proj:
  "proj (fst (evalSpec s snap e)) i =
     (if i = sp_ID s then pstep (sp_Persist s) (sp_Predicate s snap (ev_ctx e)) (proj e i) else proj e i)"
  by (simp add: evalSpec_def pstep_def proj_def declares_now_def upd_tally_def Let_def)

lemma evalSpec_violation:
  "snd (evalSpec s snap e) = violation_of s snap (sp_Predicate s snap (ev_ctx e)) (proj e (sp_ID s))"
  by (simp add: evalSpec_def violation_of_def proj_def declares_now_def upd_tally_def Let_def)

lemma evalSpec_frame:
  "ev_ctx (fst (evalSpec s snap e)) = ev_ctx e" "ev_specs (fst (evalSpec s snap e)) = ev_specs e"
  "ev_declared (fst (evalSpec s snap e)) = ev_declared e"
  "ev_shadow (fst (evalSpec s snap e)) = ev_shadow e" "ev_shadowStreak (fst (evalSpec s snap e)) = ev_shadowStreak e"
  by (simp_all add: evalSpec_def upd_tally_def Let_def)

lemma shadow_frame:
  "ev_ctx (observeShadow s sh snap d e) = ev_ctx e" "ev_specs (observeShadow s sh snap d e) = ev_specs e"
  "ev_tally (observeShadow s sh snap d e) = ev_tally e"
  "ev_declared (observeShadow s sh snap d e) = ev_declared e" "proj (observeShadow s sh snap d e) = proj e"
  by (simp_all add: observeShadow_def proj_def Let_def fun_eq_iff)

lemma eval_one_frame:
  "ev_ctx (fst (eval_one s snap e)) = ev_ctx e" "ev_specs (fst (eval_one s snap e)) = ev_specs e"
  "ev_declared (fst (eval_one s snap e)) = ev_declared e"
  "ev_tally (fst (eval_one s snap e)) = ev_tally (fst (evalSpec s snap e))"
  "proj (fst (eval_one s snap e)) = proj (fst (evalSpec s snap e))"
  by (simp_all add: eval_one_def evalSpec_frame shadow_frame case_prod_unfold split: option.splits)

lemma eval_one_snd: "snd (eval_one s snap e) = (case snd (evalSpec s snap e) of None \<Rightarrow> [] | Some x \<Rightarrow> [x])"
  by (simp add: eval_one_def split: prod.splits)

lemma eval_specs_frame:
  "ev_ctx (fst (eval_specs ss snap e)) = ev_ctx e" "ev_specs (fst (eval_specs ss snap e)) = ev_specs e"
  "ev_declared (fst (eval_specs ss snap e)) = ev_declared e"
  by (induction ss arbitrary: e) (simp_all add: eval_one_frame split: prod.splits, (metis eval_one_frame fst_conv)+)

lemma eval_specs_Cons:
  "fst (eval_specs (s # ss) snap e) = fst (eval_specs ss snap (fst (eval_one s snap e)))"
  "snd (eval_specs (s # ss) snap e) = snd (eval_one s snap e) @ snd (eval_specs ss snap (fst (eval_one s snap e)))"
  by (simp_all split: prod.splits)

text \<open>What the evaluation of one predicate and its twin leave alone, the loop over the specs does too.\<close>

lemma eval_specs_preserves:
  assumes "\<And>s e. f (fst (evalSpec s snap e)) = f e" and "\<And>s sh d e. f (observeShadow s sh snap d e) = f e"
  shows "f (fst (eval_specs ss snap e)) = f e"
proof -
  have "f (fst (eval_one s snap e)) = f e" for s e
    by (simp add: eval_one_def case_prod_unfold assms split: option.splits)
  then show ?thesis by (induction ss arbitrary: e) (simp_all add: eval_specs_Cons del: eval_specs.simps(2))
qed

lemma eval_specs_other: "i \<notin> sp_ID ` set ss \<Longrightarrow> proj (fst (eval_specs ss snap e)) i = proj e i"
  by (induction ss arbitrary: e) (simp_all add: eval_specs_Cons eval_one_frame evalSpec_proj del: eval_specs.simps(2))

lemma eval_specs_ids: "pv_ID ` set (snd (eval_specs ss snap e)) \<subseteq> sp_ID ` set ss"
proof (induction ss arbitrary: e)
  case (Cons s ss)
  have "pv_ID ` set (snd (eval_one s snap e)) \<subseteq> {sp_ID s}"
    by (auto simp: eval_one_snd evalSpec_violation violation_of_def split: option.splits)
  with Cons [of "fst (eval_one s snap e)"] show ?case
    by (auto simp: eval_specs_Cons simp del: eval_specs.simps(2))
qed simp

lemma eval_specs_proj:
  assumes "distinct (map sp_ID ss)" and "s \<in> set ss"
  shows "proj (fst (eval_specs ss snap e)) (sp_ID s)
       = pstep (sp_Persist s) (sp_Predicate s snap (ev_ctx e)) (proj e (sp_ID s))"
  using assms
proof (induction ss arbitrary: e)
  case (Cons a ss)
  show ?case
  proof (cases "s = a")
    case True
    with Cons.prems show ?thesis
      by (simp add: eval_specs_Cons eval_specs_other eval_one_frame evalSpec_proj del: eval_specs.simps(2))
  next
    case False
    with Cons.prems have s: "s \<in> set ss" by simp
    with Cons.prems have "sp_ID s \<noteq> sp_ID a" by simp (metis image_eqI)
    with s Cons show ?thesis
      by (simp add: eval_specs_Cons eval_one_frame evalSpec_proj del: eval_specs.simps(2))
  qed
qed simp

lemma eval_specs_violations:
  assumes "distinct (map sp_ID ss)" and "s \<in> set ss"
  shows "filter (\<lambda>v. pv_ID v = sp_ID s) (snd (eval_specs ss snap e))
       = (case violation_of s snap (sp_Predicate s snap (ev_ctx e)) (proj e (sp_ID s)) of None \<Rightarrow> [] | Some x \<Rightarrow> [x])"
  using assms
proof (induction ss arbitrary: e)
  case (Cons a ss)
  have no: "filter (\<lambda>v. pv_ID v = i) (snd (eval_specs ss snap e')) = []" if "i \<notin> sp_ID ` set ss" for i e'
    using that eval_specs_ids [of ss snap e'] by (auto simp: filter_empty_conv)
  show ?case
  proof (cases "s = a")
    case True
    with Cons.prems show ?thesis
      by (simp add: eval_specs_Cons eval_one_snd evalSpec_violation no violation_of_def del: eval_specs.simps(2))
  next
    case False
    with Cons.prems have s: "s \<in> set ss" by simp
    with Cons.prems have "sp_ID s \<noteq> sp_ID a" by simp (metis image_eqI)
    with s Cons show ?thesis
      by (simp add: eval_specs_Cons eval_one_snd eval_one_frame evalSpec_violation evalSpec_proj violation_of_def
          split: option.splits del: eval_specs.simps(2))
  qed
qed simp

section \<open>The outcome of a predicate from its verdicts\<close>

definition nonskip :: "verdict list \<Rightarrow> verdict list" where
  "nonskip vs = filter (\<lambda>v. \<not> IsSkip v) vs"

text \<open>The last sample of a sequence is declared: it fails, and so do the last \<open>persist\<close> verdicts.\<close>

definition declares :: "int \<Rightarrow> verdict list \<Rightarrow> bool" where
  "declares persist vs \<longleftrightarrow> vs \<noteq> [] \<and> \<not> IsSkip (last vs) \<and> \<not> fst (last vs)
     \<and> nat persist \<le> length (nonskip vs)
     \<and> (\<forall>v \<in> set (drop (length (nonskip vs) - nat persist) (nonskip vs)). \<not> fst v)"

definition declared_at :: "int \<Rightarrow> verdict list \<Rightarrow> nat list" where
  "declared_at persist vs = filter (\<lambda>k. declares persist (take (Suc k) vs)) [0..<length vs]"

definition pinit :: pstate where
  "pinit = \<lparr>ps_per = 0, ps_judged = 0, ps_streak = 0, ps_first = ''''\<rparr>"

definition fail_run :: "verdict list \<Rightarrow> nat" where
  "fail_run js = length (takeWhile (\<lambda>v. \<not> fst v) (rev js))"

lemma fail_run_ge:
  "n \<le> fail_run js \<longleftrightarrow> n \<le> length js \<and> (\<forall>v \<in> set (drop (length js - n) js). \<not> fst v)"
proof -
  have "set (take n (rev js)) = set (drop (length js - n) js)" by (simp add: take_rev)
  then show ?thesis unfolding fail_run_def length_takeWhile_ge by simp
qed

lemma fold_pstep_streak: "ps_streak (fold (pstep persist) vs pinit) = int (fail_run (nonskip vs))"
  by (induction vs rule: rev_induct) (simp_all add: pinit_def pstep_def fail_run_def nonskip_def)

lemma fold_pstep_judged: "ps_judged (fold (pstep persist) vs pinit) = int (length (nonskip vs))"
  by (induction vs rule: rev_induct) (simp_all add: pinit_def pstep_def nonskip_def)

lemma declares_now_iff:
  "declares_now persist v (fold (pstep persist) vs pinit) \<longleftrightarrow> declares persist (vs @ [v])"
proof (cases "IsSkip v \<or> fst v")
  case False
  then have n: "nonskip (vs @ [v]) = nonskip vs @ [v]" by (simp add: nonskip_def)
  have "fail_run (nonskip vs @ [v]) = Suc (fail_run (nonskip vs))" using False by (simp add: fail_run_def)
  then have "nat persist \<le> fail_run (nonskip vs @ [v]) \<longleftrightarrow> persist \<le> int (fail_run (nonskip vs)) + 1" by linarith
  with False show ?thesis
    unfolding declares_now_def declares_def n fold_pstep_streak fail_run_ge [symmetric] by simp
qed (auto simp: declares_now_def declares_def)

lemma declared_at_snoc:
  "declared_at persist (vs @ [v]) = declared_at persist vs @ (if declares persist (vs @ [v]) then [length vs] else [])"
  by (auto simp: declared_at_def intro!: filter_cong)

lemma fold_pstep_per: "ps_per (fold (pstep persist) vs pinit) = int (length (declared_at persist vs))"
proof (induction vs rule: rev_induct)
  case Nil then show ?case by (simp add: pinit_def declared_at_def)
next
  case (snoc v vs)
  have "\<not> declares persist (vs @ [v])" if "IsSkip v" using that by (simp add: declares_def)
  with snoc show ?case
    by (simp add: declared_at_snoc pstep_def [of persist v] declares_now_iff)
qed

lemma declared_at_less: "k \<in> set (declared_at persist vs) \<Longrightarrow> k < length vs"
  by (simp add: declared_at_def)

lemma fold_pstep_first:
  "ps_first (fold (pstep persist) vs pinit)
     = (if declared_at persist vs = [] then '''' else snd (vs ! hd (declared_at persist vs)))"
proof (induction vs rule: rev_induct)
  case Nil then show ?case by (simp add: pinit_def declared_at_def)
next
  case (snoc v vs)
  have "\<not> declares persist (vs @ [v])" if "IsSkip v" using that by (simp add: declares_def)
  moreover have "hd (declared_at persist vs) < length vs" if "declared_at persist vs \<noteq> []"
    using that declared_at_less hd_in_set by metis
  ultimately show ?case
    using snoc by (auto simp: declared_at_snoc pstep_def [of persist v] declares_now_iff fold_pstep_per nth_append)
qed

section \<open>A whole cell\<close>

lemma evalSpec_tally:
  "tl_Samples (ev_tally (fst (evalSpec s snap e))) = tl_Samples (ev_tally e)"
  "tl_LastRSS (ev_tally (fst (evalSpec s snap e))) = tl_LastRSS (ev_tally e)"
  "tl_Evaluations (ev_tally (fst (evalSpec s snap e))) + tl_Skips (ev_tally (fst (evalSpec s snap e)))
     = tl_Evaluations (ev_tally e) + tl_Skips (ev_tally e) + 1"
  "tl_Violations (ev_tally (fst (evalSpec s snap e)))
     = tl_Violations (ev_tally e) + (ev_per (fst (evalSpec s snap e)) (sp_ID s) - ev_per e (sp_ID s))"
  by (simp_all add: evalSpec_def upd_tally_def Let_def)

lemma eval_specs_tally:
  "tl_Samples (ev_tally (fst (eval_specs ss snap e))) = tl_Samples (ev_tally e)"
  "tl_LastRSS (ev_tally (fst (eval_specs ss snap e))) = tl_LastRSS (ev_tally e)"
  "tl_Evaluations (ev_tally (fst (eval_specs ss snap e))) + tl_Skips (ev_tally (fst (eval_specs ss snap e)))
     = tl_Evaluations (ev_tally e) + tl_Skips (ev_tally e) + int (length ss)"
  by (induction ss arbitrary: e)
     (simp_all add: eval_specs_Cons eval_one_frame evalSpec_tally del: eval_specs.simps(2))

lemma proj_per: "ev_per e i = ps_per (proj e i)" by (simp add: proj_def)
lemma proj_judged: "ev_judged e i = ps_judged (proj e i)" by (simp add: proj_def)
lemma proj_first: "ev_first e i = ps_first (proj e i)" by (simp add: proj_def)

definition violation_sum :: "evaluator \<Rightarrow> string set \<Rightarrow> int" where
  "violation_sum e I = (\<Sum>i\<in>I. ev_per e i)"

lemma evalSpec_sum:
  assumes "finite I" and "sp_ID s \<in> I"
  shows "violation_sum (fst (evalSpec s snap e)) I
       = violation_sum e I + (ev_per (fst (evalSpec s snap e)) (sp_ID s) - ev_per e (sp_ID s))"
proof -
  have "ev_per (fst (evalSpec s snap e)) i = ev_per e i" if "i \<noteq> sp_ID s" for i
    using that by (simp add: proj_per evalSpec_proj)
  then have "(\<Sum>i\<in>I - {sp_ID s}. ev_per (fst (evalSpec s snap e)) i) = (\<Sum>i\<in>I - {sp_ID s}. ev_per e i)"
    by (intro sum.cong) auto
  with assms show ?thesis unfolding violation_sum_def by (simp add: sum.remove [of I "sp_ID s"])
qed

lemma eval_specs_sum:
  assumes "finite I" and "sp_ID ` set ss \<subseteq> I" and "tl_Violations (ev_tally e) = violation_sum e I"
  shows "tl_Violations (ev_tally (fst (eval_specs ss snap e))) = violation_sum (fst (eval_specs ss snap e)) I"
  using assms
proof (induction ss arbitrary: e)
  case (Cons s ss)
  have "ev_per (fst (eval_one s snap e)) = ev_per (fst (evalSpec s snap e))"
    by (rule ext) (simp add: proj_per eval_one_frame)
  then have "violation_sum (fst (eval_one s snap e)) I = violation_sum (fst (evalSpec s snap e)) I"
    by (simp add: violation_sum_def)
  with Cons show ?case
    by (simp add: eval_specs_Cons eval_one_frame evalSpec_tally evalSpec_sum del: eval_specs.simps(2))
qed simp

lemma poll_error_frame:
  "ev_ctx (RecordPollError t e) = ev_ctx e" "ev_specs (RecordPollError t e) = ev_specs e"
  "proj (RecordPollError t e) = proj e" "tl_Samples (ev_tally (RecordPollError t e)) = tl_Samples (ev_tally e)"
  "counts (ev_tally (RecordPollError t e)) = counts (ev_tally e)" "ev_declared (RecordPollError t e) = ev_declared e"
  "ev_shadow (RecordPollError t e) = ev_shadow e" "ev_shadowStreak (RecordPollError t e) = ev_shadowStreak e"
proof -
  have c: "core (RecordPollError t e) = core e" by (simp add: RecordPollError_def ev_frame)
  then show "ev_specs (RecordPollError t e) = ev_specs e" "proj (RecordPollError t e) = proj e"
    "ev_shadow (RecordPollError t e) = ev_shadow e" "ev_shadowStreak (RecordPollError t e) = ev_shadowStreak e"
    by (simp_all add: core_def proj_def fun_eq_iff)
qed (simp_all add: RecordPollError_def ev_frame)

lemma Observe_frame:
  "ev_specs (fst (Observe snap now e)) = ev_specs e"
  "ev_ctx (fst (Observe snap now e)) = next_context (tl_Samples (ev_tally e) = 0) snap now (ev_ctx e)"
  "tl_Samples (ev_tally (fst (Observe snap now e))) = tl_Samples (ev_tally e) + 1"
  by (simp_all add: Observe_def Let_def eval_specs_frame eval_specs_tally prepare_ctx prepare_samples ev_frame)

lemma prepare_proj_eq: "proj (observe_prepare snap now e) = proj e"
  by (simp add: proj_def ev_frame fun_eq_iff)

lemma Observe_proj:
  assumes "distinct (map sp_ID (ev_specs e))" and "s \<in> set (ev_specs e)"
  shows "proj (fst (Observe snap now e)) (sp_ID s)
       = pstep (sp_Persist s) (sp_Predicate s snap (ev_ctx (fst (Observe snap now e)))) (proj e (sp_ID s))"
  using assms by (simp add: Observe_def Let_def eval_specs_proj eval_specs_frame prepare_proj_eq ev_frame)

lemma Observe_violations:
  assumes "distinct (map sp_ID (ev_specs e))" and "s \<in> set (ev_specs e)"
  shows "filter (\<lambda>v. pv_ID v = sp_ID s) (snd (Observe snap now e))
       = (case violation_of s snap (sp_Predicate s snap (ev_ctx (fst (Observe snap now e)))) (proj e (sp_ID s)) of
            None \<Rightarrow> [] | Some x \<Rightarrow> [x])"
  using assms by (simp add: Observe_def Let_def eval_specs_violations eval_specs_frame prepare_proj_eq ev_frame)

lemma run_polls_Sample:
  "fst (run_polls (Sample snap now # ps) e) = fst (run_polls ps (fst (Observe snap now e)))"
  "snd (run_polls (Sample snap now # ps) e) = snd (Observe snap now e) # snd (run_polls ps (fst (Observe snap now e)))"
  by (simp_all split: prod.splits)

lemmas run_polls_step = run_polls_Sample poll_error_frame Observe_frame

lemma run_polls_proj:
  assumes "distinct (map sp_ID (ev_specs e))" and "s \<in> set (ev_specs e)" and "0 \<le> tl_Samples (ev_tally e)"
  shows "proj (fst (run_polls ps e)) (sp_ID s)
       = fold (pstep (sp_Persist s)) (map (\<lambda>(snap, c). sp_Predicate s snap c)
            (sample_contexts (tl_Samples (ev_tally e) = 0) (ev_ctx e) ps)) (proj e (sp_ID s))"
  using assms
proof (induction ps arbitrary: e)
  case (Cons p ps)
  show ?case
  proof (cases p)
    case (Sample snap now)
    with Cons show ?thesis by (simp add: run_polls_step Observe_proj Let_def del: run_polls.simps(3))
  next
    case (PollError t)
    with Cons show ?thesis by (simp add: run_polls_step)
  qed
qed simp

lemma new_proj: "proj (NewEvaluator specs) i = pinit"
  by (simp add: proj_def NewEvaluator_def pinit_def)

lemma new_frame: "ev_specs (NewEvaluator specs) = specs" "tl_Samples (ev_tally (NewEvaluator specs)) = 0"
  "ev_ctx (NewEvaluator specs) = zero_context"
  by (simp_all add: NewEvaluator_def zero_tally_def)

lemma cell_proj:
  assumes "distinct (map sp_ID specs)" and "s \<in> set specs"
  shows "proj (fst (run_polls ps (NewEvaluator specs))) (sp_ID s) = fold (pstep (sp_Persist s)) (verdicts s ps) pinit"
  using run_polls_proj [of "NewEvaluator specs" s ps] assms by (simp add: new_frame new_proj verdicts_def)

lemma run_polls_specs: "ev_specs (fst (run_polls ps e)) = ev_specs e"
proof (induction ps arbitrary: e)
  case (Cons p ps)
  then show ?case by (cases p) (simp_all add: run_polls_step del: run_polls.simps(3))
qed simp

lemma cell_counts:
  assumes "distinct (map sp_ID specs)" and "s \<in> set specs"
  shows "ev_per (fst (run_polls ps (NewEvaluator specs))) (sp_ID s) = int (length (declared_at (sp_Persist s) (verdicts s ps)))"
    and "ev_judged (fst (run_polls ps (NewEvaluator specs))) (sp_ID s) = int (length (nonskip (verdicts s ps)))"
    and "declared_at (sp_Persist s) (verdicts s ps) \<noteq> [] \<Longrightarrow> ev_first (fst (run_polls ps (NewEvaluator specs))) (sp_ID s)
          = snd (verdicts s ps ! hd (declared_at (sp_Persist s) (verdicts s ps)))"
  by (simp_all add: proj_per proj_judged proj_first cell_proj [OF assms] fold_pstep_per fold_pstep_judged fold_pstep_first)

lemma run_polls_declared:
  assumes "0 \<le> tl_Samples (ev_tally e)"
  shows "ev_declared (fst (run_polls ps e)) i \<longleftrightarrow> ev_declared e i
     \<or> (\<exists>(snap, now) \<in> set (samples ps). i \<in> set (declared_ids (sn_InstrumentedProperties snap)))"
  using assms
proof (induction ps arbitrary: e)
  case (Cons p ps)
  have "ev_declared (fst (Observe snap now e)) i \<longleftrightarrow>
      i \<in> set (declared_ids (sn_InstrumentedProperties snap)) \<or> ev_declared e i" for snap now
    by (simp add: Observe_def Let_def eval_specs_frame prepare_declared)
  with Cons show ?case
    by (cases p) (auto simp: run_polls_step Let_def simp del: run_polls.simps(3))
qed simp

lemma prepare_rss:
  "tl_LastRSS (ev_tally (observe_prepare snap now e)) =
     (if sn_RSSBytes snap > 0 then sn_RSSBytes snap else tl_LastRSS (ev_tally e))"
  by (simp add: observe_prepare_def ev_frame Let_def) (simp add: record_resources_def ev_frame Let_def)

lemma run_polls_rss:
  assumes "0 \<le> tl_LastRSS (ev_tally e)"
  shows "0 < tl_LastRSS (ev_tally (fst (run_polls ps e))) \<longleftrightarrow> 0 < tl_LastRSS (ev_tally e)
     \<or> (\<exists>(snap, now) \<in> set (samples ps). sn_RSSBytes snap > 0)"
    and "0 \<le> tl_LastRSS (ev_tally (fst (run_polls ps e)))"
proof -
  have o: "tl_LastRSS (ev_tally (fst (Observe snap now e))) =
      (if sn_RSSBytes snap > 0 then sn_RSSBytes snap else tl_LastRSS (ev_tally e))" for snap now and e :: evaluator
    by (simp add: Observe_def Let_def eval_specs_tally prepare_rss)
  have p: "tl_LastRSS (ev_tally (RecordPollError t e)) = tl_LastRSS (ev_tally e)" for t and e :: evaluator
    by (simp add: RecordPollError_def ev_frame)
  show "0 < tl_LastRSS (ev_tally (fst (run_polls ps e))) \<longleftrightarrow> 0 < tl_LastRSS (ev_tally e)
     \<or> (\<exists>(snap, now) \<in> set (samples ps). sn_RSSBytes snap > 0)"
    using assms
  proof (induction ps arbitrary: e)
    case (Cons x ps)
    then show ?case
      by (cases x) (auto simp: run_polls_Sample o p Let_def simp del: run_polls.simps(3))
  qed simp
  show "0 \<le> tl_LastRSS (ev_tally (fst (run_polls ps e)))"
    using assms
  proof (induction ps arbitrary: e)
    case (Cons x ps)
    then show ?case by (cases x) (auto simp: run_polls_Sample o p simp del: run_polls.simps(3))
  qed simp
qed

lemma run_polls_samples:
  "tl_Samples (ev_tally (fst (run_polls ps e))) = tl_Samples (ev_tally e) + int (length (samples ps))"
proof (induction ps arbitrary: e)
  case (Cons x ps)
  then show ?case by (cases x) (simp_all add: run_polls_step Let_def del: run_polls.simps(3))
qed simp

lemma counts_sum:
  "counts t = counts t' \<Longrightarrow> tl_Evaluations t = tl_Evaluations t'"
  "counts t = counts t' \<Longrightarrow> tl_Skips t = tl_Skips t'"
  "counts t = counts t' \<Longrightarrow> tl_Violations t = tl_Violations t'"
  by (simp_all add: counts_def)

lemma run_polls_evaluations:
  "tl_Evaluations (ev_tally (fst (run_polls ps e))) + tl_Skips (ev_tally (fst (run_polls ps e)))
     = tl_Evaluations (ev_tally e) + tl_Skips (ev_tally e)
       + int (length (ev_specs e)) * int (length (samples ps))"
proof (induction ps arbitrary: e)
  case (Cons x ps)
  have o: "tl_Evaluations (ev_tally (fst (Observe snap now e))) + tl_Skips (ev_tally (fst (Observe snap now e)))
      = tl_Evaluations (ev_tally e) + tl_Skips (ev_tally e) + int (length (ev_specs e))" for snap now
    using counts_sum [OF prepare_counts, of snap now e]
    by (simp add: Observe_def Let_def eval_specs_tally ev_frame)
  have p: "tl_Evaluations (ev_tally (RecordPollError t e)) = tl_Evaluations (ev_tally e)"
     "tl_Skips (ev_tally (RecordPollError t e)) = tl_Skips (ev_tally e)" for t
    using counts_sum [OF poll_error_frame(5)] by auto
  show ?case
    by (cases x) (simp_all add: run_polls_step Cons.IH o p Let_def algebra_simps
       del: run_polls.simps(3))
qed simp

lemma run_polls_sum:
  assumes "finite I" and "sp_ID ` set (ev_specs e) \<subseteq> I" and "tl_Violations (ev_tally e) = violation_sum e I"
  shows "tl_Violations (ev_tally (fst (run_polls ps e))) = violation_sum (fst (run_polls ps e)) I"
  using assms
proof (induction ps arbitrary: e)
  case (Cons x ps)
  show ?case
  proof (cases x)
    case (Sample snap now)
    have "tl_Violations (ev_tally (observe_prepare snap now e)) = violation_sum (observe_prepare snap now e) I"
      using Cons.prems counts_sum(3) [OF prepare_counts, of snap now e] by (simp add: violation_sum_def ev_frame)
    then have "tl_Violations (ev_tally (fst (Observe snap now e))) = violation_sum (fst (Observe snap now e)) I"
      using Cons.prems by (simp add: Observe_def Let_def ev_frame eval_specs_sum)
    with Sample Cons show ?thesis by (simp add: run_polls_step del: run_polls.simps(3))
  next
    case (PollError t)
    have "violation_sum (RecordPollError t e) I = violation_sum e I"
      by (simp add: violation_sum_def proj_per poll_error_frame)
    with PollError Cons counts_sum(3) [OF poll_error_frame(5), of t e] show ?thesis by (simp add: poll_error_frame)
  qed
qed simp

lemma sample_contexts_samples: "map fst (sample_contexts b c ps) = map fst (samples ps)"
  by (induction b c ps rule: sample_contexts.induct) (simp_all add: Let_def)

lemma length_verdicts: "length (verdicts s ps) = length (samples ps)"
  using arg_cong [OF sample_contexts_samples, of length True zero_context ps] by (simp add: verdicts_def)

text \<open>What one predicate returns along a cell, given its state at the start.\<close>

fun violations_from :: "spec \<Rightarrow> pstate \<Rightarrow> (snapshot \<times> prop_context) list \<Rightarrow> prop_violation list list" where
  "violations_from s p [] = []"
| "violations_from s p ((snap, c) # xs) =
     (let v = sp_Predicate s snap c
      in (case violation_of s snap v p of None \<Rightarrow> [] | Some x \<Rightarrow> [x])
         # violations_from s (pstep (sp_Persist s) v p) xs)"

lemma run_polls_violations:
  assumes "distinct (map sp_ID (ev_specs e))" and "s \<in> set (ev_specs e)" and "0 \<le> tl_Samples (ev_tally e)"
  shows "map (filter (\<lambda>v. pv_ID v = sp_ID s)) (snd (run_polls ps e))
       = violations_from s (proj e (sp_ID s)) (sample_contexts (tl_Samples (ev_tally e) = 0) (ev_ctx e) ps)"
  using assms
proof (induction ps arbitrary: e)
  case (Cons p ps)
  show ?case
  proof (cases p)
    case (Sample snap now)
    with Cons show ?thesis
      by (simp add: run_polls_step Observe_proj Observe_violations Let_def del: run_polls.simps(3))
  next
    case (PollError t)
    with Cons show ?thesis by (simp add: run_polls_step)
  qed
qed simp

lemma violations_from_nth:
  assumes "k < length xs"
  shows "violations_from s p xs ! k =
    (case violation_of s (fst (xs ! k)) (sp_Predicate s (fst (xs ! k)) (snd (xs ! k)))
        (fold (pstep (sp_Persist s)) (map (\<lambda>(snap, c). sp_Predicate s snap c) (take k xs)) p) of
       None \<Rightarrow> [] | Some x \<Rightarrow> [x])"
  using assms
proof (induction s p xs arbitrary: k rule: violations_from.induct)
  case (2 s p snap c xs)
  show ?case
  proof (cases k)
    case (Suc j)
    with "2.prems" have "j < length xs" by simp
    with Suc "2.IH" [OF refl, of j] show ?thesis by (simp add: Let_def)
  qed (simp add: Let_def)
qed simp

lemma declared_at_mem: "k \<in> set (declared_at persist vs) \<longleftrightarrow> k < length vs \<and> declares persist (take (Suc k) vs)"
  by (auto simp: declared_at_def)

lemma declared_at_take:
  "k \<le> length vs \<Longrightarrow> declared_at persist (take k vs) = filter (\<lambda>j. j < k) (declared_at persist vs)"
proof -
  assume k: "k \<le> length vs"
  then have "[0..<length vs] = [0..<k] @ [k..<length vs]" using upt_add_eq_append [of 0 k "length vs - k"] by simp
  with k show ?thesis
    by (simp add: declared_at_def min_def) (auto simp: filter_empty_conv intro!: filter_cong)
qed

lemma declared_at_first:
  assumes "k \<in> set (declared_at persist vs)"
  shows "declared_at persist (take k vs) = [] \<longleftrightarrow> k = hd (declared_at persist vs)"
proof -
  let ?D = "declared_at persist vs"
  have srt: "sorted_wrt (<) ?D" by (simp add: declared_at_def sorted_wrt_filter)
  from assms obtain a D where D: "?D = a # D" by (cases ?D) auto
  have "declared_at persist (take k vs) = filter (\<lambda>j. j < k) ?D"
    using assms declared_at_less [of k persist vs] by (intro declared_at_take) simp
  moreover have "(\<forall>j\<in>set ?D. \<not> j < k) \<longleftrightarrow> k = a" using assms srt unfolding D by auto
  ultimately show ?thesis by (auto simp: D filter_empty_conv)
qed

lemma fst_nth_sample: "k < length (samples ps) \<Longrightarrow> fst (sample_contexts b c ps ! k) = fst (samples ps ! k)"
  by (metis length_map nth_map sample_contexts_samples)

lemma run_polls_returns:
  fixes specs :: "spec list" and ps :: "poll list"
  assumes "distinct (map sp_ID specs)" and "s \<in> set specs"
  defines "D \<equiv> declared_at (sp_Persist s) (verdicts s ps)"
  shows "map (filter (\<lambda>v. pv_ID v = sp_ID s)) (snd (run_polls ps (NewEvaluator specs)))
         = map (\<lambda>k. if k \<in> set D
                    then [\<lparr>pv_ID = sp_ID s, pv_Message = snd (verdicts s ps ! k),
                           pv_Snapshot = fst (samples ps ! k), pv_First = (k = hd D)\<rparr>] else [])
             [0..<length (samples ps)]"
proof -
  have xs: "length (sample_contexts True zero_context ps) = length (samples ps)"
    using arg_cong [OF sample_contexts_samples, of length True zero_context ps] by simp
  have "map (filter (\<lambda>v. pv_ID v = sp_ID s)) (snd (run_polls ps (NewEvaluator specs))) = violations_from s pinit (sample_contexts True zero_context ps)"
    using run_polls_violations [of "NewEvaluator specs" s ps] assms by (simp add: new_frame new_proj)
  moreover have "length (violations_from s p xs) = length xs" for p xs
    by (induction s p xs rule: violations_from.induct) (simp_all add: Let_def)
  moreover have "violations_from s pinit (sample_contexts True zero_context ps) ! k =
      (if k \<in> set D then [\<lparr>pv_ID = sp_ID s, pv_Message = snd (verdicts s ps ! k),
          pv_Snapshot = fst (samples ps ! k), pv_First = (k = hd D)\<rparr>] else [])"
    if k: "k < length (samples ps)" for k
  proof -
    have t: "map (\<lambda>(snap, c). sp_Predicate s snap c) (take k (sample_contexts True zero_context ps)) = take k (verdicts s ps)"
      by (simp add: verdicts_def take_map)
    have v: "sp_Predicate s (fst (samples ps ! k)) (snd (sample_contexts True zero_context ps ! k))
        = verdicts s ps ! k"
      using k xs by (simp add: verdicts_def case_prod_unfold fst_nth_sample)
    have "take (Suc k) (verdicts s ps) = take k (verdicts s ps) @ [verdicts s ps ! k]"
      using k by (simp add: take_Suc_conv_app_nth length_verdicts)
    with k have d: "k \<in> set D \<longleftrightarrow> declares_now (sp_Persist s) (verdicts s ps ! k)
        (fold (pstep (sp_Persist s)) (take k (verdicts s ps)) pinit)"
      by (simp add: D_def declared_at_mem length_verdicts declares_now_iff)
    have "ps_per (fold (pstep (sp_Persist s)) (take k (verdicts s ps)) pinit) = 0 \<longleftrightarrow> k = hd D" if "k \<in> set D"
      using that declared_at_first [of k] by (simp add: D_def fold_pstep_per)
    with k xs show ?thesis
      by (simp add: violations_from_nth t v violation_of_def d fst_nth_sample)
  qed
  ultimately show ?thesis
    using xs by (intro nth_equalityI) simp_all
qed

text \<open>C6: The evaluator reports exactly what the sequence of a predicate's verdicts says, whatever the
  other predicates do and however samples and failed polls alternate. With \<open>D\<close> the samples that
  fail together with the \<open>Persist\<close> verdicts before them, skips not counting: the tally holds
  \<open>length D\<close> violations of the predicate, lists it as violated iff \<open>D\<close> is not empty, and keeps the
  message of the first; and the sample \<open>k\<close> returned a violation of it iff \<open>k\<close> is in \<open>D\<close>, marked
  as the first one exactly for the head of \<open>D\<close>.\<close>

theorem evaluator_exact:
  fixes specs :: "spec list" and ps :: "poll list"
  defines "out \<equiv> run_polls ps (NewEvaluator specs)"
  assumes "distinct (map sp_ID specs)" and "s \<in> set specs"
  defines "D \<equiv> declared_at (sp_Persist s) (verdicts s ps)" and "T \<equiv> Tally (fst out)"
  shows "map_of (tl_PerPredicate T) (sp_ID s) = Some (int (length D))
       \<and> (sp_ID s \<in> set (tl_ViolationIDs T) \<longleftrightarrow> D \<noteq> [])
       \<and> map_of (tl_FailureSummaries T) (sp_ID s) = (if D = [] then None else Some (snd (verdicts s ps ! hd D)))
       \<and> map (filter (\<lambda>v. pv_ID v = sp_ID s)) (snd out)
         = map (\<lambda>k. if k \<in> set D
                    then [\<lparr>pv_ID = sp_ID s, pv_Message = snd (verdicts s ps ! k),
                           pv_Snapshot = fst (samples ps ! k), pv_First = (k = hd D)\<rparr>] else [])
             [0..<length (samples ps)]"
proof (intro conjI)
  let ?e = "fst out" and ?i = "sp_ID s"
  note cc = cell_counts [OF assms(2,3), of ps, folded out_def D_def]
  have sp: "ev_specs ?e = specs" unfolding out_def by (simp add: run_polls_specs new_frame)
  show "map_of (tl_PerPredicate T) ?i = Some (int (length D))"
    using assms(3) cc(1) by (simp add: T_def Tally_def Let_def sp map_of_map_restrict o_def flip: map_map)
  show "?i \<in> set (tl_ViolationIDs T) \<longleftrightarrow> D \<noteq> []"
    using assms(3) cc(1) by (auto simp: T_def Tally_def Let_def sp)
  show "map_of (tl_FailureSummaries T) ?i = (if D = [] then None else Some (snd (verdicts s ps ! hd D)))"
    using assms(3) cc(1,3) by (auto simp: T_def Tally_def Let_def sp map_of_map_restrict restrict_map_def)
qed (simp add: out_def D_def run_polls_returns [OF assms(2,3)])

lemma cell_sum:
  assumes "distinct (map sp_ID specs)"
  shows "tl_Violations (ev_tally (fst (run_polls ps (NewEvaluator specs))))
       = (\<Sum>s\<leftarrow>specs. int (length (declared_at (sp_Persist s) (verdicts s ps))))"
proof -
  let ?e = "fst (run_polls ps (NewEvaluator specs))"
  have "tl_Violations (ev_tally (NewEvaluator specs)) = violation_sum (NewEvaluator specs) (sp_ID ` set specs)"
    by (simp add: NewEvaluator_def zero_tally_def violation_sum_def)
  then have "tl_Violations (ev_tally ?e) = violation_sum ?e (sp_ID ` set specs)"
    by (intro run_polls_sum) (simp_all add: new_frame)
  also have "\<dots> = (\<Sum>i\<leftarrow>map sp_ID specs. ev_per ?e i)"
    using sum_list_distinct_conv_sum_set [OF assms, of "ev_per ?e"] by (simp add: violation_sum_def)
  also have "\<dots> = (\<Sum>s\<leftarrow>specs. int (length (declared_at (sp_Persist s) (verdicts s ps))))"
    unfolding map_map by (rule arg_cong [of _ _ sum_list], rule map_cong)
      (simp_all add: cell_counts(1) [OF assms])
  finally show ?thesis .
qed

text \<open>A predicate was instrumented in a cell: its middleware declared it in some sample, where a
  declaration is needed, and RSS was sampled, where the predicate judges it.\<close>

definition instrumented :: "string \<Rightarrow> poll list \<Rightarrow> bool" where
  "instrumented i ps \<longleftrightarrow>
     (i \<in> set DeclaredOnly \<longrightarrow> (\<exists>(snap, now) \<in> set (samples ps). i \<in> set (declared_ids (sn_InstrumentedProperties snap))))
     \<and> (i = ''I-MEM-4'' \<longrightarrow> (\<exists>(snap, now) \<in> set (samples ps). sn_RSSBytes snap > 0))"

lemma cell_not_instrumented:
  "not_instrumented (fst (run_polls ps (NewEvaluator specs))) i \<longleftrightarrow> \<not> instrumented i ps"
proof -
  let ?e = "fst (run_polls ps (NewEvaluator specs))"
  have d: "ev_declared ?e i \<longleftrightarrow> (\<exists>(snap, now) \<in> set (samples ps). i \<in> set (declared_ids (sn_InstrumentedProperties snap)))"
    using run_polls_declared [of "NewEvaluator specs" ps i] by (simp add: new_frame) (simp add: NewEvaluator_def)
  have z: "0 \<le> tl_LastRSS (ev_tally (NewEvaluator specs))" "\<not> 0 < tl_LastRSS (ev_tally (NewEvaluator specs))"
    by (simp_all add: NewEvaluator_def zero_tally_def)
  have "tl_LastRSS (ev_tally ?e) = 0 \<longleftrightarrow> \<not> (\<exists>(snap, now) \<in> set (samples ps). sn_RSSBytes snap > 0)"
    using run_polls_rss [OF z(1), of ps] z(2) by auto
  with d show ?thesis unfolding not_instrumented_def instrumented_def by (auto simp: UninstrumentedIDs_def)
qed

text \<open>C22: The summary of a cell is exact: every sample evaluates every predicate once, to a verdict or a
  skip; the total of the violations is the sum over the predicates; and \<open>properties_passed\<close> counts
  exactly the predicates that were instrumented in this cell, reached at least one verdict and
  never declared a violation. A predicate that only skipped, or whose data source did not exist,
  is never counted as passed.\<close>

theorem tally_exact:
  fixes specs :: "spec list" and ps :: "poll list"
  assumes "distinct (map sp_ID specs)"
  defines "T \<equiv> Tally (fst (run_polls ps (NewEvaluator specs)))"
  shows "tl_Samples T = int (length (samples ps))
       \<and> tl_Evaluations T + tl_Skips T = int (length specs) * tl_Samples T
       \<and> tl_Violations T = (\<Sum>s\<leftarrow>specs. int (length (declared_at (sp_Persist s) (verdicts s ps))))
       \<and> Failed T = int (length (filter (\<lambda>s. declared_at (sp_Persist s) (verdicts s ps) \<noteq> []) specs))
       \<and> Passed T = int (length (filter (\<lambda>s. instrumented (sp_ID s) ps \<and> nonskip (verdicts s ps) \<noteq> []
            \<and> declared_at (sp_Persist s) (verdicts s ps) = []) specs))"
proof (intro conjI)
  let ?e = "fst (run_polls ps (NewEvaluator specs))"
  have sp: "ev_specs ?e = specs" by (simp add: run_polls_specs new_frame)
  note cc = cell_counts [OF assms(1)]
  have n: "tl_Samples (ev_tally ?e) = int (length (samples ps))"
    by (simp add: run_polls_samples new_frame)
  have T: "tl_Samples T = tl_Samples (ev_tally ?e)" "tl_Evaluations T = tl_Evaluations (ev_tally ?e)"
      "tl_Skips T = tl_Skips (ev_tally ?e)" "tl_Violations T = tl_Violations (ev_tally ?e)"
    by (simp_all add: T_def Tally_def Let_def)
  show "tl_Samples T = int (length (samples ps))" by (simp add: T n)
  show "tl_Evaluations T + tl_Skips T = int (length specs) * tl_Samples T"
    unfolding T n run_polls_evaluations by (simp add: new_frame) (simp add: NewEvaluator_def zero_tally_def)
  show "tl_Violations T = (\<Sum>s\<leftarrow>specs. int (length (declared_at (sp_Persist s) (verdicts s ps))))"
    unfolding T using assms(1) by (rule cell_sum)
  have v: "filter (\<lambda>i. 0 < ev_per ?e i) (map sp_ID specs)
      = map sp_ID (filter (\<lambda>s. declared_at (sp_Persist s) (verdicts s ps) \<noteq> []) specs)"
    unfolding filter_map by (rule arg_cong [of _ _ "map sp_ID"], rule filter_cong) (simp_all add: cc)
  show "Failed T = int (length (filter (\<lambda>s. declared_at (sp_Persist s) (verdicts s ps) \<noteq> []) specs))"
    unfolding T_def Tally_def Failed_def Let_def sp by (simp add: v)
  have q: "sp_ID s \<notin> set (tl_ViolationIDs T) \<and> sp_ID s \<notin> set (tl_NotInstrumented T) \<and> sp_ID s \<notin> set (tl_NotJudged T)
      \<longleftrightarrow> instrumented (sp_ID s) ps \<and> nonskip (verdicts s ps) \<noteq> [] \<and> declared_at (sp_Persist s) (verdicts s ps) = []"
    if "s \<in> set specs" and "samples ps \<noteq> []" for s
    using that by (auto simp: T_def Tally_def Let_def sp cell_not_instrumented not_judged_def cc n)
  have nil: "nonskip (verdicts s ps) = []" if "samples ps = []" for s
    using that length_verdicts [of s ps] by (simp add: nonskip_def)
  have "length (filter P (sort (map sp_ID specs))) = length (filter (P \<circ> sp_ID) specs)" for P
    using length_filter_mset [of "sort (map sp_ID specs)" "map sp_ID specs" P] by (simp add: filter_map)
  then have "length (filter P (tl_Predicates T)) = length (filter (P \<circ> sp_ID) specs)" for P
    by (simp add: T_def Tally_def Let_def sp)
  moreover have "filter ((\<lambda>i. i \<notin> set (tl_ViolationIDs T) \<and> i \<notin> set (tl_NotInstrumented T) \<and> i \<notin> set (tl_NotJudged T)) \<circ> sp_ID) specs
      = filter (\<lambda>s. instrumented (sp_ID s) ps \<and> nonskip (verdicts s ps) \<noteq> [] \<and> declared_at (sp_Persist s) (verdicts s ps) = []) specs"
    if "samples ps \<noteq> []"
    by (rule filter_cong) (simp_all add: q that)
  ultimately show "Passed T = int (length (filter (\<lambda>s. instrumented (sp_ID s) ps \<and> nonskip (verdicts s ps) \<noteq> []
      \<and> declared_at (sp_Persist s) (verdicts s ps) = []) specs))"
    unfolding Passed_def T n by (cases "samples ps = []") (simp_all add: nil)
qed

section \<open>The informational twin\<close>

definition shadow_bump :: "bool \<Rightarrow> shadow_tally \<Rightarrow> shadow_tally" where
  "shadow_bump d t = t\<lparr>sh_Violations := sh_Violations t + 1,
     sh_AbsolvedEvaluations := sh_AbsolvedEvaluations t + (if d then 0 else 1)\<rparr>"

definition shadow_new :: "string \<Rightarrow> string \<Rightarrow> shadow_tally" where
  "shadow_new label msg = \<lparr>sh_Label = label, sh_Violations = 0, sh_AbsolvedEvaluations = 0,
     sh_Absolved = False, sh_FirstMessage = msg\<rparr>"

type_synonym sstate = "int \<times> shadow_tally option"

definition sproj :: "evaluator \<Rightarrow> string \<Rightarrow> sstate" where
  "sproj e i = (ev_shadowStreak e i, map_of (ev_shadow e) i)"

definition sstep :: "int \<Rightarrow> string \<Rightarrow> verdict \<Rightarrow> bool \<Rightarrow> sstate \<Rightarrow> sstate" where
  "sstep persist label v d q =
     (if IsSkip v then q
      else if fst v then (0, snd q)
      else if fst q + 1 < persist then (fst q + 1, snd q)
      else (fst q + 1, Some (shadow_bump d (case snd q of None \<Rightarrow> shadow_new label (snd v) | Some t \<Rightarrow> t))))"

lemma observeShadow_sproj:
  "sproj (observeShadow s sh snap d e) i =
     (if i = sp_ID s then sstep (sp_Persist s) (fst sh) (snd sh snap (ev_ctx e)) d (sproj e i) else sproj e i)"
  by (simp add: observeShadow_def sproj_def sstep_def shadow_bump_def shadow_new_def Let_def split: option.splits)

lemma evalSpec_sproj: "sproj (fst (evalSpec s snap e)) = sproj e"
  by (simp add: sproj_def evalSpec_frame fun_eq_iff)

lemma eval_one_sproj:
  "sproj (fst (eval_one s snap e)) i =
     (if i = sp_ID s
      then (case sp_Shadow s of None \<Rightarrow> sproj e i
        | Some sh \<Rightarrow> sstep (sp_Persist s) (fst sh) (snd sh snap (ev_ctx e))
            (declares_now (sp_Persist s) (sp_Predicate s snap (ev_ctx e)) (proj e i)) (sproj e i))
      else sproj e i)"
  by (simp add: eval_one_def case_prod_unfold observeShadow_sproj evalSpec_sproj evalSpec_frame evalSpec_violation
      violation_of_def split: option.splits)

lemma eval_specs_sproj_other: "i \<notin> sp_ID ` set ss \<Longrightarrow> sproj (fst (eval_specs ss snap e)) i = sproj e i"
  by (induction ss arbitrary: e) (simp_all add: eval_specs_Cons eval_one_sproj del: eval_specs.simps(2))

lemma eval_specs_sproj:
  assumes "distinct (map sp_ID ss)" and "s \<in> set ss" and "sp_Shadow s = Some sh"
  shows "sproj (fst (eval_specs ss snap e)) (sp_ID s)
       = sstep (sp_Persist s) (fst sh) (snd sh snap (ev_ctx e))
           (declares_now (sp_Persist s) (sp_Predicate s snap (ev_ctx e)) (proj e (sp_ID s))) (sproj e (sp_ID s))"
  using assms(1,2)
proof (induction ss arbitrary: e)
  case (Cons a ss)
  show ?case
  proof (cases "s = a")
    case True
    with Cons.prems assms(3) show ?thesis
      by (simp add: eval_specs_Cons eval_specs_sproj_other eval_one_sproj del: eval_specs.simps(2))
  next
    case False
    with Cons.prems have s: "s \<in> set ss" by simp
    with Cons.prems have "sp_ID s \<noteq> sp_ID a" by simp (metis image_eqI)
    with s Cons show ?thesis
      by (simp add: eval_specs_Cons eval_one_sproj eval_one_frame evalSpec_proj del: eval_specs.simps(2))
  qed
qed simp

text \<open>The two states side by side, and what they are after a sequence of verdict pairs.\<close>

definition jstep :: "int \<Rightarrow> string \<Rightarrow> verdict \<times> verdict \<Rightarrow> pstate \<times> sstate \<Rightarrow> pstate \<times> sstate" where
  "jstep persist label vv st =
     (pstep persist (fst vv) (fst st), sstep persist label (snd vv) (declares_now persist (fst vv) (fst st)) (snd st))"

definition twin_verdicts :: "spec \<Rightarrow> string \<times> predicate \<Rightarrow> poll list \<Rightarrow> (verdict \<times> verdict) list" where
  "twin_verdicts s sh ps =
     map (\<lambda>(snap, c). (sp_Predicate s snap c, snd sh snap c)) (sample_contexts True zero_context ps)"

lemma fold_jstep_fst: "fst (fold (jstep persist label) vvs (p, q)) = fold (pstep persist) (map fst vvs) p"
  by (induction vvs arbitrary: p q) (simp_all add: jstep_def)

lemma fold_jstep_streak:
  "fst (snd (fold (jstep persist label) vvs (p, (0, q)))) = int (fail_run (nonskip (map snd vvs)))"
proof (induction vvs rule: rev_induct)
  case (snoc x xs)
  then show ?case by (simp add: jstep_def [of persist label x] sstep_def fail_run_def nonskip_def)
qed (simp add: fail_run_def nonskip_def)

lemma sstep_declares:
  "declares persist (vs @ [v]) \<longleftrightarrow> \<not> IsSkip v \<and> \<not> fst v \<and> \<not> int (fail_run (nonskip vs)) + 1 < persist"
  using declares_now_iff [of persist v vs] by (auto simp: declares_now_def fold_pstep_streak)

lemma fold_jstep_shadow:
  fixes vvs :: "(verdict \<times> verdict) list" and persist :: int
  defines "D \<equiv> declared_at persist (map fst vvs)" and "D' \<equiv> declared_at persist (map snd vvs)"
  shows "snd (snd (fold (jstep persist label) vvs (pinit, (0, None)))) =
     (if D' = [] then None
      else Some \<lparr>sh_Label = label, sh_Violations = int (length D'),
             sh_AbsolvedEvaluations = int (length (filter (\<lambda>k. k \<notin> set D) D')), sh_Absolved = False,
             sh_FirstMessage = snd (map snd vvs ! hd D')\<rparr>)"
  unfolding D_def D'_def
proof (induction vvs rule: rev_induct)
  case Nil then show ?case by (simp add: declared_at_def)
next
  case (snoc x xs)
  let ?D = "declared_at persist (map fst xs)" and ?D' = "declared_at persist (map snd xs)"
  have hd: "hd ?D' < length xs" if "?D' \<noteq> []"
    using that declared_at_less [of "hd ?D'" persist "map snd xs"] by simp
  have ne: "length xs \<notin> set ?D" using declared_at_less [of "length xs" persist "map fst xs"] by auto
  have f: "filter (\<lambda>k. k \<notin> set ?D \<and> (k = length xs \<longrightarrow> P)) ?D' = filter (\<lambda>k. k \<notin> set ?D) ?D'" for P
    using declared_at_less [of _ persist "map snd xs"] by (intro filter_cong) auto
  show ?case
    using snoc hd ne f [of False]
    by (simp add: f jstep_def [of persist label x] sstep_def fold_jstep_streak fold_jstep_fst declares_now_iff
        declared_at_snoc sstep_declares shadow_bump_def shadow_new_def nth_append)
qed
lemma prepare_sproj: "sproj (observe_prepare snap now e) = sproj e"
  by (simp add: sproj_def ev_frame fun_eq_iff)

lemma Observe_sproj:
  assumes "distinct (map sp_ID (ev_specs e))" and "s \<in> set (ev_specs e)" and "sp_Shadow s = Some sh"
  shows "(proj (fst (Observe snap now e)) (sp_ID s), sproj (fst (Observe snap now e)) (sp_ID s))
       = jstep (sp_Persist s) (fst sh)
           (sp_Predicate s snap (ev_ctx (fst (Observe snap now e))), snd sh snap (ev_ctx (fst (Observe snap now e))))
           (proj e (sp_ID s), sproj e (sp_ID s))"
  using assms
  by (simp add: jstep_def Observe_proj) (simp add: Observe_def Let_def eval_specs_sproj eval_specs_frame prepare_proj_eq prepare_sproj ev_frame)

lemma run_polls_joint:
  assumes "distinct (map sp_ID (ev_specs e))" and "s \<in> set (ev_specs e)" and "sp_Shadow s = Some sh"
    and "0 \<le> tl_Samples (ev_tally e)"
  shows "(proj (fst (run_polls ps e)) (sp_ID s), sproj (fst (run_polls ps e)) (sp_ID s))
       = fold (jstep (sp_Persist s) (fst sh)) (map (\<lambda>(snap, c). (sp_Predicate s snap c, snd sh snap c))
            (sample_contexts (tl_Samples (ev_tally e) = 0) (ev_ctx e) ps)) (proj e (sp_ID s), sproj e (sp_ID s))"
  using assms(1,2,4)
proof (induction ps arbitrary: e)
  case (Cons p ps)
  show ?case
  proof (cases p)
    case (Sample snap now)
    have "ev_specs (fst (Observe snap now e)) = ev_specs e" by (simp add: Observe_frame)
    with Sample Cons Observe_sproj [OF Cons.prems(1,2) assms(3), of snap now] show ?thesis
      by (simp add: run_polls_step Let_def del: run_polls.simps(3))
  next
    case (PollError t)
    have "sproj (RecordPollError t e) = sproj e" by (simp add: sproj_def poll_error_frame fun_eq_iff)
    with PollError Cons show ?thesis by (simp add: run_polls_step)
  qed
qed simp

lemma map_of_keyed: "map_of (map (\<lambda>(k, v). (k, f k v)) xs) k = map_option (f k) (map_of xs k)"
  by (induction xs) auto

lemma cell_informational:
  fixes specs :: "spec list" and ps :: "poll list" and s :: spec and sh :: "string \<times> predicate"
  assumes "distinct (map sp_ID specs)" and "s \<in> set specs" and "sp_Shadow s = Some sh"
  defines "D \<equiv> declared_at (sp_Persist s) (verdicts s ps)"
    and "D' \<equiv> declared_at (sp_Persist s) (map snd (twin_verdicts s sh ps))"
  shows "map_of (tl_Informational (Tally (fst (run_polls ps (NewEvaluator specs))))) (sp_ID s) =
     (if D' = [] then None
      else Some \<lparr>sh_Label = fst sh, sh_Violations = int (length D'),
             sh_AbsolvedEvaluations = int (length (filter (\<lambda>k. k \<notin> set D) D')), sh_Absolved = (D = []),
             sh_FirstMessage = snd (snd (twin_verdicts s sh ps ! hd D'))\<rparr>)"
proof -
  let ?e = "fst (run_polls ps (NewEvaluator specs))"
  have new: "sproj (NewEvaluator specs) (sp_ID s) = (0, None)" by (simp add: sproj_def NewEvaluator_def)
  have f: "map fst (twin_verdicts s sh ps) = verdicts s ps"
    by (simp add: twin_verdicts_def verdicts_def case_prod_unfold comp_def)
  have "sproj ?e (sp_ID s) = snd (fold (jstep (sp_Persist s) (fst sh)) (twin_verdicts s sh ps) (pinit, (0, None)))"
    using arg_cong [OF run_polls_joint [of "NewEvaluator specs" s sh ps], of snd] assms(1-3)
    by (simp add: new_frame new_proj new twin_verdicts_def)
  then have "map_of (ev_shadow ?e) (sp_ID s) =
     snd (snd (fold (jstep (sp_Persist s) (fst sh)) (twin_verdicts s sh ps) (pinit, (0, None))))"
    by (metis snd_conv sproj_def)
  moreover have "ev_per ?e (sp_ID s) = 0 \<longleftrightarrow> D = []"
    using cell_counts(1) [OF assms(1,2), of ps] by (simp add: D_def)
  moreover have "hd D' < length (twin_verdicts s sh ps)" if "D' \<noteq> []"
    using that declared_at_less [of "hd D'" "sp_Persist s" "map snd (twin_verdicts s sh ps)"] by (simp add: D'_def)
  ultimately show ?thesis
    unfolding Tally_def Let_def fold_jstep_shadow f D_def [symmetric] D'_def [symmetric]
    by (simp add: map_of_keyed)
qed

lemma declared_at_mono:
  assumes "length vs = length vs'"
    and "\<And>k. k < length vs \<Longrightarrow> IsSkip (vs ! k) = IsSkip (vs' ! k) \<and> (\<not> fst (vs ! k) \<longrightarrow> \<not> fst (vs' ! k))"
  shows "set (declared_at persist vs) \<subseteq> set (declared_at persist vs')"
proof -
  have "list_all2 (\<lambda>v v'. IsSkip v = IsSkip v' \<and> (\<not> fst v \<longrightarrow> \<not> fst v')) vs vs'"
    using assms by (simp add: list_all2_conv_all_nth)
  then have t: "list_all2 (\<lambda>v v'. IsSkip v = IsSkip v' \<and> (\<not> fst v \<longrightarrow> \<not> fst v')) (take k vs) (take k vs')" for k
    by (rule list_all2_takeI)
  have n: "list_all2 (\<lambda>v v'. \<not> fst v \<longrightarrow> \<not> fst v') (nonskip ws) (nonskip ws')"
    if "list_all2 (\<lambda>v v'. IsSkip v = IsSkip v' \<and> (\<not> fst v \<longrightarrow> \<not> fst v')) ws ws'" for ws ws'
    using that by (induction rule: list_all2_induct) (auto simp: nonskip_def)
  have "declares persist ws'"
    if "declares persist ws" and *: "list_all2 (\<lambda>v v'. IsSkip v = IsSkip v' \<and> (\<not> fst v \<longrightarrow> \<not> fst v')) ws ws'" for ws ws'
  proof -
    from n [OF *] have l: "length (nonskip ws') = length (nonskip ws)" by (simp add: list_all2_lengthD)
    from n [OF *] have d: "list_all2 (\<lambda>v v'. \<not> fst v \<longrightarrow> \<not> fst v') (drop m (nonskip ws)) (drop m (nonskip ws'))" for m
      by (rule list_all2_dropI)
    have "ws \<noteq> []" "ws' \<noteq> []" using that by (auto simp: declares_def)
    with * have "IsSkip (last ws) = IsSkip (last ws') \<and> (\<not> fst (last ws) \<longrightarrow> \<not> fst (last ws'))"
      by (auto simp: list_all2_conv_all_nth last_conv_nth)
    moreover have "\<forall>y\<in>set ys. \<not> fst y" if "list_all2 (\<lambda>v v'. \<not> fst v \<longrightarrow> \<not> fst v') xs ys" "\<forall>x\<in>set xs. \<not> fst x" for xs ys :: "verdict list"
      using that by (induction rule: list_all2_induct) auto
    ultimately show ?thesis
      using that(1) \<open>ws' \<noteq> []\<close> d [of "length (nonskip ws) - nat persist"] unfolding declares_def l by blast
  qed
  with t show ?thesis using assms(1) by (auto simp: declared_at_mem)
qed

lemma imem1_twin:
  "IsSkip (imem1 M snap c) = IsSkip (imem1_shadow M snap c)"
  "\<not> fst (imem1 M snap c) \<Longrightarrow> \<not> fst (imem1_shadow M snap c)"
  unfolding imem1_def imem1_shadow_def legacyHeapSlopeSpec_def
  by (simp_all add: scatter_only_absolves)

lemma length_filter_notin:
  assumes "distinct xs" and "distinct ys" and "set xs \<subseteq> set ys"
  shows "length (filter (\<lambda>k. k \<notin> set xs) ys) + length xs = length ys"
proof -
  have "length (filter (\<lambda>k. k \<in> set xs) ys) = card (set ys \<inter> set xs)"
    using assms(2) by (simp add: distinct_length_filter Int_commute)
  with assms sum_length_filter_compl [of "\<lambda>k. k \<in> set xs" ys] show ?thesis
    by (simp add: Int_absorb1 distinct_card)
qed

lemma distinct_declared_at: "distinct (declared_at persist vs)"
  by (simp add: declared_at_def)

text \<open>Nothing the scatter floor of I-MEM-1 absolves is hidden. Whatever the functions of package math
  return, every sample on which I-MEM-1 declares a violation is one on which the rule without the
  floor declares one too, so the floor can only remove violations; and the tally of a cell carries
  the informational twin exactly when that rule tripped, with its count, with the number of the
  absolved samples as the difference of the two counts, and marked absolved exactly when I-MEM-1
  itself never declared.\<close>

theorem scatter_floor_absolves_openly:
  fixes specs :: "spec list" and ps :: "poll list" and M :: go_math
  assumes "distinct (map sp_ID specs)" and "IMEM1 M \<in> set specs"
  defines "D \<equiv> declared_at slopePersistSamples (verdicts (IMEM1 M) ps)"
    and "D' \<equiv> declared_at slopePersistSamples
           (map (\<lambda>(snap, c). judge M legacyHeapSlopeSpec c) (sample_contexts True zero_context ps))"
  shows "set D \<subseteq> set D'
       \<and> (case map_of (tl_Informational (Tally (fst (run_polls ps (NewEvaluator specs))))) ''I-MEM-1'' of
            None \<Rightarrow> D' = []
          | Some t \<Rightarrow> D' \<noteq> [] \<and> sh_Label t = IMEM1ShadowLabel \<and> sh_Violations t = int (length D')
              \<and> sh_AbsolvedEvaluations t = int (length D') - int (length D) \<and> sh_Absolved t = (D = []))"
proof -
  let ?sh = "(IMEM1ShadowLabel, imem1_shadow M)"
  have s: "sp_Shadow (IMEM1 M) = Some ?sh" "sp_Persist (IMEM1 M) = slopePersistSamples" "sp_ID (IMEM1 M) = ''I-MEM-1''"
    by (simp_all add: IMEM1_def)
  have sh: "map snd (twin_verdicts (IMEM1 M) ?sh ps)
      = map (\<lambda>(snap, c). judge M legacyHeapSlopeSpec c) (sample_contexts True zero_context ps)"
    by (simp add: twin_verdicts_def case_prod_unfold imem1_shadow_def comp_def)
  have sub: "set D \<subseteq> set D'"
    unfolding D_def D'_def
    by (rule declared_at_mono)
       (simp_all add: verdicts_def case_prod_unfold IMEM1_def imem1_twin [unfolded imem1_shadow_def])
  with cell_informational [OF assms(1,2) s(1), of ps] length_filter_notin [OF _ _ sub] show ?thesis
    unfolding s sh D_def [symmetric] D'_def [symmetric]
    by (auto simp: D_def D'_def distinct_declared_at split: if_splits)
qed

section \<open>The observation window\<close>

definition poll_time :: "poll \<Rightarrow> gotime" where
  "poll_time p = (case p of Sample snap now \<Rightarrow> now | PollError t \<Rightarrow> t)"

text \<open>The bounds of the window cover a set of times.\<close>

definition covers :: "evaluator \<Rightarrow> gotime set \<Rightarrow> bool" where
  "covers e A \<longleftrightarrow> (\<forall>t\<in>A. 0 < t \<longrightarrow> ev_firstPoll e \<le> t \<and> t \<le> ev_lastPoll e \<and> ev_firstPoll e \<noteq> 0
     \<and> tl_Observed (ev_tally e) = time_sub (ev_lastPoll e) (ev_firstPoll e))"

lemma attempt_window:
  "ev_firstPoll (attempt t e) = (if t \<noteq> 0 \<and> (ev_firstPoll e = 0 \<or> t < ev_firstPoll e) then t else ev_firstPoll e)"
  "ev_lastPoll (attempt t e) = (if t \<noteq> 0 \<and> t > ev_lastPoll e then t else ev_lastPoll e)"
  "t \<noteq> 0 \<Longrightarrow> tl_Observed (ev_tally (attempt t e)) = time_sub (ev_lastPoll (attempt t e)) (ev_firstPoll (attempt t e))"
  "t = 0 \<Longrightarrow> tl_Observed (ev_tally (attempt t e)) = tl_Observed (ev_tally e)"
  by (simp_all add: attempt_def Let_def upd_tally_def)

lemma covers_attempt: "covers e A \<Longrightarrow> covers (attempt t e) (insert t A)"
  unfolding covers_def by (cases "t = 0") (auto simp: attempt_window)

definition window_state where
  "window_state e = (ev_firstPoll e, ev_lastPoll e, tl_Observed (ev_tally e))"

lemma window_frame:
  "window_state (first_sample snap now e) = window_state e"
  "window_state (upd_tally (\<lambda>t. t\<lparr>tl_Samples := n t\<rparr>) e) = window_state e"
  "window_state (upd_tally (tl_PollErrors_update f) e) = window_state e"
  "window_state (upd_tally (record_resources snap) e) = window_state e"
  "window_state (declare_ids snap e) = window_state e"
  "window_state (idle_bookkeeping snap now e) = window_state e"
  "window_state (record_mean snap e) = window_state e"
  "window_state (upd_ctx g e) = window_state e"
  by (simp_all add: window_state_def first_sample_def upd_tally_def upd_ctx_def record_resources_def declare_ids_def
     idle_bookkeeping_def record_mean_def Let_def split: option.splits)

lemma window_frame_tally:
  "tl_Observed (recordEngineCounters snap t) = tl_Observed t" "tl_Observed (recordErrorClasses snap t) = tl_Observed t"
  "tl_Observed (recordZeroWitnesses snap t) = tl_Observed t" "tl_Observed (record_peaks snap t) = tl_Observed t"
  by (simp_all add: recordEngineCounters_def recordErrorClasses_def recordZeroWitnesses_def record_peaks_def Let_def)

lemma window_frame_engine:
  "window_state (upd_tally (\<lambda>t. recordEngineCounters snap (recordErrorClasses snap
      (recordZeroWitnesses snap (record_peaks snap t)))) e) = window_state e"
  by (simp add: window_state_def upd_tally_def window_frame_tally)

lemma window_eval: "window_state (fst (eval_specs ss snap e)) = window_state e"
  by (rule eval_specs_preserves)
     (simp_all add: window_state_def evalSpec_def observeShadow_def upd_tally_def Let_def)

lemma covers_cong: "window_state e = window_state e' \<Longrightarrow> covers e A = covers e' A"
  by (simp add: covers_def window_state_def)

lemma covers_Observe:
  assumes "covers e A"
  shows "covers (fst (Observe snap now e)) (insert now A)"
proof -
  let ?e = "upd_tally (\<lambda>t. t\<lparr>tl_Samples := tl_Samples t + 1\<rparr>) (first_sample snap now e)"
  have "window_state (fst (Observe snap now e)) = window_state (attempt now ?e)"
    by (simp add: Observe_def observe_prepare_def Let_def window_eval window_frame window_frame_engine)
  moreover have "covers ?e A" using assms covers_cong [of ?e e] by (simp add: window_frame)
  ultimately show ?thesis using covers_attempt covers_cong by blast
qed

lemma covers_run: "covers e A \<Longrightarrow> covers (fst (run_polls ps e)) (poll_time ` set ps \<union> A)"
proof (induction ps arbitrary: e A)
  case (Cons p ps)
  have err: "covers (RecordPollError t e) (insert t A)" for t
    unfolding RecordPollError_def
    by (rule covers_attempt) (use Cons.prems covers_cong window_frame(3) in blast)
  show ?case
  proof (cases p)
    case (Sample snap now)
    with Cons.IH [OF covers_Observe [OF Cons.prems, of snap now]] show ?thesis
      by (simp add: run_polls_Sample poll_time_def del: run_polls.simps(3))
  next
    case (PollError t)
    with Cons.IH [OF err [of t]] show ?thesis by (simp add: poll_time_def)
  qed
qed simp

lemma cell_observed:
  assumes "t \<in> poll_time ` set ps" and "t' \<in> poll_time ` set ps" and "0 < t" and "0 < t'"
  shows "min (2 ^ 63 - 1) (t' - t) \<le> tl_Observed (Tally (fst (run_polls ps (NewEvaluator specs))))"
proof -
  have "covers (NewEvaluator specs) {}" by (simp add: covers_def)
  from covers_run [OF this, of ps] have c: "covers (fst (run_polls ps (NewEvaluator specs))) (poll_time ` set ps)" by simp
  let ?e = "fst (run_polls ps (NewEvaluator specs))"
  from c assms(1,3) have "ev_firstPoll ?e \<le> t" unfolding covers_def by blast
  moreover from c assms(2,4) have "t' \<le> ev_lastPoll ?e"
      "tl_Observed (ev_tally ?e) = time_sub (ev_lastPoll ?e) (ev_firstPoll ?e)" unfolding covers_def by blast+
  ultimately show ?thesis by (simp add: Tally_def Let_def time_sub_def min_def max_def)
qed

text \<open>Where the fields of a context come from.\<close>

definition from_samples :: "(snapshot \<times> gotime) set \<Rightarrow> prop_context \<Rightarrow> bool" where
  "from_samples S c \<longleftrightarrow> set (cx_History c) \<subseteq> fst ` S \<and> (cx_RunStartedAt c = 0 \<or> cx_RunStartedAt c \<in> snd ` S)
     \<and> (cx_LoadStartedAt c = 0 \<or> cx_LoadStartedAt c \<in> snd ` S)"

lemma from_samples_next: "from_samples S c \<Longrightarrow> from_samples (insert (snap, now) S) (next_context fresh snap now c)"
  unfolding from_samples_def next_context_def append_history_def Let_def
  by (auto dest: in_set_dropD split: if_splits)

lemma from_samples_mono: "from_samples S c \<Longrightarrow> S \<subseteq> S' \<Longrightarrow> from_samples S' c"
  unfolding from_samples_def by blast

lemma contexts_from_samples:
  "from_samples S c \<Longrightarrow> (snap, c') \<in> set (sample_contexts fresh c ps) \<Longrightarrow> from_samples (S \<union> set (samples ps)) c'"
proof (induction ps arbitrary: S c fresh)
  case (Cons p ps)
  show ?case
  proof (cases p)
    case (Sample sn now)
    let ?c = "next_context fresh sn now c"
    have n: "from_samples (insert (sn, now) S) ?c" using Cons.prems by (simp add: from_samples_next)
    from Cons.prems Sample have "(snap, c') = (sn, ?c) \<or> (snap, c') \<in> set (sample_contexts False ?c ps)"
      by (simp add: Let_def)
    then show ?thesis
    proof
      assume "(snap, c') = (sn, ?c)"
      with n Sample show ?thesis by (auto intro: from_samples_mono)
    next
      assume "(snap, c') \<in> set (sample_contexts False ?c ps)"
      from Cons.IH [OF n this] Sample show ?thesis by (auto intro: from_samples_mono)
    qed
  next
    case (PollError t)
    with Cons show ?thesis by simp
  qed
qed simp

lemma samples_times: "snd ` set (samples ps) \<subseteq> poll_time ` set ps"
  by (induction ps rule: samples.induct) (auto simp: poll_time_def)

text \<open>The samples are stamped with the second of their poll.\<close>

definition stamped :: "poll list \<Rightarrow> bool" where
  "stamped ps \<longleftrightarrow> (\<forall>(snap, now) \<in> set (samples ps).
     sn_TS snap = time_Unix now \<and> 0 < now \<and> 0 \<le> sn_TS snap \<and> in_int64 (sn_TS snap))"

lemma judge_observed:
  assumes "stamped ps" and "(snap, c) \<in> set (sample_contexts True zero_context ps)" and "\<not> IsSkip (judge M sp c)"
  shows "899 * second < tl_Observed (Tally (fst (run_polls ps (NewEvaluator specs))))"
proof -
  have "from_samples {} zero_context" by (simp add: from_samples_def zero_context_def)
  from contexts_from_samples [OF this assms(2)] have f: "from_samples (set (samples ps)) c" by simp
  from assms(3) have w: "snd (window_of sp c)" by (simp add: judge_skip)
  have hist: "\<exists>now. (h, now) \<in> set (samples ps)" if "h \<in> set (cx_History c)" for h
  proof -
    from that f have "h \<in> fst ` set (samples ps)" unfolding from_samples_def by blast
    then obtain p where "p \<in> set (samples ps)" "h = fst p" by blast
    then have "(h, snd p) \<in> set (samples ps)" by simp
    then show ?thesis ..
  qed
  then have "in_int64 (sn_TS h) \<and> 0 \<le> sn_TS h" if "h \<in> set (cx_History c)" for h
    using that assms(1) unfolding stamped_def by blast
  with judgeable_span [OF w] obtain h where h: "h \<in> set (cx_History c)" "time_Unix (slope_start c) + 900 \<le> sn_TS h"
    by metis
  from hist [OF h(1)] obtain now where now: "(h, now) \<in> set (samples ps)" ..
  from slopeWindow_judgeable(1) [OF w] f have st: "slope_start c \<in> snd ` set (samples ps)"
    unfolding slope_start_def from_samples_def by metis
  then obtain p where p: "p \<in> set (samples ps)" "slope_start c = snd p" by blast
  then have pos: "0 < slope_start c" using assms(1) unfolding stamped_def by (metis (no_types, lifting) case_prodE snd_conv)
  have nowp: "0 < now" "sn_TS h = time_Unix now" using now assms(1) unfolding stamped_def by blast+
  have "now \<in> snd ` set (samples ps)" using image_eqI [OF _ now, of now snd] by simp
  then have times: "slope_start c \<in> poll_time ` set ps" "now \<in> poll_time ` set ps"
    using st samples_times [of ps] by blast+
  have "slope_start c div second + 900 \<le> now div second"
    using h(2) nowp by (simp add: time_Unix_def)
  then have "(slope_start c div second + 900) * second \<le> now div second * second"
    by (rule mult_right_mono) (simp add: second_def)
  moreover have "slope_start c div second * second + slope_start c mod second = slope_start c"
      "now div second * second + now mod second = now" by simp_all
  moreover have "slope_start c mod second < second" "0 \<le> now mod second" by (simp_all add: second_def)
  ultimately have "899 * second < now - slope_start c" unfolding distrib_right by linarith
  then have "899 * second < min (2 ^ 63 - 1) (now - slope_start c)" by (simp add: second_def)
  also have "\<dots> \<le> tl_Observed (Tally (fst (run_polls ps (NewEvaluator specs))))"
    by (rule cell_observed [OF times pos nowp(1)])
  finally show ?thesis .
qed

definition slope_predicates :: "go_math \<Rightarrow> spec list" where
  "slope_predicates M = [IMEM1 M, IMEM3 M, IMEM4 M]"

lemma slope_predicate_judges:
  assumes "s \<in> set (slope_predicates M)" and "\<not> IsSkip (sp_Predicate s snap c)"
  shows "\<exists>sp. \<not> IsSkip (judge M sp c)"
  using assms
  by (auto simp: slope_predicates_def IMEM1_def IMEM3_def IMEM4_def imem1_def imem3_def imem4_def split: if_splits)

text \<open>The three slope predicates reach no verdict in a cell observed for 899 seconds or less, whatever
  the samples are, as long as each carries the second of its poll. So the silence the tally excuses
  as \<open>not_judged_by_design\<close> is one the cell could not have broken: such a predicate, when it is
  instrumented, is listed there and is not counted as passed. (The limit in the code is 900
  seconds; the second is lost to rounding the time stamps down.)\<close>

theorem short_cell_not_judged:
  fixes specs :: "spec list" and ps :: "poll list"
  assumes "distinct (map sp_ID specs)" and "s \<in> set specs" and "s \<in> set (slope_predicates M)"
    and "stamped ps" and "samples ps \<noteq> []"
  defines "T \<equiv> Tally (fst (run_polls ps (NewEvaluator specs)))"
  assumes "tl_Observed T \<le> 899 * second"
  shows "nonskip (verdicts s ps) = [] \<and> (instrumented (sp_ID s) ps \<longrightarrow>
       sp_ID s \<in> set (tl_NotJudged T) \<and> sp_ID s \<in> set (tl_NotJudgedByDesign T))"
proof -
  let ?e = "fst (run_polls ps (NewEvaluator specs))"
  have sp: "ev_specs ?e = specs" by (simp add: run_polls_specs new_frame)
  have "IsSkip (sp_Predicate s snap c)" if "(snap, c) \<in> set (sample_contexts True zero_context ps)" for snap c
    using slope_predicate_judges [OF assms(3), of snap c] judge_observed [OF assms(4) that, where specs = specs] assms(7)
    unfolding T_def by (metis linorder_not_le)
  then have v: "nonskip (verdicts s ps) = []"
    unfolding nonskip_def verdicts_def filter_empty_conv by auto
  have m: "sp_MinObservation s = 900 * second"
    using assms(3) by (auto simp: slope_predicates_def IMEM1_def IMEM3_def IMEM4_def slopeMinObservation_def slopeWarmup_def
      slopeMinSpan_def go_simps)
  have o: "tl_Observed T = tl_Observed (ev_tally ?e)" by (simp add: T_def Tally_def Let_def)
  have "not_judged ?e (sp_ID s)" if "instrumented (sp_ID s) ps"
    using that assms(5) v cell_counts(2) [OF assms(1,2), of ps]
    by (simp add: not_judged_def cell_not_instrumented run_polls_samples new_frame)
  with v assms(2,7) show ?thesis
    by (auto simp: T_def Tally_def Let_def sp m second_def intro!: image_eqI [of _ sp_ID s])
qed

definition wstep :: "gotime \<Rightarrow> gotime \<times> gotime \<times> duration \<Rightarrow> gotime \<times> gotime \<times> duration" where
  "wstep t = (\<lambda>(f, l, d). if t = 0 then (f, l, d)
     else let f = (if f = 0 \<or> t < f then t else f); l = max l t in (f, l, time_sub l f))"

lemma window_attempt: "window_state (attempt t e) = wstep t (window_state e)"
  by (simp add: window_state_def attempt_def wstep_def upd_tally_def Let_def)

lemma window_Observe: "window_state (fst (Observe snap now e)) = wstep now (window_state e)"
  by (simp add: Observe_def observe_prepare_def Let_def window_eval window_frame window_frame_engine window_attempt)

lemma window_run: "window_state (fst (run_polls ps e)) = fold wstep (map poll_time ps) (window_state e)"
proof (induction ps arbitrary: e)
  case (Cons p ps)
  then show ?case
    by (cases p) (simp_all add: run_polls_Sample window_Observe RecordPollError_def window_attempt window_frame poll_time_def
       del: run_polls.simps(3))
qed simp

section \<open>A concrete cell\<close>

definition w_at :: "int \<Rightarrow> gotime" where "w_at k = (unix_epoch + 1000 + k) * second"

definition w_specs :: "spec list" where "w_specs = [ICHECKPTR, IMEM1 w_math]"

definition w_cell :: "poll list" where
  "w_cell = [Sample (zero_snapshot\<lparr>sn_TS := 1000\<rparr>) (w_at 0), PollError (w_at 1),
     Sample (zero_snapshot\<lparr>sn_TS := 1002, sn_CheckptrReports := 1, sn_InstrumentedProperties := ''I-CHECKPTR''\<rparr>) (w_at 2)]"

lemma w_specs_ok: "distinct (map sp_ID w_specs)" "ICHECKPTR \<in> set w_specs" "IMEM1 w_math \<in> set w_specs"
  by (simp_all add: w_specs_def ICHECKPTR_def IMEM1_def simple_spec_def)

lemma w_verdicts: "map fst (verdicts ICHECKPTR w_cell) = [True, False]" 
  by (simp add: verdicts_def w_cell_def Let_def ICHECKPTR_def simple_spec_def icheckptr_def zero_snapshot_def pass_def)

lemma w_declared: "declared_at (sp_Persist ICHECKPTR) (verdicts ICHECKPTR w_cell) = [1]"
  by (simp add: verdicts_def w_cell_def Let_def ICHECKPTR_def simple_spec_def icheckptr_def zero_snapshot_def
      declared_at_def declares_def nonskip_def upt_rec)

theorem evaluator_exact_witness:
  "distinct (map sp_ID w_specs) \<and> ICHECKPTR \<in> set w_specs
   \<and> map_of (tl_PerPredicate (Tally (fst (run_polls w_cell (NewEvaluator w_specs))))) (sp_ID ICHECKPTR) = Some 1"
  using evaluator_exact [OF w_specs_ok(1,2), of w_cell] w_specs_ok by (simp add: w_declared)

theorem tally_exact_witness:
  "distinct (map sp_ID w_specs) \<and> tl_Samples (Tally (fst (run_polls w_cell (NewEvaluator w_specs)))) = 2"
  using tally_exact [OF w_specs_ok(1), of w_cell] w_specs_ok(1) by (simp add: w_cell_def)

theorem scatter_floor_absolves_openly_witness:
  "distinct (map sp_ID w_specs) \<and> IMEM1 w_math \<in> set w_specs
   \<and> set (declared_at slopePersistSamples (verdicts (IMEM1 w_math) w_cell))
       \<subseteq> set (declared_at slopePersistSamples
           (map (\<lambda>(snap, c). judge w_math legacyHeapSlopeSpec c) (sample_contexts True zero_context w_cell)))"
  using scatter_floor_absolves_openly [OF w_specs_ok(1,3), of w_cell] w_specs_ok by blast

lemma w_stamped: "stamped w_cell" "samples w_cell \<noteq> []"
  by (simp_all add: stamped_def w_cell_def w_at_def time_Unix_def second_def unix_epoch_def in_int64_def zero_snapshot_def)

lemma w_observed: "tl_Observed (Tally (fst (run_polls w_cell (NewEvaluator w_specs)))) \<le> 899 * second"
proof -
  have "window_state (NewEvaluator w_specs) = (0, 0, 0)" by (simp add: window_state_def NewEvaluator_def zero_tally_def)
  then have "snd (snd (window_state (fst (run_polls w_cell (NewEvaluator w_specs))))) = 2 * second"
    unfolding window_run by (simp add: w_cell_def poll_time_def wstep_def w_at_def unix_epoch_def second_def time_sub_def)
  then show ?thesis by (simp add: Tally_def Let_def window_state_def second_def)
qed

theorem short_cell_not_judged_witness:
  "IMEM1 w_math \<in> set (slope_predicates w_math) \<and> stamped w_cell
   \<and> tl_Observed (Tally (fst (run_polls w_cell (NewEvaluator w_specs)))) \<le> 899 * second
   \<and> nonskip (verdicts (IMEM1 w_math) w_cell) = []"
proof -
  have "IMEM1 w_math \<in> set (slope_predicates w_math)" by (simp add: slope_predicates_def)
  with short_cell_not_judged [OF w_specs_ok(1,3) this w_stamped w_observed] w_stamped w_observed show ?thesis by blast
qed

end
