(* ===== verification/PropertyLoop.thy ===== *)
theory PropertyLoop
  imports Evaluator
begin

text \<open>
  The property loop of a validation cell: \<open>src/validation/propertyloop.go\<close>, the parser it polls with
  (\<open>src/validation/checker/poll.go\<close>) and the projection of its tally into the cell document
  (\<open>Tier1Summary\<close> of \<open>src/validation/runner.go\<close>, \<open>matrix.go\<close> of \<open>src/cmd/validator\<close>).

  What the outside answers a tick (the HTTP poll, the resident set, the orchestrator's callbacks,
  whether the incident channel had room) is the record \<open>tick\<close>. A \<open>/debug/vars\<close> document is the
  decoded JSON object; its numbers are \<open>float64\<close> values inside the 64-bit range. The CSV series, the
  periodic tally file and the heap profile are written beside the loop and read by nothing here;
  they are left out.

  The lemmas: the loop feeds the evaluator exactly the stamped polls, its declarations add exactly
  the intended ids, and what a predicate or a must-stay-zero counter showed in any sample reaches
  the absolute gate.
\<close>


section \<open>Reading a snapshot\<close>

datatype json = JNull | JBool bool | JNum rat | JStr string | JArr "json list" | JObj "(string \<times> json) list"

definition int64_of :: "rat \<Rightarrow> int" where
  "int64_of q = (if q < 0 then - \<lfloor>- q\<rfloor> else \<lfloor>q\<rfloor>)"

definition readInt64 :: "json gomap \<Rightarrow> string \<Rightarrow> int" where
  "readInt64 m k = (case map_of m k of Some (JNum q) \<Rightarrow> int64_of q | _ \<Rightarrow> 0)"

definition read_bool :: "json gomap \<Rightarrow> string \<Rightarrow> bool \<Rightarrow> bool" where
  "read_bool m k old = (case map_of m k of Some (JBool b) \<Rightarrow> b | _ \<Rightarrow> old)"

definition read_string :: "json gomap \<Rightarrow> string \<Rightarrow> string \<Rightarrow> string" where
  "read_string m k old = (case map_of m k of Some (JStr s) \<Rightarrow> s | _ \<Rightarrow> old)"

definition parsed_engine_keys :: "string list" where
  "parsed_engine_keys = [
      ''engine_error_count'', ''engine_error_accept_fd_limit'', ''engine_error_accept_cancelled'',
      ''engine_error_accept_other'', ''engine_error_conn_table_cap'', ''engine_error_conn_register'',
      ''engine_error_listener_recreate'', ''engine_error_transplant_adopt'', ''engine_error_send_peer_gone'',
      ''engine_error_send'', ''engine_error_request_body'', ''engine_error_handler'',
      ''engine_standby_error_count'', ''engine_workers'', ''engine_requests_total'', ''engine_bytes_read'',
      ''engine_bytes_written'', ''engine_accept_count'', ''engine_close_count'', ''engine_async_promoted_conns'',
      ''engine_standby_active_conns'', ''engine_standby_close_count'', ''engine_transplant_detached'',
      ''engine_transplant_adopted'', ''engine_transplant_adopt_slot_occupied'',
      ''engine_close_missing_conn_state'', ''engine_recv_double_armed'', ''engine_recv_cqe_unaccounted'',
      ''engine_recv_sq_full'', ''engine_recv_stall_episodes'', ''engine_transplant_handoff_refused'',
      ''engine_transplant_drain_stopped'', ''engine_transplant_stranded'', ''engine_transplant_adopt_refused'',
      ''engine_recv_resume_while_cancel_pending'', ''engine_recv_resume_while_recv_in_flight'',
      ''engine_recv_arm_declined'', ''engine_recv_stall_nanos'', ''engine_recv_stall_max_nanos'',
      ''engine_recv_linked_arms'', ''engine_recv_linked_blocked_nanos'',
      ''engine_recv_linked_blocked_max_nanos'', ''engine_detached_conns'', ''engine_detach_window_closes'',
      ''engine_zc_sends_submitted'', ''engine_zc_notifs'', ''engine_inline_bytes'', ''engine_ring_bytes'',
      ''engine_async_routes'', ''engine_stale_recv_data_closed'', ''engine_stale_recv_data_transplanted'',
      ''engine_stale_recv_data_unattributed'', ''engine_transplant_handoff_in_flight'',
      ''engine_transplant_held'', ''engine_transplant_reaps'', ''engine_transplant_reap_misses'',
      ''engine_transplant_hold_rescued'', ''engine_transplant_double_claim'',
      ''engine_transplant_claim_deferred'', ''engine_transplant_reap_failed'',
      ''engine_transplant_reap_unsupported'', ''engine_close_fd_deferred'', ''engine_close_fd_forced'',
      ''engine_close_zc_notif_held'', ''engine_close_zc_notif_held_now'', ''engine_close_zc_notif_held_bytes'',
      ''engine_close_zc_notif_forced'', ''engine_shutdown_zc_buf_retained'', ''engine_transplant_sweep_passes'',
      ''engine_transplant_residual_detached'', ''engine_transplant_residual_h2'',
      ''engine_transplant_residual_pinned'', ''engine_transplant_residual_unstarted'',
      ''engine_transplant_residual_busy'']"

definition parse_engine :: "json gomap \<Rightarrow> string \<Rightarrow> int" where
  "parse_engine doc k = (if k \<in> set parsed_engine_keys then readInt64 doc (''celeris.'' @ k) else 0)"

definition parse_memstats :: "json gomap \<Rightarrow> snapshot \<Rightarrow> snapshot" where
  "parse_memstats doc s = (case map_of doc ''memstats'' of
      Some (JObj ms) \<Rightarrow> s\<lparr>sn_HeapInuseBytes := readInt64 ms ''HeapInuse'', sn_HeapAllocBytes := readInt64 ms ''HeapAlloc''\<rparr>
    | _ \<Rightarrow> s)"

definition ParseDebugVars :: "json gomap \<Rightarrow> snapshot \<Rightarrow> snapshot" where
  "ParseDebugVars doc s =
     (let I = readInt64 doc;
          s = s\<lparr>sn_GoroutineCount := I ''goroutines'',
            sn_AcceptedConnTotal := I ''celeris.accepted_conn_total'',
            sn_ClosedConnTotal := I ''celeris.closed_conn_total'',
            sn_ActiveConns := I ''celeris.active_conns'',
            sn_PanicCount := I ''celeris.panic_count'',
            sn_AdaptiveSwitches := I ''celeris.adaptive_switches'',
            sn_Engine := parse_engine doc,
            sn_OldestOpenConnLastByteAgeMs := I ''celeris.oldest_open_conn_last_byte_age_ms'',
            sn_OpenConnsTracked := I ''celeris.open_conns_tracked'',
            sn_CheckptrBuild := read_bool doc ''celeris.checkptr_build'' (sn_CheckptrBuild s),
            sn_ValidationBuild := read_bool doc ''celeris.validation_build'' (sn_ValidationBuild s),
            sn_RaceBuild := read_bool doc ''celeris.race_build'' (sn_RaceBuild s),
            sn_IouringSQECorruptions := max (sn_IouringSQECorruptions s) (I ''celeris.iouring_sqe_corruptions''),
            sn_EngineName := read_string doc ''celeris.engine'' (sn_EngineName s),
            sn_SessionOwnerMismatches := I ''celeris.session_owner_mismatches'',
            sn_SessionsCreatedTotal := I ''celeris.sessions_created_total'',
            sn_SessionsExpiredTotal := I ''celeris.sessions_expired_total'',
            sn_SessionCookieDrops := I ''celeris.session_cookie_drops'',
            sn_RateLimitAllowed := I ''celeris.ratelimit_allowed'',
            sn_RateLimitRejected := I ''celeris.ratelimit_rejected'',
            sn_RatelimitTokenViolations := I ''celeris.ratelimit_token_violations'',
            sn_JWTValidatedOK := I ''celeris.jwt_validated_ok'',
            sn_JWTValidatedFail := I ''celeris.jwt_validated_fail'',
            sn_JWTLateAdmits := I ''celeris.jwt_late_admits'',
            sn_DriverWritesIssued := I ''celeris.driver_writes_issued'',
            sn_DriverReadsIssued := I ''celeris.driver_reads_issued'',
            sn_DriverReadHits := I ''celeris.driver_read_hits'',
            sn_DriverReadMisses := I ''celeris.driver_read_misses'',
            sn_InstrumentedProperties := read_string doc ''celeris.instrumented_properties'' (sn_InstrumentedProperties s)\<rparr>
      in parse_memstats doc s)"

text \<open>\<open>Poll\<close>: \<open>None\<close> stands for every failure, from the transport to the decoder.\<close>

definition Poll :: "gotime \<Rightarrow> json gomap option \<Rightarrow> snapshot option" where
  "Poll t answer = map_option (\<lambda>doc. ParseDebugVars doc (zero_snapshot\<lparr>sn_TS := time_Unix t\<rparr>)) answer"

record socket_counters =
  so_PanicCount :: int
  so_RatelimitTokenViolations :: int
  so_SessionOwnerMismatches :: int
  so_JWTLateAdmits :: int
  so_IouringSQECorruptions :: int

definition PollValidationSocket :: "socket_counters option \<Rightarrow> snapshot \<Rightarrow> snapshot" where
  "PollValidationSocket answer s = (case answer of None \<Rightarrow> s
    | Some c \<Rightarrow> s\<lparr>sn_PanicCount := max (sn_PanicCount s) (so_PanicCount c),
        sn_RatelimitTokenViolations := max (sn_RatelimitTokenViolations s) (so_RatelimitTokenViolations c),
        sn_SessionOwnerMismatches := max (sn_SessionOwnerMismatches s) (so_SessionOwnerMismatches c),
        sn_JWTLateAdmits := max (sn_JWTLateAdmits s) (so_JWTLateAdmits c),
        sn_IouringSQECorruptions := max (sn_IouringSQECorruptions s) (so_IouringSQECorruptions c)\<rparr>)"


section \<open>Declarations\<close>

fun appendDeclared :: "string \<Rightarrow> string list \<Rightarrow> string" where
  "appendDeclared lst [] = lst"
| "appendDeclared lst (i # ids) =
     (if lst = '''' then appendDeclared i ids
      else if \<not> contains lst i then appendDeclared (lst @ '','' @ i) ids
      else appendDeclared lst ids)"

definition isAdaptiveEngine :: "string \<Rightarrow> bool" where
  "isAdaptiveEngine name \<longleftrightarrow> name = ''adaptive''"

definition isIOUringEngine :: "string \<Rightarrow> bool" where
  "isIOUringEngine name \<longleftrightarrow> name = ''io_uring'' \<or> name = ''iouring''"

definition declare_if :: "bool \<Rightarrow> string list \<Rightarrow> snapshot \<Rightarrow> snapshot" where
  "declare_if b ids s =
     (if b then s\<lparr>sn_InstrumentedProperties := appendDeclared (sn_InstrumentedProperties s) ids\<rparr> else s)"


section \<open>One tick\<close>

record response_counters =
  rc_Exchanges :: int
  rc_BadFraming :: int
  rc_HeadWithBody :: int
  rc_Body204 :: int
  rc_Body304 :: int
  rc_MissingChunkEnd :: int
  rc_CRLFInHeader :: int
  rc_NULInHeader :: int

text \<open>The callbacks are optional; \<open>k_room n\<close> says whether the channel took the \<open>n\<close>-th incident of the tick.\<close>

record tick =
  k_time :: gotime
  k_answer :: "json gomap option"
  k_cancelled :: bool
  k_RSS :: int
  k_IdleWindow :: "int option"
  k_ExpectedPanics :: "int option"
  k_RaceReports :: "int option"
  k_Conformance :: "response_counters option"
  k_room :: "nat \<Rightarrow> bool"

record incident =
  in_PredicateID :: string
  in_Message :: string
  in_Snapshot :: snapshot
  in_ObservedAt :: gotime
  in_RefappPID :: int
  in_RecordOnly :: bool

record loop_config =
  lc_PID :: int
  lc_Specs :: "spec list"
  lc_HardFail :: bool
  lc_HasViolations :: bool

record prop_loop =
  lp_ev :: evaluator
  lp_lastGood :: "snapshot option"
  lp_incidents :: "incident list"

definition upd_opt :: "int option \<Rightarrow> ((int \<Rightarrow> int) \<Rightarrow> snapshot \<Rightarrow> snapshot) \<Rightarrow> snapshot \<Rightarrow> snapshot" where
  "upd_opt v upd s = (case v of None \<Rightarrow> s | Some n \<Rightarrow> upd (\<lambda>_. n) s)"

text \<open>The snapshot up to the assignment of \<open>lastGood\<close>, then with the scraper's counts.\<close>

definition base_snapshot :: "loop_config \<Rightarrow> tick \<Rightarrow> snapshot \<Rightarrow> snapshot" where
  "base_snapshot cfg k s =
     (let s = s\<lparr>sn_PID := lc_PID cfg, sn_RSSBytes := k_RSS k\<rparr>;
          s = upd_opt (k_IdleWindow k) sn_IdleWindow_update s;
          s = declare_if (sn_IdleWindow s \<ge> 2) [''I-MEM-2''] s;
          s = upd_opt (k_ExpectedPanics k) sn_ExpectedPanics_update s;
          s = declare_if (sn_OpenConnsTracked s > 0) [''I-CONN-1''] s;
          s = declare_if (sn_CheckptrBuild s) [''I-CHECKPTR''] s;
          s = upd_opt (k_RaceReports k) sn_RaceReports_update s;
          s = declare_if (sn_RaceBuild s) [''I-RACE''] s;
          s = declare_if (sn_ValidationBuild s \<and> isIOUringEngine (sn_EngineName s)) [''I-ENG-IOURING''] s
      in declare_if (isAdaptiveEngine (sn_EngineName s)) [''I-ENG-ADAPTIVE''] s)"

definition conform :: "response_counters option \<Rightarrow> snapshot \<Rightarrow> snapshot" where
  "conform r s = (case r of None \<Rightarrow> s
    | Some rc \<Rightarrow> (declare_if (rc_Exchanges rc > 0) [''I-RFC-1'', ''I-RFC-2''] s)
        \<lparr>sn_ResponsesBadFraming := rc_BadFraming rc, sn_ResponsesHeadWithBody := rc_HeadWithBody rc,
         sn_Responses204WithBody := rc_Body204 rc, sn_Responses304WithBody := rc_Body304 rc,
         sn_ResponsesMissingChunkEnd := rc_MissingChunkEnd rc, sn_ResponsesCRLFInHeader := rc_CRLFInHeader rc,
         sn_ResponsesNULInHeader := rc_NULInHeader rc\<rparr>)"

definition incident_of :: "loop_config \<Rightarrow> gotime \<Rightarrow> prop_violation \<Rightarrow> incident" where
  "incident_of cfg t v = \<lparr>in_PredicateID = pv_ID v, in_Message = pv_Message v, in_Snapshot = pv_Snapshot v,
     in_ObservedAt = t, in_RefappPID = lc_PID cfg, in_RecordOnly = (\<not> lc_HardFail cfg)\<rparr>"

text \<open>The first violations of the tick, in order, as far as the channel took them.\<close>

definition send_incidents :: "loop_config \<Rightarrow> gotime \<Rightarrow> (nat \<Rightarrow> bool) \<Rightarrow> prop_violation list \<Rightarrow> incident list" where
  "send_incidents cfg t room vs =
     (if lc_HasViolations cfg
      then map (\<lambda>(v, n). incident_of cfg t v)
             (filter (\<lambda>(v, n). room n) (zip (filter pv_First vs) [0..<length vs]))
      else [])"

definition observe_tick :: "loop_config \<Rightarrow> gotime \<Rightarrow> (nat \<Rightarrow> bool) \<Rightarrow> snapshot \<Rightarrow> prop_loop \<Rightarrow> prop_loop" where
  "observe_tick cfg t room s st =
     (case Observe s t (lp_ev st) of (e, vs) \<Rightarrow>
        st\<lparr>lp_ev := e, lp_incidents := lp_incidents st @ send_incidents cfg t room vs\<rparr>)"

definition poll_tick :: "loop_config \<Rightarrow> tick \<Rightarrow> prop_loop \<Rightarrow> prop_loop" where
  "poll_tick cfg k st =
     (case Poll (k_time k) (k_answer k) of
        None \<Rightarrow> (if k_cancelled k then st else st\<lparr>lp_ev := RecordPollError (k_time k) (lp_ev st)\<rparr>)
      | Some s \<Rightarrow>
          let s = base_snapshot cfg k s; st = st\<lparr>lp_lastGood := Some s\<rparr>
          in observe_tick cfg (k_time k) (k_room k) (conform (k_Conformance k) s) st)"

text \<open>At the end of the context: a checkptr throw is judged on a copy of the last good sample.\<close>

definition finish_loop :: "loop_config \<Rightarrow> int option \<Rightarrow> gotime \<Rightarrow> (nat \<Rightarrow> bool) \<Rightarrow> prop_loop \<Rightarrow> prop_loop" where
  "finish_loop cfg crashReports now room st =
     (case (crashReports, lp_lastGood st) of
        (Some n, Some s) \<Rightarrow>
          (if n > 0
           then observe_tick cfg now room
                  (declare_if True [''I-CHECKPTR''] (s\<lparr>sn_CheckptrReports := n\<rparr>)) st
           else st)
      | _ \<Rightarrow> st)"

definition runPropertyLoop ::
    "loop_config \<Rightarrow> tick list \<Rightarrow> int option \<Rightarrow> gotime \<Rightarrow> (nat \<Rightarrow> bool) \<Rightarrow> prop_tally \<times> incident list" where
  "runPropertyLoop cfg ticks crashReports now room =
     (let st = fold (poll_tick cfg) ticks \<lparr>lp_ev = NewEvaluator (lc_Specs cfg), lp_lastGood = None, lp_incidents = []\<rparr>;
          st = finish_loop cfg crashReports now room st
      in (Tally (lp_ev st), lp_incidents st))"


section \<open>The cell document\<close>

definition informationalSummary :: "shadow_tally gomap \<Rightarrow> property_informational gomap" where
  "informationalSummary m = map (\<lambda>(i, t). (i, \<lparr>pi_Label = sh_Label t, pi_Violations = sh_Violations t,
     pi_AbsolvedEvaluations = sh_AbsolvedEvaluations t, pi_Absolved = sh_Absolved t, pi_FirstMessage = sh_FirstMessage t\<rparr>)) m"

text \<open>The property fields of \<open>Tier1Summary\<close>; the rest of the summary comes from the walkers and is the
  argument \<open>w\<close>. \<open>bits\<close> is the encoding of a \<open>float64\<close> value as its bit pattern.\<close>

definition Tier1Summary :: "(rat \<Rightarrow> float64) \<Rightarrow> prop_tally \<Rightarrow> tier1_summary \<Rightarrow> tier1_summary" where
  "Tier1Summary bits T w = w\<lparr>
     PropertyEvaluations := tl_Evaluations T,
     PropertySkips := tl_Skips T,
     PropertyViolations := tl_Violations T,
     PropertyViolationIDs := tl_ViolationIDs T,
     PropertyInformational := informationalSummary (tl_Informational T),
     PropertyPollErrors := tl_PollErrors T,
     PropertyLoopSkipped := tl_SkippedReason T,
     AdaptiveSwitches := tl_AdaptiveSwitches T,
     PeakConnsPerWorker := bits (tl_PeakConnsPerWorker T),
     MeanBytesPerReq := bits (tl_MeanBytesPerReq T),
     EngineZeroWitness := tl_EngineZeroWitness T,
     EngineAcceptCount := tl_EngineAcceptCount T,
     EngineCloseCount := tl_EngineCloseCount T,
     EngineTransplantDetached := tl_EngineTransplantDetached T,
     EngineTransplantAdopted := tl_EngineTransplantAdopted T,
     EngineAsyncPromotedConns := tl_EngineAsyncPromotedConns T,
     PeakStandbyActiveConns := tl_PeakStandbyActiveConns T,
     EngineRequestsTotal := tl_EngineRequestsTotal T,
     EngineErrorCount := tl_EngineErrorCount T,
     EngineErrorClasses := tl_EngineErrorClasses T,
     EngineStandbyErrorCount := tl_EngineStandbyErrorCount T,
     EngineCounters := tl_EngineCounters T\<rparr>"

definition cell_with_properties :: "(rat \<Rightarrow> float64) \<Rightarrow> prop_tally \<Rightarrow> tier1_summary \<Rightarrow> validation_cell \<Rightarrow> validation_cell" where
  "cell_with_properties bits T w c = c\<lparr>
     Tier1 := Some (Tier1Summary bits T w),
     PropertiesPassed := Passed T,
     PropertiesFailed := Failed T,
     PropertiesNotInstrumented := tl_NotInstrumented T,
     PropertiesNotJudged := tl_NotJudged T,
     PropertiesNotJudgedByDesign := tl_NotJudgedByDesign T,
     FailureSummaries := tl_FailureSummaries T\<rparr>"

section \<open>The loop feeds the evaluator the stamped polls\<close>

definition tick_polls :: "loop_config \<Rightarrow> tick \<Rightarrow> poll list" where
  "tick_polls cfg k = (case Poll (k_time k) (k_answer k) of
      None \<Rightarrow> (if k_cancelled k then [] else [PollError (k_time k)])
    | Some s \<Rightarrow> [Sample (conform (k_Conformance k) (base_snapshot cfg k s)) (k_time k)])"

definition last_good :: "loop_config \<Rightarrow> tick list \<Rightarrow> snapshot option" where
  "last_good cfg ticks = (case filter (\<lambda>k. k_answer k \<noteq> None) ticks of [] \<Rightarrow> None
     | xs \<Rightarrow> map_option (base_snapshot cfg (last xs)) (Poll (k_time (last xs)) (k_answer (last xs))))"

definition final_sample :: "snapshot \<Rightarrow> int \<Rightarrow> snapshot" where
  "final_sample s n = declare_if True [''I-CHECKPTR''] (s\<lparr>sn_CheckptrReports := n\<rparr>)"

definition final_polls :: "loop_config \<Rightarrow> tick list \<Rightarrow> int option \<Rightarrow> gotime \<Rightarrow> poll list" where
  "final_polls cfg ticks crashReports now = (case (crashReports, last_good cfg ticks) of
      (Some n, Some s) \<Rightarrow> if n > 0 then [Sample (final_sample s n) now] else []
    | _ \<Rightarrow> [])"

definition loop_polls :: "loop_config \<Rightarrow> tick list \<Rightarrow> int option \<Rightarrow> gotime \<Rightarrow> poll list" where
  "loop_polls cfg ticks crashReports now = concat (map (tick_polls cfg) ticks) @ final_polls cfg ticks crashReports now"

lemma run_polls_append: "fst (run_polls (ps @ qs) e) = fst (run_polls qs (fst (run_polls ps e)))"
proof (induction ps arbitrary: e)
  case (Cons p ps)
  then show ?case by (cases p) (simp_all add: run_polls_Sample del: run_polls.simps(3))
qed simp

lemma Poll_none: "Poll t a = None \<longleftrightarrow> a = None"
  by (simp add: Poll_def)

lemma poll_tick_ev: "lp_ev (poll_tick cfg k st) = fst (run_polls (tick_polls cfg k) (lp_ev st))"
  by (simp add: poll_tick_def tick_polls_def observe_tick_def Let_def case_prod_unfold split: option.splits)

lemma poll_tick_good:
  "lp_lastGood (poll_tick cfg k st) = (case Poll (k_time k) (k_answer k) of None \<Rightarrow> lp_lastGood st
     | Some s \<Rightarrow> Some (base_snapshot cfg k s))"
  by (simp add: poll_tick_def observe_tick_def Let_def case_prod_unfold split: option.splits)

lemma fold_tick_ev:
  "lp_ev (fold (poll_tick cfg) ticks st) = fst (run_polls (concat (map (tick_polls cfg) ticks)) (lp_ev st))"
  by (induction ticks arbitrary: st) (simp_all add: poll_tick_ev run_polls_append)

lemma fold_tick_good:
  "lp_lastGood st = None \<Longrightarrow> lp_lastGood (fold (poll_tick cfg) ticks st) = last_good cfg ticks"
proof (induction ticks rule: rev_induct)
  case (snoc k ks)
  show ?case
  proof (cases "Poll (k_time k) (k_answer k)")
    case None
    then have "k_answer k = None" by (simp add: Poll_none)
    with None snoc show ?thesis by (simp add: poll_tick_good last_good_def)
  next
    case (Some s)
    then have "k_answer k \<noteq> None" by (auto simp: Poll_def)
    with Some snoc show ?thesis
      by (simp add: poll_tick_good last_good_def) (cases "filter (\<lambda>k. k_answer k \<noteq> None) ks", simp_all)
  qed
qed (simp add: last_good_def)

lemma runPropertyLoop_polls:
  "fst (runPropertyLoop cfg ticks crashReports now room)
     = Tally (fst (run_polls (loop_polls cfg ticks crashReports now) (NewEvaluator (lc_Specs cfg))))"
  by (simp add: runPropertyLoop_def Let_def finish_loop_def observe_tick_def fold_tick_ev fold_tick_good loop_polls_def
      run_polls_append final_polls_def final_sample_def case_prod_unfold split: option.splits)

section \<open>Declarations\<close>

lemma declared_ids_join:
  assumes "\<And>i. i \<in> set ids \<Longrightarrow> CHR '','' \<notin> set i \<and> i \<noteq> '''' \<and> trim_space i = i" and "ids \<noteq> []"
  shows "declared_ids (join ids '','') = ids"
  using assms split_on_join [of ids "CHR '',''"]
  by (simp add: declared_ids_def filter_id_conv map_idI)

lemma join_snoc: "ids \<noteq> [] \<Longrightarrow> join (ids @ [i]) sep = join ids sep @ sep @ i"
  by (induction ids sep rule: join.induct) auto
definition all_ids :: "string list" where
  "all_ids = [''I-CONN-1'', ''I-CONN-2'', ''I-RFC-1'', ''I-RFC-2'', ''I-MEM-1'', ''I-MEM-2'', ''I-MEM-3'', ''I-MEM-4'',
     ''I-PANIC'', ''I-RACE'', ''I-CHECKPTR'', ''I-MW-RATELIMIT'', ''I-MW-SESSION'', ''I-MW-JWT'', ''I-DRV'',
     ''I-ENG-IOURING'', ''I-ENG-ADAPTIVE'', ''I-ADV-ACCEPTED'', ''I-H2C-CRASHED'', ''I-WS-ACCEPTED'', ''I-WS-HANG'',
     ''I-H2C-HANG'', ''I-WS-HANDSHAKE'', ''I-H2C-STALL'', ''I-WS-STALL'', ''I-WS-ECHO-STALL'', ''I-WS-ECHO-SLOW'',
     ''I-WS-ECHO'', ''I-LIVENESS'', ''I-HANG'']"

lemmas spec_defs = simple_spec_def ICONN1_def ICONN2_def IRFC1_def IRFC2_def IMEM1_def IMEM2_def IMEM3_def IMEM4_def
  IPANIC_def IRACE_def ICHECKPTR_def IMWRateLimit_def IMWSession_def IMWJWT_def IDRV_def IENGIOURing_def IENGAdaptive_def

lemma registered_ids: "map sp_ID (registered M) = all_ids"
  by (simp add: registered_def tier1_walker_specs_def all_ids_def spec_defs)

definition loop_declared :: "string list" where
  "loop_declared = [''I-MEM-2'', ''I-CONN-1'', ''I-CHECKPTR'', ''I-RACE'', ''I-ENG-IOURING'', ''I-ENG-ADAPTIVE'',
     ''I-RFC-1'', ''I-RFC-2'']"

lemma all_ids_plain: "list_all (\<lambda>i. CHR '','' \<notin> set i \<and> i \<noteq> '''' \<and> trim_space i = i) all_ids"
  by code_simp

lemma declared_infix: "list_all (\<lambda>i. i \<in> set all_ids \<and> list_all (\<lambda>x. contains x i \<longleftrightarrow> x = i) all_ids) loop_declared"
  by code_simp

lemma contains_join:
  assumes "CHR '','' \<notin> set p" and "p \<noteq> ''''"
  shows "contains (join ids '','') p \<longleftrightarrow> (\<exists>x\<in>set ids. contains x p)"
proof (induction ids rule: induct_list012)
  case (3 x y ids)
  have "contains (x @ CHR '','' # join (y # ids) '','') p \<longleftrightarrow> contains x p \<or> contains (join (y # ids) '','') p"
    using assms(1) unfolding contains_split by auto
  with 3 show ?case by simp
qed (simp_all add: assms)

lemma appendDeclared_ids:
  assumes "set ids \<subseteq> set all_ids" and "set new \<subseteq> set loop_declared"
  shows "set (declared_ids (appendDeclared (join ids '','') new)) = set ids \<union> set new"
  using assms
proof (induction new arbitrary: ids)
  case Nil
  show ?case
  proof (cases "ids = []")
    case False
    have "declared_ids (join ids '','') = ids"
      by (rule declared_ids_join) (use Nil False all_ids_plain in \<open>auto simp: list_all_iff\<close>)
    then show ?thesis by simp
  qed (simp add: declared_ids_def trim_space_def)
next
  case (Cons i new)
  have i: "i \<in> set all_ids" "\<And>x. x \<in> set ids \<Longrightarrow> contains x i \<longleftrightarrow> x = i"
    using Cons.prems declared_infix by (auto simp: list_all_iff)
  then have plain: "CHR '','' \<notin> set i" "i \<noteq> ''''" using all_ids_plain by (auto simp: list_all_iff)
  have c: "contains (join ids '','') i \<longleftrightarrow> i \<in> set ids"
    using contains_join [OF plain, of ids] i(2) by blast
  show ?case
  proof (cases "ids = []")
    case True
    with Cons.IH [of "[i]"] Cons.prems i(1) show ?thesis by simp
  next
    case False
    then have ne: "join ids '','' \<noteq> ''''"
      using Cons.prems all_ids_plain by (cases ids rule: remdups_adj.cases) (auto simp: list_all_iff)
    from False have "join ids '','' @ '','' @ i = join (ids @ [i]) '',''" by (simp add: join_snoc)
    with Cons.IH [of ids] Cons.IH [of "ids @ [i]"] Cons.prems i(1) ne c show ?thesis by auto
  qed
qed

text \<open>The declarations of the property loop are exact. To a comma-separated list of registered
  predicate ids, empty or not, appending ids the loop itself declares gives a list that the
  evaluator reads back as the union of both, although the code searches the list for a substring:
  no registered id hides one of the declared ones.\<close>

theorem appendDeclared_exact:
  assumes "set ids \<subseteq> set (map sp_ID (registered M))" and "set new \<subseteq> set loop_declared"
  shows "set (declared_ids (appendDeclared (join ids '','') new)) = set ids \<union> set new"
  using assms unfolding registered_ids by (rule appendDeclared_ids)

theorem appendDeclared_exact_witness:
  "set [''I-MW-JWT'', ''I-MEM-1''] \<subseteq> set (map sp_ID (registered w_math))
   \<and> set (declared_ids (appendDeclared (join [''I-MW-JWT'', ''I-MEM-1''] '','') [''I-MEM-2'', ''I-MEM-2'', ''I-RACE'']))
     = {''I-MW-JWT'', ''I-MEM-1'', ''I-MEM-2'', ''I-RACE''}"
proof -
  have h: "set [''I-MW-JWT'', ''I-MEM-1''] \<subseteq> set (map sp_ID (registered w_math))"
    "set [''I-MEM-2'', ''I-MEM-2'', ''I-RACE''] \<subseteq> set loop_declared"
    unfolding registered_ids all_ids_def loop_declared_def by auto
  show ?thesis using h(1) unfolding appendDeclared_exact [OF h] by auto
qed

section \<open>What the gate sees\<close>

lemma property_violation_reported:
  assumes "slice_sort violation_key srt" and "cell_with_properties bits T w c0 \<in> set cells" and "0 < tl_Violations T"
  shows "\<exists>v\<in>set (Gate srt cells soaks opts). v_Refapp v = Refapp c0 \<and> v_Engine v = Engine c0 \<and> v_Arch v = Arch c0
    \<and> v_Field v = ''tier_1.property_violations'' \<and> v_Value v = tl_Violations T
    \<and> v_Why v = [Lit (''property predicate(s) violated: '' @ join (tl_ViolationIDs T) '', '')]"
proof -
  let ?c = "cell_with_properties bits T w c0"
  let ?v = "viol ?c ''tier_1.property_violations'' (tl_Violations T)
      [Lit (''property predicate(s) violated: '' @ join (tl_ViolationIDs T) '', '')]"
  have t: "Tier1 ?c = Some (Tier1Summary bits T w)" by (simp add: cell_with_properties_def)
  have p: "PropertyViolations (Tier1Summary bits T w) = tl_Violations T"
      "PropertyViolationIDs (Tier1Summary bits T w) = tl_ViolationIDs T" by (simp_all add: Tier1Summary_def)
  have "?v \<in> set (property_checks opts ?c (Tier1Summary bits T w))"
    using assms(3) unfolding property_checks_def p by simp
  then have "?v \<in> set (tier1_checks opts ?c)" unfolding tier1_checks_def t option.case set_append by blast
  then have "?v \<in> set (Gate srt cells soaks opts)" by (rule findings_cell [OF assms(1,2)])
  then show ?thesis by (rule bexI [rotated]) (simp add: viol_def cell_with_properties_def)
qed

lemma sum_list_pos: "x \<in> set xs \<Longrightarrow> 0 < f x \<Longrightarrow> (\<And>y. y \<in> set xs \<Longrightarrow> (0::int) \<le> f y) \<Longrightarrow> 0 < (\<Sum>y\<leftarrow>xs. f y)"
proof (induction xs)
  case (Cons a xs)
  have "0 \<le> (\<Sum>y\<leftarrow>xs. f y)" using Cons.prems(3) by (intro sum_list_nonneg) auto
  moreover have "0 \<le> f a" using Cons.prems(3) by simp
  ultimately show ?case using Cons by (cases "x = a") (auto intro: add_nonneg_pos add_pos_nonneg)
qed simp

lemma declared_violation_reported:
  fixes cfg :: loop_config and ticks :: "tick list" and crashReports :: "int option" and now :: gotime and room :: "nat \<Rightarrow> bool"
  defines "T \<equiv> fst (runPropertyLoop cfg ticks crashReports now room)"
  assumes "distinct (map sp_ID (lc_Specs cfg))" and "s \<in> set (lc_Specs cfg)"
    and "declared_at (sp_Persist s) (verdicts s (loop_polls cfg ticks crashReports now)) \<noteq> []"
    and "slice_sort violation_key srt" and "cell_with_properties bits T w c0 \<in> set cells"
  shows "sp_ID s \<in> set (tl_ViolationIDs T)
    \<and> (\<exists>v\<in>set (Gate srt cells soaks opts). v_Refapp v = Refapp c0 \<and> v_Engine v = Engine c0 \<and> v_Arch v = Arch c0
        \<and> v_Field v = ''tier_1.property_violations'' \<and> v_Value v = tl_Violations T
        \<and> v_Why v = [Lit (''property predicate(s) violated: '' @ join (tl_ViolationIDs T) '', '')])"
proof
  let ?ps = "loop_polls cfg ticks crashReports now" and ?e = "fst (run_polls (loop_polls cfg ticks crashReports now) (NewEvaluator (lc_Specs cfg)))"
  have T: "T = Tally ?e" by (simp add: T_def runPropertyLoop_polls)
  show "sp_ID s \<in> set (tl_ViolationIDs T)"
    using assms(3,4) cell_counts(1) [OF assms(2,3), of ?ps]
    by (auto simp: T Tally_def Let_def run_polls_specs new_frame)
  have "0 < (\<Sum>s\<leftarrow>lc_Specs cfg. int (length (declared_at (sp_Persist s) (verdicts s ?ps))))"
    using assms(4) by (intro sum_list_pos [OF assms(3)]) simp_all
  then have "0 < tl_Violations T"
    using cell_sum [OF assms(2), of ?ps] by (simp add: T Tally_def Let_def)
  then show "\<exists>v\<in>set (Gate srt cells soaks opts). v_Refapp v = Refapp c0 \<and> v_Engine v = Engine c0 \<and> v_Arch v = Arch c0
        \<and> v_Field v = ''tier_1.property_violations'' \<and> v_Value v = tl_Violations T
        \<and> v_Why v = [Lit (''property predicate(s) violated: '' @ join (tl_ViolationIDs T) '', '')]"
    by (rule property_violation_reported [OF assms(5,6)])
qed

text \<open>C7: A violation reaches the gate. When the verdicts of a selected predicate over the polls of a cell
  declare a violation even once, the document's cell lists the predicate, and the absolute gate, whatever
  its options and the other cells, reports the cell's property violations with their number and
  the ids, the predicate among them.\<close>

theorem violation_reaches_gate:
  fixes cfg :: loop_config and ticks :: "tick list" and crashReports :: "int option" and now :: gotime and room :: "nat \<Rightarrow> bool"
  defines "T \<equiv> fst (runPropertyLoop cfg ticks crashReports now room)"
  assumes "distinct (map sp_ID (lc_Specs cfg))" and "s \<in> set (lc_Specs cfg)"
    and "declared_at (sp_Persist s) (verdicts s (loop_polls cfg ticks crashReports now)) \<noteq> []"
    and "slice_sort violation_key srt" and "cell_with_properties bits T w c0 \<in> set cells"
  shows "sp_ID s \<in> set (tl_ViolationIDs T)
    \<and> (\<exists>v\<in>set (Gate srt cells soaks opts). v_Refapp v = Refapp c0 \<and> v_Engine v = Engine c0 \<and> v_Arch v = Arch c0
        \<and> v_Field v = ''tier_1.property_violations'' \<and> v_Value v = tl_Violations T
        \<and> v_Why v = [Lit (''property predicate(s) violated: '' @ join (tl_ViolationIDs T) '', '')])"
  using declared_violation_reported [OF assms(2-5)] assms(6) unfolding T_def by blast

lemma sample_contexts_snoc:
  "\<exists>c. sample_contexts b c0 (ps @ [Sample snap now]) = sample_contexts b c0 ps @ [(snap, c)]"
proof (induction ps arbitrary: b c0)
  case (Cons p ps)
  show ?case
  proof (cases p)
    case (Sample s t)
    with Cons.IH [of False "next_context b s t c0"] show ?thesis by (auto simp: Let_def)
  next
    case (PollError t)
    with Cons.IH [of b c0] show ?thesis by simp
  qed
qed (simp add: Let_def)

lemma verdicts_snoc: "\<exists>c. verdicts s (ps @ [Sample snap now]) = verdicts s ps @ [sp_Predicate s snap c]"
  using sample_contexts_snoc [of True zero_context ps snap now] by (auto simp: verdicts_def)

lemma last_good_some:
  assumes "k \<in> set ticks" and "k_answer k \<noteq> None"
  obtains s where "last_good cfg ticks = Some s"
proof -
  let ?xs = "filter (\<lambda>k. k_answer k \<noteq> None) ticks"
  have ne: "?xs \<noteq> []" using assms by (auto simp: filter_empty_conv)
  then have "last ?xs \<in> set ?xs" by (rule last_in_set)
  then have a: "k_answer (last ?xs) \<noteq> None" by simp
  have "last_good cfg ticks = map_option (base_snapshot cfg (last ?xs)) (Poll (k_time (last ?xs)) (k_answer (last ?xs)))"
    unfolding last_good_def using ne by (simp split: list.split)
  then have "last_good cfg ticks \<noteq> None" using a Poll_none by simp
  then show thesis using that by blast
qed

lemma final_sample_fails: "n > 0 \<Longrightarrow> \<not> fst (icheckptr (final_sample s n) c)"
  by (simp add: icheckptr_def final_sample_def declare_if_def)

lemma crash_declared:
  assumes "k \<in> set ticks" and "k_answer k \<noteq> None" and "0 < n"
  shows "declared_at (sp_Persist ICHECKPTR) (verdicts ICHECKPTR (loop_polls cfg ticks (Some n) now)) \<noteq> []"
proof -
  obtain s where s: "last_good cfg ticks = Some s" using last_good_some [OF assms(1,2)] .
  let ?ps = "concat (map (tick_polls cfg) ticks)"
  have l: "loop_polls cfg ticks (Some n) now = ?ps @ [Sample (final_sample s n) now]"
    using assms(3) by (simp add: loop_polls_def final_polls_def s)
  obtain c where v: "verdicts ICHECKPTR (loop_polls cfg ticks (Some n) now)
      = verdicts ICHECKPTR ?ps @ [icheckptr (final_sample s n) c]"
    using verdicts_snoc [of ICHECKPTR ?ps "final_sample s n" now] unfolding l
    by (auto simp: ICHECKPTR_def simple_spec_def)
  have "declares 0 (verdicts ICHECKPTR (loop_polls cfg ticks (Some n) now))"
    unfolding v using final_sample_fails [OF assms(3), of s c] by (auto simp: declares_def IsSkip_def)
  moreover have "sp_Persist ICHECKPTR = 0" by (simp add: ICHECKPTR_def simple_spec_def)
  ultimately show ?thesis unfolding v by (simp add: declared_at_snoc)
qed

text \<open>C8: A crash of the pointer checker is never lost. The process is gone before the next poll, so no
  sample carries the count; still, when at least one poll of the cell succeeded, a positive count
  of crash reports at the end makes I-CHECKPTR a violation of the cell, and the absolute gate
  reports it.\<close>

theorem checkptr_crash_fails_gate:
  fixes cfg :: loop_config and ticks :: "tick list" and now :: gotime and room :: "nat \<Rightarrow> bool" and n :: int
  defines "T \<equiv> fst (runPropertyLoop cfg ticks (Some n) now room)"
  assumes "distinct (map sp_ID (lc_Specs cfg))" and "ICHECKPTR \<in> set (lc_Specs cfg)"
    and "k \<in> set ticks" and "k_answer k \<noteq> None" and "0 < n"
    and "slice_sort violation_key srt" and "cell_with_properties bits T w c0 \<in> set cells"
  shows "''I-CHECKPTR'' \<in> set (tl_ViolationIDs T)
    \<and> (\<exists>v\<in>set (Gate srt cells soaks opts). v_Refapp v = Refapp c0 \<and> v_Engine v = Engine c0 \<and> v_Arch v = Arch c0
        \<and> v_Field v = ''tier_1.property_violations'' \<and> v_Value v = tl_Violations T
        \<and> v_Why v = [Lit (''property predicate(s) violated: '' @ join (tl_ViolationIDs T) '', '')])"
proof -
  have "sp_ID ICHECKPTR = ''I-CHECKPTR''" by (simp add: ICHECKPTR_def simple_spec_def)
  with declared_violation_reported [OF assms(2,3) crash_declared [OF assms(4-6)] assms(7)] assms(8) show ?thesis
    unfolding T_def by metis
qed

section \<open>Must-stay-zero counters\<close>

definition zw :: "evaluator \<Rightarrow> int gomap" where "zw e = tl_EngineZeroWitness (ev_tally e)"

lemma zw_frame:
  "zw (first_sample snap now e) = zw e" "zw (attempt t e) = zw e" "zw (declare_ids snap e) = zw e"
  "zw (idle_bookkeeping snap now e) = zw e" "zw (record_mean snap e) = zw e" "zw (upd_ctx g e) = zw e"
  "zw (upd_tally (\<lambda>t. t\<lparr>tl_Samples := m t\<rparr>) e) = zw e" "zw (upd_tally (record_resources snap) e) = zw e"
  "zw (upd_tally (tl_PollErrors_update f) e) = zw e"
  by (simp_all add: zw_def first_sample_def attempt_def upd_tally_def upd_ctx_def record_resources_def declare_ids_def
     idle_bookkeeping_def record_mean_def Let_def split: option.splits)

lemma zw_tally:
  "tl_EngineZeroWitness (recordEngineCounters snap t) = tl_EngineZeroWitness t"
  "tl_EngineZeroWitness (recordErrorClasses snap t) = tl_EngineZeroWitness t"
  "tl_EngineZeroWitness (record_peaks snap t) = tl_EngineZeroWitness t"
  by (simp_all add: recordEngineCounters_def recordErrorClasses_def record_peaks_def Let_def)

lemma zw_eval: "zw (fst (eval_specs ss snap e)) = zw e"
  by (rule eval_specs_preserves)
     (simp_all add: zw_def evalSpec_def observeShadow_def upd_tally_def Let_def)

definition zw_step :: "snapshot \<Rightarrow> int gomap \<Rightarrow> int gomap" where
  "zw_step snap m = fold (\<lambda>k m. if sn_Engine snap k > mget m k then mput m k (sn_Engine snap k) else m) zero_witness_keys
     (if m = [] then map (\<lambda>(k, _). (k, 0)) ZeroWitnessMeaning else m)"

lemma zw_record: "zw (upd_tally (\<lambda>t. recordEngineCounters snap (recordErrorClasses snap
      (recordZeroWitnesses snap (record_peaks snap t)))) e) = zw_step snap (zw e)"
  by (simp add: zw_def upd_tally_def zw_tally) (simp add: recordZeroWitnesses_def zw_step_def zw_tally Let_def)

lemma zw_Observe: "zw (fst (Observe snap now e)) = zw_step snap (zw e)"
  by (simp add: Observe_def observe_prepare_def Let_def zw_eval zw_frame zw_record)

lemma mget_mput: "mget (mput m k v) k' = (if k' = k then v else mget m k')"
  by (simp add: mget_def)

lemma mget_fold_max:
  "distinct ks \<Longrightarrow> mget (fold (\<lambda>k m. if E k > mget m k then mput m k (E k) else m) ks m) k
     = (if k \<in> set ks then max (mget m k) (E k) else mget m k)"
  by (induction ks arbitrary: m) (auto simp: mget_mput max_def)

lemma mget_seed: "mget (map (\<lambda>(k, _). (k, 0)) m) k = 0"
  by (induction m) (auto simp: mget_def)

lemma zw_step_mget:
  assumes "k \<in> set zero_witness_keys"
  shows "mget (zw_step snap m) k = max (mget m k) (sn_Engine snap k)"
proof -
  have "distinct zero_witness_keys" by (simp add: zero_witness_keys_def)
  moreover have "mget [] k = 0" by (simp add: mget_def)
  ultimately show ?thesis using assms by (simp add: zw_step_def mget_fold_max mget_seed)
qed

lemma zw_run:
  assumes "k \<in> set zero_witness_keys"
  shows "mget (zw (fst (run_polls ps e))) k = fold (\<lambda>(snap, now) m. max m (sn_Engine snap k)) (samples ps) (mget (zw e) k)"
proof (induction ps arbitrary: e)
  case (Cons p ps)
  then show ?case
    by (cases p) (simp_all add: run_polls_Sample zw_Observe zw_step_mget [OF assms] RecordPollError_def zw_frame
       del: run_polls.simps(3))
qed simp

lemma fold_max_start: "(m :: int) \<le> fold (\<lambda>(snap, now) m. max m (g snap)) xs m"
proof (induction xs arbitrary: m)
  case (Cons x xs)
  have "m \<le> max m (g (fst x))" by simp
  also note Cons.IH
  finally show ?case by (simp add: case_prod_unfold)
qed simp

lemma fold_max_ge: "(snap, now) \<in> set xs \<Longrightarrow> (g snap :: int) \<le> fold (\<lambda>(snap, now) m. max m (g snap)) xs m"
proof (induction xs arbitrary: m)
  case (Cons x xs)
  show ?case
  proof (cases "x = (snap, now)")
    case True
    have "g snap \<le> max m (g snap)" by simp
    also note fold_max_start
    finally show ?thesis using True by simp
  next
    case False
    with Cons show ?thesis by (simp add: case_prod_unfold)
  qed
qed simp

definition skipped_reason :: "evaluator \<Rightarrow> string" where "skipped_reason e = tl_SkippedReason (ev_tally e)"

lemma skipped_tally:
  "tl_SkippedReason (recordEngineCounters snap t) = tl_SkippedReason t"
  "tl_SkippedReason (recordErrorClasses snap t) = tl_SkippedReason t"
  "tl_SkippedReason (recordZeroWitnesses snap t) = tl_SkippedReason t"
  "tl_SkippedReason (record_peaks snap t) = tl_SkippedReason t"
  by (simp_all add: recordEngineCounters_def recordErrorClasses_def recordZeroWitnesses_def record_peaks_def Let_def)

lemma skipped_frame:
  "skipped_reason (first_sample snap now e) = skipped_reason e" "skipped_reason (attempt t e) = skipped_reason e"
  "skipped_reason (declare_ids snap e) = skipped_reason e"
  "skipped_reason (idle_bookkeeping snap now e) = skipped_reason e" "skipped_reason (record_mean snap e) = skipped_reason e"
  "skipped_reason (upd_ctx g e) = skipped_reason e"
  "skipped_reason (upd_tally (\<lambda>t. t\<lparr>tl_Samples := m t\<rparr>) e) = skipped_reason e"
  "skipped_reason (upd_tally (record_resources snap) e) = skipped_reason e"
  "skipped_reason (upd_tally (tl_PollErrors_update f) e) = skipped_reason e"
  "skipped_reason (upd_tally (\<lambda>t. recordEngineCounters snap (recordErrorClasses snap
      (recordZeroWitnesses snap (record_peaks snap t)))) e) = skipped_reason e"
  by (simp_all add: skipped_reason_def first_sample_def attempt_def upd_tally_def upd_ctx_def record_resources_def declare_ids_def
     idle_bookkeeping_def record_mean_def skipped_tally Let_def split: option.splits)

lemma skipped_eval: "skipped_reason (fst (eval_specs ss snap e)) = skipped_reason e"
  by (rule eval_specs_preserves)
     (simp_all add: skipped_reason_def evalSpec_def observeShadow_def upd_tally_def Let_def)

lemma skipped_run: "skipped_reason (fst (run_polls ps e)) = skipped_reason e"
proof (induction ps arbitrary: e)
  case (Cons p ps)
  then show ?case
    by (cases p) (simp_all add: run_polls_Sample Observe_def observe_prepare_def Let_def skipped_eval skipped_frame
       RecordPollError_def del: run_polls.simps(3))
qed simp

lemma run_polls_not_skipped: "tl_SkippedReason (ev_tally (fst (run_polls ps (NewEvaluator specs)))) = ''''"
  using skipped_run [of ps "NewEvaluator specs"] by (simp add: skipped_reason_def) (simp add: NewEvaluator_def zero_tally_def)

lemma witness_reported:
  assumes "slice_sort violation_key srt" and "c \<in> set cells" and "Tier1 c = Some t" and "ranPropertyLoop c"
    and "0 < mget (EngineZeroWitness t) k"
  shows "\<exists>v\<in>set (Gate srt cells soaks opts). v_Refapp v = Refapp c \<and> v_Engine v = Engine c \<and> v_Arch v = Arch c
     \<and> v_Field v = ''tier_1.'' @ k \<and> v_Value v = mget (EngineZeroWitness t) k"
proof -
  obtain w where "viol c (''tier_1.'' @ k) (mget (EngineZeroWitness t) k) w \<in> set (witness_checks c)"
    using assms(4,5) mget_pos_key [OF assms(5)] unfolding witness_checks_def assms(3)
    by (auto simp: Let_def sorted_keys_def)
  then have "viol c (''tier_1.'' @ k) (mget (EngineZeroWitness t) k) w \<in> set (Gate srt cells soaks opts)"
    using assms(2) unfolding Gate_set [OF assms(1)] gate_findings_def by auto
  then show ?thesis by (rule bexI [rotated]) (simp add: viol_def)
qed

text \<open>C9: A must-stay-zero counter that was positive in any sample of a cell reaches the gate. Whatever
  the later samples read, zero included, the tally keeps the highest reading, and the absolute
  gate reports the cell with the name of the counter and that reading.\<close>

theorem zero_witness_reaches_gate:
  fixes cfg :: loop_config and ticks :: "tick list" and crashReports :: "int option" and now :: gotime
    and room :: "nat \<Rightarrow> bool" and k :: string
  defines "T \<equiv> fst (runPropertyLoop cfg ticks crashReports now room)"
    and "peak \<equiv> fold (\<lambda>(snap, t) m. max m (sn_Engine snap k)) (samples (loop_polls cfg ticks crashReports now)) 0"
  assumes "lc_Specs cfg \<noteq> []" and "k \<in> set zero_witness_keys"
    and "(snap, t) \<in> set (samples (loop_polls cfg ticks crashReports now))" and "0 < sn_Engine snap k"
    and "slice_sort violation_key srt" and "cell_with_properties bits T w c0 \<in> set cells"
  shows "sn_Engine snap k \<le> peak
    \<and> (\<exists>v\<in>set (Gate srt cells soaks opts). v_Refapp v = Refapp c0 \<and> v_Engine v = Engine c0 \<and> v_Arch v = Arch c0
        \<and> v_Field v = ''tier_1.'' @ k \<and> v_Value v = peak)"
proof
  let ?ps = "loop_polls cfg ticks crashReports now"
  let ?e = "fst (run_polls ?ps (NewEvaluator (lc_Specs cfg)))"
  let ?c = "cell_with_properties bits T w c0"
  have T: "T = Tally ?e" by (simp add: T_def runPropertyLoop_polls)
  show le: "sn_Engine snap k \<le> peak" unfolding peak_def by (rule fold_max_ge [OF assms(5)])
  have "mget (zw (NewEvaluator (lc_Specs cfg))) k = 0" by (simp add: zw_def NewEvaluator_def zero_tally_def mget_def)
  then have z: "mget (EngineZeroWitness (Tier1Summary bits T w)) k = peak"
    using zw_run [OF assms(4), of ?ps "NewEvaluator (lc_Specs cfg)"]
    by (simp add: Tier1Summary_def T Tally_def Let_def zw_def peak_def)
  have "tl_Evaluations (ev_tally ?e) + tl_Skips (ev_tally ?e) = int (length (lc_Specs cfg)) * int (length (samples ?ps))"
    unfolding run_polls_evaluations by (simp add: new_frame) (simp add: NewEvaluator_def zero_tally_def)
  moreover have "0 < length (samples ?ps)" using assms(5) by (auto intro: length_pos_if_in_set)
  then have "0 < int (length (lc_Specs cfg)) * int (length (samples ?ps))" using assms(3) by simp
  moreover have "tl_SkippedReason (ev_tally ?e) = ''''" by (rule run_polls_not_skipped)
  ultimately have r: "ranPropertyLoop ?c"
    by (simp add: ranPropertyLoop_def cell_with_properties_def Tier1Summary_def T Tally_def Let_def) linarith
  have "Tier1 ?c = Some (Tier1Summary bits T w)" by (simp add: cell_with_properties_def)
  from witness_reported [OF assms(7,8) this r, of k] le assms(6)
  show "\<exists>v\<in>set (Gate srt cells soaks opts). v_Refapp v = Refapp c0 \<and> v_Engine v = Engine c0 \<and> v_Arch v = Arch c0
        \<and> v_Field v = ''tier_1.'' @ k \<and> v_Value v = peak"
    unfolding z by (simp add: cell_with_properties_def)
qed

section \<open>A concrete cell of the loop\<close>

definition w_cfg :: loop_config where
  "w_cfg = \<lparr>lc_PID = 7, lc_Specs = w_specs, lc_HardFail = False, lc_HasViolations = True\<rparr>"

definition w_tick :: tick where
  "w_tick = \<lparr>k_time = w_at 0, k_answer = Some [(''celeris.engine_recv_sq_full'', JNum 3)], k_cancelled = False, k_RSS = 0,
     k_IdleWindow = None, k_ExpectedPanics = None, k_RaceReports = None, k_Conformance = None, k_room = (\<lambda>_. True)\<rparr>"

definition w_bits :: "rat \<Rightarrow> float64" where "w_bits q = 0"

definition w_doc_cell :: "validation_cell" where
  "w_doc_cell = cell_with_properties w_bits (fst (runPropertyLoop w_cfg [w_tick] (Some 1) (w_at 1) (\<lambda>_. True)))
     zero_tier1 zero_cell"

lemma w_loop_ok: "distinct (map sp_ID (lc_Specs w_cfg))" "ICHECKPTR \<in> set (lc_Specs w_cfg)" "lc_Specs w_cfg \<noteq> []"
    "w_tick \<in> set [w_tick]" "k_answer w_tick \<noteq> None" "(0::int) < 1"
  using w_specs_ok by (auto simp: w_cfg_def w_tick_def)

lemma w_doc_mem: "cell_with_properties w_bits (fst (runPropertyLoop w_cfg [w_tick] (Some 1) (w_at 1) (\<lambda>_. True)))
     zero_tier1 zero_cell \<in> set [w_doc_cell]"
  by (simp add: w_doc_cell_def)

theorem violation_reaches_gate_witness:
  "declared_at (sp_Persist ICHECKPTR) (verdicts ICHECKPTR (loop_polls w_cfg [w_tick] (Some 1) (w_at 1))) \<noteq> []
   \<and> (\<exists>v\<in>set (Gate (sort_key violation_key) [w_doc_cell] [] sample_options). v_Field v = ''tier_1.property_violations'')"
proof -
  note d = crash_declared [OF w_loop_ok(4-6), of w_cfg "w_at 1"]
  from violation_reaches_gate [OF w_loop_ok(1,2) d violation_sort.slice_sort_axioms w_doc_mem, of "[]" sample_options] d
  show ?thesis by blast
qed

theorem checkptr_crash_fails_gate_witness:
  "k_answer w_tick \<noteq> None
   \<and> (\<exists>v\<in>set (Gate (sort_key violation_key) [w_doc_cell] [] sample_options). v_Field v = ''tier_1.property_violations'')"
  using checkptr_crash_fails_gate [OF w_loop_ok(1,2,4-6) violation_sort.slice_sort_axioms w_doc_mem, of "[]" sample_options]
    w_loop_ok(5) by blast

lemma declare_if_engine: "sn_Engine (declare_if b ids s) = sn_Engine s"
  by (simp add: declare_if_def)

lemma upd_opt_engine:
  "sn_Engine (upd_opt v sn_IdleWindow_update s) = sn_Engine s" "sn_Engine (upd_opt v sn_ExpectedPanics_update s) = sn_Engine s"
  "sn_Engine (upd_opt v sn_RaceReports_update s) = sn_Engine s"
  by (simp_all add: upd_opt_def split: option.splits)

lemma base_engine: "sn_Engine (base_snapshot cfg k s) = sn_Engine s"
  by (simp add: base_snapshot_def Let_def declare_if_engine upd_opt_engine)

lemma parse_debug_engine: "sn_Engine (ParseDebugVars doc s) = parse_engine doc"
proof -
  have "sn_Engine (parse_memstats doc s) = sn_Engine s" for s
    by (simp add: parse_memstats_def split: option.splits json.splits)
  then show ?thesis by (simp add: ParseDebugVars_def Let_def)
qed

lemma w_samples: "\<exists>snap t. (snap, t) \<in> set (samples (loop_polls w_cfg [w_tick] (Some 1) (w_at 1)))
     \<and> sn_Engine snap ''engine_recv_sq_full'' = 3"
proof -
  let ?s = "base_snapshot w_cfg w_tick (ParseDebugVars [(''celeris.engine_recv_sq_full'', JNum 3)] (zero_snapshot\<lparr>sn_TS := time_Unix (w_at 0)\<rparr>))"
  have "(?s, w_at 0) \<in> set (samples (loop_polls w_cfg [w_tick] (Some 1) (w_at 1)))"
    by (simp add: loop_polls_def tick_polls_def Poll_def w_tick_def conform_def)
  moreover have "sn_Engine ?s ''engine_recv_sq_full'' = 3"
    unfolding base_engine parse_debug_engine by code_simp
  ultimately show ?thesis by blast
qed

theorem zero_witness_reaches_gate_witness:
  "\<exists>snap t. (snap, t) \<in> set (samples (loop_polls w_cfg [w_tick] (Some 1) (w_at 1)))
     \<and> 0 < sn_Engine snap ''engine_recv_sq_full''
     \<and> (\<exists>v\<in>set (Gate (sort_key violation_key) [w_doc_cell] [] sample_options). v_Field v = ''tier_1.engine_recv_sq_full'')"
proof -
  obtain snap t where s: "(snap, t) \<in> set (samples (loop_polls w_cfg [w_tick] (Some 1) (w_at 1)))"
      and e: "sn_Engine snap ''engine_recv_sq_full'' = 3" using w_samples by blast
  have k: "''engine_recv_sq_full'' \<in> set zero_witness_keys" by (simp add: zero_witness_keys_def)
  have p: "0 < sn_Engine snap ''engine_recv_sq_full''" by (simp add: e)
  from zero_witness_reaches_gate [OF w_loop_ok(3) k s p violation_sort.slice_sort_axioms w_doc_mem, of "[]" sample_options]
  have "\<exists>v\<in>set (Gate (sort_key violation_key) [w_doc_cell] [] sample_options). v_Field v = ''tier_1.engine_recv_sq_full''"
    by auto
  with s p show ?thesis by blast
qed

end
