(* ===== verification/RfcScrape.thy ===== *)
theory RfcScrape
  imports PropertyLoop
begin

text \<open>
  The response-conformance slice, \<open>src/validation/rfc_scrape.go\<close>: a parser for one HTTP/1 response
  off a raw socket that counts every framing rule the response breaks. Its counts are the input of
  I-RFC-1 and I-RFC-2.

  The connection is the string of the bytes it delivers before it ends; a reset and an orderly close
  are alike for the parser. The atomic counters are the fields of a record. \<open>make([]byte, n)\<close> panics
  on a negative or absurd length, and a panic of the walker's goroutine ends the validator, so the
  result of a scrape is a tally or a crash.

  The lemmas: a response framed by \<open>Content-Length\<close> is judged exactly, whatever its length claims; a
  chunked response is clean exactly when its terminator arrives; a broken response fails I-RFC-1 or
  I-RFC-2 on the next sample; and two ways in which the parser is wrong about a response.
\<close>


section \<open>The tally\<close>

record rfc_tally =
  rt_exchanges :: int
  rt_dialFail :: int
  rt_readFail :: int
  rt_headProbes :: int
  rt_conditionals :: int
  rt_saw204 :: int
  rt_saw304 :: int
  rt_sawChunked :: int
  rt_badFraming :: int
  rt_headWithBody :: int
  rt_body204 :: int
  rt_body304 :: int
  rt_missingChunkEnd :: int
  rt_crlfInHeader :: int
  rt_nulInHeader :: int

definition zero_rfc :: rfc_tally where
  "zero_rfc = \<lparr>rt_exchanges = 0, rt_dialFail = 0, rt_readFail = 0, rt_headProbes = 0, rt_conditionals = 0,
     rt_saw204 = 0, rt_saw304 = 0, rt_sawChunked = 0, rt_badFraming = 0, rt_headWithBody = 0, rt_body204 = 0,
     rt_body304 = 0, rt_missingChunkEnd = 0, rt_crlfInHeader = 0, rt_nulInHeader = 0\<rparr>"

definition rfc_counters :: "rfc_tally \<Rightarrow> response_counters" where
  "rfc_counters t = \<lparr>rc_Exchanges = rt_exchanges t, rc_BadFraming = rt_badFraming t, rc_HeadWithBody = rt_headWithBody t,
     rc_Body204 = rt_body204 t, rc_Body304 = rt_body304 t, rc_MissingChunkEnd = rt_missingChunkEnd t,
     rc_CRLFInHeader = rt_crlfInHeader t, rc_NULInHeader = rt_nulInHeader t\<rparr>"

definition rfcMaxBody :: int where "rfcMaxBody = 1048576"


section \<open>Lines\<close>

definition LF :: char where "LF = CHR 0x0A"
definition CR :: char where "CR = CHR 0x0D"

text \<open>\<open>ReadString('\n')\<close> followed by \<open>TrimRight(line, "\r\n")\<close>: the line without its ending and the rest.\<close>

definition read_line :: "string \<Rightarrow> (string \<times> string) option" where
  "read_line s =
     (if LF \<in> set s
      then Some (rev (dropWhile (\<lambda>c. c = CR \<or> c = LF) (rev (takeWhile (\<lambda>c. c \<noteq> LF) s))), tl (dropWhile (\<lambda>c. c \<noteq> LF) s))
      else None)"

lemma read_line_shorter: "read_line s = Some (l, r) \<Longrightarrow> length r < length s"
proof -
  assume "read_line s = Some (l, r)"
  then have "LF \<in> set s" "r = tl (dropWhile (\<lambda>c. c \<noteq> LF) s)" by (auto simp: read_line_def split: if_splits)
  then have "dropWhile (\<lambda>c. c \<noteq> LF) s \<noteq> []" "length (dropWhile (\<lambda>c. c \<noteq> LF) s) \<le> length s"
    by (auto simp: dropWhile_eq_Nil_conv length_dropWhile_le)
  with \<open>r = _\<close> show ?thesis by (cases "dropWhile (\<lambda>c. c \<noteq> LF) s") auto
qed

text \<open>\<open>strings.Cut\<close> at a character.\<close>

definition cut_at :: "char \<Rightarrow> string \<Rightarrow> string \<times> string \<times> bool" where
  "cut_at c s = (takeWhile (\<lambda>d. d \<noteq> c) s, tl (dropWhile (\<lambda>d. d \<noteq> c) s), c \<in> set s)"

text \<open>\<open>strconv.ParseInt(s, 16, 64)\<close>.\<close>

definition hex_digit :: "char \<Rightarrow> int option" where
  "hex_digit c =
     (let n = (of_char c :: int)
      in if 48 \<le> n \<and> n \<le> 57 then Some (n - 48)
         else if 97 \<le> n \<and> n \<le> 102 then Some (n - 87)
         else if 65 \<le> n \<and> n \<le> 70 then Some (n - 55) else None)"

definition parse_hex :: "string \<Rightarrow> int option" where
  "parse_hex s =
     (let neg = has_prefix s ''-'';
          ds = (if neg \<or> has_prefix s ''+'' then tl s else s);
          m = foldl (\<lambda>v c. 16 * v + the (hex_digit c)) 0 ds;
          v = (if neg then - m else m)
      in if ds \<noteq> [] \<and> list_all (\<lambda>c. hex_digit c \<noteq> None) ds \<and> in_int64 v then Some v else None)"


section \<open>The parser\<close>

definition readRFCStatusLine :: "string \<Rightarrow> (int \<times> string) option" where
  "readRFCStatusLine s =
     (case read_line s of
        None \<Rightarrow> None
      | Some (raw, rest) \<Rightarrow>
          if \<not> has_prefix raw ''HTTP/1.'' then None
          else case splitN 3 (CHR '' '') raw of
                 a # code # _ \<Rightarrow> (case atoi code of None \<Rightarrow> None | Some n \<Rightarrow> Some (n, rest))
               | _ \<Rightarrow> None)"

definition scoreRFCHeaderLine :: "string \<Rightarrow> rfc_tally \<Rightarrow> rfc_tally" where
  "scoreRFCHeaderLine raw t =
     (if CHR 0x00 \<in> set raw then t\<lparr>rt_nulInHeader := rt_nulInHeader t + 1\<rparr>
      else if raw \<noteq> [] \<and> (hd raw = CHR '' '' \<or> hd raw = CHR 0x09) then t\<lparr>rt_crlfInHeader := rt_crlfInHeader t + 1\<rparr>
      else if CHR '':'' \<notin> set raw then t\<lparr>rt_crlfInHeader := rt_crlfInHeader t + 1\<rparr>
      else t)"

record framing =
  fr_contentLength :: int
  fr_sawCL :: bool
  fr_chunked :: bool

definition no_framing :: framing where
  "no_framing = \<lparr>fr_contentLength = - 1, fr_sawCL = False, fr_chunked = False\<rparr>"

definition header_framing :: "string \<Rightarrow> framing \<Rightarrow> framing" where
  "header_framing raw f =
     (let (name, value, found) = cut_at (CHR '':'') raw; key = to_lower (trim_space name)
      in if \<not> found then f
         else if key = ''content-length''
         then (case atoi (trim_space value) of Some n \<Rightarrow> f\<lparr>fr_contentLength := n, fr_sawCL := True\<rparr> | None \<Rightarrow> f)
         else if key = ''transfer-encoding''
         then (if contains (to_lower value) ''chunked'' then f\<lparr>fr_chunked := True\<rparr> else f)
         else f)"

text \<open>The header block: the tally, the framing and the rest, or the tally of a block cut short.\<close>

function read_headers :: "string \<Rightarrow> framing \<Rightarrow> rfc_tally \<Rightarrow> rfc_tally \<times> (framing \<times> string) option" where
  "read_headers s f t =
     (case read_line s of
        None \<Rightarrow> (t\<lparr>rt_readFail := rt_readFail t + 1\<rparr>, None)
      | Some (raw, rest) \<Rightarrow>
          if raw = [] then (t, Some (f, rest))
          else read_headers rest (header_framing raw f) (scoreRFCHeaderLine raw t))"
  by pat_completeness auto
termination
  by (relation "measure (\<lambda>(s, f, t). length s)") (auto dest: read_line_shorter)

declare read_headers.simps [simp del]

text \<open>\<open>make([]byte, n)\<close> panics when \<open>n\<close> is negative or beyond the address space.\<close>

definition make_panics :: "int \<Rightarrow> bool" where
  "make_panics n \<longleftrightarrow> n < 0 \<or> 2 ^ 48 < n"

text \<open>The chunked body: \<open>None\<close> is the panic.\<close>

function read_chunks :: "int \<Rightarrow> string \<Rightarrow> (int \<times> bool) option" where
  "read_chunks got s =
     (case read_line s of
        None \<Rightarrow> Some (got, False)
      | Some (line, rest) \<Rightarrow>
          (case parse_hex (trim_space (fst (cut_at (CHR '';'') line))) of
             None \<Rightarrow> Some (got, False)
           | Some n \<Rightarrow>
               if n = 0 then Some (got, True)
               else if wrap64 (got + n) > rfcMaxBody then Some (got, True)
               else if make_panics n then None
               else if int (length rest) < n then Some (got, False)
               else (case read_line (drop (nat n) rest) of
                       None \<Rightarrow> Some (got + n, False)
                     | Some (_, rest') \<Rightarrow> read_chunks (got + n) rest')))"
  by pat_completeness auto
termination
  by (relation "measure (\<lambda>(got, s). length s)") (auto dest!: read_line_shorter)

declare read_chunks.simps [simp del]

definition readRFCBody :: "string \<Rightarrow> bool \<Rightarrow> int \<Rightarrow> (int \<times> bool) option" where
  "readRFCBody s chunked contentLength =
     (if chunked then read_chunks 0 s
      else let limit = (if contentLength \<ge> 0 \<and> contentLength < rfcMaxBody then contentLength + 1 else rfcMaxBody)
           in Some (min (int (length s)) limit, True))"

datatype scraped = Scored rfc_tally | Crashed

definition score_framing :: "framing \<Rightarrow> int \<Rightarrow> rfc_tally \<Rightarrow> rfc_tally" where
  "score_framing f status t =
     (let t = (if fr_sawCL f \<and> fr_chunked f then t\<lparr>rt_badFraming := rt_badFraming t + 1\<rparr> else t);
          t = (if fr_chunked f then t\<lparr>rt_sawChunked := rt_sawChunked t + 1\<rparr> else t)
      in if status = 204 then t\<lparr>rt_saw204 := rt_saw204 t + 1\<rparr>
         else if status = 304 then t\<lparr>rt_saw304 := rt_saw304 t + 1\<rparr>
         else t)"

definition score_body :: "string \<Rightarrow> int \<Rightarrow> framing \<Rightarrow> int \<Rightarrow> bool \<Rightarrow> rfc_tally \<Rightarrow> rfc_tally" where
  "score_body httpMethod status f body terminated t =
     (let t = (if httpMethod = ''HEAD'' \<and> body > 0 then t\<lparr>rt_headWithBody := rt_headWithBody t + 1\<rparr>
               else if status = 204 \<and> body > 0 then t\<lparr>rt_body204 := rt_body204 t + 1\<rparr>
               else if status = 304 \<and> body > 0 then t\<lparr>rt_body304 := rt_body304 t + 1\<rparr>
               else t);
          t = (if fr_sawCL f \<and> \<not> fr_chunked f \<and> httpMethod \<noteq> ''HEAD'' \<and> status \<noteq> 204 \<and> status \<noteq> 304 \<and> body \<noteq> fr_contentLength f
               then t\<lparr>rt_badFraming := rt_badFraming t + 1\<rparr> else t)
      in if fr_chunked f \<and> \<not> terminated then t\<lparr>rt_missingChunkEnd := rt_missingChunkEnd t + 1\<rparr> else t)"

definition scrapeRFCResponse :: "string \<Rightarrow> string \<Rightarrow> rfc_tally \<Rightarrow> scraped" where
  "scrapeRFCResponse s httpMethod t0 =
     (case readRFCStatusLine s of
        None \<Rightarrow> Scored (t0\<lparr>rt_readFail := rt_readFail t0 + 1\<rparr>)
      | Some (status, rest) \<Rightarrow>
          (case read_headers rest no_framing (t0\<lparr>rt_exchanges := rt_exchanges t0 + 1\<rparr>) of
             (t, None) \<Rightarrow> Scored t
           | (t, Some (f, rest)) \<Rightarrow>
               (case readRFCBody rest (fr_chunked f) (fr_contentLength f) of
                  None \<Rightarrow> Crashed
                | Some (body, terminated) \<Rightarrow>
                    Scored (score_body httpMethod status f body terminated (score_framing f status t)))))"


section \<open>The probe\<close>

record rfc_probe =
  pr_method :: string
  pr_conditional :: bool

definition rfcProbes :: "rfc_probe list" where
  "rfcProbes = [\<lparr>pr_method = ''GET'', pr_conditional = False\<rparr>, \<lparr>pr_method = ''HEAD'', pr_conditional = False\<rparr>,
     \<lparr>pr_method = ''GET'', pr_conditional = True\<rparr>]"

text \<open>What the connection answers: no connection, a failed write, or the bytes of the response.\<close>

datatype wire = DialFailed | WriteFailed | Answer string

definition probe_request :: "string \<Rightarrow> string \<Rightarrow> rfc_probe \<Rightarrow> string" where
  "probe_request hostPort path p =
     pr_method p @ '' '' @ path @ '' HTTP/1.1'' @ [CR, LF] @ ''Host: '' @ hostPort @ [CR, LF]
       @ (if pr_conditional p then ''If-None-Match: *'' @ [CR, LF] else [])
       @ ''Connection: close'' @ [CR, LF, CR, LF]"

definition fireRFCProbe :: "(string \<Rightarrow> wire) \<Rightarrow> string \<Rightarrow> string \<Rightarrow> rfc_probe \<Rightarrow> rfc_tally \<Rightarrow> scraped" where
  "fireRFCProbe net hostPort path p t =
     (case net (probe_request hostPort path p) of
        DialFailed \<Rightarrow> Scored (t\<lparr>rt_dialFail := rt_dialFail t + 1\<rparr>)
      | w \<Rightarrow>
          (let t = (if pr_conditional p then t\<lparr>rt_conditionals := rt_conditionals t + 1\<rparr> else t);
               t = (if pr_method p = ''HEAD'' then t\<lparr>rt_headProbes := rt_headProbes t + 1\<rparr> else t)
           in case w of Answer s \<Rightarrow> scrapeRFCResponse s (pr_method p) t
              | _ \<Rightarrow> Scored (t\<lparr>rt_readFail := rt_readFail t + 1\<rparr>)))"

section \<open>Responses as text\<close>

definition http_line :: "string \<Rightarrow> string" where "http_line l = l @ [CR, LF]"

definition line_text :: "string \<Rightarrow> bool" where
  "line_text l \<longleftrightarrow> CR \<notin> set l \<and> LF \<notin> set l"

definition field_line :: "string \<Rightarrow> bool" where
  "field_line l \<longleftrightarrow> line_text l \<and> CHR 0x00 \<notin> set l \<and> CHR '':'' \<in> set l \<and> hd l \<noteq> CHR '' '' \<and> hd l \<noteq> CHR 0x09"

definition response :: "nat \<Rightarrow> string \<Rightarrow> string list \<Rightarrow> string \<Rightarrow> string" where
  "response status reason hdrs body =
     http_line (''HTTP/1.1 '' @ itoa (int status) @ '' '' @ reason) @ concat (map http_line hdrs) @ http_line [] @ body"

definition framing_of :: "string list \<Rightarrow> framing" where
  "framing_of hdrs = fold header_framing hdrs no_framing"

lemma read_line_http: "line_text l \<Longrightarrow> read_line (http_line l @ r) = Some (l, r)"
proof -
  assume l: "line_text l"
  have ne: "CR \<noteq> LF" by (simp add: CR_def LF_def)
  have "takeWhile (\<lambda>c. c \<noteq> LF) (l @ CR # LF # r) = l @ [CR]" "dropWhile (\<lambda>c. c \<noteq> LF) (l @ CR # LF # r) = LF # r"
    using l ne unfolding line_text_def by (simp_all add: takeWhile_append dropWhile_append)
  moreover have "dropWhile (\<lambda>c. c = CR \<or> c = LF) (rev l) = rev l"
    using l unfolding line_text_def by (cases "rev l") (auto dest: arg_cong [of _ _ set])
  ultimately show ?thesis by (simp add: read_line_def http_line_def)
qed

lemma read_headers_fields:
  assumes "\<forall>l\<in>set hdrs. field_line l"
  shows "read_headers (concat (map http_line hdrs) @ http_line [] @ rest) f t = (t, Some (fold header_framing hdrs f, rest))"
  using assms
proof (induction hdrs arbitrary: f)
  case Nil
  show ?case by (subst read_headers.simps) (simp add: read_line_http line_text_def)
next
  case (Cons l hdrs)
  have l: "field_line l" using Cons.prems by simp
  then have "l \<noteq> []" by (auto simp: field_line_def)
  moreover have "scoreRFCHeaderLine l t = t" using l by (simp add: field_line_def scoreRFCHeaderLine_def)
  moreover have "read_line (http_line l @ x) = Some (l, x)" for x using l by (simp add: field_line_def read_line_http)
  ultimately show ?case using Cons by (subst read_headers.simps) simp
qed

lemma readRFCStatusLine_response:
  assumes "in_int64 (int status)" and "line_text reason"
  shows "readRFCStatusLine (http_line (''HTTP/1.1 '' @ itoa (int status) @ '' '' @ reason) @ rest) = Some (int status, rest)"
proof -
  let ?l = "''HTTP/1.1 '' @ itoa (int status) @ '' '' @ reason"
  have i: "c \<notin> set (itoa (int status))" if "\<not> is_digit c" "c \<noteq> CHR ''-''" for c
    using that itoa_chars [of c "int status"] is_digit_digit by auto
  have nd: "\<not> is_digit (CHR '' '')" "\<not> is_digit CR" "\<not> is_digit LF" by (simp_all add: is_digit_def CR_def LF_def)
  then have sp: "CHR '' '' \<notin> set (itoa (int status))" "CR \<notin> set (itoa (int status))" "LF \<notin> set (itoa (int status))"
    by (auto simp: i CR_def LF_def)
  have "line_text ?l" using assms(2) sp by (auto simp: line_text_def CR_def LF_def)
  then have r: "read_line (http_line ?l @ rest) = Some (?l, rest)" by (rule read_line_http)
  have tw: "takeWhile (\<lambda>c. c \<noteq> CHR '' '') (itoa (int status) @ CHR '' '' # reason) = itoa (int status)"
    "dropWhile (\<lambda>c. c \<noteq> CHR '' '') (itoa (int status) @ CHR '' '' # reason) = CHR '' '' # reason"
    using sp(1) by (simp_all add: takeWhile_append dropWhile_append)
  have "splitN 3 (CHR '' '') ?l = [''HTTP/1.1'', itoa (int status), reason]"
    using tw by (simp add: numeral_3_eq_3)
  moreover have "has_prefix ?l ''HTTP/1.''" by (simp add: has_prefix_def)
  ultimately show ?thesis unfolding readRFCStatusLine_def r by (simp add: atoi_itoa [OF assms(1)])
qed

text \<open>A response whose fields are well formed scores what its framing and its body say.\<close>

lemma scrape_response:
  assumes "in_int64 (int status)" and "line_text reason" and "\<forall>l\<in>set hdrs. field_line l"
  shows "scrapeRFCResponse (response status reason hdrs body) m t =
    (case readRFCBody body (fr_chunked (framing_of hdrs)) (fr_contentLength (framing_of hdrs)) of
       None \<Rightarrow> Crashed
     | Some (b, terminated) \<Rightarrow> Scored (score_body m (int status) (framing_of hdrs) b terminated
         (score_framing (framing_of hdrs) (int status) (t\<lparr>rt_exchanges := rt_exchanges t + 1\<rparr>))))"
  unfolding scrapeRFCResponse_def response_def readRFCStatusLine_response [OF assms(1,2)]
  by (simp add: read_headers_fields [OF assms(3)] framing_of_def split: option.split prod.split)

definition violations :: "rfc_tally \<Rightarrow> int list" where
  "violations t = [rt_badFraming t, rt_headWithBody t, rt_body204 t, rt_body304 t, rt_missingChunkEnd t,
     rt_crlfInHeader t, rt_nulInHeader t]"

definition flag :: "bool \<Rightarrow> int" where "flag b = (if b then 1 else 0)"

text \<open>The reads of a body framed by its length: one byte past the declared length is enough to tell.\<close>

lemma length_body_read:
  assumes "fr_sawCL f" and "\<not> fr_chunked f" and "0 \<le> fr_contentLength f" and "fr_contentLength f < rfcMaxBody"
  obtains b where "readRFCBody body (fr_chunked f) (fr_contentLength f) = Some (b, True)"
    and "b > 0 \<longleftrightarrow> body \<noteq> []" and "b = fr_contentLength f \<longleftrightarrow> int (length body) = fr_contentLength f"
  using assms by (intro that [of "min (int (length body)) (fr_contentLength f + 1)"]) (auto simp: readRFCBody_def Let_def)

text \<open>C12: A response framed by its length is judged exactly. For a well-formed response with a
  \<open>Content-Length\<close> below the read cap and no chunked coding, whatever bytes follow the header block
  until the connection ends: a framing violation is counted exactly when the body is shorter or
  longer than declared (HEAD, 204 and 304 aside), a forbidden body exactly when a byte follows the
  header of a HEAD, 204 or 304 response, and no other violation is counted.\<close>

theorem content_length_exact:
  assumes "in_int64 (int status)" and "line_text reason" and "\<forall>l\<in>set hdrs. field_line l"
    and "fr_sawCL (framing_of hdrs)" and "\<not> fr_chunked (framing_of hdrs)"
    and "0 \<le> fr_contentLength (framing_of hdrs)" and "fr_contentLength (framing_of hdrs) < rfcMaxBody"
  shows "scrapeRFCResponse (response status reason hdrs body) m t = Scored (t\<lparr>
      rt_exchanges := rt_exchanges t + 1,
      rt_saw204 := rt_saw204 t + flag (status = 204), rt_saw304 := rt_saw304 t + flag (status = 304),
      rt_badFraming := rt_badFraming t
        + flag (m \<noteq> ''HEAD'' \<and> status \<noteq> 204 \<and> status \<noteq> 304 \<and> int (length body) \<noteq> fr_contentLength (framing_of hdrs)),
      rt_headWithBody := rt_headWithBody t + flag (m = ''HEAD'' \<and> body \<noteq> []),
      rt_body204 := rt_body204 t + flag (m \<noteq> ''HEAD'' \<and> status = 204 \<and> body \<noteq> []),
      rt_body304 := rt_body304 t + flag (m \<noteq> ''HEAD'' \<and> status = 304 \<and> body \<noteq> [])\<rparr>)"
proof -
  have st: "int status = 204 \<longleftrightarrow> status = 204" "int status = 304 \<longleftrightarrow> status = 304" by auto
  obtain b where "readRFCBody body (fr_chunked (framing_of hdrs)) (fr_contentLength (framing_of hdrs)) = Some (b, True)"
    and "b > 0 \<longleftrightarrow> body \<noteq> []"
    and "b = fr_contentLength (framing_of hdrs) \<longleftrightarrow> int (length body) = fr_contentLength (framing_of hdrs)"
    by (rule length_body_read [OF assms(4-7), of body])
  then show ?thesis using assms(4,5)
    by (simp add: scrape_response [OF assms(1-3)] score_body_def score_framing_def Let_def flag_def st)
qed


section \<open>Chunked responses\<close>

definition chunk_size :: "string \<Rightarrow> int option" where
  "chunk_size h = parse_hex (trim_space (fst (cut_at (CHR '';'') h)))"

definition chunk_ok :: "string \<times> string \<Rightarrow> bool" where
  "chunk_ok c \<longleftrightarrow> line_text (fst c) \<and> chunk_size (fst c) = Some (int (length (snd c))) \<and> snd c \<noteq> []"

definition chunk_text :: "string \<times> string \<Rightarrow> string" where
  "chunk_text c = http_line (fst c) @ snd c @ [CR, LF]"

definition chunks_text :: "(string \<times> string) list \<Rightarrow> string" where
  "chunks_text cs = concat (map chunk_text cs)"

definition payload :: "(string \<times> string) list \<Rightarrow> int" where
  "payload cs = (\<Sum>c\<leftarrow>cs. int (length (snd c)))"

lemma read_line_cut: "LF \<notin> set s \<Longrightarrow> read_line s = None"
  by (simp add: read_line_def)

lemma read_line_crlf: "read_line (CR # LF # r) = Some ([], r)"
  using read_line_http [of "[]" r] by (simp add: http_line_def line_text_def)

lemma take_http_line_cut: "line_text l \<Longrightarrow> n < length (http_line l) \<Longrightarrow> LF \<notin> set (take n (http_line l))"
  by (auto simp: http_line_def line_text_def take_Cons' CR_def LF_def dest: in_set_takeD)

lemma no_wrap: "0 \<le> a \<Longrightarrow> a \<le> rfcMaxBody \<Longrightarrow> wrap64 a = a"
  by (rule wrap64_id) (simp add: in_int64_def rfcMaxBody_def)

lemma read_chunks_step:
  assumes "chunk_ok c" and "0 \<le> got" and "got + int (length (snd c)) \<le> rfcMaxBody"
  shows "read_chunks got (chunk_text c @ s) = read_chunks (got + int (length (snd c))) s"
    and "n < length (chunk_text c) \<Longrightarrow> \<exists>b. read_chunks got (take n (chunk_text c)) = Some (b, False) \<and> 0 \<le> b"
proof -
  have c: "line_text (fst c)" "parse_hex (trim_space (fst (cut_at (CHR '';'') (fst c)))) = Some (int (length (snd c)))"
    "snd c \<noteq> []" using assms(1) by (auto simp: chunk_ok_def chunk_size_def)
  have w: "wrap64 (got + int (length (snd c))) = got + int (length (snd c))" using assms(2,3) by (intro no_wrap) auto
  have mp: "\<not> make_panics (int (length (snd c)))" using assms(2,3) by (simp add: make_panics_def rfcMaxBody_def)
  have r: "read_line (http_line (fst c) @ x) = Some (fst c, x)" for x using c(1) by (rule read_line_http)
  note step = read_chunks.simps [of got]
  show "read_chunks got (chunk_text c @ s) = read_chunks (got + int (length (snd c))) s"
    using c assms(3) w mp by (subst step) (simp add: chunk_text_def r read_line_crlf)
  assume n: "n < length (chunk_text c)"
  show "\<exists>b. read_chunks got (take n (chunk_text c)) = Some (b, False) \<and> 0 \<le> b"
  proof (cases "n < length (http_line (fst c))")
    case True
    then have "read_line (take n (chunk_text c)) = None"
      using take_http_line_cut [OF c(1) True] by (simp add: chunk_text_def read_line_cut)
    then show ?thesis using assms(2) by (subst step) simp
  next
    case False
    define k where "k = n - length (http_line (fst c))"
    have t: "take n (chunk_text c) = http_line (fst c) @ take k (snd c @ [CR, LF])"
      using False by (simp add: chunk_text_def k_def)
    have k: "k < length (snd c) + 2" using n False by (simp add: chunk_text_def k_def http_line_def)
    show ?thesis
    proof (cases "k < length (snd c)")
      case True
      then show ?thesis unfolding t using c assms(2,3) w mp by (subst step) (simp add: r)
    next
      case False
      then have "LF \<notin> set (take (k - length (snd c)) [CR, LF])" using k by (auto simp: take_Cons' CR_def LF_def)
      then show ?thesis unfolding t using c assms(2,3) w mp False by (subst step) (simp add: r read_line_cut)
    qed
  qed
qed

lemma read_chunks_cut:
  assumes "\<forall>c\<in>set cs. chunk_ok c" and "line_text z" and "chunk_size z = Some 0"
    and "0 \<le> got" and "got + payload cs \<le> rfcMaxBody"
  shows "\<exists>b. read_chunks got (take n (chunks_text cs @ http_line z @ tr))
    = Some (b, length (chunks_text cs @ http_line z) \<le> n)"
  using assms
proof (induction cs arbitrary: got n)
  case Nil
  show ?case
  proof (cases "n < length (http_line z)")
    case True
    with take_http_line_cut [OF Nil.prems(2)] show ?thesis
      by (subst read_chunks.simps) (simp add: chunks_text_def read_line_cut)
  next
    case False
    with Nil.prems(2,3) show ?thesis
      by (subst read_chunks.simps) (simp add: chunks_text_def read_line_http chunk_size_def)
  qed
next
  case (Cons c cs)
  have p: "0 \<le> payload cs" by (auto simp: payload_def intro!: sum_list_nonneg)
  have c: "chunk_ok c" "0 \<le> got" "got + int (length (snd c)) \<le> rfcMaxBody"
    using Cons.prems p by (auto simp: payload_def)
  show ?case
  proof (cases "n < length (chunk_text c)")
    case True
    with read_chunks_step(2) [OF c True] show ?thesis by (auto simp: chunks_text_def)
  next
    case False
    have "got + int (length (snd c)) + payload cs \<le> rfcMaxBody" using Cons.prems(5) by (simp add: payload_def)
    with Cons.IH [of "got + int (length (snd c))" "n - length (chunk_text c)"] Cons.prems False show ?thesis
      by (simp add: chunks_text_def read_chunks_step(1) [OF c] le_diff_conv2 add.commute)
  qed
qed

text \<open>C13: A chunked response is clean exactly when its terminator arrives. Whatever well-formed chunks a
  response sends below the cap, and wherever the connection is cut, inside a size line, a chunk, its
  line ending or after the end: the missing terminator is counted exactly when the line of the last
  chunk did not arrive whole; and a length beside the chunked coding is one framing violation.\<close>

theorem chunked_exact:
  assumes "in_int64 (int status)" and "line_text reason" and "\<forall>l\<in>set hdrs. field_line l"
    and "fr_chunked (framing_of hdrs)" and "m \<noteq> ''HEAD''" and "status \<noteq> 204" and "status \<noteq> 304"
    and "\<forall>c\<in>set cs. chunk_ok c" and "line_text z" and "chunk_size z = Some 0" and "payload cs \<le> rfcMaxBody"
  shows "scrapeRFCResponse (response status reason hdrs (take n (chunks_text cs @ http_line z @ tr))) m t = Scored (t\<lparr>
      rt_exchanges := rt_exchanges t + 1, rt_sawChunked := rt_sawChunked t + 1,
      rt_badFraming := rt_badFraming t + flag (fr_sawCL (framing_of hdrs)),
      rt_missingChunkEnd := rt_missingChunkEnd t + flag (n < length (chunks_text cs @ http_line z))\<rparr>)"
proof -
  have st: "int status \<noteq> 204" "int status \<noteq> 304" using assms(6,7) by auto
  obtain b where "read_chunks 0 (take n (chunks_text cs @ http_line z @ tr))
      = Some (b, length (chunks_text cs @ http_line z) \<le> n)"
    using read_chunks_cut [OF assms(8-10), of 0 n tr] assms(11) by auto
  then show ?thesis using assms(4,5) st
    by (simp add: scrape_response [OF assms(1-3)] readRFCBody_def score_body_def score_framing_def Let_def flag_def not_le)
qed


section \<open>The walker\<close>

text \<open>A tick of the walker: the index the generator drew and what the network did.\<close>

fun runRFCConformanceWalker :: "string \<Rightarrow> string \<Rightarrow> (nat \<times> (string \<Rightarrow> wire)) list \<Rightarrow> rfc_tally \<Rightarrow> scraped" where
  "runRFCConformanceWalker hostPort path [] t = Scored t"
| "runRFCConformanceWalker hostPort path ((i, net) # es) t =
     (case fireRFCProbe net hostPort path (rfcProbes ! (i mod length rfcProbes)) t of
        Crashed \<Rightarrow> Crashed
      | Scored t \<Rightarrow> runRFCConformanceWalker hostPort path es t)"

text \<open>Counters only grow.\<close>

definition grows :: "rfc_tally \<Rightarrow> rfc_tally \<Rightarrow> bool" where
  "grows t t' \<longleftrightarrow> list_all2 (\<le>) (violations t) (violations t')"

lemma grows_refl [simp]: "grows t t"
  by (simp add: grows_def violations_def)

lemma grows_trans: "grows t u \<Longrightarrow> grows u v \<Longrightarrow> grows t v"
  unfolding grows_def by (rule list_all2_trans [of "(\<le>)" "(\<le>)" "(\<le>)"]) auto

lemma grows_step:
  "grows t (t\<lparr>rt_badFraming := rt_badFraming t + 1\<rparr>)" "grows t (t\<lparr>rt_headWithBody := rt_headWithBody t + 1\<rparr>)"
  "grows t (t\<lparr>rt_body204 := rt_body204 t + 1\<rparr>)" "grows t (t\<lparr>rt_body304 := rt_body304 t + 1\<rparr>)"
  "grows t (t\<lparr>rt_missingChunkEnd := rt_missingChunkEnd t + 1\<rparr>)" "grows t (t\<lparr>rt_crlfInHeader := rt_crlfInHeader t + 1\<rparr>)"
  "grows t (t\<lparr>rt_nulInHeader := rt_nulInHeader t + 1\<rparr>)" "grows t (t\<lparr>rt_sawChunked := a\<rparr>)" "grows t (t\<lparr>rt_saw204 := a\<rparr>)"
  "grows t (t\<lparr>rt_saw304 := a\<rparr>)"
  by (simp_all add: grows_def violations_def)

lemma grows_if: "grows t a \<Longrightarrow> grows t b \<Longrightarrow> grows t (if p then a else b)"
  by simp

lemma grows_score: "grows t (scoreRFCHeaderLine raw t)" "grows t (score_framing f st t)" "grows t (score_body m st f b e t)"
  unfolding scoreRFCHeaderLine_def score_framing_def score_body_def Let_def
  by (intro grows_if grows_trans [OF _ grows_step(1)] grows_trans [OF _ grows_step(5)] grows_trans [OF _ grows_step(8)]
      grows_trans [OF _ grows_step(9)] grows_trans [OF _ grows_step(10)] grows_step grows_refl)+

lemma grows_other:
  "grows t (t\<lparr>rt_exchanges := a\<rparr>)" "grows t (t\<lparr>rt_readFail := a\<rparr>)" "grows t (t\<lparr>rt_dialFail := a\<rparr>)"
  "grows t (t\<lparr>rt_conditionals := a\<rparr>)" "grows t (t\<lparr>rt_headProbes := a\<rparr>)"
  by (simp_all add: grows_def violations_def)

lemma grows_headers: "grows t (fst (read_headers s f t))"
proof (induction s f t rule: read_headers.induct)
  case (1 s f t)
  show ?case
  proof (cases "read_line s")
    case None
    then show ?thesis by (subst read_headers.simps) (simp add: grows_other)
  next
    case (Some p)
    obtain raw rest where p: "p = (raw, rest)" by (cases p)
    have "grows t (fst (read_headers rest (header_framing raw f) (scoreRFCHeaderLine raw t)))" if "raw \<noteq> []"
      using grows_trans [OF grows_score(1) 1 [OF Some p [symmetric] that]] .
    then show ?thesis using Some p by (subst read_headers.simps) simp
  qed
qed

lemma grows_scrape:
  assumes "scrapeRFCResponse s m t = Scored t'"
  shows "grows t t'"
proof (cases "readRFCStatusLine s")
  case None
  then show ?thesis using assms grows_other(2) by (auto simp: scrapeRFCResponse_def)
next
  case (Some p)
  obtain status rest where p: "p = (status, rest)" by (cases p)
  obtain u r where h: "read_headers rest no_framing (t\<lparr>rt_exchanges := rt_exchanges t + 1\<rparr>) = (u, r)" by fastforce
  have u: "grows t u" using grows_trans [OF grows_other(1) grows_headers] h by (metis fst_conv)
  show ?thesis
  proof (cases r)
    case None
    then show ?thesis using assms Some p h u by (simp add: scrapeRFCResponse_def)
  next
    case (Some q)
    obtain f rest' where q: "q = (f, rest')" by (cases q)
    obtain b e where "t' = score_body m status f b e (score_framing f status u)"
      using assms \<open>readRFCStatusLine s = Some p\<close> p h Some q by (auto simp: scrapeRFCResponse_def split: option.splits)
    then show ?thesis using u grows_trans grows_score(2,3) by metis
  qed
qed

lemma grows_probe: "fireRFCProbe net h path p t = Scored t' \<Longrightarrow> grows t t'"
proof (cases "net (probe_request h path p)")
  case (Answer s)
  let ?u = "if pr_conditional p then t\<lparr>rt_conditionals := rt_conditionals t + 1\<rparr> else t"
  let ?v = "if pr_method p = ''HEAD'' then ?u\<lparr>rt_headProbes := rt_headProbes ?u + 1\<rparr> else ?u"
  assume "fireRFCProbe net h path p t = Scored t'"
  then have "scrapeRFCResponse s (pr_method p) ?v = Scored t'" using Answer by (simp add: fireRFCProbe_def Let_def)
  then have "grows ?v t'" by (rule grows_scrape)
  moreover have "grows t ?v" by (simp add: grows_other grows_trans [OF grows_other(4) grows_other(5)])
  ultimately show ?thesis by (rule grows_trans [rotated])
qed (auto simp: fireRFCProbe_def Let_def grows_def violations_def)

lemma grows_walker: "runRFCConformanceWalker h path es t = Scored t' \<Longrightarrow> grows t t'"
proof (induction es arbitrary: t)
  case (Cons e es)
  obtain i net where e: "e = (i, net)" by (cases e)
  with Cons show ?case by (auto split: scraped.splits intro: grows_trans [OF grows_probe])
qed simp

lemma walker_append:
  "runRFCConformanceWalker h path (es @ fs) t =
    (case runRFCConformanceWalker h path es t of Crashed \<Rightarrow> Crashed | Scored u \<Rightarrow> runRFCConformanceWalker h path fs u)"
  by (induction es arbitrary: t) (auto split: scraped.splits)


section \<open>From the wire to the gate\<close>

definition violated :: "rfc_tally \<Rightarrow> bool" where
  "violated t \<longleftrightarrow> (\<exists>n\<in>set (violations t). n > 0)"

lemma violated_grows: "violated t \<Longrightarrow> grows t t' \<Longrightarrow> violated t'"
  by (auto simp: violated_def grows_def violations_def)

lemma sample_verdict:
  assumes "Sample snap now \<in> set ps"
  shows "\<exists>c. sp_Predicate s snap c \<in> set (verdicts s ps)"
proof -
  have "\<exists>d. (snap, d) \<in> set (sample_contexts b c ps)" for b c using assms
  proof (induction ps arbitrary: b c)
    case (Cons p ps)
    then show ?case by (cases p) (fastforce simp: Let_def)+
  qed simp
  then show ?thesis by (force simp: verdicts_def)
qed

lemma immediate_declared:
  assumes "v \<in> set vs" and "\<not> IsSkip v" and "\<not> fst v"
  shows "declared_at 0 vs \<noteq> []"
proof -
  obtain k where "k < length vs" "vs ! k = v" using assms(1) by (auto simp: in_set_conv_nth)
  with assms(2,3) have "k \<in> set (declared_at 0 vs)"
    by (simp add: declared_at_mem declares_def take_Suc_conv_app_nth)
  then show ?thesis by auto
qed

lemma broken_snapshot_fails:
  assumes "violated t"
  obtains s where "s \<in> {IRFC1, IRFC2}" and "\<And>snap c. \<not> fst (sp_Predicate s (conform (Some (rfc_counters t)) snap) c)
    \<and> \<not> IsSkip (sp_Predicate s (conform (Some (rfc_counters t)) snap) c)"
proof (cases "rt_badFraming t > 0 \<or> rt_headWithBody t > 0 \<or> rt_body204 t > 0 \<or> rt_body304 t > 0 \<or> rt_missingChunkEnd t > 0")
  case True
  then show ?thesis
    by (intro that [of IRFC1]) (auto simp: IRFC1_def simple_spec_def irfc1_def conform_def rfc_counters_def IsSkip_def)
next
  case False
  with assms have "rt_crlfInHeader t > 0 \<or> rt_nulInHeader t > 0" by (auto simp: violated_def violations_def)
  then show ?thesis
    by (intro that [of IRFC2]) (auto simp: IRFC2_def simple_spec_def irfc2_def conform_def rfc_counters_def IsSkip_def)
qed

lemma broken_declared:
  assumes "violated t" and "k \<in> set ticks" and "k_answer k \<noteq> None" and "k_Conformance k = Some (rfc_counters t)"
  obtains s where "s \<in> {IRFC1, IRFC2}" and "declared_at (sp_Persist s) (verdicts s (loop_polls cfg ticks crashReports now)) \<noteq> []"
proof -
  obtain s where s: "s \<in> {IRFC1, IRFC2}" "\<And>snap c. \<not> fst (sp_Predicate s (conform (Some (rfc_counters t)) snap) c)
    \<and> \<not> IsSkip (sp_Predicate s (conform (Some (rfc_counters t)) snap) c)" by (rule broken_snapshot_fails [OF assms(1)]) blast
  have z: "sp_Persist s = 0" using s(1) by (auto simp: IRFC1_def IRFC2_def simple_spec_def)
  obtain p where "Poll (k_time k) (k_answer k) = Some p" using assms(3) Poll_none by fastforce
  then have "Sample (conform (Some (rfc_counters t)) (base_snapshot cfg k p)) (k_time k) \<in> set (loop_polls cfg ticks crashReports now)"
    using assms(2,4) by (auto simp: loop_polls_def tick_polls_def intro!: bexI [of _ k])
  from sample_verdict [OF this, of s] s(2) have "declared_at 0 (verdicts s (loop_polls cfg ticks crashReports now)) \<noteq> []"
    using immediate_declared by blast
  with s(1) z show ?thesis using that by metis
qed

lemma probe_violates:
  assumes "runRFCConformanceWalker h path es zero_rfc = Scored u"
    and "fireRFCProbe net h path (rfcProbes ! (i mod length rfcProbes)) u = Scored v" and "violations v \<noteq> violations u"
    and "runRFCConformanceWalker h path (es @ (i, net) # fs) zero_rfc = Scored t"
  shows "violated t"
proof -
  have "grows zero_rfc u" using assms(1) by (rule grows_walker)
  moreover have "grows u v" using assms(2) by (rule grows_probe)
  ultimately have "violated v" using assms(3)
    by (auto simp: grows_def violations_def violated_def zero_rfc_def)
  moreover have "grows v t" using assms(1,2,4) by (auto simp: walker_append intro: grows_walker)
  ultimately show ?thesis by (rule violated_grows)
qed

text \<open>C10: One broken response fails the release. When a single probe among all of a cell's adds to any
  violation counter of the scraper, and a successful poll afterwards reads the counters, then
  I-RFC-1 or I-RFC-2 is a violation of the cell, whatever the other responses and polls were, and
  the absolute gate reports the cell's property violations.\<close>

theorem broken_response_fails_gate:
  fixes cfg :: loop_config and ticks :: "tick list" and crashReports :: "int option" and now :: gotime and room :: "nat \<Rightarrow> bool"
  defines "T \<equiv> fst (runPropertyLoop cfg ticks crashReports now room)"
  assumes "runRFCConformanceWalker h path es zero_rfc = Scored u"
    and "fireRFCProbe net h path (rfcProbes ! (i mod length rfcProbes)) u = Scored v" and "violations v \<noteq> violations u"
    and "runRFCConformanceWalker h path (es @ (i, net) # fs) zero_rfc = Scored t"
    and "k \<in> set ticks" and "k_answer k \<noteq> None" and "k_Conformance k = Some (rfc_counters t)"
    and "distinct (map sp_ID (lc_Specs cfg))" and "IRFC1 \<in> set (lc_Specs cfg)" and "IRFC2 \<in> set (lc_Specs cfg)"
    and "slice_sort violation_key srt" and "cell_with_properties bits T w c0 \<in> set cells"
  shows "(''I-RFC-1'' \<in> set (tl_ViolationIDs T) \<or> ''I-RFC-2'' \<in> set (tl_ViolationIDs T))
    \<and> (\<exists>v\<in>set (Gate srt cells soaks opts). v_Refapp v = Refapp c0 \<and> v_Engine v = Engine c0 \<and> v_Arch v = Arch c0
        \<and> v_Field v = ''tier_1.property_violations'' \<and> v_Value v = tl_Violations T
        \<and> v_Why v = [Lit (''property predicate(s) violated: '' @ join (tl_ViolationIDs T) '', '')])"
proof -
  have "violated t" by (rule probe_violates [OF assms(2-5)])
  then obtain s where s: "s \<in> {IRFC1, IRFC2}"
    and d: "declared_at (sp_Persist s) (verdicts s (loop_polls cfg ticks crashReports now)) \<noteq> []"
    using assms(6-8) by (rule broken_declared)
  have "sp_ID s = ''I-RFC-1'' \<or> sp_ID s = ''I-RFC-2''" using s by (auto simp: IRFC1_def IRFC2_def simple_spec_def)
  moreover have "s \<in> set (lc_Specs cfg)" using s assms(10,11) by auto
  ultimately show ?thesis
    using declared_violation_reported [OF assms(9) _ d assms(12) assms(13) [unfolded T_def], of soaks opts] unfolding T_def by metis
qed


section \<open>Where the scraper is wrong\<close>

text \<open>C19: A conforming HEAD response is counted as a violation. A HEAD response has no body, whatever its
  header fields say; when it declares the chunked coding the GET would use and, correctly, sends
  nothing after the header block, the scraper waits for chunks and counts a missing terminator.\<close>

theorem head_chunked_false_violation:
  assumes "in_int64 (int status)" and "line_text reason" and "\<forall>l\<in>set hdrs. field_line l"
    and "fr_chunked (framing_of hdrs)" and "\<not> fr_sawCL (framing_of hdrs)"
  shows "\<exists>t'. scrapeRFCResponse (response status reason hdrs []) ''HEAD'' t = Scored t'
    \<and> rt_missingChunkEnd t' = rt_missingChunkEnd t + 1"
proof -
  have "read_chunks 0 [] = Some (0, False)" by (subst read_chunks.simps) (simp add: read_line_def)
  then show ?thesis using assms(4,5)
    by (simp add: scrape_response [OF assms(1-3)] readRFCBody_def score_body_def score_framing_def Let_def)
qed

text \<open>C18: A response can end the validator. A chunk size is read as a signed number and only its sum with
  the bytes so far is capped, so a negative size in a chunked response, after any well-formed
  chunks, reaches the allocation and panics, in a goroutine that recovers from nothing.\<close>

theorem negative_chunk_crashes:
  assumes "in_int64 (int status)" and "line_text reason" and "\<forall>l\<in>set hdrs. field_line l"
    and "fr_chunked (framing_of hdrs)" and "\<forall>c\<in>set cs. chunk_ok c" and "payload cs \<le> rfcMaxBody"
    and "line_text z" and "chunk_size z = Some n" and "n < 0" and "in_int64 n"
  shows "scrapeRFCResponse (response status reason hdrs (chunks_text cs @ http_line z @ rest)) m t = Crashed"
proof -
  have "read_chunks got (chunks_text cs @ http_line z @ rest) = None" if "0 \<le> got" "got + payload cs \<le> rfcMaxBody" for got
    using assms(5) that
  proof (induction cs arbitrary: got)
    case Nil
    have "in_int64 (got + n)" "got + n \<le> rfcMaxBody" using Nil assms(9,10) by (auto simp: in_int64_def payload_def rfcMaxBody_def)
    then show ?case using assms(7-9)
      by (subst read_chunks.simps) (simp add: chunks_text_def read_line_http chunk_size_def wrap64_id make_panics_def)
  next
    case (Cons c cs)
    have "0 \<le> payload cs" by (auto simp: payload_def intro!: sum_list_nonneg)
    with Cons show ?case by (simp add: chunks_text_def read_chunks_step(1) payload_def)
  qed
  then have "readRFCBody (chunks_text cs @ http_line z @ rest) True c = None" for c
    using assms(6) by (simp add: readRFCBody_def)
  then show ?thesis using assms(4) by (simp add: scrape_response [OF assms(1-3)])
qed


section \<open>Witnesses\<close>

definition w_cl :: "string list" where "w_cl = [''Server: celeris'', ''Content-Length: 5'']"
definition w_te :: "string list" where "w_te = [''Transfer-Encoding: chunked'']"

lemma w_status: "in_int64 (int 200)" "line_text ''OK''" "\<forall>l\<in>set w_cl. field_line l" "\<forall>l\<in>set w_te. field_line l"
  by code_simp+

lemma w_framing: "framing_of w_cl = \<lparr>fr_contentLength = 5, fr_sawCL = True, fr_chunked = False\<rparr>"
    "framing_of w_te = \<lparr>fr_contentLength = - 1, fr_sawCL = False, fr_chunked = True\<rparr>"
  by code_simp+

lemma w_chunks: "\<forall>c\<in>set [(''4;x=y'', ''abcd''), (''a'', ''0123456789'')]. chunk_ok c" "line_text ''00''" "chunk_size ''00'' = Some 0"
    "line_text ''-3''" "chunk_size ''-3'' = Some (- 3)" "payload [(''4;x=y'', ''abcd''), (''a'', ''0123456789'')] \<le> rfcMaxBody"
  by code_simp+

theorem content_length_exact_witness:
  "\<exists>t. scrapeRFCResponse (response 200 ''OK'' w_cl ''hell'') ''GET'' zero_rfc = Scored t \<and> rt_badFraming t = 1
     \<and> rt_missingChunkEnd t = 0"
  using content_length_exact [OF w_status(1-3), of "''hell''" "''GET''" zero_rfc]
  by (simp add: w_framing rfcMaxBody_def flag_def zero_rfc_def)

theorem chunked_exact_witness:
  "\<exists>t. scrapeRFCResponse (response 200 ''OK'' w_te (take 20 (chunks_text [(''4;x=y'', ''abcd''), (''a'', ''0123456789'')] @ http_line ''00'' @ []))) ''GET'' zero_rfc
     = Scored t \<and> rt_missingChunkEnd t = 1"
proof -
  have "20 < length (chunks_text [(''4;x=y'', ''abcd''), (''a'', ''0123456789'')] @ http_line ''00'')" by code_simp
  with chunked_exact [OF w_status(1,2,4) _ _ _ _ w_chunks(1-3,6), of "''GET''" 20 "[]" zero_rfc] show ?thesis
    by (simp add: w_framing flag_def zero_rfc_def)
qed

theorem head_chunked_false_violation_witness:
  "\<exists>t'. scrapeRFCResponse (response 200 ''OK'' w_te []) ''HEAD'' zero_rfc = Scored t' \<and> rt_missingChunkEnd t' = 1"
  using head_chunked_false_violation [OF w_status(1,2,4), of zero_rfc] by (simp add: w_framing zero_rfc_def)

theorem negative_chunk_crashes_witness:
  "scrapeRFCResponse (response 200 ''OK'' w_te (chunks_text [(''4;x=y'', ''abcd''), (''a'', ''0123456789'')] @ http_line ''-3'' @ [])) ''GET'' zero_rfc = Crashed"
  by (rule negative_chunk_crashes [OF w_status(1,2,4) _ w_chunks(1,6,4,5)]) (simp_all add: w_framing in_int64_def)

definition w_net :: "string \<Rightarrow> wire" where "w_net req = Answer (response 200 ''OK'' w_cl ''hell'')"

definition w_broken :: rfc_tally where
  "w_broken = zero_rfc\<lparr>rt_exchanges := 1, rt_badFraming := 1\<rparr>"

definition w_rfc_cfg :: loop_config where
  "w_rfc_cfg = \<lparr>lc_PID = 7, lc_Specs = [IRFC1, IRFC2], lc_HardFail = False, lc_HasViolations = False\<rparr>"

definition w_rfc_tick :: tick where
  "w_rfc_tick = w_tick\<lparr>k_Conformance := Some (rfc_counters w_broken)\<rparr>"

definition w_rfc_cell :: "validation_cell" where
  "w_rfc_cell = cell_with_properties w_bits (fst (runPropertyLoop w_rfc_cfg [w_rfc_tick] None (w_at 1) (\<lambda>_. True)))
     zero_tier1 zero_cell"

lemma w_walker:
  "runRFCConformanceWalker ''h:1'' ''/'' [] zero_rfc = Scored zero_rfc"
  "fireRFCProbe w_net ''h:1'' ''/'' (rfcProbes ! (0 mod length rfcProbes)) zero_rfc = Scored w_broken"
  "runRFCConformanceWalker ''h:1'' ''/'' ([] @ [(0, w_net)]) zero_rfc = Scored w_broken"
  "violations w_broken \<noteq> violations zero_rfc"
  by code_simp+

lemma w_rfc_ok:
  "w_rfc_tick \<in> set [w_rfc_tick]" "k_answer w_rfc_tick \<noteq> None" "k_Conformance w_rfc_tick = Some (rfc_counters w_broken)"
  "distinct (map sp_ID (lc_Specs w_rfc_cfg))" "IRFC1 \<in> set (lc_Specs w_rfc_cfg)" "IRFC2 \<in> set (lc_Specs w_rfc_cfg)"
  "cell_with_properties w_bits (fst (runPropertyLoop w_rfc_cfg [w_rfc_tick] None (w_at 1) (\<lambda>_. True))) zero_tier1 zero_cell
     \<in> set [w_rfc_cell]"
  by (simp_all add: w_rfc_tick_def w_rfc_cfg_def w_tick_def w_rfc_cell_def IRFC1_def IRFC2_def simple_spec_def)

theorem broken_response_fails_gate_witness:
  "violations w_broken \<noteq> violations zero_rfc
   \<and> (\<exists>v\<in>set (Gate (sort_key violation_key) [w_rfc_cell] [] sample_options). v_Field v = ''tier_1.property_violations'')"
  using broken_response_fails_gate [OF w_walker(1,2,4,3) w_rfc_ok(1-6) violation_sort.slice_sort_axioms w_rfc_ok(7), of "[]" sample_options]
    w_walker(4) by blast

end
