(* ===== verification/StressGuard.thy ===== *)
theory StressGuard
  imports Prelude
begin

text \<open>
  The cluster guard of the stress tool, \<open>src/tools/stresstally/guard.go\<close>: before a stress run joins the
  concurrency group of the cluster it lists the open workflow runs, classifies each, and refuses
  when one is pending in the group, because joining would cancel it.

  The JSON lines GitHub returned are decoded by the library; a file is its decoded records or the
  error of reading it. The text printed is kept down to the verdict and the error lines.

  The group itself is GitHub's. What the guard relies on is written down as the step relation
  \<open>gh_step\<close>: one holder, one pending run, a newcomer cancels the pending one; and as \<open>api_view\<close>:
  what a listing shows of a run in each of its phases.

  The lemmas: the command exits with 0 exactly when every input was read and nothing is pending; no
  stress run ever cancels another, whatever the interleaving of looks, verdicts and entries; a tier
  run a stress run cancels was dispatched between the look and the entry; and an idle verdict means
  an idle cluster.
\<close>


section \<open>Runs and jobs\<close>

record gh_run =
  gr_ID :: int
  gr_Name :: string
  gr_DisplayTitle :: string
  gr_Path :: string
  gr_Event :: string
  gr_Status :: string
  gr_CreatedAt :: string

record gh_job =
  gj_Name :: string
  gj_Status :: string
  gj_Conclusion :: string

record run_class =
  rk_Run :: gh_run
  rk_Class :: string
  rk_Why :: string

definition clusterGroupWorkflows :: "string list" where
  "clusterGroupWorkflows =
     [''.github/workflows/benchmark-tier.yml'', ''.github/workflows/cluster-os-upgrade.yml'',
      ''.github/workflows/cluster-reboot.yml'', ''.github/workflows/matrix-checkptr-tier.yml'',
      ''.github/workflows/matrix-nightly-tier.yml'', ''.github/workflows/matrix-pr-tier.yml'',
      ''.github/workflows/matrix-race-tier.yml'', ''.github/workflows/matrix-weekend-tier.yml'']"

definition stressWorkflowPath :: string where "stressWorkflowPath = ''.github/workflows/celeris-stress.yml''"
definition guardJobName :: string where "guardJobName = ''cluster-guard''"
definition clusterCallPrefix :: string where "clusterCallPrefix = ''cluster / ''"
definition classHolder :: string where "classHolder = ''holder''"
definition classPending :: string where "classPending = ''pending''"
definition classIgnored :: string where "classIgnored = ''ignored''"

text \<open>The regular expression is an anchored literal.\<close>

definition githubTitleRe :: "string \<Rightarrow> bool" where
  "githubTitleRe s \<longleftrightarrow> has_prefix s ''Celeris Stress [github/''"


section \<open>Classification\<close>

definition scan_job :: "gh_job \<Rightarrow> gh_job option \<times> bool \<Rightarrow> gh_job option \<times> bool" where
  "scan_job j acc =
     (let (guard, started) = acc
      in (if gj_Name j = guardJobName then Some j else guard,
          started \<or> has_prefix (gj_Name j) clusterCallPrefix \<and> (gj_Status j = ''in_progress'' \<or> gj_Status j = ''completed'')))"

definition classifyStressRun :: "gh_run \<Rightarrow> gh_job list \<Rightarrow> run_class" where
  "classifyStressRun r jobs =
     (if gr_Event r = ''pull_request''
      then \<lparr>rk_Run = r, rk_Class = classIgnored, rk_Why = ''a pull_request self-test never reaches the cluster''\<rparr>
      else if githubTitleRe (gr_DisplayTitle r)
      then \<lparr>rk_Run = r, rk_Class = classIgnored, rk_Why = ''a github-target dispatch never joins the group''\<rparr>
      else case fold scan_job jobs (None, False) of
             (None, _) \<Rightarrow> \<lparr>rk_Run = r, rk_Class = classPending,
               rk_Why = ''another stress run whose guard has not finished: it may be entering the group now''\<rparr>
           | (Some guard, started) \<Rightarrow>
               if gj_Status guard \<noteq> ''completed''
               then \<lparr>rk_Run = r, rk_Class = classPending,
                 rk_Why = ''another stress run whose guard has not finished: it may be entering the group now''\<rparr>
               else if gj_Conclusion guard \<noteq> ''success''
               then \<lparr>rk_Run = r, rk_Class = classIgnored,
                 rk_Why = ''its guard concluded '' @ gj_Conclusion guard @ '': it never joins the group''\<rparr>
               else if started
               then \<lparr>rk_Run = r, rk_Class = classHolder, rk_Why = ''a stress run whose cluster jobs have started holds the group''\<rparr>
               else \<lparr>rk_Run = r, rk_Class = classPending,
                 rk_Why = ''a stress run past its guard whose cluster jobs have not started waits in the group''\<rparr>)"

definition jobs_of :: "(int \<times> gh_job list) list \<Rightarrow> int \<Rightarrow> gh_job list" where
  "jobs_of jobs i = (case map_of jobs i of None \<Rightarrow> [] | Some js \<Rightarrow> js)"

definition classify_run :: "(int \<times> gh_job list) list \<Rightarrow> gh_run \<Rightarrow> run_class list" where
  "classify_run jobs r =
     (if gr_Path r \<in> set clusterGroupWorkflows
      then (if gr_Status r = ''in_progress''
            then [\<lparr>rk_Run = r, rk_Class = classHolder, rk_Why = ''a cluster workflow in progress holds the group''\<rparr>]
            else [\<lparr>rk_Run = r, rk_Class = classPending,
                   rk_Why = ''a cluster workflow in status '' @ gr_Status r @ '' waits in the group (or is about to)''\<rparr>])
      else if gr_Path r = stressWorkflowPath then [classifyStressRun r (jobs_of jobs (gr_ID r))]
      else [])"

fun classify_loop :: "(int \<times> gh_job list) list \<Rightarrow> int \<Rightarrow> int list \<Rightarrow> gh_run list \<Rightarrow> run_class list" where
  "classify_loop jobs self seen [] = []"
| "classify_loop jobs self seen (r # runs) =
     (if gr_ID r = self \<or> gr_ID r \<in> set seen \<or> gr_Status r = ''completed''
      then classify_loop jobs self seen runs
      else classify_run jobs r @ classify_loop jobs self (gr_ID r # seen) runs)"

text \<open>The ids of the result are distinct, so the sort has one outcome.\<close>

definition classifyRuns :: "gh_run list \<Rightarrow> (int \<times> gh_job list) list \<Rightarrow> int \<Rightarrow> run_class list" where
  "classifyRuns runs jobs self = sort_key (\<lambda>c. gr_ID (rk_Run c)) (classify_loop jobs self [] runs)"


section \<open>Decisions\<close>

definition run_desc :: "run_class \<Rightarrow> string" where
  "run_desc c = ''run '' @ itoa (gr_ID (rk_Run c)) @ '' ('' @ gr_Name (rk_Run c) @ '', '' @ gr_Status (rk_Run c) @ '')''"

definition guardDecision :: "run_class list \<Rightarrow> bool \<times> string" where
  "guardDecision classes =
     (let pending = map run_desc (filter (\<lambda>c. rk_Class c = classPending) classes);
          holders = map run_desc (filter (\<lambda>c. rk_Class c = classHolder) classes)
      in if pending \<noteq> []
         then (False, ''refusing: '' @ join pending '', '' @ '' pending in matrix-tier-cluster; entering the group now would cancel it. ''
                 @ ''Dispatch again once the pending slot is free'')
         else if holders \<noteq> []
         then (True, ''allowed: nothing pending; '' @ join holders '', ''
                 @ '' holds the group, so this run will wait as the pending one ''
                 @ ''(a later tier dispatch cancels THIS run, never the other way round)'')
         else (True, ''allowed: matrix-tier-cluster is empty''))"

definition idleDecision :: "run_class list \<Rightarrow> bool \<times> string" where
  "idleDecision classes =
     (let busy = map (\<lambda>c. ''run '' @ itoa (gr_ID (rk_Run c)) @ '' ('' @ gr_Name (rk_Run c) @ '', '' @ gr_Status (rk_Run c)
                           @ '', '' @ rk_Class c @ '')'')
                   (filter (\<lambda>c. rk_Class c = classPending \<or> rk_Class c = classHolder) classes)
      in if busy \<noteq> []
         then (False, ''refusing: the cluster is not idle: '' @ join busy '', '' @ ''. A host reboot never waits in matrix-tier-cluster; ''
                 @ ''dispatch again once nothing runs or waits there'')
         else (True, ''allowed: the cluster is idle (no run holds or waits in matrix-tier-cluster)''))"


section \<open>The command\<close>

record guard_input =
  gi_parsed :: bool
  gi_self :: int
  gi_idle :: bool
  gi_dir :: string
  gi_runs :: "(string + gh_run list) list"
  gi_jobs :: "(string \<times> (string + gh_job list)) list"
  gi_write_err :: "string option"

fun read_runs :: "(string + gh_run list) list \<Rightarrow> gh_run list \<Rightarrow> string + gh_run list" where
  "read_runs [] acc = Inr acc"
| "read_runs (Inl err # fs) acc = Inl err"
| "read_runs (Inr rs # fs) acc = read_runs fs (acc @ rs)"

definition trim_suffix :: "string \<Rightarrow> string \<Rightarrow> string" where
  "trim_suffix s suf = (if has_suffix s suf then take (length s - length suf) s else s)"

definition job_file_id :: "string \<Rightarrow> int option" where
  "job_file_id base = atoi (trim_suffix (trim_prefix base ''jobs-'') ''.jsonl'')"

fun read_jobs :: "(string \<times> (string + gh_job list)) list \<Rightarrow> (int \<times> gh_job list) list \<Rightarrow> string + (int \<times> gh_job list) list" where
  "read_jobs [] acc = Inr acc"
| "read_jobs ((base, content) # fs) acc =
     (case job_file_id base of
        None \<Rightarrow> read_jobs fs acc
      | Some i \<Rightarrow> (case content of Inl err \<Rightarrow> Inl err | Inr js \<Rightarrow> read_jobs fs ((i, js) # acc)))"

text \<open>The exit code and the last line printed.\<close>

definition cmdGuard :: "guard_input \<Rightarrow> int \<times> string" where
  "cmdGuard g =
     (if \<not> gi_parsed g \<or> gi_self g \<le> 0 then (2, ''::error::usage: stresstally guard -dir DIR -self RUN_ID'')
      else if gi_runs g = []
      then (2, ''::error::no runs-*.jsonl under '' @ gi_dir g
              @ '': cannot tell whether a run is pending in matrix-tier-cluster; refusing'')
      else case read_runs (gi_runs g) [] of
             Inl err \<Rightarrow> (2, ''::error::'' @ err @ ''; refusing'')
           | Inr runs \<Rightarrow>
               (case read_jobs (gi_jobs g) [] of
                  Inl err \<Rightarrow> (2, ''::error::'' @ err @ ''; refusing'')
                | Inr jobs \<Rightarrow>
                    (let classes = classifyRuns runs jobs (gi_self g);
                         (ok, msg) = (if gi_idle g then idleDecision classes else guardDecision classes)
                     in case gi_write_err g of
                          Some err \<Rightarrow> (2, ''::error::write decision.txt: '' @ err @ ''; refusing'')
                        | None \<Rightarrow> if \<not> ok then (1, ''::error::'' @ msg) else (0, msg))))"


section \<open>What is classified\<close>

text \<open>A run the loop comes to is the first of its id that is open and not the guard's own.\<close>

lemma classify_loop_sound:
  assumes "c \<in> set (classify_loop jobs self seen runs)"
  shows "\<exists>r\<in>set runs. gr_ID r \<noteq> self \<and> gr_Status r \<noteq> ''completed'' \<and> c \<in> set (classify_run jobs r)"
  using assms by (induction jobs self seen runs rule: classify_loop.induct) (auto split: if_splits)

lemma classify_loop_complete:
  assumes "r \<in> set runs" and "gr_ID r \<noteq> self" and "gr_ID r \<notin> set seen" and "gr_Status r \<noteq> ''completed''"
    and "\<forall>r'\<in>set runs. gr_ID r' = gr_ID r \<longrightarrow> (\<exists>c\<in>set (classify_run jobs r'). rk_Class c \<in> K)"
  shows "\<exists>c\<in>set (classify_loop jobs self seen runs). rk_Class c \<in> K"
  using assms
proof (induction jobs self seen runs rule: classify_loop.induct)
  case (2 jobs self seen r' runs)
  show ?case
  proof (cases "gr_ID r' = self \<or> gr_ID r' \<in> set seen \<or> gr_Status r' = ''completed''")
    case True
    then have "r \<in> set runs" using "2.prems" by auto
    with 2 True show ?thesis by simp
  next
    case skip: False
    show ?thesis
    proof (cases "gr_ID r' = gr_ID r")
      case True
      then obtain c where "c \<in> set (classify_run jobs r')" "rk_Class c \<in> K" using "2.prems"(5) by auto
      then show ?thesis using skip by auto
    next
      case False
      then have "r \<in> set runs" "gr_ID r \<notin> set (gr_ID r' # seen)" using "2.prems" by auto
      with 2 skip show ?thesis by fastforce
    qed
  qed
qed simp

lemma guardDecision_iff: "fst (guardDecision cs) \<longleftrightarrow> (\<forall>c\<in>set cs. rk_Class c \<noteq> classPending)"
  by (auto simp: guardDecision_def Let_def filter_empty_conv)

lemma idleDecision_iff: "fst (idleDecision cs) \<longleftrightarrow> (\<forall>c\<in>set cs. rk_Class c \<noteq> classPending \<and> rk_Class c \<noteq> classHolder)"
  by (auto simp: idleDecision_def Let_def filter_empty_conv)

lemma set_classifyRuns: "set (classifyRuns runs jobs self) = set (classify_loop jobs self [] runs)"
  by (simp add: classifyRuns_def)

text \<open>The guard fails closed. It exits with 0 exactly when its flags parsed, at least one listing exists,
  every listing and every job file with a run id in its name was read, the decision was written, and
  no open run but its own is pending in the group; with \<open>-idle\<close>, none holds it either.\<close>

theorem guard_exit_zero_iff:
  "fst (cmdGuard g) = 0 \<longleftrightarrow> gi_parsed g \<and> 0 < gi_self g \<and> gi_runs g \<noteq> [] \<and> gi_write_err g = None
     \<and> (\<exists>runs jobs. read_runs (gi_runs g) [] = Inr runs \<and> read_jobs (gi_jobs g) [] = Inr jobs
          \<and> (\<forall>c\<in>set (classifyRuns runs jobs (gi_self g)). rk_Class c \<noteq> classPending \<and> (gi_idle g \<longrightarrow> rk_Class c \<noteq> classHolder)))"
proof -
  have "fst (if gi_idle g then idleDecision cs else guardDecision cs)
      \<longleftrightarrow> (\<forall>c\<in>set cs. rk_Class c \<noteq> classPending \<and> (gi_idle g \<longrightarrow> rk_Class c \<noteq> classHolder))" for cs
    by (auto simp: guardDecision_iff idleDecision_iff)
  then show ?thesis
    by (auto simp: cmdGuard_def Let_def case_prod_unfold split: sum.splits option.splits)
qed


section \<open>The group\<close>

text \<open>
  A stress run: its guard has not looked yet (\<open>Guarding\<close>), has decided and not yet concluded
  (\<open>Decided\<close>), has concluded with success before the cluster job exists (\<open>Passed\<close>), waits in the
  group (\<open>Waits\<close>) or holds it (\<open>Holds\<close>). A refused run stays \<open>Refused\<close>. A tier run waits or holds from
  its dispatch on. \<open>g_since\<close> are the tier runs dispatched since the look of a stress run.
\<close>

datatype stress_phase = Guarding | Decided bool | Passed | Refused | Waits | Holds
datatype tier_phase = TWaits | THolds

record gh_state =
  g_stress :: "int \<Rightarrow> stress_phase option"
  g_tier :: "int \<Rightarrow> tier_phase option"
  g_since :: "int \<Rightarrow> int set"

definition gh_init :: gh_state where
  "gh_init = \<lparr>g_stress = (\<lambda>_. None), g_tier = (\<lambda>_. None), g_since = (\<lambda>_. {})\<rparr>"

definition group_free :: "gh_state \<Rightarrow> bool" where
  "group_free st \<longleftrightarrow> Some Holds \<notin> range (g_stress st) \<and> Some THolds \<notin> range (g_tier st)"

text \<open>What a listing shows of an open run.\<close>

definition shows_stress :: "gh_run list \<Rightarrow> (int \<times> gh_job list) list \<Rightarrow> int \<Rightarrow> stress_phase \<Rightarrow> bool" where
  "shows_stress runs jobs i p \<longleftrightarrow>
     (\<exists>r\<in>set runs. gr_ID r = i) \<and>
     (\<forall>r\<in>set runs. gr_ID r = i \<longrightarrow> gr_Path r = stressWorkflowPath \<and> gr_Status r \<noteq> ''completed''
        \<and> gr_Event r \<noteq> ''pull_request'' \<and> \<not> githubTitleRe (gr_DisplayTitle r)) \<and>
     (let guards = filter (\<lambda>j. gj_Name j = guardJobName) (jobs_of jobs i);
          began = (\<exists>j\<in>set (jobs_of jobs i). has_prefix (gj_Name j) clusterCallPrefix
                     \<and> (gj_Status j = ''in_progress'' \<or> gj_Status j = ''completed''))
      in case p of
           Guarding \<Rightarrow> \<forall>j\<in>set guards. gj_Status j \<noteq> ''completed''
         | Decided _ \<Rightarrow> \<forall>j\<in>set guards. gj_Status j \<noteq> ''completed''
         | Refused \<Rightarrow> guards \<noteq> [] \<and> (\<forall>j\<in>set guards. gj_Status j = ''completed'' \<and> gj_Conclusion j \<noteq> ''success'')
         | Holds \<Rightarrow> guards \<noteq> [] \<and> (\<forall>j\<in>set guards. gj_Status j = ''completed'' \<and> gj_Conclusion j = ''success'') \<and> began
         | _ \<Rightarrow> guards \<noteq> [] \<and> (\<forall>j\<in>set guards. gj_Status j = ''completed'' \<and> gj_Conclusion j = ''success'') \<and> \<not> began)"

definition shows_tier :: "gh_run list \<Rightarrow> int \<Rightarrow> tier_phase \<Rightarrow> bool" where
  "shows_tier runs i p \<longleftrightarrow>
     (\<exists>r\<in>set runs. gr_ID r = i) \<and>
     (\<forall>r\<in>set runs. gr_ID r = i \<longrightarrow> gr_Path r \<in> set clusterGroupWorkflows \<and> gr_Status r \<noteq> ''completed''
        \<and> (p = TWaits \<longrightarrow> gr_Status r \<noteq> ''in_progress''))"

definition api_view :: "gh_state \<Rightarrow> int \<Rightarrow> gh_run list \<Rightarrow> (int \<times> gh_job list) list \<Rightarrow> bool" where
  "api_view st self runs jobs \<longleftrightarrow>
     (\<forall>i p. i \<noteq> self \<longrightarrow> g_stress st i = Some p \<longrightarrow> shows_stress runs jobs i p) \<and>
     (\<forall>i p. i \<noteq> self \<longrightarrow> g_tier st i = Some p \<longrightarrow> shows_tier runs i p)"

text \<open>A newcomer cancels what waits.\<close>

definition evict :: "gh_state \<Rightarrow> gh_state" where
  "evict st = st\<lparr>g_stress := (\<lambda>k. if g_stress st k = Some Waits then None else g_stress st k),
     g_tier := (\<lambda>k. if g_tier st k = Some TWaits then None else g_tier st k)\<rparr>"

inductive gh_step :: "gh_state \<Rightarrow> gh_state \<Rightarrow> bool" where
  dispatch: "g_stress st i = None \<Longrightarrow> g_tier st i = None \<Longrightarrow>
    gh_step st (st\<lparr>g_stress := (g_stress st)(i \<mapsto> Guarding)\<rparr>)"
| look: "g_stress st i = Some Guarding \<Longrightarrow> api_view st i runs jobs \<Longrightarrow>
    gh_step st (st\<lparr>g_stress := (g_stress st)(i \<mapsto> Decided (fst (guardDecision (classifyRuns runs jobs i)))),
                  g_since := (g_since st)(i := {})\<rparr>)"
| conclude: "g_stress st i = Some (Decided b) \<Longrightarrow>
    gh_step st (st\<lparr>g_stress := (g_stress st)(i \<mapsto> (if b then Passed else Refused))\<rparr>)"
| enter: "g_stress st i = Some Passed \<Longrightarrow>
    gh_step st ((evict st)\<lparr>g_stress := (g_stress (evict st))(i \<mapsto> Waits)\<rparr>)"
| start: "g_stress st i = Some Waits \<Longrightarrow> group_free st \<Longrightarrow>
    gh_step st (st\<lparr>g_stress := (g_stress st)(i \<mapsto> Holds)\<rparr>)"
| leave: "gh_step st (st\<lparr>g_stress := (g_stress st)(i := None)\<rparr>)"
| tier_dispatch: "g_stress st i = None \<Longrightarrow> g_tier st i = None \<Longrightarrow>
    gh_step st ((evict st)\<lparr>g_tier := (g_tier (evict st))(i \<mapsto> TWaits), g_since := (\<lambda>k. insert i (g_since st k))\<rparr>)"
| tier_start: "g_tier st i = Some TWaits \<Longrightarrow> group_free st \<Longrightarrow>
    gh_step st (st\<lparr>g_tier := (g_tier st)(i \<mapsto> THolds)\<rparr>)"
| tier_leave: "gh_step st (st\<lparr>g_tier := (g_tier st)(i := None)\<rparr>)"

abbreviation gh_reach :: "gh_state \<Rightarrow> bool" where
  "gh_reach \<equiv> gh_step\<^sup>*\<^sup>* gh_init"


section \<open>The guard sees what waits\<close>

lemma scan_jobs:
  "fst (fold scan_job js (g, b)) = (if filter (\<lambda>j. gj_Name j = guardJobName) js = [] then g
     else Some (last (filter (\<lambda>j. gj_Name j = guardJobName) js)))"
  "snd (fold scan_job js (g, b)) \<longleftrightarrow> b \<or> (\<exists>j\<in>set js. has_prefix (gj_Name j) clusterCallPrefix
     \<and> (gj_Status j = ''in_progress'' \<or> gj_Status j = ''completed''))"
  by (induction js arbitrary: g b) (auto simp: scan_job_def)

definition phase_class :: "stress_phase \<Rightarrow> string" where
  "phase_class p = (case p of Refused \<Rightarrow> classIgnored | Holds \<Rightarrow> classHolder | _ \<Rightarrow> classPending)"

lemma shown_stress_class:
  assumes "shows_stress runs jobs i p" and "r \<in> set runs" and "gr_ID r = i"
  shows "rk_Class (classifyStressRun r (jobs_of jobs i)) = phase_class p"
proof -
  let ?js = "jobs_of jobs i" and ?gs = "filter (\<lambda>j. gj_Name j = guardJobName) (jobs_of jobs i)"
  have r: "gr_Event r \<noteq> ''pull_request''" "\<not> githubTitleRe (gr_DisplayTitle r)"
    using assms by (auto simp: shows_stress_def)
  obtain g b where s: "fold scan_job ?js (None, False) = (g, b)" by fastforce
  have g: "g = (if ?gs = [] then None else Some (last ?gs))"
    and b: "b \<longleftrightarrow> (\<exists>j\<in>set ?js. has_prefix (gj_Name j) clusterCallPrefix \<and> (gj_Status j = ''in_progress'' \<or> gj_Status j = ''completed''))"
    using scan_jobs [of ?js None False] s by auto
  have l: "?gs \<noteq> [] \<Longrightarrow> last ?gs \<in> set ?gs" by (rule last_in_set)
  show ?thesis
    using assms(1) l unfolding classifyStressRun_def s shows_stress_def Let_def
    by (cases p; cases "?gs = []") (auto simp: r g b [symmetric] phase_class_def)
qed

lemma stress_not_group: "stressWorkflowPath \<notin> set clusterGroupWorkflows"
  by (simp add: stressWorkflowPath_def clusterGroupWorkflows_def)

lemma shown_classified:
  assumes "i \<noteq> self" and "\<exists>r\<in>set runs. gr_ID r = i"
    and "\<And>r. r \<in> set runs \<Longrightarrow> gr_ID r = i \<Longrightarrow> gr_Status r \<noteq> ''completed'' \<and> (\<exists>c\<in>set (classify_run jobs r). rk_Class c \<in> K)"
  shows "\<exists>c\<in>set (classifyRuns runs jobs self). rk_Class c \<in> K"
proof -
  obtain r where "r \<in> set runs" "gr_ID r = i" using assms(2) by blast
  with assms(1,3) show ?thesis unfolding set_classifyRuns by (intro classify_loop_complete [of r]) auto
qed

lemma stress_in_view:
  assumes "api_view st self runs jobs" and "g_stress st i = Some p" and "i \<noteq> self"
  shows "\<exists>c\<in>set (classifyRuns runs jobs self). rk_Class c = phase_class p"
proof -
  have s: "shows_stress runs jobs i p" using assms by (auto simp: api_view_def)
  have "\<exists>c\<in>set (classifyRuns runs jobs self). rk_Class c \<in> {phase_class p}"
  proof (rule shown_classified [OF assms(3)])
    show "\<exists>r\<in>set runs. gr_ID r = i" using s by (simp add: shows_stress_def)
    fix r assume r: "r \<in> set runs" "gr_ID r = i"
    then have "gr_Path r = stressWorkflowPath" "gr_Status r \<noteq> ''completed''" using s by (auto simp: shows_stress_def)
    then show "gr_Status r \<noteq> ''completed'' \<and> (\<exists>c\<in>set (classify_run jobs r). rk_Class c \<in> {phase_class p})"
      using shown_stress_class [OF s r] r(2) stress_not_group by (simp add: classify_run_def)
  qed
  then show ?thesis by simp
qed

lemma tier_in_view:
  assumes "api_view st self runs jobs" and "g_tier st i = Some p" and "i \<noteq> self"
  shows "\<exists>c\<in>set (classifyRuns runs jobs self). rk_Class c \<in> (if p = TWaits then {classPending} else {classPending, classHolder})"
proof (rule shown_classified [OF assms(3)])
  have s: "shows_tier runs i p" using assms by (auto simp: api_view_def)
  then show "\<exists>r\<in>set runs. gr_ID r = i" by (simp add: shows_tier_def)
  fix r assume "r \<in> set runs" "gr_ID r = i"
  then show "gr_Status r \<noteq> ''completed'' \<and> (\<exists>c\<in>set (classify_run jobs r). rk_Class c \<in> (if p = TWaits then {classPending} else {classPending, classHolder}))"
    using s by (auto simp: shows_tier_def classify_run_def)
qed

lemmas class_strings = classPending_def classHolder_def classIgnored_def

lemma allowed_sees_nothing:
  assumes "api_view st self runs jobs" and "fst (guardDecision (classifyRuns runs jobs self))" and "i \<noteq> self"
  shows "g_stress st i = None \<or> g_stress st i = Some Refused \<or> g_stress st i = Some Holds" and "g_tier st i \<noteq> Some TWaits"
proof -
  have n: "\<forall>c\<in>set (classifyRuns runs jobs self). rk_Class c \<noteq> classPending" using assms(2) by (simp add: guardDecision_iff)
  show "g_stress st i = None \<or> g_stress st i = Some Refused \<or> g_stress st i = Some Holds"
  proof (cases "g_stress st i")
    case (Some p)
    with n stress_in_view [OF assms(1) Some assms(3)] show ?thesis by (cases p) (auto simp: phase_class_def)
  qed simp
  show "g_tier st i \<noteq> Some TWaits"
  proof
    assume "g_tier st i = Some TWaits"
    from tier_in_view [OF assms(1) this assms(3)] n show False by auto
  qed
qed


section \<open>No stress run cancels another\<close>

definition ahead :: "gh_state \<Rightarrow> int \<Rightarrow> bool" where
  "ahead st i \<longleftrightarrow> g_stress st i = Some (Decided True) \<or> g_stress st i = Some Passed \<or> g_stress st i = Some Waits"

definition cleared :: "gh_state \<Rightarrow> int \<Rightarrow> bool" where
  "cleared st i \<longleftrightarrow> g_stress st i = Some (Decided True) \<or> g_stress st i = Some Passed"

definition group_inv :: "gh_state \<Rightarrow> bool" where
  "group_inv st \<longleftrightarrow> (\<forall>i j. ahead st i \<longrightarrow> ahead st j \<longrightarrow> i = j)
     \<and> (\<forall>i j. cleared st i \<longrightarrow> g_tier st j = Some TWaits \<longrightarrow> j \<in> g_since st i)
     \<and> (\<forall>i p. g_stress st i = Some p \<longrightarrow> g_tier st i = None)"

lemma group_inv_look:
  assumes "group_inv st" and "g_stress st i = Some Guarding"
    and "\<And>k. b \<Longrightarrow> k \<noteq> i \<Longrightarrow> \<not> ahead st k" and "\<And>k. b \<Longrightarrow> k \<noteq> i \<Longrightarrow> g_tier st k \<noteq> Some TWaits"
  shows "group_inv (st\<lparr>g_stress := (g_stress st)(i \<mapsto> Decided b), g_since := (g_since st)(i := {})\<rparr>)" (is "group_inv ?st")
proof -
  have u: "\<And>j k. ahead st j \<Longrightarrow> ahead st k \<Longrightarrow> j = k"
    and c: "\<And>j k. cleared st j \<Longrightarrow> g_tier st k = Some TWaits \<Longrightarrow> k \<in> g_since st j"
    and d: "\<And>j p. g_stress st j = Some p \<Longrightarrow> g_tier st j = None" using assms(1) by (simp_all add: group_inv_def)
  have i: "g_tier st i = None" using d assms(2) by simp
  have st: "ahead ?st k \<longleftrightarrow> (if k = i then b else ahead st k)" "cleared ?st k \<longleftrightarrow> (if k = i then b else cleared st k)" for k
    by (simp_all add: ahead_def cleared_def)
  have "j = k" if "ahead ?st j" "ahead ?st k" for j k
    using that u [of j k] assms(3) unfolding st by (metis (full_types))
  moreover have "k \<in> g_since ?st j" if "cleared ?st j" "g_tier ?st k = Some TWaits" for j k
  proof (cases "j = i")
    case True
    then show ?thesis using that assms(4) [of k] i unfolding st by (cases "k = i") simp_all
  next
    case False
    then show ?thesis using that c [of j k] unfolding st by simp
  qed
  moreover have "g_tier ?st j = None" if "g_stress ?st j = Some p" for j p using d that i by (cases "j = i") simp_all
  ultimately show ?thesis unfolding group_inv_def by blast
qed

lemma group_inv_step: "gh_step st st' \<Longrightarrow> group_inv st \<Longrightarrow> group_inv st'"
proof (induction rule: gh_step.induct)
  case (look st i runs jobs)
  let ?b = "fst (guardDecision (classifyRuns runs jobs i))"
  have "\<not> ahead st k" if ?b "k \<noteq> i" for k
    using allowed_sees_nothing(1) [OF look(2) that] by (auto simp: ahead_def)
  then show ?case using look(1,3) allowed_sees_nothing(2) [OF look(2)] by (intro group_inv_look)
qed (auto simp: group_inv_def ahead_def cleared_def evict_def split: if_splits)

lemma group_inv_reach: "gh_reach st \<Longrightarrow> group_inv st"
proof (induction rule: rtranclp_induct)
  case base
  show ?case by (simp add: group_inv_def gh_init_def ahead_def cleared_def)
qed (rule group_inv_step)

text \<open>C11: A stress run cancels only newcomers. In every interleaving of dispatches, looks, verdicts, entries
  and departures, when a stress run whose guard passed is about to enter the group, no other stress
  run is waiting there or about to enter, and a tier run waiting there was dispatched after the
  look of the guard: one that was pending at the look is never cancelled.\<close>

theorem stress_cancels_only_newcomers:
  assumes "gh_reach st" and "g_stress st i = Some Passed"
  shows "(\<forall>k. k \<noteq> i \<longrightarrow> g_stress st k \<noteq> Some Waits \<and> g_stress st k \<noteq> Some Passed)
    \<and> (\<forall>k. g_tier st k = Some TWaits \<longrightarrow> k \<in> g_since st i)"
  using group_inv_reach [OF assms(1)] assms(2) by (auto simp: group_inv_def ahead_def cleared_def)

text \<open>An idle verdict means an idle cluster: whatever a listing shows that shows every open run, a
  reboot is allowed only when no tier run waits or holds and every other stress run was refused.\<close>

theorem idle_verdict_means_idle:
  assumes "api_view st self runs jobs" and "fst (idleDecision (classifyRuns runs jobs self))" and "i \<noteq> self"
  shows "g_tier st i = None \<and> (g_stress st i = None \<or> g_stress st i = Some Refused)"
proof -
  have n: "\<forall>c\<in>set (classifyRuns runs jobs self). rk_Class c \<noteq> classPending \<and> rk_Class c \<noteq> classHolder"
    using assms(2) by (simp add: idleDecision_iff)
  have "g_tier st i = None"
  proof (cases "g_tier st i")
    case (Some p)
    with n tier_in_view [OF assms(1) Some assms(3)] show ?thesis by (cases p) auto
  qed
  moreover have "g_stress st i = None \<or> g_stress st i = Some Refused"
  proof (cases "g_stress st i")
    case (Some p)
    with n stress_in_view [OF assms(1) Some assms(3)] show ?thesis by (cases p) (auto simp: phase_class_def)
  qed simp
  ultimately show ?thesis ..
qed


section \<open>Witnesses\<close>

definition w_run :: "int \<Rightarrow> string \<Rightarrow> string \<Rightarrow> gh_run" where
  "w_run i path status = \<lparr>gr_ID = i, gr_Name = ''n'', gr_DisplayTitle = ''Celeris Stress [cluster/stress] main'', gr_Path = path,
     gr_Event = ''workflow_dispatch'', gr_Status = status, gr_CreatedAt = ''2026-01-01T00:00:00Z''\<rparr>"

definition w_jobs :: "gh_job list" where
  "w_jobs = [\<lparr>gj_Name = ''plan'', gj_Status = ''completed'', gj_Conclusion = ''success''\<rparr>,
     \<lparr>gj_Name = ''cluster-guard'', gj_Status = ''completed'', gj_Conclusion = ''failure''\<rparr>]"

definition w_input :: guard_input where
  "w_input = \<lparr>gi_parsed = True, gi_self = 1, gi_idle = False, gi_dir = ''guard'',
     gi_runs = [Inr [w_run 1 stressWorkflowPath ''in_progress'', w_run 2 stressWorkflowPath ''in_progress''],
                Inr [w_run 3 ''.github/workflows/benchmark-tier.yml'' ''in_progress'']],
     gi_jobs = [(''jobs-2.jsonl'', Inr w_jobs)], gi_write_err = None\<rparr>"

theorem guard_exit_zero_iff_witness:
  "fst (cmdGuard w_input) = 0 \<and> (\<exists>runs jobs. read_runs (gi_runs w_input) [] = Inr runs \<and> read_jobs (gi_jobs w_input) [] = Inr jobs
     \<and> length (classifyRuns runs jobs 1) = 2 \<and> (\<forall>c\<in>set (classifyRuns runs jobs 1). rk_Class c \<noteq> classPending))"
proof -
  have z: "fst (cmdGuard w_input) = 0" and s: "gi_self w_input = 1"
    and l: "case (read_runs (gi_runs w_input) [], read_jobs (gi_jobs w_input) []) of (Inr rs, Inr js) \<Rightarrow> length (classifyRuns rs js 1) = 2 | _ \<Rightarrow> False"
    by code_simp+
  from z guard_exit_zero_iff [of w_input] obtain runs jobs
    where r: "read_runs (gi_runs w_input) [] = Inr runs" "read_jobs (gi_jobs w_input) [] = Inr jobs"
      and c: "\<forall>c\<in>set (classifyRuns runs jobs 1). rk_Class c \<noteq> classPending" by (auto simp: s)
  with z l show ?thesis by auto
qed

definition w_st :: gh_state where
  "w_st = \<lparr>g_stress = [1 \<mapsto> Passed], g_tier = [2 \<mapsto> TWaits], g_since = (\<lambda>k. {2})\<rparr>"

lemma w_st_reach: "gh_reach w_st"
proof -
  let ?s1 = "gh_init\<lparr>g_stress := [1 \<mapsto> Guarding]\<rparr>" and ?s2 = "gh_init\<lparr>g_stress := [1 \<mapsto> Decided True]\<rparr>"
    and ?s3 = "gh_init\<lparr>g_stress := [1 \<mapsto> Passed]\<rparr>"
  have a: "gh_step gh_init ?s1" using dispatch [of gh_init 1] by (simp add: gh_init_def)
  have v: "api_view ?s1 1 [] []" by (auto simp: api_view_def gh_init_def)
  have g: "fst (guardDecision (classifyRuns [] [] 1))" by (simp add: guardDecision_iff set_classifyRuns)
  have "(\<lambda>k. {})(1 := {}) = (\<lambda>k :: int. {} :: int set)" by auto
  then have b: "gh_step ?s1 ?s2" using look [of ?s1 1 "[]" "[]"] v g by (simp add: gh_init_def)
  have c: "gh_step ?s2 ?s3" using conclude [of ?s2 1 True] by (simp add: gh_init_def)
  have "evict ?s3 = ?s3" by (simp add: evict_def gh_init_def fun_eq_iff)
  then have d: "gh_step ?s3 w_st" using tier_dispatch [of ?s3 2] by (simp add: gh_init_def w_st_def)
  show ?thesis using a b c d by (meson rtranclp.rtrancl_into_rtrancl rtranclp.rtrancl_refl)
qed

theorem stress_cancels_only_newcomers_witness:
  "gh_reach w_st \<and> g_tier w_st 2 = Some TWaits \<and> 2 \<in> g_since w_st 1"
  using w_st_reach stress_cancels_only_newcomers [OF w_st_reach, of 1] by (simp add: w_st_def)

definition w_refused :: gh_state where
  "w_refused = gh_init\<lparr>g_stress := [1 \<mapsto> Guarding, 2 \<mapsto> Refused]\<rparr>"

lemma w_refused_view: "api_view w_refused 1 [w_run 2 stressWorkflowPath ''in_progress''] [(2, w_jobs)]"
  by (auto simp: api_view_def w_refused_def gh_init_def shows_stress_def w_run_def jobs_of_def w_jobs_def guardJobName_def
      githubTitleRe_def has_prefix_def split: if_splits)

theorem idle_verdict_means_idle_witness:
  "fst (idleDecision (classifyRuns [w_run 2 stressWorkflowPath ''in_progress''] [(2, w_jobs)] 1))
   \<and> g_stress w_refused 2 = Some Refused \<and> g_tier w_refused 2 = None"
proof -
  have d: "fst (idleDecision (classifyRuns [w_run 2 stressWorkflowPath ''in_progress''] [(2, w_jobs)] 1))" by code_simp
  from d idle_verdict_means_idle [OF w_refused_view d, of 2] show ?thesis by (simp add: w_refused_def)
qed

end
