(* ===== verification/StressJudge.thy ===== *)
theory StressJudge
  imports GoFloat
begin

text \<open>
  The judge of the stress tool, \<open>src/tools/stresstally/judge.go\<close>: from the parsed log of every shard of a
  case to the report of the case, its problems, its verdict and how it differs from what was
  expected.

  A parsed log is the record \<open>shard_log\<close> of \<open>parse.go\<close>; \<open>logs\<close> gives it for a file name, and no log for a
  file that does not exist. The rates and confidence intervals of a row are left out: no verdict
  reads them. Whether \<open>strconv.ParseFloat\<close> accepts a text is the argument \<open>isFloat\<close>.

  The lemmas: the rows add up what the shards counted; and a case passes exactly when it is clean by
  a specification over the logs themselves, so that no missing, refused, misshapen, unparsed or
  empty run is ever a pass.
\<close>


section \<open>Cases and logs\<close>

record counts =
  ct_Pass :: int
  ct_Fail :: int
  ct_Skip :: int
  ct_NoVerdict :: int

record failure =
  fl_Package :: string
  fl_Name :: string
  fl_Arch :: string
  fl_Shard :: int
  fl_Shuffle :: string
  fl_Lines :: "string list"

record shard_log =
  sl_header :: "string gomap"
  sl_exit :: string
  sl_elapsed :: string
  sl_refused :: string
  sl_results :: "((string \<times> string) \<times> counts) list"
  sl_reasons :: "string list"
  sl_notes :: "string list"
  sl_failures :: "failure list"
  sl_races :: int
  sl_timedOut :: "string list"
  sl_after :: "string gomap"
  sl_obs :: "string gomap list"

record count_expect =
  ce_Pass :: string
  ce_Fail :: string
  ce_Skip :: string
  ce_NoVerdict :: string
  ce_Processes :: string
  ce_FailedProcesses :: string

text \<open>A nil list of problems is \<open>None\<close>.\<close>

record expect =
  ex_Verdict :: string
  ex_Problems :: "string list option"
  ex_Tests :: "count_expect gomap"
  ex_ShardStatus :: string
  ex_ShardReasons :: "string list"

record stress_case =
  cs_Name :: string
  cs_Purpose :: string
  cs_Packages :: "string list"
  cs_Run :: string
  cs_Count :: int
  cs_Shards :: int
  cs_Arches :: "string list"
  cs_Memlock :: string
  cs_Race :: bool
  cs_Timeout :: string
  cs_Flags :: "string list"
  cs_Env :: "string list"
  cs_Shuffle :: string
  cs_Expect :: expect
  cs_Target :: string
  cs_Mode :: string
  cs_CPUs :: int
  cs_PMU :: string

text \<open>The header values a report copies (kernel, image, host and so on) are kept as the header itself.\<close>

record shard_report =
  sr_Arch :: string
  sr_Shard :: int
  sr_Log :: string
  sr_Status :: string
  sr_Reasons :: "string list"
  sr_Notes :: "string list"
  sr_Exit :: string
  sr_Elapsed :: string
  sr_Counts :: counts
  sr_Races :: int
  sr_TimedOut :: "string list"
  sr_Header :: "string gomap"
  sr_LoadAfter :: string
  sr_Observations :: int

record test_row =
  tr_Package :: string
  tr_Name :: string
  tr_Arch :: string
  tr_Processes :: int
  tr_FailedProcesses :: int
  tr_Counts :: counts

record arch_total =
  at_Arch :: string
  at_Shards :: int
  at_Complete :: int
  at_Unparsed :: int
  at_Missing :: int
  at_WrongShape :: int
  at_Tests :: int
  at_Counts :: counts
  at_Kernels :: "string list"
  at_Images :: "string list"

record case_report =
  cp_Case :: string
  cp_Config :: stress_case
  cp_CelerisSHA :: string
  cp_Verdict :: string
  cp_Problems :: "string list"
  cp_Mismatches :: "string list"
  cp_ArchGaps :: "string list"
  cp_Warnings :: "string list"
  cp_Arches :: "arch_total list"
  cp_Shards :: "shard_report list"
  cp_Tests :: "test_row list"
  cp_Failures :: "failure list"

definition problemFailures :: string where "problemFailures = ''test-failures''"
definition problemUnparsed :: string where "problemUnparsed = ''unparsed-shards''"
definition problemMissing :: string where "problemMissing = ''missing-shards''"
definition problemWrongShape :: string where "problemWrongShape = ''wrong-shape-shards''"
definition problemNothingRan :: string where "problemNothingRan = ''nothing-ran''"
definition problemArchGap :: string where "problemArchGap = ''arch-gap''"

definition statusComplete :: string where "statusComplete = ''complete''"
definition statusUnparsed :: string where "statusUnparsed = ''UNPARSED''"
definition statusMissing :: string where "statusMissing = ''MISSING''"
definition statusWrongShape :: string where "statusWrongShape = ''WRONG-SHAPE''"

definition reasonNoHeader :: string where "reasonNoHeader = ''no-header''"
definition reasonShape :: string where "reasonShape = ''shape-mismatch''"
definition reasonObservation :: string where "reasonObservation = ''observation''"

definition OK :: "case_report \<Rightarrow> bool" where "OK r \<longleftrightarrow> cp_Mismatches r = []"

definition logName :: "string \<Rightarrow> string \<Rightarrow> int \<Rightarrow> string" where
  "logName caseName arch shard = caseName @ ''__'' @ arch @ ''__'' @ itoa shard @ ''.log''"

text \<open>A read of a map gives the empty string for an absent key.\<close>

definition sget :: "string gomap \<Rightarrow> string \<Rightarrow> string" where
  "sget m k = (case map_of m k of None \<Rightarrow> '''' | Some v \<Rightarrow> v)"

definition hasReason :: "shard_log \<Rightarrow> string \<Rightarrow> bool" where
  "hasReason sl r \<longleftrightarrow> list_ex (\<lambda>x. x = r \<or> has_prefix x (r @ '':'')) (sl_reasons sl)"


section \<open>One shard\<close>

definition memlocks :: "string gomap" where
  "memlocks = [(''8m'', ''8388608''), (''128m'', ''134217728''), (''unlimited'', ''unlimited'')]"

definition clusterHosts :: "string gomap" where
  "clusterHosts = [(''x86'', ''msa2-server''), (''arm64'', ''msr1'')]"

definition format_bool :: "bool \<Rightarrow> string" where
  "format_bool b = (if b then ''true'' else ''false'')"

definition want :: "string gomap \<Rightarrow> string \<times> string \<Rightarrow> string list" where
  "want h kv =
     (case kv of (key, value) \<Rightarrow>
        if map_of h key = Some value then []
        else [key @ '' is '' @ go_quote (sget h key) @ '', want '' @ go_quote value])"

definition shape_wants :: "stress_case \<Rightarrow> string \<Rightarrow> int \<Rightarrow> string \<Rightarrow> (string \<times> string) list" where
  "shape_wants c arch shard celerisSHA =
     (let limit = sget memlocks (cs_Memlock c)
      in [(''case'', cs_Name c), (''arch'', arch), (''shard'', itoa shard), (''memlock_in_force'', limit @ '':'' @ limit),
          (''count'', itoa (cs_Count c)), (''race'', format_bool (cs_Race c)), (''timeout'', cs_Timeout c), (''run'', cs_Run c),
          (''packages'', join (cs_Packages c) '' ''), (''flags'', join (cs_Flags c) '' ''), (''env'', join (cs_Env c) '' ''),
          (''machine'', sget [(''x86'', ''x86_64''), (''arm64'', ''aarch64'')] arch)]
         @ (if celerisSHA \<noteq> '''' then [(''celeris_sha'', celerisSHA)] else [])
         @ (if cs_Shuffle c \<noteq> '''' then [(''shuffle'', cs_Shuffle c)] else [])
         @ (if cs_Target c = ''cluster'' then [(''target'', ''cluster''), (''host'', sget clusterHosts arch)] else [])
         @ (if cs_Mode c = ''timing''
            then [(''mode'', ''timing''), (''cpus_asked'', itoa (cs_CPUs c)), (''pmu_asked'', cs_PMU c)] else []))"

definition checkShape :: "string gomap \<Rightarrow> stress_case \<Rightarrow> string \<Rightarrow> int \<Rightarrow> string \<Rightarrow> string list" where
  "checkShape h c arch shard celerisSHA = concat (map (want h) (shape_wants c arch shard celerisSHA))"

definition observationReasons :: "(string \<Rightarrow> bool) \<Rightarrow> stress_case \<Rightarrow> shard_log \<Rightarrow> string list" where
  "observationReasons isFloat c sl =
     (if cs_Mode c \<noteq> ''timing'' \<or> sl_refused sl \<noteq> '''' \<or> sl_exit sl = ''refused'' then []
      else case sl_obs sl of
             [ob] \<Rightarrow>
               map (\<lambda>k. reasonObservation @ '': no '' @ k) (filter (\<lambda>k. sget ob k = '''') [''wall_ns'', ''binary_sha256'', ''exit''])
               @ (if cs_PMU c = ''required'' \<and> \<not> isFloat (sget ob ''instructions_u'')
                  then [reasonObservation @ '': pmu required but no instructions_u (perf='' @ sget ob ''perf'' @ '')''] else [])
           | obs \<Rightarrow> [reasonObservation @ '': '' @ itoa (int (length obs))
                      @ '' stress-obs line(s), want exactly 1: the test binary did not run exactly once''])"

definition zero_counts :: counts where
  "zero_counts = \<lparr>ct_Pass = 0, ct_Fail = 0, ct_Skip = 0, ct_NoVerdict = 0\<rparr>"

definition plus_counts :: "counts \<Rightarrow> counts \<Rightarrow> counts" where
  "plus_counts a b = \<lparr>ct_Pass = ct_Pass a + ct_Pass b, ct_Fail = ct_Fail a + ct_Fail b, ct_Skip = ct_Skip a + ct_Skip b,
     ct_NoVerdict = ct_NoVerdict a + ct_NoVerdict b\<rparr>"

definition shard_status :: "(string \<Rightarrow> bool) \<Rightarrow> stress_case \<Rightarrow> string \<Rightarrow> int \<Rightarrow> string \<Rightarrow> shard_log \<Rightarrow> string" where
  "shard_status isFloat c arch shard celerisSHA sl =
     (if sl_refused sl \<noteq> '''' \<or> sl_exit sl = ''refused''
         \<or> checkShape (sl_header sl) c arch shard celerisSHA \<noteq> [] \<and> \<not> hasReason sl reasonNoHeader then statusWrongShape
      else if sl_reasons sl \<noteq> [] \<or> observationReasons isFloat c sl \<noteq> [] then statusUnparsed
      else statusComplete)"

definition judge_shard :: "(string \<Rightarrow> bool) \<Rightarrow> stress_case \<Rightarrow> (string \<Rightarrow> shard_log option) \<Rightarrow> string \<Rightarrow> string \<Rightarrow> int \<Rightarrow> shard_report" where
  "judge_shard isFloat c logs celerisSHA arch shard =
     (let name = logName (cs_Name c) arch shard
      in case logs name of
           None \<Rightarrow> \<lparr>sr_Arch = arch, sr_Shard = shard, sr_Log = name, sr_Status = statusMissing,
              sr_Reasons = [''no log: the shard job never uploaded one''], sr_Notes = [], sr_Exit = '''', sr_Elapsed = '''',
              sr_Counts = zero_counts, sr_Races = 0, sr_TimedOut = [], sr_Header = [], sr_LoadAfter = '''', sr_Observations = 0\<rparr>
         | Some sl \<Rightarrow>
             (let status = shard_status isFloat c arch shard celerisSHA sl
              in \<lparr>sr_Arch = arch, sr_Shard = shard, sr_Log = name, sr_Status = status,
                  sr_Reasons = sl_reasons sl @ observationReasons isFloat c sl
                    @ (if status = statusWrongShape
                       then map (\<lambda>m. reasonShape @ '': '' @ m) (checkShape (sl_header sl) c arch shard celerisSHA) else []),
                  sr_Notes = sl_notes sl, sr_Exit = sl_exit sl, sr_Elapsed = sl_elapsed sl,
                  sr_Counts = foldl plus_counts zero_counts (map snd (sl_results sl)),
                  sr_Races = sl_races sl, sr_TimedOut = sl_timedOut sl, sr_Header = sl_header sl,
                  sr_LoadAfter = sget (sl_after sl) ''loadavg'', sr_Observations = int (length (sl_obs sl))\<rparr>))"


section \<open>The case\<close>

type_synonym row_key = "string \<times> string \<times> string"

record row_acc =
  ra_Counts :: counts
  ra_procs :: int
  ra_failedProcs :: int

definition zero_row :: row_acc where
  "zero_row = \<lparr>ra_Counts = zero_counts, ra_procs = 0, ra_failedProcs = 0\<rparr>"

definition add_counts :: "counts \<Rightarrow> row_acc \<Rightarrow> row_acc" where
  "add_counts v r = \<lparr>ra_Counts = plus_counts (ra_Counts r) v,
     ra_procs = ra_procs r + (if ct_Pass v + ct_Fail v > 0 then 1 else 0),
     ra_failedProcs = ra_failedProcs r + (if ct_Fail v > 0 then 1 else 0)\<rparr>"

fun add_row :: "row_key \<times> counts \<Rightarrow> (row_key \<times> row_acc) list \<Rightarrow> (row_key \<times> row_acc) list" where
  "add_row (k, v) [] = [(k, add_counts v zero_row)]"
| "add_row (k, v) ((k', r) # rs) = (if k = k' then (k', add_counts v r) # rs else (k', r) # add_row (k, v) rs)"

definition shard_indices :: "stress_case \<Rightarrow> (string \<times> int) list" where
  "shard_indices c = concat (map (\<lambda>arch. map (\<lambda>i. (arch, i)) [1..cs_Shards c]) (cs_Arches c))"

text \<open>What a shard of the right shape contributes.\<close>

definition shard_entries :: "(string \<Rightarrow> bool) \<Rightarrow> stress_case \<Rightarrow> (string \<Rightarrow> shard_log option) \<Rightarrow> string \<Rightarrow> string \<times> int
    \<Rightarrow> (row_key \<times> counts) list" where
  "shard_entries isFloat c logs celerisSHA a =
     (case a of (arch, shard) \<Rightarrow> case logs (logName (cs_Name c) arch shard) of
        None \<Rightarrow> []
      | Some sl \<Rightarrow>
          if shard_status isFloat c arch shard celerisSHA sl = statusWrongShape then []
          else map (\<lambda>((pkg, name), v). ((pkg, name, arch), v)) (sl_results sl))"

definition shard_failures :: "(string \<Rightarrow> bool) \<Rightarrow> stress_case \<Rightarrow> (string \<Rightarrow> shard_log option) \<Rightarrow> string \<Rightarrow> string \<times> int \<Rightarrow> failure list" where
  "shard_failures isFloat c logs celerisSHA a =
     (case a of (arch, shard) \<Rightarrow> case logs (logName (cs_Name c) arch shard) of
        None \<Rightarrow> []
      | Some sl \<Rightarrow>
          if shard_status isFloat c arch shard celerisSHA sl = statusWrongShape then []
          else map (\<lambda>f. f\<lparr>fl_Arch := arch, fl_Shard := shard, fl_Shuffle := sget (sl_header sl) ''shuffle''\<rparr>) (sl_failures sl))"

definition archOrder :: "string \<Rightarrow> string" where
  "archOrder a = (if a = ''x86'' then ''0'' else CHR ''1'' # a)"

definition row_of :: "row_key \<times> row_acc \<Rightarrow> test_row" where
  "row_of kr = (case kr of ((pkg, name, arch), r) \<Rightarrow>
     \<lparr>tr_Package = pkg, tr_Name = name, tr_Arch = arch, tr_Processes = ra_procs r, tr_FailedProcesses = ra_failedProcs r,
      tr_Counts = ra_Counts r\<rparr>)"

text \<open>The keys of the rows are distinct, so the sort has one outcome.\<close>

definition case_tests :: "(row_key \<times> counts) list \<Rightarrow> test_row list" where
  "case_tests es = sort_key (\<lambda>t. (tr_Package t, tr_Name t, archOrder (tr_Arch t))) (map row_of (fold add_row es []))"

definition add_distinct :: "string \<Rightarrow> string list \<Rightarrow> string list" where
  "add_distinct x xs = (if x \<noteq> '''' \<and> x \<notin> set xs then xs @ [x] else xs)"

definition count_status :: "string \<Rightarrow> shard_report list \<Rightarrow> int" where
  "count_status st ss = int (length (filter (\<lambda>s. sr_Status s = st) ss))"

definition arch_total_of :: "shard_report list \<Rightarrow> test_row list \<Rightarrow> string \<Rightarrow> arch_total" where
  "arch_total_of shards tests arch =
     (let ss = filter (\<lambda>s. sr_Arch s = arch) shards; ts = filter (\<lambda>t. tr_Arch t = arch) tests
      in \<lparr>at_Arch = arch, at_Shards = int (length ss), at_Complete = count_status statusComplete ss,
          at_Unparsed = count_status statusUnparsed ss, at_Missing = count_status statusMissing ss,
          at_WrongShape = count_status statusWrongShape ss, at_Tests = int (length ts),
          at_Counts = foldl plus_counts zero_counts (map tr_Counts ts),
          at_Kernels = fold (\<lambda>s. add_distinct (sget (sr_Header s) ''kernel'')) ss [],
          at_Images = fold (\<lambda>s. add_distinct (sget (sr_Header s) ''image'')) ss []\<rparr>)"

definition addIf :: "bool \<times> string \<Rightarrow> string list \<Rightarrow> string list" where
  "addIf cp ps = (if fst cp \<and> snd cp \<notin> set ps then ps @ [snd cp] else ps)"

definition arch_problems :: "arch_total \<Rightarrow> (bool \<times> string) list" where
  "arch_problems t =
     [(ct_Fail (at_Counts t) > 0, problemFailures), (at_Unparsed t > 0, problemUnparsed), (at_Missing t > 0, problemMissing),
      (at_WrongShape t > 0, problemWrongShape), (ct_Pass (at_Counts t) + ct_Fail (at_Counts t) = 0, problemNothingRan)]"

definition shortPkg :: "string \<Rightarrow> string" where
  "shortPkg p = trim_prefix p ''github.com/goceleris/celeris/''"

definition ran_on :: "test_row list \<Rightarrow> string \<times> string \<Rightarrow> string \<Rightarrow> bool" where
  "ran_on tests k arch \<longleftrightarrow> list_ex (\<lambda>t. (tr_Package t, tr_Name t) = k \<and> tr_Arch t = arch \<and> tr_Processes t > 0) tests"

text \<open>The keys in the order of their first row.\<close>

definition first_keys :: "test_row list \<Rightarrow> (string \<times> string) list" where
  "first_keys tests = fold (\<lambda>t ks. let k = (tr_Package t, tr_Name t) in if k \<in> set ks then ks else ks @ [k]) tests []"

definition gap_of :: "test_row list \<Rightarrow> string list \<Rightarrow> string \<times> string \<Rightarrow> string list" where
  "gap_of tests arches k =
     (let on = filter (ran_on tests k) arches; off = filter (\<lambda>a. \<not> ran_on tests k a) arches
      in if on \<noteq> [] \<and> off \<noteq> []
         then [snd k @ '' ('' @ shortPkg (fst k) @ '') reached a verdict on '' @ join on '', '' @ '' and never on '' @ join off '', '']
         else [])"

definition archGaps :: "test_row list \<Rightarrow> string list \<Rightarrow> string list" where
  "archGaps tests arches =
     (if length arches < 2 then [] else concat (map (gap_of tests arches) (first_keys tests)))"

definition osRelease :: "string \<Rightarrow> string" where
  "osRelease im =
     (let f = takeWhile (\<lambda>c. c \<noteq> CHR '' '') im;
          cut = (\<lambda>s suf. if has_suffix s suf then take (length s - length suf) s else s)
      in cut (cut f ''-arm64'') ''-arm'')"

definition releases :: "string list \<Rightarrow> string list" where
  "releases ims = sort (remdups (map osRelease ims))"

definition arch_warnings :: "arch_total \<Rightarrow> string list" where
  "arch_warnings t =
     (if length (at_Kernels t) > 1
      then [''the '' @ at_Arch t @ '' shards ran on '' @ itoa (int (length (at_Kernels t))) @ '' kernels: '' @ join (at_Kernels t) '', '']
      else [])
     @ (if length (at_Images t) > 1
        then [''the '' @ at_Arch t @ '' shards ran on '' @ itoa (int (length (at_Images t))) @ '' runner images: '' @ join (at_Images t) '', '']
        else [])"

definition pair_warnings :: "arch_total \<Rightarrow> arch_total \<Rightarrow> string list" where
  "pair_warnings a b =
     (if at_Kernels a \<noteq> [] \<and> at_Kernels b \<noteq> [] \<and> sort (at_Kernels a) \<noteq> sort (at_Kernels b)
      then [''kernel differs between the arches: '' @ at_Arch a @ '' '' @ join (at_Kernels a) '', '' @ '', '' @ at_Arch b @ '' ''
            @ join (at_Kernels b) '', '' @ ''; an arch difference may be a kernel difference'']
      else [])
     @ (if at_Images a \<noteq> [] \<and> at_Images b \<noteq> [] \<and> releases (at_Images a) \<noteq> releases (at_Images b)
        then [''OS image differs between the arches: '' @ at_Arch a @ '' '' @ join (at_Images a) '', '' @ '', '' @ at_Arch b @ '' ''
              @ join (at_Images b) '', '' @ ''; an arch difference may be an image difference'']
        else [])"

definition environmentWarnings :: "arch_total list \<Rightarrow> string list" where
  "environmentWarnings totals =
     concat (map arch_warnings totals)
     @ (case totals of [] \<Rightarrow> [] | a # bs \<Rightarrow> concat (map (pair_warnings a) bs))"

definition countMatches :: "int \<Rightarrow> string \<Rightarrow> bool" where
  "countMatches got wanted =
     (if wanted = '''' then True
      else if has_prefix wanted ''>='' then (case atoi (trim_prefix wanted ''>='') of Some n \<Rightarrow> got \<ge> n | None \<Rightarrow> False)
      else (case atoi wanted of Some n \<Rightarrow> got = n | None \<Rightarrow> False))"

definition expect_test :: "test_row list \<Rightarrow> string \<Rightarrow> count_expect \<Rightarrow> string \<Rightarrow> string list" where
  "expect_test tests name ce arch =
     (let ts = filter (\<lambda>t. tr_Name t = name \<and> tr_Arch t = arch) tests;
          got = foldl plus_counts zero_counts (map tr_Counts ts);
          checks = [(''PASS'', ct_Pass got, ce_Pass ce), (''FAIL'', ct_Fail got, ce_Fail ce), (''SKIP'', ct_Skip got, ce_Skip ce),
            (''no-verdict'', ct_NoVerdict got, ce_NoVerdict ce), (''process'', sum_list (map tr_Processes ts), ce_Processes ce),
            (''failed-process'', sum_list (map tr_FailedProcesses ts), ce_FailedProcesses ce)]
      in map (\<lambda>(what, n, w). name @ '' on '' @ arch @ '': '' @ what @ '' count is '' @ itoa n @ '', expected '' @ w)
           (filter (\<lambda>(what, n, w). \<not> countMatches n w) checks))"

definition expect_shard :: "expect \<Rightarrow> shard_report \<Rightarrow> string list" where
  "expect_shard e s =
     (let sid = sr_Arch s @ ''/'' @ itoa (sr_Shard s); rs = join (sr_Reasons s) ''; ''
      in (if ex_ShardStatus e \<noteq> '''' \<and> sr_Status s \<noteq> ex_ShardStatus e
          then [''shard '' @ sid @ '' is '' @ sr_Status s @ '', expected '' @ ex_ShardStatus e @ '' (reasons: '' @ rs @ '')''] else [])
         @ map (\<lambda>w. ''shard '' @ sid @ '' lacks the reason '' @ go_quote w @ '' (reasons: '' @ rs @ '')'')
             (filter (\<lambda>w. \<not> list_ex (\<lambda>x. x = w \<or> has_prefix x (w @ '':'')) (sr_Reasons s)) (ex_ShardReasons e)))"

definition bracketed :: "string list \<Rightarrow> string" where
  "bracketed xs = ''['' @ join xs '' '' @ '']''"

definition checkExpect :: "case_report \<Rightarrow> expect \<Rightarrow> string list" where
  "checkExpect r e =
     (if cp_Verdict r \<noteq> ex_Verdict e then [''verdict is '' @ cp_Verdict r @ '', expected '' @ ex_Verdict e] else [])
     @ (case ex_Problems e of
          None \<Rightarrow> []
        | Some ps \<Rightarrow>
            if cp_Problems r \<noteq> sort ps
            then [''problems are '' @ bracketed (cp_Problems r) @ '', expected exactly '' @ bracketed (sort ps)] else [])
     @ concat (map (\<lambda>name. concat (map (expect_test (cp_Tests r) name (the (map_of (ex_Tests e) name))) (cs_Arches (cp_Config r))))
         (sorted_keys (ex_Tests e)))
     @ concat (map (expect_shard e) (cp_Shards r))"

definition judgeCaseFrom :: "(string \<Rightarrow> bool) \<Rightarrow> stress_case \<Rightarrow> (string \<Rightarrow> shard_log option) \<Rightarrow> string \<Rightarrow> case_report" where
  "judgeCaseFrom isFloat c logs celerisSHA =
     (let idx = shard_indices c;
          shards = map (\<lambda>(arch, i). judge_shard isFloat c logs celerisSHA arch i) idx;
          tests = case_tests (concat (map (shard_entries isFloat c logs celerisSHA) idx));
          totals = map (arch_total_of shards tests) (cs_Arches c);
          problems = fold addIf (concat (map arch_problems totals)) [];
          gaps = archGaps tests (cs_Arches c);
          problems = sort (addIf (gaps \<noteq> [], problemArchGap) problems);
          rep = \<lparr>cp_Case = cs_Name c, cp_Config = c, cp_CelerisSHA = celerisSHA,
            cp_Verdict = (if problems \<noteq> [] then ''FAIL'' else ''PASS''), cp_Problems = problems, cp_Mismatches = [],
            cp_ArchGaps = gaps, cp_Warnings = environmentWarnings totals, cp_Arches = totals, cp_Shards = shards, cp_Tests = tests,
            cp_Failures = concat (map (shard_failures isFloat c logs celerisSHA) idx)\<rparr>
      in rep\<lparr>cp_Mismatches := checkExpect rep (cs_Expect c)\<rparr>)"


section \<open>Sums over rows\<close>

lemma sum_plus_counts:
  "ct_Pass (foldl plus_counts z cs) = ct_Pass z + sum_list (map ct_Pass cs)"
  "ct_Fail (foldl plus_counts z cs) = ct_Fail z + sum_list (map ct_Fail cs)"
  by (induction cs arbitrary: z) (simp_all add: plus_counts_def)

lemma add_row_sum:
  assumes "\<And>v r. g (add_counts v r) = g r + h v" and "g zero_row = (0 :: int)"
  shows "(\<Sum>(k, r)\<leftarrow>add_row (k0, v) rs. if Q k then g r else 0) = (\<Sum>(k, r)\<leftarrow>rs. if Q k then g r else 0) + (if Q k0 then h v else 0)"
  using assms by (induction "(k0, v)" rs rule: add_row.induct) auto

lemma rows_sum:
  assumes "\<And>v r. g (add_counts v r) = g r + h v" and "g zero_row = (0 :: int)"
  shows "(\<Sum>(k, r)\<leftarrow>fold add_row es rs. if Q k then g r else 0)
    = (\<Sum>(k, r)\<leftarrow>rs. if Q k then g r else 0) + (\<Sum>(k, v)\<leftarrow>es. if Q k then h v else 0)"
proof (induction es arbitrary: rs)
  case (Cons e es)
  obtain k v where e: "e = (k, v)" by (cases e)
  show ?case using Cons [of "add_row e rs"] add_row_sum [of g h Q k v rs, OF assms] by (simp add: e)
qed simp

lemma sum_if_filter: "(\<Sum>x\<leftarrow>filter P xs. f x) = (\<Sum>x\<leftarrow>xs. if P x then f x else (0 :: int))"
  by (induction xs) auto

lemma sum_list_mset_eq: "mset xs = mset ys \<Longrightarrow> (\<Sum>x\<leftarrow>xs. f x) = (\<Sum>x\<leftarrow>ys. f x :: int)"
  by (metis mset_map sum_mset_sum_list)

text \<open>A total over the rows that satisfy a condition on their key is the total over the entries.\<close>

lemma tests_sum:
  assumes "\<And>v r. g (add_counts v r) = g r + h v" and "g zero_row = (0 :: int)"
    and "\<And>k r. G (row_of (k, r)) = g r" and "\<And>k r. P (row_of (k, r)) = Q k"
  shows "(\<Sum>t\<leftarrow>filter P (case_tests es). G t) = (\<Sum>(k, v)\<leftarrow>es. if Q k then h v else 0)"
proof -
  let ?f = "\<lambda>t. if P t then G t else 0"
  have f: "?f (row_of kr) = (case kr of (k, r) \<Rightarrow> if Q k then g r else 0)" for kr using assms(3,4) by (cases kr) simp
  have "(\<Sum>t\<leftarrow>filter P (case_tests es). G t) = (\<Sum>t\<leftarrow>case_tests es. ?f t)" by (rule sum_if_filter)
  also have "\<dots> = (\<Sum>t\<leftarrow>map row_of (fold add_row es []). ?f t)" unfolding case_tests_def by (rule sum_list_mset_eq) simp
  also have "\<dots> = (\<Sum>kr\<leftarrow>fold add_row es []. ?f (row_of kr))" by (simp add: comp_def)
  also have "\<dots> = (\<Sum>(k, r)\<leftarrow>fold add_row es []. if Q k then g r else 0)" unfolding f ..
  also have "\<dots> = (\<Sum>(k, v)\<leftarrow>es. if Q k then h v else 0)" using rows_sum [where g = g and h = h and es = es and rs = "[]" and Q = Q, OF assms(1,2)] by simp
  finally show ?thesis .
qed

lemma sum_list_pos_iff: "\<forall>x\<in>set xs. 0 \<le> f x \<Longrightarrow> 0 < (\<Sum>x\<leftarrow>xs. f x :: int) \<longleftrightarrow> (\<exists>x\<in>set xs. 0 < f x)"
proof (induction xs)
  case (Cons x xs)
  then have "0 \<le> (\<Sum>x\<leftarrow>xs. f x)" by (auto intro!: sum_list_nonneg)
  with Cons show ?case by (auto intro: add_nonneg_pos add_pos_nonneg dest: order_antisym)
qed simp

definition counts_ok :: "counts \<Rightarrow> bool" where
  "counts_ok v \<longleftrightarrow> 0 \<le> ct_Pass v \<and> 0 \<le> ct_Fail v"

lemma total_counts:
  "ct_Pass (at_Counts (arch_total_of shards (case_tests es) arch)) = (\<Sum>((p, n, a), v)\<leftarrow>es. if a = arch then ct_Pass v else 0)"
  "ct_Fail (at_Counts (arch_total_of shards (case_tests es) arch)) = (\<Sum>((p, n, a), v)\<leftarrow>es. if a = arch then ct_Fail v else 0)"
proof -
  have "(\<Sum>t\<leftarrow>filter (\<lambda>t. tr_Arch t = arch) (case_tests es). ct_Pass (tr_Counts t))
      = (\<Sum>(k, v)\<leftarrow>es. if snd (snd k) = arch then ct_Pass v else 0)"
    by (rule tests_sum [where g = "\<lambda>r. ct_Pass (ra_Counts r)"])
       (auto simp: add_counts_def plus_counts_def zero_row_def zero_counts_def row_of_def split: prod.splits)
  then show "ct_Pass (at_Counts (arch_total_of shards (case_tests es) arch)) = (\<Sum>((p, n, a), v)\<leftarrow>es. if a = arch then ct_Pass v else 0)"
    by (simp add: arch_total_of_def Let_def sum_plus_counts zero_counts_def comp_def case_prod_unfold)
  have "(\<Sum>t\<leftarrow>filter (\<lambda>t. tr_Arch t = arch) (case_tests es). ct_Fail (tr_Counts t))
      = (\<Sum>(k, v)\<leftarrow>es. if snd (snd k) = arch then ct_Fail v else 0)"
    by (rule tests_sum [where g = "\<lambda>r. ct_Fail (ra_Counts r)"])
       (auto simp: add_counts_def plus_counts_def zero_row_def zero_counts_def row_of_def split: prod.splits)
  then show "ct_Fail (at_Counts (arch_total_of shards (case_tests es) arch)) = (\<Sum>((p, n, a), v)\<leftarrow>es. if a = arch then ct_Fail v else 0)"
    by (simp add: arch_total_of_def Let_def sum_plus_counts zero_counts_def comp_def case_prod_unfold)
qed

lemma add_row_procs: "\<forall>(k, r)\<in>set rs. 0 \<le> ra_procs r \<Longrightarrow> \<forall>(k, r)\<in>set (add_row e rs). 0 \<le> ra_procs r"
  by (induction e rs rule: add_row.induct) (auto simp: add_counts_def zero_row_def)

lemma rows_procs: "\<forall>(k, r)\<in>set rs. 0 \<le> ra_procs r \<Longrightarrow> \<forall>(k, r)\<in>set (fold add_row es rs). 0 \<le> ra_procs r"
proof (induction es arbitrary: rs)
  case (Cons e es)
  show ?case using Cons.IH [OF add_row_procs [OF Cons.prems]] by simp
qed simp

text \<open>A test ran on an arch when some entry of that key has a verdict.\<close>

lemma ran_on_entries:
  "ran_on (case_tests es) (p, n) arch \<longleftrightarrow> (\<exists>v. ((p, n, arch), v) \<in> set es \<and> ct_Pass v + ct_Fail v > 0)"
proof -
  let ?P = "\<lambda>t. tr_Package t = p \<and> tr_Name t = n \<and> tr_Arch t = arch"
  have nn: "\<forall>t\<in>set (case_tests es). 0 \<le> tr_Processes t"
    using rows_procs [of "[]" es] by (auto simp: case_tests_def row_of_def split: prod.splits)
  have "ran_on (case_tests es) (p, n) arch \<longleftrightarrow> (\<exists>t\<in>set (filter ?P (case_tests es)). 0 < tr_Processes t)"
    by (auto simp: ran_on_def list_ex_iff)
  also have "\<dots> \<longleftrightarrow> 0 < (\<Sum>t\<leftarrow>filter ?P (case_tests es). tr_Processes t)"
    using nn by (intro sum_list_pos_iff [symmetric]) auto
  also have "(\<Sum>t\<leftarrow>filter ?P (case_tests es). tr_Processes t)
      = (\<Sum>(k, v)\<leftarrow>es. if k = (p, n, arch) then (if ct_Pass v + ct_Fail v > 0 then 1 else 0) else 0)"
    by (rule tests_sum [where g = ra_procs]) (auto simp: add_counts_def zero_row_def row_of_def split: prod.splits)
  also have "0 < \<dots> \<longleftrightarrow> (\<exists>v. ((p, n, arch), v) \<in> set es \<and> ct_Pass v + ct_Fail v > 0)"
    by (subst sum_list_pos_iff) (force split: if_splits)+
  finally show ?thesis .
qed

lemma set_first_keys: "set (first_keys tests) = (\<lambda>t. (tr_Package t, tr_Name t)) ` set tests"
proof -
  have "set (fold (\<lambda>t ks. let k = (tr_Package t, tr_Name t) in if k \<in> set ks then ks else ks @ [k]) tests ks)
      = set ks \<union> (\<lambda>t. (tr_Package t, tr_Name t)) ` set tests" for ks
    by (induction tests arbitrary: ks) (auto simp: Let_def)
  then show ?thesis by (simp add: first_keys_def)
qed

lemma archGaps_empty:
  "archGaps tests arches = [] \<longleftrightarrow> (\<forall>k. \<forall>a\<in>set arches. \<forall>b\<in>set arches. ran_on tests k a \<longrightarrow> ran_on tests k b)"
proof (cases "length arches < 2")
  case True
  then have "a = b" if "a \<in> set arches" "b \<in> set arches" for a b
    using that by (cases arches; cases "tl arches") auto
  with True show ?thesis by (auto simp: archGaps_def)
next
  case False
  have k: "k \<in> set (first_keys tests)" if "ran_on tests k a" for k a
    using that by (auto simp: ran_on_def list_ex_iff set_first_keys)
  have "archGaps tests arches = [] \<longleftrightarrow> (\<forall>k\<in>set (first_keys tests). gap_of tests arches k = [])"
    using False by (simp add: archGaps_def)
  also have "\<dots> \<longleftrightarrow> (\<forall>k\<in>set (first_keys tests). \<forall>a\<in>set arches. \<forall>b\<in>set arches. ran_on tests k a \<longrightarrow> ran_on tests k b)"
    by (auto simp: gap_of_def Let_def filter_empty_conv)
  finally show ?thesis using k by blast
qed

lemma addIf_empty: "fold addIf cps ps = [] \<longleftrightarrow> ps = [] \<and> (\<forall>cp\<in>set cps. \<not> fst cp)"
proof (induction cps arbitrary: ps)
  case (Cons cp cps)
  then show ?case by (auto simp: addIf_def)
qed simp

lemma addIf_Nil: "addIf cp ps = [] \<longleftrightarrow> ps = [] \<and> \<not> fst cp"
  by (auto simp: addIf_def)

lemma sort_empty: "sort xs = [] \<longleftrightarrow> xs = ([] :: string list)"
  by (metis length_0_conv length_sort)

lemma count_status_pos: "count_status st ss > 0 \<longleftrightarrow> (\<exists>s\<in>set ss. sr_Status s = st)"
  by (auto simp: count_status_def filter_empty_conv)


section \<open>A clean case\<close>

definition shard_clean :: "(string \<Rightarrow> bool) \<Rightarrow> stress_case \<Rightarrow> (string \<Rightarrow> shard_log option) \<Rightarrow> string \<Rightarrow> string \<Rightarrow> int \<Rightarrow> bool" where
  "shard_clean isFloat c logs celerisSHA arch shard \<longleftrightarrow>
     (\<exists>sl. logs (logName (cs_Name c) arch shard) = Some sl \<and> sl_refused sl = '''' \<and> sl_exit sl \<noteq> ''refused'' \<and> sl_reasons sl = []
        \<and> observationReasons isFloat c sl = [] \<and> checkShape (sl_header sl) c arch shard celerisSHA = [])"

text \<open>A result of a test on an arch: from some shard's log.\<close>

definition result_of :: "stress_case \<Rightarrow> (string \<Rightarrow> shard_log option) \<Rightarrow> string \<Rightarrow> string \<times> string \<Rightarrow> counts \<Rightarrow> bool" where
  "result_of c logs arch k v \<longleftrightarrow>
     (\<exists>i\<in>{1..cs_Shards c}. \<exists>sl. logs (logName (cs_Name c) arch i) = Some sl \<and> (k, v) \<in> set (sl_results sl))"

definition case_clean :: "(string \<Rightarrow> bool) \<Rightarrow> stress_case \<Rightarrow> (string \<Rightarrow> shard_log option) \<Rightarrow> string \<Rightarrow> bool" where
  "case_clean isFloat c logs celerisSHA \<longleftrightarrow>
     (\<forall>arch\<in>set (cs_Arches c).
        (\<forall>i\<in>{1..cs_Shards c}. shard_clean isFloat c logs celerisSHA arch i)
        \<and> (\<forall>k v. result_of c logs arch k v \<longrightarrow> ct_Fail v = 0)
        \<and> (\<exists>k v. result_of c logs arch k v \<and> ct_Pass v > 0)
        \<and> (\<forall>arch'\<in>set (cs_Arches c). \<forall>k v. result_of c logs arch k v \<longrightarrow> ct_Pass v + ct_Fail v > 0
              \<longrightarrow> (\<exists>v'. result_of c logs arch' k v' \<and> ct_Pass v' + ct_Fail v' > 0)))"

lemmas status_strings = statusComplete_def statusUnparsed_def statusMissing_def statusWrongShape_def

lemma judge_shard_status:
  "sr_Arch (judge_shard isFloat c logs sha arch i) = arch"
  "sr_Status (judge_shard isFloat c logs sha arch i) \<in> {statusUnparsed, statusMissing, statusWrongShape}
     \<longleftrightarrow> \<not> shard_clean isFloat c logs sha arch i"
  by (auto simp: judge_shard_def shard_clean_def shard_status_def status_strings hasReason_def Let_def split: option.splits)

lemma entries_clean:
  assumes "shard_clean isFloat c logs sha arch i"
  shows "set (shard_entries isFloat c logs sha (arch, i))
    = {((p, n, arch), v) |p n v. \<exists>sl. logs (logName (cs_Name c) arch i) = Some sl \<and> ((p, n), v) \<in> set (sl_results sl)}"
proof -
  obtain sl where l: "logs (logName (cs_Name c) arch i) = Some sl"
    and s: "shard_status isFloat c arch i sha sl \<noteq> statusWrongShape"
    using assms by (auto simp: shard_clean_def shard_status_def status_strings)
  have "set (map (\<lambda>((pkg, name), v). ((pkg, name, arch), v)) R) = {((p, n, arch), v) |p n v. ((p, n), v) \<in> set R}"
    for R :: "((string \<times> string) \<times> counts) list" by (induction R) auto
  then show ?thesis using l s by (simp add: shard_entries_def)
qed

lemma set_shard_indices: "set (shard_indices c) = {(arch, i). arch \<in> set (cs_Arches c) \<and> i \<in> {1..cs_Shards c}}"
  by (auto simp: shard_indices_def)

lemma all_entries:
  assumes "\<forall>arch\<in>set (cs_Arches c). \<forall>i\<in>{1..cs_Shards c}. shard_clean isFloat c logs sha arch i"
  shows "((p, n, arch), v) \<in> set (concat (map (shard_entries isFloat c logs sha) (shard_indices c)))
    \<longleftrightarrow> arch \<in> set (cs_Arches c) \<and> result_of c logs arch (p, n) v"
proof -
  have "((p, n, arch), v) \<in> set (shard_entries isFloat c logs sha (a, i))
      \<longleftrightarrow> a = arch \<and> (\<exists>sl. logs (logName (cs_Name c) arch i) = Some sl \<and> ((p, n), v) \<in> set (sl_results sl))"
    if "(a, i) \<in> set (shard_indices c)" for a i
  proof -
    have "shard_clean isFloat c logs sha a i" using that assms by (auto simp: set_shard_indices)
    from entries_clean [OF this] show ?thesis by auto
  qed
  note step = this
  have "((p, n, arch), v) \<in> set (concat (map (shard_entries isFloat c logs sha) (shard_indices c)))
      \<longleftrightarrow> (\<exists>x\<in>set (shard_indices c). ((p, n, arch), v) \<in> set (shard_entries isFloat c logs sha x))" by simp
  also have "\<dots> \<longleftrightarrow> (\<exists>x\<in>set (shard_indices c). fst x = arch
      \<and> (\<exists>sl. logs (logName (cs_Name c) arch (snd x)) = Some sl \<and> ((p, n), v) \<in> set (sl_results sl)))"
    using step by (intro bex_cong) (auto simp: prod_eq_iff)
  finally show ?thesis unfolding set_shard_indices result_of_def by auto
qed

text \<open>The shards of an arch are those judged under its name.\<close>

lemma arch_shards:
  assumes "arch \<in> set (cs_Arches c)"
  shows "set (filter (\<lambda>s. sr_Arch s = arch) (map (\<lambda>(a, i). judge_shard isFloat c logs sha a i) (shard_indices c)))
    = (\<lambda>i. judge_shard isFloat c logs sha arch i) ` {1..cs_Shards c}"
  using assms by (auto simp: set_shard_indices judge_shard_status(1))

lemma arch_status_clean:
  assumes "arch \<in> set (cs_Arches c)"
    and "t = arch_total_of (map (\<lambda>(a, i). judge_shard isFloat c logs sha a i) (shard_indices c)) tests arch"
  shows "\<not> at_Unparsed t > 0 \<and> \<not> at_Missing t > 0 \<and> \<not> at_WrongShape t > 0
    \<longleftrightarrow> (\<forall>i\<in>{1..cs_Shards c}. shard_clean isFloat c logs sha arch i)"
proof -
  let ?ss = "filter (\<lambda>s. sr_Arch s = arch) (map (\<lambda>(a, i). judge_shard isFloat c logs sha a i) (shard_indices c))"
  have "\<not> at_Unparsed t > 0 \<and> \<not> at_Missing t > 0 \<and> \<not> at_WrongShape t > 0
      \<longleftrightarrow> (\<forall>s\<in>set ?ss. sr_Status s \<notin> {statusUnparsed, statusMissing, statusWrongShape})"
    by (auto simp: assms(2) arch_total_of_def Let_def count_status_pos)
  moreover have "sr_Status (judge_shard isFloat c logs sha arch i) \<notin> {statusUnparsed, statusMissing, statusWrongShape}
      \<longleftrightarrow> shard_clean isFloat c logs sha arch i" for i
    using judge_shard_status(2) [of isFloat c logs sha arch i] by blast
  ultimately show ?thesis unfolding arch_shards [OF assms(1)] by (simp only: ball_simps)
qed

lemma entries_pos:
  fixes es :: "(row_key \<times> counts) list" and f :: "counts \<Rightarrow> int"
  assumes "\<And>p n a v. ((p, n, a), v) \<in> set es \<Longrightarrow> 0 \<le> f v"
  shows "0 < (\<Sum>((p, n, a), v)\<leftarrow>es. if a = arch then f v else 0) \<longleftrightarrow> (\<exists>p n v. ((p, n, arch), v) \<in> set es \<and> 0 < f v)"
    and "0 \<le> (\<Sum>((p, n, a), v)\<leftarrow>es. if a = arch then f v else 0)"
proof -
  let ?g = "\<lambda>((p, n, a), v). if a = arch then f v else 0"
  have "0 < (\<Sum>x\<leftarrow>es. ?g x) \<longleftrightarrow> (\<exists>x\<in>set es. 0 < ?g x)"
    by (rule sum_list_pos_iff) (use assms in auto)
  also have "\<dots> \<longleftrightarrow> (\<exists>p n v. ((p, n, arch), v) \<in> set es \<and> 0 < f v)" by (force split: if_splits)
  finally show "0 < (\<Sum>x\<leftarrow>es. ?g x) \<longleftrightarrow> (\<exists>p n v. ((p, n, arch), v) \<in> set es \<and> 0 < f v)" .
  show "0 \<le> (\<Sum>x\<leftarrow>es. ?g x)" by (rule sum_list_nonneg) (use assms in auto)
qed

definition results_ok :: "stress_case \<Rightarrow> (string \<Rightarrow> shard_log option) \<Rightarrow> bool" where
  "results_ok c logs \<longleftrightarrow> (\<forall>arch k v. result_of c logs arch k v \<longrightarrow> counts_ok v)"

lemma arch_counts_clean:
  assumes "\<forall>arch\<in>set (cs_Arches c). \<forall>i\<in>{1..cs_Shards c}. shard_clean isFloat c logs sha arch i"
    and "results_ok c logs" and "arch \<in> set (cs_Arches c)"
    and "t = arch_total_of shards (case_tests (concat (map (shard_entries isFloat c logs sha) (shard_indices c)))) arch"
  shows "\<not> ct_Fail (at_Counts t) > 0 \<longleftrightarrow> (\<forall>k v. result_of c logs arch k v \<longrightarrow> ct_Fail v = 0)"
    and "\<not> ct_Fail (at_Counts t) > 0 \<Longrightarrow> ct_Pass (at_Counts t) + ct_Fail (at_Counts t) \<noteq> 0 \<longleftrightarrow> (\<exists>k v. result_of c logs arch k v \<and> ct_Pass v > 0)"
proof -
  let ?es = "concat (map (shard_entries isFloat c logs sha) (shard_indices c))"
  have mem: "((p, n, a), v) \<in> set ?es \<longleftrightarrow> a \<in> set (cs_Arches c) \<and> result_of c logs a (p, n) v" for p n a v
    by (rule all_entries [OF assms(1)])
  have nn: "counts_ok v" if "((p, n, a), v) \<in> set ?es" for p n a v using that assms(2) mem by (auto simp: results_ok_def)
  have pos: "0 < (\<Sum>((p, n, a), v)\<leftarrow>?es. if a = arch then f v else 0) \<longleftrightarrow> (\<exists>k v. result_of c logs arch k v \<and> 0 < f v)"
    if f: "\<And>v. counts_ok v \<Longrightarrow> 0 \<le> f v" for f :: "counts \<Rightarrow> int"
  proof -
    have nf: "0 \<le> f v" if "((p, n, a), v) \<in> set ?es" for p n a v using nn [OF that] f by blast
    show ?thesis using entries_pos(1) [of ?es f arch, OF nf] assms(3) unfolding mem by auto
  qed
  have P: "ct_Pass (at_Counts t) > 0 \<longleftrightarrow> (\<exists>k v. result_of c logs arch k v \<and> ct_Pass v > 0)"
    unfolding assms(4) total_counts by (rule pos) (simp add: counts_ok_def)
  have F: "ct_Fail (at_Counts t) > 0 \<longleftrightarrow> (\<exists>k v. result_of c logs arch k v \<and> ct_Fail v > 0)"
    unfolding assms(4) total_counts by (rule pos) (simp add: counts_ok_def)
  have ge: "0 \<le> ct_Pass (at_Counts t)" "0 \<le> ct_Fail (at_Counts t)"
    unfolding assms(4) total_counts using nn unfolding counts_ok_def by (intro entries_pos(2); blast)+
  show "\<not> ct_Fail (at_Counts t) > 0 \<longleftrightarrow> (\<forall>k v. result_of c logs arch k v \<longrightarrow> ct_Fail v = 0)"
    unfolding F using assms(2) by (force simp: results_ok_def counts_ok_def)
  assume "\<not> ct_Fail (at_Counts t) > 0"
  then show "ct_Pass (at_Counts t) + ct_Fail (at_Counts t) \<noteq> 0 \<longleftrightarrow> (\<exists>k v. result_of c logs arch k v \<and> ct_Pass v > 0)"
    using P ge by auto
qed

text \<open>C15: A stress case passes exactly when it is clean. The verdict is PASS exactly when every planned shard
  of every arch left a log that was read without a reason, ran in the planned shape and was not
  refused, no test failed anywhere, on every arch some test passed, and a test that reached a
  verdict on one arch did on every other; so a missing log, a crash, a wrong shape, a run that only
  skipped and a test that ran on one arch only are never a pass.\<close>

theorem stress_verdict_exact:
  assumes "results_ok c logs"
  shows "cp_Verdict (judgeCaseFrom isFloat c logs sha) = ''PASS'' \<longleftrightarrow> case_clean isFloat c logs sha"
proof -
  let ?A = "set (cs_Arches c)" and ?I = "{1..cs_Shards c}"
  let ?shards = "map (\<lambda>(a, i). judge_shard isFloat c logs sha a i) (shard_indices c)"
  let ?tests = "case_tests (concat (map (shard_entries isFloat c logs sha) (shard_indices c)))"
  let ?t = "arch_total_of ?shards ?tests"
  have pa: "(\<forall>cp\<in>set (arch_problems (?t arch)). \<not> fst cp) \<longleftrightarrow> (\<forall>i\<in>?I. shard_clean isFloat c logs sha arch i)
      \<and> \<not> ct_Fail (at_Counts (?t arch)) > 0 \<and> ct_Pass (at_Counts (?t arch)) + ct_Fail (at_Counts (?t arch)) \<noteq> 0" if "arch \<in> ?A" for arch
    unfolding arch_status_clean [OF that refl, of isFloat logs sha ?tests, symmetric] arch_problems_def by auto
  have "cp_Verdict (judgeCaseFrom isFloat c logs sha) = ''PASS''
      \<longleftrightarrow> (\<forall>arch\<in>?A. \<forall>cp\<in>set (arch_problems (?t arch)). \<not> fst cp) \<and> archGaps ?tests (cs_Arches c) = []"
    unfolding judgeCaseFrom_def Let_def by (simp add: addIf_Nil addIf_empty sort_empty)
  also have "\<dots> \<longleftrightarrow> (\<forall>arch\<in>?A. (\<forall>i\<in>?I. shard_clean isFloat c logs sha arch i) \<and> \<not> ct_Fail (at_Counts (?t arch)) > 0
      \<and> ct_Pass (at_Counts (?t arch)) + ct_Fail (at_Counts (?t arch)) \<noteq> 0) \<and> archGaps ?tests (cs_Arches c) = []"
    using pa by (simp only: cong: ball_cong)
  also have "\<dots> \<longleftrightarrow> case_clean isFloat c logs sha"
  proof (cases "\<forall>arch\<in>?A. \<forall>i\<in>?I. shard_clean isFloat c logs sha arch i")
    case True
    have k: "\<not> ct_Fail (at_Counts (?t arch)) > 0 \<and> ct_Pass (at_Counts (?t arch)) + ct_Fail (at_Counts (?t arch)) \<noteq> 0
        \<longleftrightarrow> (\<forall>k v. result_of c logs arch k v \<longrightarrow> ct_Fail v = 0) \<and> (\<exists>k v. result_of c logs arch k v \<and> ct_Pass v > 0)" if "arch \<in> ?A" for arch
      using arch_counts_clean [OF True assms that refl, of ?shards] by meson
    have "archGaps ?tests (cs_Arches c) = [] \<longleftrightarrow> (\<forall>a\<in>?A. \<forall>b\<in>?A. \<forall>k v. result_of c logs a k v \<longrightarrow> ct_Pass v + ct_Fail v > 0
        \<longrightarrow> (\<exists>v'. result_of c logs b k v' \<and> ct_Pass v' + ct_Fail v' > 0))"
      unfolding archGaps_empty split_paired_All ran_on_entries all_entries [OF True] by blast
    then show ?thesis unfolding case_clean_def using True by (simp only: k cong: ball_cong) blast
  next
    case False
    then show ?thesis by (auto simp: case_clean_def)
  qed
  finally show ?thesis .
qed


section \<open>Witness\<close>

definition w_case :: stress_case where
  "w_case = \<lparr>cs_Name = ''stress'', cs_Purpose = [], cs_Packages = [''./internal/engine/iouring''], cs_Run = '''', cs_Count = 2, cs_Shards = 1,
     cs_Arches = [''x86'', ''arm64''], cs_Memlock = ''8m'', cs_Race = False, cs_Timeout = ''10m'', cs_Flags = [], cs_Env = [],
     cs_Shuffle = '''', cs_Expect = \<lparr>ex_Verdict = ''PASS'', ex_Problems = None, ex_Tests = [], ex_ShardStatus = '''', ex_ShardReasons = []\<rparr>,
     cs_Target = '''', cs_Mode = '''', cs_CPUs = 0, cs_PMU = ''''\<rparr>"

definition w_log :: "string \<Rightarrow> shard_log" where
  "w_log arch = \<lparr>sl_header = shape_wants w_case arch 1 '''', sl_exit = ''0'', sl_elapsed = ''3'', sl_refused = '''',
     sl_results = [((''p'', ''TestA''), \<lparr>ct_Pass = 2, ct_Fail = 0, ct_Skip = 0, ct_NoVerdict = 0\<rparr>),
       ((''p'', ''TestB''), \<lparr>ct_Pass = 0, ct_Fail = 0, ct_Skip = 2, ct_NoVerdict = 0\<rparr>)],
     sl_reasons = [], sl_notes = [], sl_failures = [], sl_races = 0, sl_timedOut = [], sl_after = [], sl_obs = []\<rparr>"

definition w_logs :: "string \<Rightarrow> shard_log option" where
  "w_logs = map_of [(''stress__x86__1.log'', w_log ''x86''), (''stress__arm64__1.log'', w_log ''arm64'')]"

lemma w_results_ok: "results_ok w_case w_logs"
  by (auto simp: results_ok_def result_of_def w_logs_def w_log_def counts_ok_def split: if_splits)

theorem stress_verdict_exact_witness:
  "cp_Verdict (judgeCaseFrom (\<lambda>_. False) w_case w_logs '''') = ''PASS'' \<and> case_clean (\<lambda>_. False) w_case w_logs ''''"
proof -
  have p: "cp_Verdict (judgeCaseFrom (\<lambda>_. False) w_case w_logs '''') = ''PASS''" by code_simp
  with stress_verdict_exact [OF w_results_ok] show ?thesis by blast
qed

end
