(* ===== verification/Shrinker.thy ===== *)
theory Shrinker
  imports Prelude
begin

text \<open>
  The seed shrinker, \<open>src/validation/shrinker.go\<close>, and the configuration \<open>finishIncident\<close> of
  \<open>src/validation/runner.go\<close> starts it with: a bisection of the duration of a failing replay.

  What an attempt meets outside (the pipe, the start of the application, its first lines, the end of
  the replay process) is the record \<open>attempt_env\<close>, given for the index and the duration of the
  attempt. The command line of the replay is not modelled. A file written is its content as data;
  each write may fail.

  The lemmas: when the bug needs a certain time, the bisection ends with a duration that reproduces
  and exceeds that time by less than the floor or the last interval; the original duration is never
  tried; and a replay that was killed counts as a reproduction.
\<close>


section \<open>One attempt\<close>

text \<open>How \<open>replay.Run()\<close> ended: with code 0, with another code, by a signal (of the expired context or of
  anyone), or without having run. A process ended by a signal is an \<open>ExitError\<close> with code -1.\<close>

datatype replay_end = ReplayClean | ReplayExit int | ReplayKilled | ReplayFork string

record attempt_env =
  ae_pipe_err :: "string option"
  ae_start_err :: "string option"
  ae_lines :: "string list"
  ae_replay :: replay_end

text \<open>The lines are those the application printed before the timeout.\<close>

fun waitReadyLine :: "string list \<Rightarrow> string" where
  "waitReadyLine [] = ''''"
| "waitReadyLine (l # ls) =
     (if has_prefix l ''ready addr='' then trim_space (trim_prefix l ''ready addr='') else waitReadyLine ls)"

definition portFromAddr :: "string \<Rightarrow> string" where
  "portFromAddr addr = (if CHR '':'' \<in> set addr then after_last (CHR '':'') addr else addr)"

definition attemptShrink :: "attempt_env \<Rightarrow> bool \<times> int \<times> string option" where
  "attemptShrink e =
     (case ae_pipe_err e of
        Some err \<Rightarrow> (False, 0, Some (''refapp stdout pipe: '' @ err))
      | None \<Rightarrow>
          (case ae_start_err e of
             Some err \<Rightarrow> (False, 0, Some (''start refapp: '' @ err))
           | None \<Rightarrow>
               if waitReadyLine (ae_lines e) = '''' then (False, 0, Some ''refapp did not announce ready addr'')
               else (case ae_replay e of
                       ReplayClean \<Rightarrow> (False, 0, None)
                     | ReplayExit n \<Rightarrow> (True, n, None)
                     | ReplayKilled \<Rightarrow> (True, - 1, None)
                     | ReplayFork err \<Rightarrow> (False, 0, Some (''replay fork: '' @ err)))))"


section \<open>The bisection\<close>

record shrink_result =
  sr_Attempt :: int
  sr_Duration :: duration
  sr_Reproduced :: bool
  sr_ExitCode :: int

record shrink_cfg =
  sc_ReplayBin :: string
  sc_RefappBin :: string
  sc_OriginalDuration :: duration
  sc_MaxAttempts :: int
  sc_MinDuration :: duration

definition shrink_mid :: "duration \<Rightarrow> duration \<Rightarrow> duration \<Rightarrow> duration" where
  "shrink_mid floor low high = (let mid = low + quot (high - low) 2 in if mid < floor then floor else mid)"

text \<open>The loop: \<open>cancelled i\<close> says whether the context has ended before attempt \<open>i\<close>. The attempts are in
  order; the second result is the last that reproduced.\<close>

fun shrink_loop :: "(nat \<Rightarrow> bool) \<Rightarrow> (nat \<Rightarrow> duration \<Rightarrow> attempt_env) \<Rightarrow> duration \<Rightarrow> nat \<Rightarrow> nat \<Rightarrow> duration \<Rightarrow> duration
    \<Rightarrow> shrink_result option \<Rightarrow> shrink_result list \<times> shrink_result option" where
  "shrink_loop cancelled env floor 0 i low high m = ([], m)"
| "shrink_loop cancelled env floor (Suc n) i low high m =
     (if cancelled i then ([], m)
      else let mid = shrink_mid floor low high
           in case attemptShrink (env i mid) of
                (_, _, Some err) \<Rightarrow> ([\<lparr>sr_Attempt = int i, sr_Duration = mid, sr_Reproduced = False, sr_ExitCode = - 1\<rparr>], m)
              | (reproduced, code, None) \<Rightarrow>
                  (let r = \<lparr>sr_Attempt = int i, sr_Duration = mid, sr_Reproduced = reproduced, sr_ExitCode = code\<rparr>;
                       m = (if reproduced then Some r else m);
                       high = (if reproduced then mid else high);
                       low = (if reproduced then low else mid)
                   in if high - low < floor then ([r], m)
                      else let (rs, m) = shrink_loop cancelled env floor n (Suc i) low high m in (r # rs, m)))"

datatype shrink_file =
    SkippedUnset
  | SkippedShort duration duration
  | ShrinkLog int duration duration int "shrink_result list"
  | ShrinkMinimal int duration
  | ShrinkMinimalTxt

definition max_attempts :: "shrink_cfg \<Rightarrow> int" where
  "max_attempts cfg = (if sc_MaxAttempts cfg = 0 then 8 else sc_MaxAttempts cfg)"

definition min_duration :: "shrink_cfg \<Rightarrow> duration" where
  "min_duration cfg = (if sc_MinDuration cfg = 0 then 500 * 1000000 else sc_MinDuration cfg)"

text \<open>The files written in order and the error returned; \<open>write_err\<close> is the error of a write.\<close>

definition shrinkFailingSeed :: "(nat \<Rightarrow> bool) \<Rightarrow> (nat \<Rightarrow> duration \<Rightarrow> attempt_env) \<Rightarrow> (shrink_file \<Rightarrow> string option) \<Rightarrow> int
    \<Rightarrow> shrink_cfg \<Rightarrow> shrink_file list \<times> string option" where
  "shrinkFailingSeed cancelled env write_err seed cfg =
     (let put = (\<lambda>f. case write_err f of None \<Rightarrow> ([f], None) | Some err \<Rightarrow> ([], Some err))
      in if sc_ReplayBin cfg = '''' \<or> sc_RefappBin cfg = '''' then put SkippedUnset
         else let maxAttempts = max_attempts cfg; minDuration = min_duration cfg;
                  original = sc_OriginalDuration cfg
              in if original < minDuration then put (SkippedShort original minDuration)
                 else let (attempts, m) = shrink_loop cancelled env minDuration (nat maxAttempts) 0 minDuration original None;
                          log = ShrinkLog seed original minDuration maxAttempts attempts
                      in case write_err log of
                           Some err \<Rightarrow> ([], Some err)
                         | None \<Rightarrow>
                             (let (fs, err) = put (case m of Some r \<Rightarrow> ShrinkMinimal seed (sr_Duration r) | None \<Rightarrow> ShrinkMinimalTxt)
                              in (log # fs, err)))"

definition incident_shrink_cfg :: "string \<Rightarrow> string \<Rightarrow> shrink_cfg" where
  "incident_shrink_cfg replayBin celerisBin = \<lparr>sc_ReplayBin = replayBin, sc_RefappBin = celerisBin,
     sc_OriginalDuration = 15 * 1000000000, sc_MaxAttempts = 6, sc_MinDuration = 0\<rparr>"


section \<open>The interval\<close>

lemma shrink_mid_bounds:
  assumes "floor \<le> low" and "low < high"
  shows "shrink_mid floor low high = low + (high - low) div 2"
    and "floor \<le> shrink_mid floor low high" and "low \<le> shrink_mid floor low high" and "shrink_mid floor low high < high"
proof -
  have d: "0 \<le> (high - low) div 2" "(high - low) div 2 < high - low" using assms(2) by auto
  have "\<not> low + (high - low) div 2 < floor" using d(1) assms(1) by linarith
  then show m: "shrink_mid floor low high = low + (high - low) div 2"
    using assms(2) by (simp add: shrink_mid_def quot_nonneg Let_def)
  show "floor \<le> shrink_mid floor low high" "low \<le> shrink_mid floor low high" "shrink_mid floor low high < high"
    unfolding m using d assms by linarith+
qed


text \<open>A bug that needs a time \<open>D\<close>: an attempt reproduces exactly when it is given that long.\<close>

definition needs_time :: "(nat \<Rightarrow> duration \<Rightarrow> attempt_env) \<Rightarrow> duration \<Rightarrow> bool" where
  "needs_time env D \<longleftrightarrow> (\<forall>i d. \<exists>code. attemptShrink (env i d) = (D \<le> d, code, None))"

definition bracket :: "duration \<Rightarrow> duration \<Rightarrow> duration \<Rightarrow> duration \<Rightarrow> duration \<Rightarrow> shrink_result option \<Rightarrow> bool" where
  "bracket floor D orig low high m \<longleftrightarrow> floor \<le> low \<and> low \<le> high \<and> high \<le> orig \<and> D \<le> high \<and> (low = floor \<or> low < D)
     \<and> (case m of Some r \<Rightarrow> sr_Duration r = high | None \<Rightarrow> high = orig)"

lemma shrink_converges:
  assumes "needs_time env D" and "\<And>i. \<not> cancelled i" and "0 < floor"
    and "bracket floor D orig low high m" and "low < high"
  shows "\<exists>lo hi. bracket floor D orig lo hi (snd (shrink_loop cancelled env floor n i low high m))
     \<and> (hi - lo < floor \<or> (hi - lo - 1) * 2 ^ n < high - low)"
  using assms(4,5)
proof (induction n arbitrary: i low high m)
  case 0
  then show ?case by (intro exI [of _ low] exI [of _ high]) auto
next
  case (Suc n)
  let ?mid = "shrink_mid floor low high"
  have fl: "floor \<le> low" using Suc.prems(1) by (simp add: bracket_def)
  note b = shrink_mid_bounds [OF fl Suc.prems(2)]
  obtain code where a: "attemptShrink (env i ?mid) = (D \<le> ?mid, code, None)" using assms(1) by (auto simp: needs_time_def)
  define rep where "rep = (D \<le> ?mid)"
  define r where "r = \<lparr>sr_Attempt = int i, sr_Duration = ?mid, sr_Reproduced = rep, sr_ExitCode = code\<rparr>"
  define hi lo m' where "hi = (if rep then ?mid else high)" and "lo = (if rep then low else ?mid)" and "m' = (if rep then Some r else m)"
  have br: "bracket floor D orig lo hi m'"
    using Suc.prems(1) b by (auto simp: bracket_def hi_def lo_def m'_def r_def rep_def)
  have half: "2 * (hi - lo) \<le> high - low + 1" using b(1) by (auto simp: hi_def lo_def)
  have s: "snd (shrink_loop cancelled env floor (Suc n) i low high m)
     = (if hi - lo < floor then m' else snd (shrink_loop cancelled env floor n (Suc i) lo hi m'))"
    using a assms(2) [of i] by (simp add: Let_def hi_def lo_def m'_def r_def rep_def case_prod_unfold)
  show ?case
  proof (cases "hi - lo < floor")
    case True
    then show ?thesis using br s by auto
  next
    case False
    then have "lo < hi" using assms(3) by simp
    from Suc.IH [OF br this, of "Suc i"] obtain lo' hi' where
      t: "bracket floor D orig lo' hi' (snd (shrink_loop cancelled env floor n (Suc i) lo hi m'))"
        "hi' - lo' < floor \<or> (hi' - lo' - 1) * 2 ^ n < hi - lo" by blast
    have "(hi' - lo' - 1) * 2 ^ Suc n < high - low" if "(hi' - lo' - 1) * 2 ^ n < hi - lo"
      using that half by simp
    with t s False show ?thesis by auto
  qed
qed

text \<open>How far above what the bug needs the answer may be: the floor, or what is left of the interval
  after one halving per attempt, with two nanoseconds for the rounding.\<close>

definition shrink_reach :: "shrink_cfg \<Rightarrow> duration" where
  "shrink_reach cfg = max (min_duration cfg)
     ((sc_OriginalDuration cfg - min_duration cfg) div 2 ^ nat (max_attempts cfg) + 2)"

text \<open>C17: The bisection closes in on the bug. When every attempt runs, is not cancelled and reproduces
  exactly if it is given the time \<open>D\<close> the bug needs, at most the original duration, and the files
  can be written, the shrinker writes its log and then one of two files. Either it is
  \<open>shrink_minimal.json\<close> with a duration that reproduces, at most the original, and less than
  \<open>shrink_reach\<close> (the floor, or the interval halved once per attempt) above \<open>D\<close>, or above the floor
  when \<open>D\<close> is below the floor; or it is the text that no shorter duration was found, and then the
  original duration itself is less than \<open>shrink_reach\<close> above \<open>D\<close> (or the floor). So a duration is
  always written for a bug that needs less than the original by at least that distance.\<close>

theorem shrink_minimal_close:
  assumes "needs_time env D" and "\<And>i. \<not> cancelled i" and "\<And>f. write_err f = None"
    and "sc_ReplayBin cfg \<noteq> []" and "sc_RefappBin cfg \<noteq> []"
    and "0 < min_duration cfg" and "min_duration cfg < sc_OriginalDuration cfg" and "D \<le> sc_OriginalDuration cfg"
  shows "\<exists>attempts. let log = ShrinkLog seed (sc_OriginalDuration cfg) (min_duration cfg) (max_attempts cfg) attempts in
    (\<exists>d. shrinkFailingSeed cancelled env write_err seed cfg = ([log, ShrinkMinimal seed d], None) \<and>
       D \<le> d \<and> d \<le> sc_OriginalDuration cfg \<and> d < max D (min_duration cfg) + shrink_reach cfg) \<or>
    shrinkFailingSeed cancelled env write_err seed cfg = ([log, ShrinkMinimalTxt], None) \<and>
      sc_OriginalDuration cfg < max D (min_duration cfg) + shrink_reach cfg"
proof -
  let ?f = "min_duration cfg" and ?o = "sc_OriginalDuration cfg" and ?n = "nat (max_attempts cfg)"
  obtain rs m where l: "shrink_loop cancelled env ?f ?n 0 ?f ?o None = (rs, m)" by fastforce
  have "bracket ?f D ?o ?f ?o None" using assms(7,8) by (simp add: bracket_def)
  from shrink_converges [where n = ?n and i = 0 and cancelled = cancelled, OF assms(1,2,6) this assms(7)] l obtain lo hi
    where b: "bracket ?f D ?o lo hi m" and s: "hi - lo < ?f \<or> (hi - lo - 1) * 2 ^ ?n < ?o - ?f" by auto
  have "hi - lo - 1 \<le> (?o - ?f) div 2 ^ ?n" if "(hi - lo - 1) * 2 ^ ?n < ?o - ?f"
    using zdiv_mono1 [OF less_imp_le [OF that], of "2 ^ ?n"] by simp
  with s have "hi - lo < shrink_reach cfg" unfolding shrink_reach_def by linarith
  moreover have "hi - max D ?f \<le> hi - lo" using b by (auto simp: bracket_def)
  ultimately have e: "hi < max D ?f + shrink_reach cfg" by linarith
  have run: "shrinkFailingSeed cancelled env write_err seed cfg = ([ShrinkLog seed ?o ?f (max_attempts cfg) rs,
      case m of Some r \<Rightarrow> ShrinkMinimal seed (sr_Duration r) | None \<Rightarrow> ShrinkMinimalTxt], None)"
    using assms(3-7) l by (simp add: shrinkFailingSeed_def Let_def)
  show ?thesis
    unfolding Let_def
    by (rule exI [of _ rs]) (use b e run in \<open>auto simp: bracket_def split: option.splits\<close>)
qed


text \<open>An attempt whose refapp came up and whose replay was killed because the context ended.\<close>

definition replay_killed :: "attempt_env \<Rightarrow> bool" where
  "replay_killed e \<longleftrightarrow> ae_pipe_err e = None \<and> ae_start_err e = None \<and> waitReadyLine (ae_lines e) \<noteq> [] \<and>
     ae_replay e = ReplayKilled"

lemma shrink_last_kept:
  assumes "0 < floor" and "floor \<le> low" and "low < high" and "sr_Duration r = high"
  shows "\<exists>x. snd (shrink_loop cancelled env floor n i low high (Some r)) = Some x \<and> sr_Duration x \<le> high \<and>
    (cancelled i \<longrightarrow> x = r)"
  using assms(2-4)
proof (induction n arbitrary: i low high r)
  case (Suc n)
  let ?mid = "shrink_mid floor low high"
  note b = shrink_mid_bounds [OF Suc.prems(1,2)]
  obtain rep code err where a: "attemptShrink (env i ?mid) = (rep, code, err)" by (cases "attemptShrink (env i ?mid)")
  define r' where "r' = \<lparr>sr_Attempt = int i, sr_Duration = ?mid, sr_Reproduced = rep, sr_ExitCode = code\<rparr>"
  let ?high = "if rep then ?mid else high" and ?low = "if rep then low else ?mid" and ?m = "if rep then r' else r"
  show ?case
  proof (cases "cancelled i \<or> err \<noteq> None \<or> ?high - ?low < floor")
    case True
    then show ?thesis using Suc.prems b a by (auto simp: Let_def r'_def split: option.splits)
  next
    case False
    then have "?low < ?high" using assms(1) by (auto split: if_splits)
    moreover have "floor \<le> ?low" using Suc.prems(1) b(2) by presburger
    ultimately obtain x where
      "snd (shrink_loop cancelled env floor n (Suc i) ?low ?high (Some ?m)) = Some x" "sr_Duration x \<le> ?high"
      using Suc.IH [of ?low ?high ?m "Suc i"] Suc.prems(3) by (cases rep) (auto simp: r'_def)
    moreover have "snd (shrink_loop cancelled env floor (Suc n) i low high (Some r)) =
        snd (shrink_loop cancelled env floor n (Suc i) ?low ?high (Some ?m))"
      using False a by (auto simp: Let_def r'_def case_prod_unfold)
    ultimately show ?thesis using False b by (auto split: if_splits)
  qed
qed simp

lemma killed_attempt:
  assumes "0 < floor" and "floor \<le> low" and "low < high"
    and "r \<in> set (fst (shrink_loop cancelled env floor n i low high m))"
    and "replay_killed (env (nat (sr_Attempt r)) (sr_Duration r))"
  shows "sr_Reproduced r \<and> sr_ExitCode r = - 1 \<and>
    (\<exists>x. snd (shrink_loop cancelled env floor n i low high m) = Some x \<and> sr_Duration x \<le> sr_Duration r \<and>
       (cancelled (Suc (nat (sr_Attempt r))) \<longrightarrow> x = r))"
  using assms(2-5)
proof (induction n arbitrary: i low high m)
  case (Suc n)
  let ?mid = "shrink_mid floor low high"
  note b = shrink_mid_bounds [OF Suc.prems(1,2)]
  obtain rep code err where a: "attemptShrink (env i ?mid) = (rep, code, err)" by (cases "attemptShrink (env i ?mid)")
  define r' where "r' = \<lparr>sr_Attempt = int i, sr_Duration = ?mid, sr_Reproduced = rep, sr_ExitCode = code\<rparr>"
  let ?high = "if rep then ?mid else high" and ?low = "if rep then low else ?mid" and ?m = "if rep then Some r' else m"
  let ?rest = "shrink_loop cancelled env floor n (Suc i) ?low ?high ?m"
  have nc: "\<not> cancelled i" using Suc.prems(3) by auto
  have first: "attemptShrink (env i ?mid) = (True, - 1, None)" if "r = r' \<or> sr_Attempt r = int i \<and> sr_Duration r = ?mid"
    using that Suc.prems(4) by (auto simp: r'_def replay_killed_def attemptShrink_def)
  have ne: "err = None"
    using Suc.prems(3) nc a first by (auto simp: Let_def split: option.splits)
  have lp: "shrink_loop cancelled env floor (Suc n) i low high m =
      (if ?high - ?low < floor then ([r'], ?m) else (r' # fst ?rest, snd ?rest))"
    using nc a ne by (simp add: Let_def r'_def case_prod_unfold)
  show ?case
  proof (cases "r = r'")
    case True
    then have k: "rep" "code = - 1" using first a by auto
    have "?low < ?high" if "\<not> ?high - ?low < floor" using that assms(1) by linarith
    then show ?thesis
      using shrink_last_kept [OF assms(1), of ?low ?high r' cancelled env n "Suc i"] Suc.prems(1) True k lp
      by (auto simp: r'_def)
  next
    case False
    with Suc.prems(3) lp have t: "\<not> ?high - ?low < floor" "r \<in> set (fst ?rest)" by (auto split: if_splits)
    then have "?low < ?high" using assms(1) by linarith
    moreover have "floor \<le> ?low" using Suc.prems(1) b(2) by presburger
    ultimately show ?thesis using Suc.IH [of ?low ?high "Suc i" ?m] t Suc.prems(4) lp by simp
  qed
qed simp

text \<open>C20: A killed replay is booked as a reproduction. Take any run of the shrinker that wrote its
  files, and any attempt of its log whose refapp came up and whose replay was killed. The attempt
  is recorded as reproduced with exit code -1, and \<open>shrink_minimal.json\<close> is written with that
  attempt's duration or a shorter one; when the context has ended by the next attempt, as it has
  when it is what killed the replay, the duration written is exactly that attempt's, although no
  replay failed there.\<close>

theorem killed_replay_reproduces:
  assumes "0 < min_duration cfg" and "min_duration cfg < sc_OriginalDuration cfg" and "\<And>f. write_err f = None"
    and "ShrinkLog s original floor n attempts \<in> set (fst (shrinkFailingSeed cancelled env write_err seed cfg))"
    and "r \<in> set attempts" and "replay_killed (env (nat (sr_Attempt r)) (sr_Duration r))"
  shows "sr_Reproduced r \<and> sr_ExitCode r = - 1 \<and>
    (\<exists>d. shrinkFailingSeed cancelled env write_err seed cfg =
        ([ShrinkLog s original floor n attempts, ShrinkMinimal seed d], None) \<and> d \<le> sr_Duration r \<and>
        (cancelled (Suc (nat (sr_Attempt r))) \<longrightarrow> d = sr_Duration r))"
proof -
  let ?l = "shrink_loop cancelled env (min_duration cfg) (nat (max_attempts cfg)) 0 (min_duration cfg) (sc_OriginalDuration cfg) None"
  have at: "attempts = fst ?l" and run: "shrinkFailingSeed cancelled env write_err seed cfg =
      ([ShrinkLog s original floor n attempts,
        case snd ?l of Some r \<Rightarrow> ShrinkMinimal seed (sr_Duration r) | None \<Rightarrow> ShrinkMinimalTxt], None)"
    using assms(2-4) by (auto simp: shrinkFailingSeed_def Let_def split: if_splits option.splits prod.splits)
  show ?thesis
    using killed_attempt [OF assms(1) order_refl assms(2) assms(5) [unfolded at] assms(6)] run by auto
qed


section \<open>Witnesses\<close>

definition w_env :: "duration \<Rightarrow> nat \<Rightarrow> duration \<Rightarrow> attempt_env" where
  "w_env D i d = \<lparr>ae_pipe_err = None, ae_start_err = None, ae_lines = [''boot'', ''ready addr=127.0.0.1:4711''],
     ae_replay = (if D \<le> d then ReplayExit 1 else ReplayClean)\<rparr>"

text \<open>The first attempt runs clean and the context ends during the second.\<close>

definition w_killed :: "nat \<Rightarrow> duration \<Rightarrow> attempt_env" where
  "w_killed i d = (w_env 0 i d)\<lparr>ae_replay := (if i = 0 then ReplayClean else ReplayKilled)\<rparr>"

definition w_shrink_cfg :: shrink_cfg where "w_shrink_cfg = incident_shrink_cfg ''replay'' ''celeris''"

lemma w_env_needs: "needs_time (w_env D) D"
proof -
  have "waitReadyLine [''boot'', ''ready addr=127.0.0.1:4711''] \<noteq> []" by code_simp
  then show ?thesis by (simp add: needs_time_def w_env_def attemptShrink_def del: waitReadyLine.simps)
qed

lemma w_shrink_cfg: "min_duration w_shrink_cfg = 500000000" "sc_OriginalDuration w_shrink_cfg = 15000000000"
    "max_attempts w_shrink_cfg = 6" "sc_ReplayBin w_shrink_cfg \<noteq> []" "sc_RefappBin w_shrink_cfg \<noteq> []"
  by (simp_all add: w_shrink_cfg_def incident_shrink_cfg_def min_duration_def max_attempts_def)

text \<open>With the configuration of an incident the answer is less than half a second above what the bug needs.\<close>

theorem shrink_minimal_close_witness:
  "\<exists>d attempts. 3000000000 \<le> d \<and> d < 3500000000 \<and>
     shrinkFailingSeed (\<lambda>i. False) (w_env 3000000000) (\<lambda>f. None) 7 w_shrink_cfg =
       ([ShrinkLog 7 15000000000 500000000 6 attempts, ShrinkMinimal 7 d], None)"
proof -
  have "shrink_reach w_shrink_cfg = 500000000" by (simp add: shrink_reach_def w_shrink_cfg)
  then show ?thesis
    using shrink_minimal_close [OF w_env_needs [of 3000000000], of "\<lambda>i. False" "\<lambda>f. None" w_shrink_cfg 7]
    by (auto simp: w_shrink_cfg Let_def)
qed



definition w_killed_tries :: "shrink_result list" where
  "w_killed_tries = [\<lparr>sr_Attempt = 0, sr_Duration = 7750000000, sr_Reproduced = False, sr_ExitCode = 0\<rparr>,
     \<lparr>sr_Attempt = 1, sr_Duration = 11375000000, sr_Reproduced = True, sr_ExitCode = - 1\<rparr>]"

theorem killed_replay_reproduces_witness:
  "\<exists>log. shrinkFailingSeed (\<lambda>i. 1 < i) w_killed (\<lambda>f. None) 7 w_shrink_cfg = ([log, ShrinkMinimal 7 11375000000], None)"
proof -
  let ?r = "w_killed_tries ! 1"
  have w: "waitReadyLine [''boot'', ''ready addr=127.0.0.1:4711''] \<noteq> []" by code_simp
  have l: "hd (fst (shrinkFailingSeed (\<lambda>i. 1 < i) w_killed (\<lambda>f. None) 7 w_shrink_cfg)) =
      ShrinkLog 7 15000000000 500000000 6 w_killed_tries"
    "fst (shrinkFailingSeed (\<lambda>i. 1 < i) w_killed (\<lambda>f. None) 7 w_shrink_cfg) \<noteq> []" by code_simp+
  have m: "ShrinkLog 7 15000000000 500000000 6 w_killed_tries \<in>
      set (fst (shrinkFailingSeed (\<lambda>i. 1 < i) w_killed (\<lambda>f. None) 7 w_shrink_cfg))"
    using hd_in_set [OF l(2)] unfolding l(1) .
  have r: "?r \<in> set w_killed_tries" "sr_Duration ?r = 11375000000" "nat (sr_Attempt ?r) = 1"
    by (simp_all add: w_killed_tries_def)
  have "replay_killed (w_killed (nat (sr_Attempt ?r)) (sr_Duration ?r))"
    using w unfolding r by (simp add: replay_killed_def w_killed_def w_env_def del: waitReadyLine.simps)
  from killed_replay_reproduces [OF _ _ _ m r(1) this] show ?thesis
    unfolding r by (auto simp: w_shrink_cfg)
qed

end
