(* ===== verification/EchoVerdict.thy ===== *)
theory EchoVerdict
  imports Prelude
begin

text \<open>
  The timeout discriminator of the WebSocket echo walker, \<open>src/validation/ws_echo_verdict.go\<close>: a parser
  of the output of \<open>ss\<close>, the choice of the two ends of the connection, and the verdict slow, wedged
  or indeterminate drawn from two instants.

  The text of \<open>ss\<close> is ASCII. Arithmetic on byte counts is \<open>int64\<close> and wraps. A verdict carries its
  machine-readable line.

  The lemmas: over the counters a TCP connection really has (\<open>tcp_end\<close>, with what \<open>ss\<close> prints of them
  as \<open>printed\<close>), the verdict is slow exactly when the server application read or wrote enough in the
  window, and wedged exactly when it did neither while bytes were pending at both instants; missing
  evidence is never a wedge; and the parser reads back what \<open>ss -tmin\<close> prints.
\<close>


section \<open>Sockets\<close>

definition verdictSlow :: string where "verdictSlow = ''SLOW_CLASS''"
definition verdictWedge :: string where "verdictWedge = ''WEDGE_CLASS''"
definition verdictIndeterminate :: string where "verdictIndeterminate = ''INDETERMINATE''"

definition wsEchoMinWindow :: duration where "wsEchoMinWindow = 2 * 1000000000"
definition wsEchoMinWrite :: int where "wsEchoMinWrite = 256"

record ss_sock =
  ss_State :: string
  ss_RecvQ :: int
  ss_SendQ :: int
  ss_Local :: string
  ss_Peer :: string
  ss_Info :: "string gomap"
  ss_skmem :: "int gomap"
  ss_Raw :: string

text \<open>A socket pointer is an option; a value with its flag is an option too.\<close>

definition ss_Int :: "ss_sock option \<Rightarrow> string \<Rightarrow> int option" where
  "ss_Int s key = (case s of None \<Rightarrow> None | Some s \<Rightarrow> (case map_of (ss_Info s) key of None \<Rightarrow> None | Some v \<Rightarrow> atoi v))"

definition hasDetail :: "ss_sock option \<Rightarrow> bool" where
  "hasDetail s = (case s of None \<Rightarrow> False
     | Some s \<Rightarrow> map_of (ss_Info s) ''cwnd'' \<noteq> None \<or> map_of (ss_Info s) ''rto'' \<noteq> None)"

definition Counter :: "ss_sock option \<Rightarrow> string \<Rightarrow> int option" where
  "Counter s key =
     (case ss_Int s key of
        Some n \<Rightarrow> Some n
      | None \<Rightarrow>
          if \<not> hasDetail s then None
          else (case s of
                  None \<Rightarrow> None
                | Some s \<Rightarrow>
                    if map_of (ss_Info s) key \<noteq> None then None
                    else if key = ''bytes_acked'' then Some 0
                    else if key = ''bytes_received'' then (if ss_RecvQ s = 0 then Some 0 else None)
                    else None))"

definition Skmem :: "ss_sock option \<Rightarrow> string \<Rightarrow> int option" where
  "Skmem s key = (case s of None \<Rightarrow> None | Some s \<Rightarrow> map_of (ss_skmem s) key)"

definition portOf :: "string \<Rightarrow> int" where
  "portOf addr =
     (if CHR '':'' \<notin> set addr then - 1
      else case atoi (after_last (CHR '':'') addr) of None \<Rightarrow> - 1 | Some n \<Rightarrow> n)"


section \<open>The parser\<close>

text \<open>\<open>skmem:\(([^)]*)\)\<close>: the text between the first opening and the next closing parenthesis.\<close>

fun ssSkmemRe :: "string \<Rightarrow> string option" where
  "ssSkmemRe [] = None"
| "ssSkmemRe (c # s) =
     (let rest = drop 7 (c # s)
      in if has_prefix (c # s) ''skmem:('' \<and> CHR '')'' \<in> set rest
         then Some (takeWhile (\<lambda>d. d \<noteq> CHR '')'') rest)
         else ssSkmemRe s)"

definition is_lower :: "char \<Rightarrow> bool" where
  "is_lower c \<longleftrightarrow> 97 \<le> (of_char c :: nat) \<and> (of_char c :: nat) \<le> 122"

definition is_upper :: "char \<Rightarrow> bool" where
  "is_upper c \<longleftrightarrow> 65 \<le> (of_char c :: nat) \<and> (of_char c :: nat) \<le> 90"

definition ssSkmemFld :: "string \<Rightarrow> (string \<times> string) option" where
  "ssSkmemFld fld =
     (let key = takeWhile is_lower fld; num = dropWhile is_lower fld
      in if key \<noteq> [] \<and> num \<noteq> [] \<and> list_all is_digit num then Some (key, num) else None)"

definition ssInfoTokRe :: "string \<Rightarrow> (string \<times> string) option" where
  "ssInfoTokRe tok =
     (let key = takeWhile (\<lambda>c. c \<noteq> CHR '':'') tok; val = tl (dropWhile (\<lambda>c. c \<noteq> CHR '':'') tok)
      in if CHR '':'' \<in> set tok \<and> key \<noteq> [] \<and> (is_lower (hd key) \<or> is_upper (hd key) \<or> hd key = CHR ''_'')
            \<and> list_all (\<lambda>c. is_lower c \<or> is_upper c \<or> is_digit c \<or> c = CHR ''_'') key \<and> val \<noteq> []
         then Some (key, val) else None)"

definition add_skmem :: "string \<Rightarrow> int gomap \<Rightarrow> int gomap" where
  "add_skmem fld m =
     (case ssSkmemFld fld of None \<Rightarrow> m | Some (k, n) \<Rightarrow> (case atoi n of None \<Rightarrow> m | Some v \<Rightarrow> (k, v) # m))"

definition add_info :: "string \<Rightarrow> string gomap \<Rightarrow> string gomap" where
  "add_info tok m = (case ssInfoTokRe tok of None \<Rightarrow> m | Some (k, v) \<Rightarrow> if k \<noteq> ''skmem'' then (k, v) # m else m)"

definition detail_line :: "string \<Rightarrow> ss_sock \<Rightarrow> ss_sock" where
  "detail_line line s =
     s\<lparr>ss_Raw := ss_Raw s @ line @ [CHR 0x0A],
       ss_skmem := (case ssSkmemRe line of None \<Rightarrow> ss_skmem s | Some t \<Rightarrow> fold add_skmem (split_on (CHR '','') t) (ss_skmem s)),
       ss_Info := fold add_info (words_of [] line) (ss_Info s)\<rparr>"

definition socket_line :: "string \<Rightarrow> ss_sock option" where
  "socket_line line =
     (case words_of [] line of
        state # rq # sq # l # p # _ \<Rightarrow>
          if state = ''State'' \<or> has_prefix state ''###'' then None
          else (case (atoi rq, atoi sq) of
                  (Some r, Some q) \<Rightarrow> Some \<lparr>ss_State = state, ss_RecvQ = r, ss_SendQ = q, ss_Local = l, ss_Peer = p,
                      ss_Info = [], ss_skmem = [], ss_Raw = line @ [CHR 0x0A]\<rparr>
                | _ \<Rightarrow> None)
      | _ \<Rightarrow> None)"

definition flush_sock :: "ss_sock list \<times> ss_sock option \<Rightarrow> ss_sock list" where
  "flush_sock acc = (case acc of (out, None) \<Rightarrow> out | (out, Some s) \<Rightarrow> out @ [s])"

definition parse_line :: "string \<Rightarrow> ss_sock list \<times> ss_sock option \<Rightarrow> ss_sock list \<times> ss_sock option" where
  "parse_line line acc =
     (if trim_space line = [] then acc
      else if hd line \<noteq> CHR '' '' \<and> hd line \<noteq> CHR 0x09 then (flush_sock acc, socket_line line)
      else (fst acc, map_option (detail_line line) (snd acc)))"

definition parseSS :: "string \<Rightarrow> ss_sock list" where
  "parseSS text = flush_sock (fold parse_line (split_on (CHR 0x0A) text) ([], None))"

definition pick_end :: "int \<Rightarrow> int \<Rightarrow> ss_sock \<Rightarrow> ss_sock option \<times> ss_sock option \<Rightarrow> ss_sock option \<times> ss_sock option" where
  "pick_end clientPort serverPort s acc =
     (let (srv, cli) = acc; lp = portOf (ss_Local s); pp = portOf (ss_Peer s)
      in if lp = clientPort \<and> pp = serverPort \<and> cli = None then (srv, Some s)
         else if lp = serverPort \<and> pp = clientPort \<and> srv = None then (Some s, cli)
         else acc)"

definition findEchoSocks :: "ss_sock list \<Rightarrow> int \<Rightarrow> int \<Rightarrow> ss_sock option \<times> ss_sock option" where
  "findEchoSocks socks clientPort serverPort =
     (if clientPort \<le> 0 \<or> serverPort \<le> 0 then (None, None)
      else fold (pick_end clientPort serverPort) socks (None, None))"


section \<open>The verdict\<close>

record echo_instant =
  ei_At :: int
  ei_Echoes :: int
  ei_Sent :: int
  ei_BytesIn :: int
  ei_SSErr :: string
  ei_Server :: "ss_sock option"
  ei_Client :: "ss_sock option"

record echo_verdict =
  vd_Class :: string
  vd_Reason :: string
  vd_Line :: string

definition recvQ :: "ss_sock option \<Rightarrow> int" where
  "recvQ s = (case s of None \<Rightarrow> 0 | Some s \<Rightarrow> ss_RecvQ s)"

definition sendQ :: "ss_sock option \<Rightarrow> int" where
  "sendQ s = (case s of None \<Rightarrow> 0 | Some s \<Rightarrow> ss_SendQ s)"

definition srvReads :: "echo_instant \<Rightarrow> echo_instant \<Rightarrow> int option" where
  "srvReads t0 t1 =
     (case (ei_Server t0, ei_Server t1, Counter (ei_Server t0) ''bytes_received'', Counter (ei_Server t1) ''bytes_received'') of
        (Some s0, Some s1, Some r0, Some r1) \<Rightarrow> Some (wrap64 (wrap64 (r1 - r0) - wrap64 (ss_RecvQ s1 - ss_RecvQ s0)))
      | _ \<Rightarrow> None)"

definition srvWrites :: "echo_instant \<Rightarrow> echo_instant \<Rightarrow> int option" where
  "srvWrites t0 t1 =
     (case (ei_Server t0, ei_Server t1, Counter (ei_Server t0) ''bytes_acked'', Counter (ei_Server t1) ''bytes_acked'') of
        (Some s0, Some s1, Some a0, Some a1) \<Rightarrow> Some (wrap64 (wrap64 (a1 + ss_SendQ s1) - wrap64 (a0 + ss_SendQ s0)))
      | _ \<Rightarrow> None)"

definition clientBytesUnexplained :: "echo_instant \<Rightarrow> echo_instant \<Rightarrow> int \<Rightarrow> bool" where
  "clientBytesUnexplained t0 t1 writes \<longleftrightarrow>
     (let arrived = wrap64 (wrap64 (ei_BytesIn t1) - wrap64 (ei_BytesIn t0));
          supply = wrap64 (sendQ (ei_Server t0) + writes);
          supply = (case ei_Client t0 of None \<Rightarrow> supply | Some c \<Rightarrow> wrap64 (supply + ss_RecvQ c))
      in arrived > supply)"

definition bytesNew :: "echo_instant \<Rightarrow> echo_instant \<Rightarrow> int" where
  "bytesNew t0 t1 =
     (let n = wrap64 (wrap64 (ei_BytesIn t1) - wrap64 (ei_BytesIn t0))
      in case ei_Client t0 of None \<Rightarrow> n | Some c \<Rightarrow> wrap64 (n - ss_RecvQ c))"

definition verdict_kv :: "string \<Rightarrow> int option \<Rightarrow> string" where
  "verdict_kv name v = '' '' @ name @ ''='' @ (case v of Some n \<Rightarrow> itoa n | None \<Rightarrow> ''na'')"

definition instant_fields :: "string \<Rightarrow> echo_instant \<Rightarrow> string" where
  "instant_fields t i =
     (let srv = ei_Server i; cli = ei_Client i; here = (\<lambda>s v. if s = None then None else Some v)
      in verdict_kv (''srv_recvq_'' @ t) (here srv (recvQ srv)) @ verdict_kv (''srv_sendq_'' @ t) (here srv (sendQ srv))
         @ verdict_kv (''srv_bytes_received_'' @ t) (Counter srv ''bytes_received'')
         @ verdict_kv (''srv_bytes_acked_'' @ t) (Counter srv ''bytes_acked'')
         @ verdict_kv (''srv_skmem_r_'' @ t) (Skmem srv ''r'') @ verdict_kv (''srv_rcv_wnd_'' @ t) (ss_Int srv ''rcv_wnd'')
         @ verdict_kv (''cli_sendq_'' @ t) (here cli (sendQ cli)) @ verdict_kv (''cli_recvq_'' @ t) (here cli (recvQ cli))
         @ verdict_kv (''srv_written_'' @ t) (map_option (\<lambda>a. wrap64 (a + sendQ srv)) (Counter srv ''bytes_acked'')))"

definition verdictLine :: "string \<Rightarrow> string \<Rightarrow> duration \<Rightarrow> echo_instant \<Rightarrow> echo_instant \<Rightarrow> string" where
  "verdictLine cls reason window t0 t1 =
     ''WS_ECHO_VERDICT='' @ cls @ '' reason='' @ reason @ '' window_ms='' @ itoa (quot window 1000000)
     @ '' echoes_t0='' @ itoa (ei_Echoes t0) @ '' echoes_t1='' @ itoa (ei_Echoes t1)
     @ '' bytes_in_t0='' @ itoa (ei_BytesIn t0) @ '' bytes_in_t1='' @ itoa (ei_BytesIn t1)
     @ '' bytes_new='' @ itoa (bytesNew t0 t1) @ '' sent='' @ itoa (max (ei_Sent t0) (ei_Sent t1))
     @ verdict_kv ''srv_app_reads'' (srvReads t0 t1) @ verdict_kv ''srv_app_writes'' (srvWrites t0 t1)
     @ instant_fields ''t0'' t0 @ instant_fields ''t1'' t1"

definition classify_echo :: "echo_instant \<Rightarrow> echo_instant \<Rightarrow> string \<times> string" where
  "classify_echo t0 t1 =
     (if time_sub (ei_At t1) (ei_At t0) < wsEchoMinWindow then (verdictIndeterminate, ''window_too_short'')
      else case (ei_Server t0, ei_Server t1) of
             (None, _) \<Rightarrow> (verdictIndeterminate, ''server_socket_missing_t0'')
           | (Some _, None) \<Rightarrow> (verdictIndeterminate, ''server_socket_missing_t1'')
           | (Some s0, Some s1) \<Rightarrow>
               (case (srvReads t0 t1, srvWrites t0 t1) of
                  (Some reads, Some writes) \<Rightarrow>
                    if reads < 0 \<or> writes < 0 then (verdictIndeterminate, ''server_counters_inconsistent'')
                    else if reads > 0 \<and> writes \<ge> wsEchoMinWrite then (verdictSlow, ''server_read_and_wrote'')
                    else if reads > 0 then (verdictSlow, ''server_read'')
                    else if writes \<ge> wsEchoMinWrite then (verdictSlow, ''server_wrote'')
                    else if ss_RecvQ s0 = 0 \<or> ss_RecvQ s1 = 0 then (verdictIndeterminate, ''recvq_zero_no_progress'')
                    else if clientBytesUnexplained t0 t1 writes then (verdictIndeterminate, ''client_bytes_unexplained'')
                    else (verdictWedge, ''no_app_read_no_app_write_recvq_pending'')
                | _ \<Rightarrow> (verdictIndeterminate, ''server_counters_missing'')))"

definition wsEchoClassify :: "echo_instant \<Rightarrow> echo_instant \<Rightarrow> echo_verdict" where
  "wsEchoClassify t0 t1 =
     (let (cls, reason) = classify_echo t0 t1
      in \<lparr>vd_Class = cls, vd_Reason = reason,
          vd_Line = verdictLine cls reason (time_sub (ei_At t1) (ei_At t0)) t0 t1\<rparr>)"


section \<open>What the counters mean\<close>

text \<open>One end of a TCP connection: bytes received in order, taken by the application, handed over by it,
  and acknowledged by the peer.\<close>

record tcp_end =
  tc_received :: int
  tc_copied :: int
  tc_written :: int
  tc_acked :: int

definition tcp_ok :: "tcp_end \<Rightarrow> bool" where
  "tcp_ok t \<longleftrightarrow> 0 \<le> tc_copied t \<and> tc_copied t \<le> tc_received t \<and> tc_received t < 2 ^ 62
     \<and> 0 \<le> tc_acked t \<and> tc_acked t \<le> tc_written t \<and> tc_written t < 2 ^ 61"

definition tcp_later :: "tcp_end \<Rightarrow> tcp_end \<Rightarrow> bool" where
  "tcp_later t u \<longleftrightarrow> tc_received t \<le> tc_received u \<and> tc_copied t \<le> tc_copied u \<and> tc_written t \<le> tc_written u \<and> tc_acked t \<le> tc_acked u"

text \<open>What \<open>ss\<close> prints of it: the queues, the detail line, and a counter unless it is zero.\<close>

definition printed :: "tcp_end \<Rightarrow> ss_sock \<Rightarrow> bool" where
  "printed t s \<longleftrightarrow> ss_RecvQ s = tc_received t - tc_copied t \<and> ss_SendQ s = tc_written t - tc_acked t \<and> hasDetail (Some s)
     \<and> map_of (ss_Info s) ''bytes_received'' = (if tc_received t = 0 then None else Some (itoa (tc_received t)))
     \<and> map_of (ss_Info s) ''bytes_acked'' = (if tc_acked t = 0 then None else Some (itoa (tc_acked t)))"

lemma atoi_count: "0 \<le> n \<Longrightarrow> n < 2 ^ 62 \<Longrightarrow> atoi (itoa n) = Some n"
  using atoi_itoa [of "nat n"] by (simp add: in_int64_def)

lemma Counter_printed:
  assumes "printed t s" and "tcp_ok t"
  shows "Counter (Some s) ''bytes_received'' = Some (tc_received t)" and "Counter (Some s) ''bytes_acked'' = Some (tc_acked t)"
proof -
  have b: "0 \<le> tc_received t" "tc_received t < 2 ^ 62" "0 \<le> tc_acked t" "tc_acked t < 2 ^ 62"
    using assms(2) by (auto simp: tcp_ok_def)
  have q: "ss_RecvQ s = 0" if "tc_received t = 0" using that assms by (auto simp: printed_def tcp_ok_def)
  show "Counter (Some s) ''bytes_received'' = Some (tc_received t)"
    using assms(1) q b by (cases "tc_received t = 0") (simp_all add: Counter_def ss_Int_def printed_def atoi_count)
  show "Counter (Some s) ''bytes_acked'' = Some (tc_acked t)"
    using assms(1) b by (cases "tc_acked t = 0") (simp_all add: Counter_def ss_Int_def printed_def atoi_count)
qed

lemma srv_deltas:
  assumes "ei_Server t0 = Some s0" and "ei_Server t1 = Some s1" and "printed c0 s0" and "printed c1 s1"
    and "tcp_ok c0" and "tcp_ok c1" and "tcp_later c0 c1"
  shows "srvReads t0 t1 = Some (tc_copied c1 - tc_copied c0)" and "srvWrites t0 t1 = Some (tc_written c1 - tc_written c0)"
proof -
  have q: "ss_RecvQ s0 = tc_received c0 - tc_copied c0" "ss_RecvQ s1 = tc_received c1 - tc_copied c1"
    "ss_SendQ s0 = tc_written c0 - tc_acked c0" "ss_SendQ s1 = tc_written c1 - tc_acked c1" using assms(3,4) by (auto simp: printed_def)
  have b: "0 \<le> tc_copied c0" "tc_copied c0 \<le> tc_received c0" "tc_received c0 < 2 ^ 62" "0 \<le> tc_copied c1" "tc_copied c1 \<le> tc_received c1"
    "tc_received c1 < 2 ^ 62" "0 \<le> tc_acked c0" "tc_acked c0 \<le> tc_written c0" "tc_written c0 < 2 ^ 61" "0 \<le> tc_acked c1"
    "tc_acked c1 \<le> tc_written c1" "tc_written c1 < 2 ^ 61"
    using assms(5,6) by (simp_all add: tcp_ok_def)
  have w: "wrap64 (tc_received c1 - tc_received c0) = tc_received c1 - tc_received c0"
    "wrap64 (ss_RecvQ s1 - ss_RecvQ s0) = ss_RecvQ s1 - ss_RecvQ s0" "wrap64 (tc_copied c1 - tc_copied c0) = tc_copied c1 - tc_copied c0"
    "wrap64 (tc_written c1) = tc_written c1" "wrap64 (tc_written c0) = tc_written c0"
    "wrap64 (tc_written c1 - tc_written c0) = tc_written c1 - tc_written c0"
    unfolding q using b by (simp_all add: wrap64_id in_int64_def)
  show "srvReads t0 t1 = Some (tc_copied c1 - tc_copied c0)"
    using w by (simp add: srvReads_def assms(1,2) Counter_printed [OF assms(3,5)] Counter_printed [OF assms(4,6)]) (simp add: q w)
  show "srvWrites t0 t1 = Some (tc_written c1 - tc_written c0)"
    using w by (simp add: srvWrites_def assms(1,2) Counter_printed [OF assms(3,5)] Counter_printed [OF assms(4,6)] q)
qed

text \<open>No byte reaches the client that the server did not write, and every byte acknowledged at the first
  instant was read by the client or queued there.\<close>

definition client_conserves :: "echo_instant \<Rightarrow> echo_instant \<Rightarrow> ss_sock \<Rightarrow> tcp_end \<Rightarrow> tcp_end \<Rightarrow> bool" where
  "client_conserves t0 t1 cli c0 c1 \<longleftrightarrow> 0 \<le> ei_BytesIn t0 \<and> ei_BytesIn t0 \<le> ei_BytesIn t1 \<and> ei_BytesIn t1 \<le> tc_written c1
     \<and> 0 \<le> ss_RecvQ cli \<and> tc_acked c0 \<le> ei_BytesIn t0 + ss_RecvQ cli \<and> ss_RecvQ cli < 2 ^ 61"

lemma bytes_explained:
  assumes "ei_Server t0 = Some s0" and "ei_Client t0 = Some cli" and "printed c0 s0" and "tcp_ok c0" and "tcp_ok c1" and "tcp_later c0 c1"
    and "client_conserves t0 t1 cli c0 c1"
  shows "\<not> clientBytesUnexplained t0 t1 (tc_written c1 - tc_written c0)"
proof -
  have b: "0 \<le> ei_BytesIn t0" "ei_BytesIn t0 \<le> ei_BytesIn t1" "ei_BytesIn t1 \<le> tc_written c1" "0 \<le> ss_RecvQ cli"
    "tc_acked c0 \<le> ei_BytesIn t0 + ss_RecvQ cli" "ss_RecvQ cli < 2 ^ 61" "0 \<le> tc_acked c0" "tc_acked c0 \<le> tc_written c0"
    "tc_written c0 \<le> tc_written c1" "tc_written c1 < 2 ^ 61" "ss_SendQ s0 = tc_written c0 - tc_acked c0"
    using assms(3-7) by (simp_all add: client_conserves_def tcp_ok_def tcp_later_def printed_def)
  then have "wrap64 (ei_BytesIn t1) = ei_BytesIn t1" "wrap64 (ei_BytesIn t0) = ei_BytesIn t0"
    "wrap64 (ei_BytesIn t1 - ei_BytesIn t0) = ei_BytesIn t1 - ei_BytesIn t0"
    "wrap64 (tc_written c1 - tc_acked c0) = tc_written c1 - tc_acked c0"
    "wrap64 (tc_written c1 - tc_acked c0 + ss_RecvQ cli) = tc_written c1 - tc_acked c0 + ss_RecvQ cli"
    by (simp_all add: wrap64_id in_int64_def)
  then show ?thesis using b by (simp add: clientBytesUnexplained_def sendQ_def assms(1,2) Let_def)
qed

text \<open>C14: The verdict is what the server application did. When both instants show a connection truthfully,
  at least two seconds apart, the class is slow exactly when the application took a byte off the
  socket or handed it at least a data frame's worth, wedged exactly when it did neither while bytes
  were waiting for it at both instants, and indeterminate otherwise; queues that refill or drain
  under it make no difference.\<close>

theorem echo_verdict_exact:
  assumes "ei_Server t0 = Some s0" and "ei_Server t1 = Some s1" and "printed c0 s0" and "printed c1 s1"
    and "tcp_ok c0" and "tcp_ok c1" and "tcp_later c0 c1"
    and "ei_Client t0 = Some cli" and "client_conserves t0 t1 cli c0 c1"
    and "wsEchoMinWindow \<le> time_sub (ei_At t1) (ei_At t0)"
  shows "vd_Class (wsEchoClassify t0 t1) =
    (if tc_copied c0 < tc_copied c1 \<or> wsEchoMinWrite \<le> tc_written c1 - tc_written c0 then verdictSlow
     else if tc_copied c0 < tc_received c0 \<and> tc_copied c1 < tc_received c1 then verdictWedge
     else verdictIndeterminate)"
proof -
  note d = srv_deltas [OF assms(1-7)]
  note x = bytes_explained [OF assms(1,8,3,5-7,9)]
  have m: "tc_copied c0 \<le> tc_copied c1" "tc_written c0 \<le> tc_written c1" using assms(7) by (auto simp: tcp_later_def)
  have q: "ss_RecvQ s0 = 0 \<longleftrightarrow> \<not> tc_copied c0 < tc_received c0" "ss_RecvQ s1 = 0 \<longleftrightarrow> \<not> tc_copied c1 < tc_received c1"
    using assms(3-6) by (auto simp: printed_def tcp_ok_def)
  show ?thesis
    using assms(10) m x by (simp add: wsEchoClassify_def classify_echo_def assms(1,2) d q case_prod_unfold)
qed

text \<open>A wedge needs evidence. Whatever the two instants hold, true or not, the class is wedge only when the
  window was at least two seconds, both server sockets were found with a nonempty receive queue, \<open>ss\<close>
  printed \<open>bytes_received\<close> for both as a number, and the growth of that counter is the growth of the
  queue: an old \<open>ss\<close>, a lost socket, an empty queue or a short window is never booked as a wedge.\<close>

theorem wedge_needs_evidence:
  assumes "vd_Class (wsEchoClassify t0 t1) = verdictWedge"
  shows "wsEchoMinWindow \<le> time_sub (ei_At t1) (ei_At t0)
    \<and> (\<exists>s0 s1 r0 r1. ei_Server t0 = Some s0 \<and> ei_Server t1 = Some s1 \<and> ss_RecvQ s0 \<noteq> 0 \<and> ss_RecvQ s1 \<noteq> 0
        \<and> ss_Int (Some s0) ''bytes_received'' = Some r0 \<and> ss_Int (Some s1) ''bytes_received'' = Some r1
        \<and> wrap64 (wrap64 (r1 - r0) - wrap64 (ss_RecvQ s1 - ss_RecvQ s0)) = 0)"
proof -
  have ne: "verdictIndeterminate \<noteq> verdictWedge" "verdictSlow \<noteq> verdictWedge"
    by (simp_all add: verdictIndeterminate_def verdictSlow_def verdictWedge_def)
  have c: "fst (classify_echo t0 t1) = verdictWedge" using assms by (simp add: wsEchoClassify_def case_prod_unfold Let_def)
  obtain s0 s1 reads writes where s: "ei_Server t0 = Some s0" "ei_Server t1 = Some s1" and r: "srvReads t0 t1 = Some reads"
    and w: "wsEchoMinWindow \<le> time_sub (ei_At t1) (ei_At t0)" and z: "reads = 0" and q: "ss_RecvQ s0 \<noteq> 0" "ss_RecvQ s1 \<noteq> 0"
    using c ne by (auto simp: classify_echo_def split: if_splits option.splits)
  have cnt: "Counter (Some x) ''bytes_received'' = Some n \<Longrightarrow> ss_RecvQ x \<noteq> 0 \<Longrightarrow> ss_Int (Some x) ''bytes_received'' = Some n" for x n
    by (auto simp: Counter_def split: option.splits if_splits)
  obtain r0 r1 where "Counter (Some s0) ''bytes_received'' = Some r0" "Counter (Some s1) ''bytes_received'' = Some r1"
    and "wrap64 (wrap64 (r1 - r0) - wrap64 (ss_RecvQ s1 - ss_RecvQ s0)) = reads"
    using r s by (auto simp: srvReads_def split: option.splits)
  with cnt q s w z show ?thesis by blast
qed


section \<open>Reading what was printed\<close>

text \<open>What \<open>ss -tmin\<close> prints. A row is its words, each followed by blanks of any width (none is needed
  after the last). The first row is the header, whose first word is \<open>State\<close>. A socket is a row with
  the state, the two queues, the two addresses and perhaps the words of a process column, followed
  by any number of indented rows of items: the memory tuple \<open>skmem:(r0,rb131072,...)\<close>, words
  \<open>key:value\<close>, and bare words such as \<open>cubic\<close>, \<open>send\<close> or \<open>app_limited\<close>.\<close>

datatype ss_item = Skmem_item "(string \<times> int) list" | Info_item string string | Bare_item string

record printed_sock =
  pr_State :: string
  pr_RecvQ :: int
  pr_SendQ :: int
  pr_Local :: string
  pr_Peer :: string
  pr_Process :: "string list"
  pr_Gaps :: "string list"
  pr_Details :: "(string \<times> (ss_item \<times> string) list) list"

definition row_text :: "(string \<times> string) list \<Rightarrow> string" where
  "row_text r = concat (map (\<lambda>(w, g). w @ g) r)"

definition skmem_fields :: "(string \<times> int) list \<Rightarrow> string" where
  "skmem_fields fs = join (map (\<lambda>(k, n). k @ itoa n) fs) '',''"

fun item_text :: "ss_item \<Rightarrow> string" where
  "item_text (Skmem_item fs) = ''skmem:('' @ skmem_fields fs @ '')''"
| "item_text (Info_item k v) = k @ '':'' @ v"
| "item_text (Bare_item w) = w"

definition head_words :: "printed_sock \<Rightarrow> string list" where
  "head_words s = [pr_State s, itoa (pr_RecvQ s), itoa (pr_SendQ s), pr_Local s, pr_Peer s] @ pr_Process s"

definition head_text :: "printed_sock \<Rightarrow> string" where
  "head_text s = row_text (zip (head_words s) (pr_Gaps s))"

definition detail_text :: "string \<times> (ss_item \<times> string) list \<Rightarrow> string" where
  "detail_text d = fst d @ row_text (map (\<lambda>(it, g). (item_text it, g)) (snd d))"

definition sock_text :: "printed_sock \<Rightarrow> string" where
  "sock_text s = concat (map (\<lambda>l. l @ [CHR 0x0A]) (head_text s # map detail_text (pr_Details s)))"

definition ss_text :: "(string \<times> string) list \<Rightarrow> printed_sock list \<Rightarrow> string" where
  "ss_text header socks = row_text header @ CHR 0x0A # concat (map sock_text socks)"

text \<open>The socket that was printed: the items in order, a later one of the same key in front.\<close>

fun item_info :: "ss_item \<Rightarrow> string gomap" where
  "item_info (Info_item k v) = [(k, v)]"
| "item_info _ = []"

fun item_skmem :: "ss_item \<Rightarrow> int gomap" where
  "item_skmem (Skmem_item fs) = fs"
| "item_skmem _ = []"

definition all_items :: "printed_sock \<Rightarrow> ss_item list" where
  "all_items s = concat (map (\<lambda>d. map fst (snd d)) (pr_Details s))"

definition sock_of :: "printed_sock \<Rightarrow> ss_sock" where
  "sock_of s = \<lparr>ss_State = pr_State s, ss_RecvQ = pr_RecvQ s, ss_SendQ = pr_SendQ s, ss_Local = pr_Local s,
     ss_Peer = pr_Peer s, ss_Info = rev (concat (map item_info (all_items s))),
     ss_skmem = rev (concat (map item_skmem (all_items s))), ss_Raw = sock_text s\<rparr>"

text \<open>Well-formed output. A word has no blanks; a bare word is not of the form \<open>key:value\<close>; a key
  starts with a letter or an underscore; no word but the tuple has \<open>skmem:(\<close> in it, and a row has at
  most one tuple.\<close>

definition word_ok :: "string \<Rightarrow> bool" where
  "word_ok w \<longleftrightarrow> w \<noteq> [] \<and> list_all (\<lambda>c. \<not> is_space c) w"

definition blanks :: "string \<Rightarrow> bool" where
  "blanks g \<longleftrightarrow> list_all (\<lambda>c. c = CHR '' '' \<or> c = CHR 0x09) g"

definition row_ok :: "(string \<times> string) list \<Rightarrow> bool" where
  "row_ok r \<longleftrightarrow> r \<noteq> [] \<and> list_all (\<lambda>(w, g). word_ok w \<and> blanks g) r \<and> list_all (\<lambda>(w, g). g \<noteq> []) (butlast r)"

definition key_start :: "char \<Rightarrow> bool" where
  "key_start c \<longleftrightarrow> is_lower c \<or> is_upper c \<or> c = CHR ''_''"

fun item_ok :: "ss_item \<Rightarrow> bool" where
  "item_ok (Skmem_item fs) \<longleftrightarrow> fs \<noteq> [] \<and>
     list_all (\<lambda>(k, n). k \<noteq> [] \<and> list_all is_lower k \<and> 0 \<le> n \<and> in_int64 n) fs"
| "item_ok (Info_item k v) \<longleftrightarrow> k \<noteq> [] \<and> key_start (hd k) \<and> list_all (\<lambda>c. key_start c \<or> is_digit c) k \<and>
     k \<noteq> ''skmem'' \<and> word_ok v \<and> \<not> contains (k @ '':'' @ v) ''skmem:(''"
| "item_ok (Bare_item w) \<longleftrightarrow> word_ok w \<and> ssInfoTokRe w = None \<and> \<not> contains w ''skmem:(''"

fun is_tuple :: "ss_item \<Rightarrow> bool" where
  "is_tuple (Skmem_item _) \<longleftrightarrow> True"
| "is_tuple _ \<longleftrightarrow> False"

definition detail_ok :: "string \<times> (ss_item \<times> string) list \<Rightarrow> bool" where
  "detail_ok d \<longleftrightarrow> fst d \<noteq> [] \<and> blanks (fst d) \<and> snd d \<noteq> [] \<and>
     list_all (\<lambda>(it, g). item_ok it \<and> blanks g) (snd d) \<and> list_all (\<lambda>(it, g). g \<noteq> []) (butlast (snd d)) \<and>
     length (filter is_tuple (map fst (snd d))) \<le> 1"

definition sock_ok :: "printed_sock \<Rightarrow> bool" where
  "sock_ok s \<longleftrightarrow> pr_State s \<noteq> ''State'' \<and> \<not> has_prefix (pr_State s) ''###'' \<and>
     0 \<le> pr_RecvQ s \<and> in_int64 (pr_RecvQ s) \<and> 0 \<le> pr_SendQ s \<and> in_int64 (pr_SendQ s) \<and>
     length (pr_Gaps s) = length (head_words s) \<and> row_ok (zip (head_words s) (pr_Gaps s)) \<and>
     list_all detail_ok (pr_Details s)"

definition header_ok :: "(string \<times> string) list \<Rightarrow> bool" where
  "header_ok h \<longleftrightarrow> row_ok h \<and> fst (hd h) = ''State''"


section \<open>Rows\<close>

lemma row_ok_Cons:
  "row_ok ((w, g) # r) \<longleftrightarrow> word_ok w \<and> blanks g \<and> (r = [] \<or> g \<noteq> [] \<and> row_ok r)"
  by (cases r) (auto simp: row_ok_def)

lemma blank_space:
  assumes "blanks g" and "c \<in> set g"
  shows "is_space c \<and> c \<noteq> CHR 0x0A \<and> (c = CHR '' '' \<or> c = CHR 0x09)"
proof -
  have "c = CHR '' '' \<or> c = CHR 0x09" using assms by (simp only: blanks_def list_all_iff)
  then show ?thesis by (elim disjE) (simp_all add: is_space_def)
qed

lemma words_of_word: "list_all (\<lambda>c. \<not> is_space c) w \<Longrightarrow> words_of cur (w @ s) = words_of (rev w @ cur) s"
  by (induction w arbitrary: cur) auto

lemma words_of_blanks: "blanks g \<Longrightarrow> words_of [] (g @ s) = words_of [] s"
  by (induction g) (auto simp: blanks_def is_space_def)

lemma words_of_row: "row_ok r \<Longrightarrow> words_of [] (row_text r) = map fst r"
proof (induction r)
  case (Cons x r)
  obtain w g where x: "x = (w, g)" by (cases x)
  have w: "list_all (\<lambda>c. \<not> is_space c) w" "w \<noteq> []" and g: "blanks g" "r = [] \<or> g \<noteq> [] \<and> row_ok r"
    using Cons.prems by (auto simp: x row_ok_Cons word_ok_def)
  have "words_of [] (row_text (x # r)) = words_of (rev w) (g @ row_text r)"
    using words_of_word [OF w(1), of "[]"] by (simp add: row_text_def x)
  also have "\<dots> = w # map fst r"
  proof (cases g)
    case Nil
    with g w show ?thesis by (simp add: row_text_def)
  next
    case (Cons b g')
    then have "is_space b" "blanks g'" using g(1) blank_space [of g b] by (auto simp: blanks_def)
    then have "words_of (rev w) (g @ row_text r) = w # words_of [] (row_text r)"
      using Cons w(2) words_of_blanks by simp
    then show ?thesis using g(2) Cons.IH by (cases "r = []") (auto simp: row_text_def)
  qed
  finally show ?case by (simp add: x)
qed (simp add: row_ok_def)

lemma row_text_no_newline: "row_ok r \<Longrightarrow> CHR 0x0A \<notin> set (row_text r)"
proof (induction r)
  case (Cons x r)
  obtain w g where x: "x = (w, g)" by (cases x)
  have "is_space (CHR 0x0A)" by (simp add: is_space_def)
  then have "CHR 0x0A \<notin> set w" "CHR 0x0A \<notin> set g" "r = [] \<or> row_ok r"
    using Cons.prems blank_space [of g] by (auto simp: x row_ok_Cons word_ok_def list_all_iff)
  with Cons.IH show ?case by (auto simp: row_text_def x)
qed (simp add: row_ok_def)

lemma row_text_hd: "row_ok r \<Longrightarrow> row_text r \<noteq> [] \<and> \<not> is_space (hd (row_text r))"
  by (cases r) (auto simp: row_ok_def row_text_def word_ok_def list_all_iff hd_append)

lemma trim_space_ne: "c \<in> set s \<Longrightarrow> \<not> is_space c \<Longrightarrow> trim_space s \<noteq> []"
  by (auto simp: trim_space_def dropWhile_eq_Nil_conv) (metis dropWhile_append1 dropWhile_eq_Nil_conv takeWhile_dropWhile_id Un_iff set_append set_takeWhileD)

lemma row_not_blank: "row_ok r \<Longrightarrow> trim_space (g @ row_text r) \<noteq> []"
  using row_text_hd [of r] by (intro trim_space_ne [of "hd (row_text r)"]) auto


section \<open>Items\<close>

lemma set_join: "set (join ws sep) \<subseteq> (\<Union>w\<in>set ws. set w) \<union> set sep"
  by (induction ws sep rule: join.induct) auto

lemma atoi_nonneg: "0 \<le> n \<Longrightarrow> in_int64 n \<Longrightarrow> atoi (itoa n) = Some n"
  using atoi_itoa [of "nat n"] by simp

lemma itoa_digits: "0 \<le> n \<Longrightarrow> itoa n \<noteq> [] \<and> list_all is_digit (itoa n)"
  by (auto simp: itoa_def show_nat_ne list_all_iff dest: show_nat_chars intro: is_digit_digit)

lemma lower_not_digit: "is_lower c \<Longrightarrow> \<not> is_digit c"
  by (simp add: is_lower_def is_digit_def)

lemma digit_not_lower: "list_all is_digit w \<Longrightarrow> takeWhile is_lower w = [] \<and> dropWhile is_lower w = w"
  using lower_not_digit by (cases w) auto

lemma add_skmem_field:
  assumes "k \<noteq> []" "list_all is_lower k" "0 \<le> n" "in_int64 n"
  shows "add_skmem (k @ itoa n) m = (k, n) # m"
proof -
  have "\<forall>c\<in>set k. is_lower c" using assms(2) by (simp add: list_all_iff)
  then have "ssSkmemFld (k @ itoa n) = Some (k, itoa n)"
    using assms(1) itoa_digits [OF assms(3)] digit_not_lower [of "itoa n"]
    by (simp add: ssSkmemFld_def takeWhile_append2 dropWhile_append2 Let_def)
  then show ?thesis using assms(3,4) by (simp add: add_skmem_def atoi_nonneg)
qed

lemma field_chars:
  assumes "list_all is_lower k" "0 \<le> n" "c \<in> set (k @ itoa n)"
  shows "is_lower c \<or> is_digit c"
  using assms itoa_digits [of n] by (auto simp: list_all_iff)

lemma fold_skmem:
  assumes "item_ok (Skmem_item fs)"
  shows "fold add_skmem (split_on (CHR '','') (skmem_fields fs)) m = rev fs @ m"
    and "CHR '')'' \<notin> set (skmem_fields fs)" and "list_all (\<lambda>c. \<not> is_space c) (skmem_fields fs)"
proof -
  have f: "k \<noteq> [] \<and> list_all is_lower k \<and> 0 \<le> n \<and> in_int64 n" if "(k, n) \<in> set fs" for k n
    using assms that by (auto simp: list_all_iff)
  have c: "is_lower c \<or> is_digit c \<or> c = CHR '',''" if "c \<in> set (skmem_fields fs)" for c
    using that set_join [of "map (\<lambda>(k, n). k @ itoa n) fs" "'',''"] f field_chars
    by (fastforce simp: skmem_fields_def)
  have n: "\<not> is_lower c \<and> \<not> is_digit c" if "c \<in> {CHR '','', CHR '')'', CHR ''(''} \<or> is_space c" for c
    using that by (auto simp: is_lower_def is_digit_def is_space_def)
  have "split_on (CHR '','') (skmem_fields fs) = map (\<lambda>(k, n). k @ itoa n) fs"
    unfolding skmem_fields_def using assms f field_chars n [of "CHR '',''"]
    by (intro split_on_join) fastforce+
  moreover have "fold add_skmem (map (\<lambda>(k, n). k @ itoa n) fs) m = rev fs @ m" for m
    using f
  proof (induction fs arbitrary: m)
    case (Cons x fs)
    obtain k n where x: "x = (k, n)" by (cases x)
    have "add_skmem (k @ itoa n) m = x # m" using Cons.prems [of k n] by (simp add: x add_skmem_field)
    moreover have "fold add_skmem (map (\<lambda>(k, n). k @ itoa n) fs) (x # m) = rev fs @ x # m"
      by (rule Cons.IH) (use Cons.prems in auto)
    ultimately show ?case by (simp add: x)
  qed simp
  ultimately show "fold add_skmem (split_on (CHR '','') (skmem_fields fs)) m = rev fs @ m" by simp
  show "CHR '')'' \<notin> set (skmem_fields fs)" using c n [of "CHR '')''"] by fastforce
  have "\<not> is_space (CHR '','')" by (simp add: is_space_def)
  then show "list_all (\<lambda>c. \<not> is_space c) (skmem_fields fs)" using c n by (fastforce simp: list_all_iff)
qed

lemma add_info_item: "item_ok it \<Longrightarrow> add_info (item_text it) m = rev (item_info it) @ m"
proof (cases it)
  case (Info_item k v)
  assume "item_ok it"
  then have k: "k \<noteq> []" "key_start (hd k)" "\<forall>c\<in>set k. key_start c \<or> is_digit c" "k \<noteq> ''skmem''" "v \<noteq> []"
    by (auto simp: Info_item list_all_iff word_ok_def)
  have "\<not> key_start (CHR '':'')" "\<not> is_digit (CHR '':'')" by (simp_all add: key_start_def is_lower_def is_upper_def is_digit_def)
  then have c: "\<forall>c\<in>set k. c \<noteq> CHR '':''" using k(3) by blast
  have "ssInfoTokRe (k @ '':'' @ v) = Some (k, v)"
    using k c by (auto simp: ssInfoTokRe_def takeWhile_append2 dropWhile_append2 key_start_def list_all_iff Let_def)
  then show ?thesis using k(4) by (simp add: Info_item add_info_def)
next
  case (Skmem_item fs)
  have "takeWhile (\<lambda>c. c \<noteq> CHR '':'') (item_text it) = ''skmem''" by (simp add: Skmem_item)
  then have "ssInfoTokRe (item_text it) = None \<or> (\<exists>v. ssInfoTokRe (item_text it) = Some (''skmem'', v))"
    by (simp add: ssInfoTokRe_def Let_def)
  then show ?thesis by (auto simp: Skmem_item add_info_def)
next
  case (Bare_item w)
  assume "item_ok it"
  then show ?thesis by (simp add: Bare_item add_info_def)
qed

lemma fold_info:
  "list_all item_ok its \<Longrightarrow> fold add_info (map item_text its) m = rev (concat (map item_info its)) @ m"
  by (induction its arbitrary: m) (auto simp: add_info_item)

lemma ssSkmemRe_skip:
  assumes "\<not> contains w ''skmem:(''" and "x = [] \<or> hd x \<notin> set ''skmem:(''"
  shows "ssSkmemRe (w @ x) = ssSkmemRe x"
  using assms(1)
proof (induction w)
  case (Cons c w)
  have "\<not> has_prefix ((c # w) @ x) ''skmem:(''"
  proof
    assume p: "has_prefix ((c # w) @ x) ''skmem:(''"
    show False
    proof (cases "7 \<le> length (c # w)")
      case True
      with p have "has_prefix (c # w) ''skmem:(''" by (simp add: has_prefix_def)
      with Cons.prems show False by simp
    next
      case False
      have seven: "length ''skmem:('' = 7" by simp
      from p have t: "take 7 ((c # w) @ x) = ''skmem:(''" unfolding has_prefix_def seven .
      have "x \<noteq> []"
      proof
        assume "x = []"
        with t have "length ''skmem:('' \<le> length (c # w)" by (metis append_Nil2 length_take min.cobounded1)
        with False show False by simp
      qed
      then have "hd x \<in> set (take 7 ((c # w) @ x))" using False by (cases x) (auto simp: take_Cons')
      with t \<open>x \<noteq> []\<close> assms(2) show False by (simp only:) blast
    qed
  qed
  with Cons show ?case by (simp add: Let_def)
qed simp

lemma ssSkmemRe_tuple:
  assumes "CHR '')'' \<notin> set b"
  shows "ssSkmemRe (''skmem:('' @ b @ '')'' @ x) = Some b"
proof -
  have "takeWhile (\<lambda>d. d \<noteq> CHR '')'') (b @ '')'' @ x) = b"
    using assms by (auto simp: takeWhile_tail takeWhile_append)
  then show ?thesis by (simp add: has_prefix_def Let_def)
qed

lemma ssSkmemRe_blanks: "blanks g \<Longrightarrow> ssSkmemRe (g @ x) = ssSkmemRe x"
  by (induction g) (auto simp: blanks_def has_prefix_def Let_def)

lemma ssSkmemRe_item:
  assumes "item_ok it" and "\<not> is_tuple it" and "blanks g" and "g \<noteq> [] \<or> x = []"
  shows "ssSkmemRe (item_text it @ g @ x) = ssSkmemRe x"
proof -
  have "\<not> contains (item_text it) ''skmem:(''" using assms(1,2) by (cases it) simp_all
  moreover have "g @ x = [] \<or> hd (g @ x) \<notin> set ''skmem:(''"
    using assms(3,4) by (cases g) (auto simp: blanks_def)
  ultimately show ?thesis using ssSkmemRe_skip ssSkmemRe_blanks [OF assms(3)] by metis
qed

lemma ssSkmemRe_row:
  assumes "row_ok (map (\<lambda>(it, g). (item_text it, g)) r)" and "list_all (\<lambda>(it, g). item_ok it) r"
    and "length (filter is_tuple (map fst r)) \<le> 1"
  shows "(case ssSkmemRe (row_text (map (\<lambda>(it, g). (item_text it, g)) r)) of None \<Rightarrow> m
      | Some t \<Rightarrow> fold add_skmem (split_on (CHR '','') t) m) = rev (concat (map (item_skmem \<circ> fst) r)) @ m"
  using assms
proof (induction r)
  case (Cons x r)
  let ?row = "\<lambda>r. row_text (map (\<lambda>(it, g). (item_text it, g)) r)"
  obtain it g where x: "x = (it, g)" by (cases x)
  have g: "blanks g" "r = [] \<or> g \<noteq> [] \<and> row_ok (map (\<lambda>(it, g). (item_text it, g)) r)" and ok: "item_ok it"
    using Cons.prems(1,2) by (auto simp: x row_ok_Cons)
  have row: "?row (x # r) = item_text it @ g @ ?row r" by (simp add: row_text_def x)
  have other: ?case if nt: "\<not> is_tuple it"
  proof -
    have "ssSkmemRe (?row (x # r)) = ssSkmemRe (?row r)"
      unfolding row using g(2) by (intro ssSkmemRe_item [OF ok nt g(1)]) (auto simp: row_text_def)
    moreover have "item_skmem it = []" using nt by (cases it) simp_all
    ultimately show ?thesis
      using Cons.IH Cons.prems(2,3) g(2) nt by (cases "r = []") (auto simp: x row_text_def)
  qed
  show ?case
  proof (cases it)
    case (Skmem_item fs)
    have "filter is_tuple (map fst r) = []" using Cons.prems(3) by (simp add: x Skmem_item filter_map)
    then have "item_skmem (fst y) = []" if "y \<in> set r" for y
      using that by (cases "fst y") (auto simp: filter_empty_conv)
    then have "concat (map (item_skmem \<circ> fst) r) = []" by auto
    moreover have "ssSkmemRe (?row (x # r)) = Some (skmem_fields fs)"
      unfolding row Skmem_item item_text.simps append_assoc using fold_skmem(2) [of fs] ok Skmem_item
      by (intro ssSkmemRe_tuple) simp
    ultimately show ?thesis using fold_skmem(1) [of fs m] ok by (simp add: x Skmem_item)
  next
    case (Info_item k v)
    then show ?thesis using other by simp
  next
    case (Bare_item w)
    then show ?thesis using other by simp
  qed
qed (simp add: row_ok_def)


section \<open>Sockets and the whole text\<close>

lemma item_word: "item_ok it \<Longrightarrow> word_ok (item_text it)"
proof (cases it)
  case (Skmem_item fs)
  assume "item_ok it"
  then have "list_all (\<lambda>c. \<not> is_space c) (skmem_fields fs)" using fold_skmem(3) Skmem_item by simp
  then show ?thesis by (simp add: Skmem_item word_ok_def is_space_def)
next
  case (Info_item k v)
  assume "item_ok it"
  then have "\<forall>c\<in>set k. key_start c \<or> is_digit c" "word_ok v" by (auto simp: Info_item list_all_iff)
  moreover have "\<not> is_space c" if "key_start c \<or> is_digit c" for c
    using that by (auto simp: is_space_def key_start_def is_lower_def is_upper_def is_digit_def)
  ultimately show ?thesis by (auto simp: Info_item word_ok_def list_all_iff is_space_def)
next
  case (Bare_item w)
  assume "item_ok it"
  then show ?thesis by (simp add: Bare_item)
qed

lemma detail_row:
  assumes "detail_ok d"
  shows "row_ok (map (\<lambda>(it, g). (item_text it, g)) (snd d))"
  using assms item_word unfolding detail_ok_def row_ok_def
  by (auto simp: list_all_iff map_butlast [symmetric])

lemma detail_parsed:
  assumes "detail_ok d"
  shows "parse_line (detail_text d) (out, Some s) =
    (out, Some (s\<lparr>ss_Raw := ss_Raw s @ detail_text d @ [CHR 0x0A],
       ss_skmem := rev (concat (map (item_skmem \<circ> fst) (snd d))) @ ss_skmem s,
       ss_Info := rev (concat (map (item_info \<circ> fst) (snd d))) @ ss_Info s\<rparr>))"
proof -
  let ?row = "map (\<lambda>(it, g). (item_text it, g)) (snd d)"
  have d: "fst d \<noteq> []" "blanks (fst d)" "row_ok ?row" "list_all (\<lambda>(it, g). item_ok it) (snd d)"
    "length (filter is_tuple (map fst (snd d))) \<le> 1"
    using assms detail_row [OF assms] by (auto simp: detail_ok_def list_all_iff)
  have "hd (fst d) = CHR '' '' \<or> hd (fst d) = CHR 0x09" using d(1,2) blank_space hd_in_set by blast
  then have h: "hd (detail_text d) = CHR '' '' \<or> hd (detail_text d) = CHR 0x09" using d(1) by (simp add: detail_text_def)
  have ne: "trim_space (detail_text d) \<noteq> []" unfolding detail_text_def by (rule row_not_blank [OF d(3)])
  have "words_of [] (detail_text d) = map item_text (map fst (snd d))"
    unfolding detail_text_def words_of_blanks [OF d(2)] words_of_row [OF d(3)] by (simp add: comp_def case_prod_beta)
  moreover have "list_all item_ok (map fst (snd d))" using d(4) by (auto simp: list_all_iff)
  ultimately have i: "fold add_info (words_of [] (detail_text d)) m = rev (concat (map (item_info \<circ> fst) (snd d))) @ m" for m
    using fold_info [of "map fst (snd d)"] by (simp add: comp_def)
  have "ssSkmemRe (detail_text d) = ssSkmemRe (row_text ?row)"
    unfolding detail_text_def by (rule ssSkmemRe_blanks [OF d(2)])
  then have k: "(case ssSkmemRe (detail_text d) of None \<Rightarrow> m | Some t \<Rightarrow> fold add_skmem (split_on (CHR '','') t) m) =
      rev (concat (map (item_skmem \<circ> fst) (snd d))) @ m" for m
    using ssSkmemRe_row [OF d(3-5)] by simp
  show ?thesis using ne h by (auto simp: parse_line_def detail_line_def i k)
qed

lemma details_parsed:
  "list_all detail_ok ds \<Longrightarrow> fold parse_line (map detail_text ds) (out, Some s) =
    (out, Some (s\<lparr>ss_Raw := ss_Raw s @ concat (map (\<lambda>l. l @ [CHR 0x0A]) (map detail_text ds)),
       ss_skmem := rev (concat (map item_skmem (concat (map (\<lambda>d. map fst (snd d)) ds)))) @ ss_skmem s,
       ss_Info := rev (concat (map item_info (concat (map (\<lambda>d. map fst (snd d)) ds)))) @ ss_Info s\<rparr>))"
  by (induction ds arbitrary: s) (simp_all add: detail_parsed comp_def)

lemma head_parsed:
  assumes "sock_ok s"
  shows "parse_line (head_text s) acc = (flush_sock acc, Some \<lparr>ss_State = pr_State s, ss_RecvQ = pr_RecvQ s,
    ss_SendQ = pr_SendQ s, ss_Local = pr_Local s, ss_Peer = pr_Peer s, ss_Info = [], ss_skmem = [],
    ss_Raw = head_text s @ [CHR 0x0A]\<rparr>)"
proof -
  let ?row = "zip (head_words s) (pr_Gaps s)"
  have ok: "row_ok ?row" "length (pr_Gaps s) = length (head_words s)" using assms by (auto simp: sock_ok_def)
  have "words_of [] (head_text s) = head_words s" using words_of_row [OF ok(1)] ok(2) by (simp add: head_text_def)
  then have l: "socket_line (head_text s) = Some \<lparr>ss_State = pr_State s, ss_RecvQ = pr_RecvQ s,
      ss_SendQ = pr_SendQ s, ss_Local = pr_Local s, ss_Peer = pr_Peer s, ss_Info = [], ss_skmem = [],
      ss_Raw = head_text s @ [CHR 0x0A]\<rparr>"
    using assms by (simp add: socket_line_def head_words_def atoi_nonneg sock_ok_def)
  have "is_space (CHR '' '')" "is_space (CHR 0x09)" by (simp_all add: is_space_def)
  then have "hd (head_text s) \<noteq> CHR '' ''" "hd (head_text s) \<noteq> CHR 0x09"
    using row_text_hd [OF ok(1)] by (auto simp: head_text_def)
  then show ?thesis using row_not_blank [OF ok(1), of "[]"] l by (simp add: parse_line_def head_text_def)
qed

lemma header_parsed:
  assumes "header_ok h"
  shows "parse_line (row_text h) acc = (flush_sock acc, None)"
proof -
  have ok: "row_ok h" "fst (hd h) = ''State''" "h \<noteq> []" using assms by (auto simp: header_ok_def row_ok_def)
  then have "socket_line (row_text h) = None"
    using words_of_row [OF ok(1)] by (cases h) (auto simp: socket_line_def split: list.splits)
  moreover have "is_space (CHR '' '')" "is_space (CHR 0x09)" by (simp_all add: is_space_def)
  then have "hd (row_text h) \<noteq> CHR '' ''" "hd (row_text h) \<noteq> CHR 0x09" using row_text_hd [OF ok(1)] by auto
  ultimately show ?thesis using row_not_blank [OF ok(1), of "[]"] by (simp add: parse_line_def)
qed

lemma split_lines:
  "\<forall>l\<in>set ls. CHR 0x0A \<notin> set l \<Longrightarrow>
    split_on (CHR 0x0A) (concat (map (\<lambda>l. l @ [CHR 0x0A]) ls) @ x) = ls @ split_on (CHR 0x0A) x"
  by (induction ls) (auto simp: split_on_append)

lemma sock_lines:
  assumes "sock_ok s"
  shows "split_on (CHR 0x0A) (sock_text s @ x) = head_text s # map detail_text (pr_Details s) @ split_on (CHR 0x0A) x"
proof -
  have "CHR 0x0A \<notin> set (head_text s)"
    using assms row_text_no_newline unfolding head_text_def by (auto simp: sock_ok_def)
  moreover have "CHR 0x0A \<notin> set (detail_text d)" if "d \<in> set (pr_Details s)" for d
  proof -
    have d: "detail_ok d" using assms that by (simp add: sock_ok_def list_all_iff)
    then have "blanks (fst d)" by (simp add: detail_ok_def)
    then show ?thesis
      using row_text_no_newline [OF detail_row [OF d]] blank_space [of "fst d" "CHR 0x0A"] by (auto simp: detail_text_def)
  qed
  ultimately show ?thesis
    using split_lines [of "head_text s # map detail_text (pr_Details s)" x] by (simp add: sock_text_def)
qed

lemma sock_parsed:
  assumes "sock_ok s"
  shows "fold parse_line (head_text s # map detail_text (pr_Details s)) acc = (flush_sock acc, Some (sock_of s))"
proof -
  have "list_all detail_ok (pr_Details s)" using assms by (simp add: sock_ok_def)
  from details_parsed [OF this] head_parsed [OF assms, of acc] show ?thesis
    by (simp add: sock_of_def sock_text_def all_items_def)
qed

text \<open>C16: The parser reads back what \<open>ss -tmin\<close> printed. For any header, and any list of sockets printed
  after it, with any widths of the columns, with or without a process column, and with any detail
  lines of a memory tuple, \<open>key:value\<close> words and bare words, the parser skips the header and returns
  exactly these sockets, in order: state, queues and addresses, every \<open>key:value\<close> pair and every
  memory counter (for a key printed twice the later value), nothing for the bare words, and the raw
  text of each.\<close>

theorem parseSS_roundtrip:
  assumes "header_ok header" and "\<forall>s\<in>set socks. sock_ok s"
  shows "parseSS (ss_text header socks) = map sock_of socks"
proof -
  have "flush_sock (fold parse_line (split_on (CHR 0x0A) (concat (map sock_text socks))) acc) = flush_sock acc @ map sock_of socks" for acc
    using assms(2)
  proof (induction socks arbitrary: acc)
    case Nil
    then show ?case by (simp add: parse_line_def trim_space_def)
  next
    case (Cons s socks)
    have s: "sock_ok s" using Cons.prems by simp
    show ?case
      using Cons sock_parsed [OF s, of acc] sock_lines [OF s, of "concat (map sock_text socks)"]
      by (simp add: flush_sock_def)
  qed
  moreover have "split_on (CHR 0x0A) (ss_text header socks) = row_text header # split_on (CHR 0x0A) (concat (map sock_text socks))"
    using assms(1) row_text_no_newline [of header] by (simp add: ss_text_def header_ok_def split_on_append)
  ultimately show ?thesis using header_parsed [OF assms(1)] by (simp add: parseSS_def flush_sock_def)
qed


section \<open>Witnesses\<close>

definition w_sock :: "int \<Rightarrow> int \<Rightarrow> string \<Rightarrow> string \<Rightarrow> string gomap \<Rightarrow> ss_sock" where
  "w_sock rq sq l p info = \<lparr>ss_State = ''ESTAB'', ss_RecvQ = rq, ss_SendQ = sq, ss_Local = l, ss_Peer = p,
     ss_Info = info, ss_skmem = [], ss_Raw = []\<rparr>"

text \<open>The server end has 700 bytes unread at both instants while 300 bytes of its send queue drain.\<close>

definition w_srv :: "int \<Rightarrow> int \<Rightarrow> ss_sock" where
  "w_srv sq acked = w_sock 700 sq ''127.0.0.1:80'' ''127.0.0.1:50278''
     [(''bytes_acked'', itoa acked), (''bytes_received'', ''1700''), (''cwnd'', ''10''), (''rto'', ''204'')]"

definition w_cli :: ss_sock where "w_cli = w_sock 0 900 ''127.0.0.1:50278'' ''127.0.0.1:80'' [(''cwnd'', ''10'')]"

definition w_tcp :: "int \<Rightarrow> tcp_end" where
  "w_tcp acked = \<lparr>tc_received = 1700, tc_copied = 1000, tc_written = 1000, tc_acked = acked\<rparr>"

definition w_instant :: "int \<Rightarrow> int \<Rightarrow> ss_sock \<Rightarrow> echo_instant" where
  "w_instant at n srv = \<lparr>ei_At = at, ei_Echoes = 0, ei_Sent = 4, ei_BytesIn = n, ei_SSErr = '''', ei_Server = Some srv, ei_Client = Some w_cli\<rparr>"

text \<open>The idle server end of \<open>realIdleServerSock\<close> in \<open>ws_echo_verdict_test.go\<close>, under the header the
  tests print, and a second socket with a process column and no detail row.\<close>

definition w_header :: "(string \<times> string) list" where
  "w_header = [(''State'', ''     ''), (''Recv-Q'', '' ''), (''Send-Q'', ''               ''), (''Local'', '' ''),
     (''Address:Port'', ''  ''), (''Peer'', '' ''), (''Address:Port'', '' ''), (''Process'', '''')]"

definition w_idle :: printed_sock where
  "w_idle = \<lparr>pr_State = ''ESTAB'', pr_RecvQ = 0, pr_SendQ = 0, pr_Local = ''127.0.0.1:34267'', pr_Peer = ''127.0.0.1:38948'',
     pr_Process = [], pr_Gaps = ['' '', ''      '', ''          '', ''    '', ''''],
     pr_Details = [([CHR 0x09, CHR 0x20], map (\<lambda>it. (it, '' ''))
       [Skmem_item [(''r'', 0), (''rb'', 131072), (''t'', 0), (''tb'', 2626560), (''f'', 0), (''w'', 0), (''o'', 0), (''bl'', 0), (''d'', 0)],
        Bare_item ''cubic'', Info_item ''wscale'' ''10,10'', Info_item ''rto'' ''201'', Info_item ''rtt'' ''0.019/0.009'',
        Info_item ''mss'' ''32768'', Info_item ''cwnd'' ''10'', Info_item ''segs_in'' ''2'', Bare_item ''send'',
        Bare_item ''137970526316bps'', Info_item ''lastsnd'' ''4'', Bare_item ''app_limited'', Info_item ''snd_wnd'' ''65536''])]\<rparr>"

definition w_listed :: printed_sock where
  "w_listed = \<lparr>pr_State = ''LISTEN'', pr_RecvQ = 0, pr_SendQ = 5, pr_Local = ''*:80'', pr_Peer = ''*:*'',
     pr_Process = [''users:((celeris,pid=7,fd=3))''], pr_Gaps = ['' '', '' '', '' '', '' '', '' '', '' ''], pr_Details = []\<rparr>"

theorem parseSS_roundtrip_witness:
  "parseSS (ss_text w_header [w_idle, w_listed]) = [sock_of w_idle, sock_of w_listed] \<and>
   Skmem (Some (sock_of w_idle)) ''rb'' = Some 131072 \<and> ss_Int (Some (sock_of w_idle)) ''cwnd'' = Some 10"
proof -
  have "header_ok w_header" by code_simp
  moreover have "sock_ok w_idle" by code_simp
  moreover have "sock_ok w_listed" by code_simp
  moreover have "map_of (rev (concat (map item_skmem (all_items w_idle)))) ''rb'' = Some 131072"
    "map_of (rev (concat (map item_info (all_items w_idle)))) ''cwnd'' = Some ''10''" "atoi ''10'' = Some 10" by code_simp+
  then have "Skmem (Some (sock_of w_idle)) ''rb'' = Some 131072" "ss_Int (Some (sock_of w_idle)) ''cwnd'' = Some 10"
    by (simp_all add: Skmem_def ss_Int_def sock_of_def)
  ultimately show ?thesis using parseSS_roundtrip [of w_header "[w_idle, w_listed]"] by simp
qed

lemma w_tcp_ok: "tcp_ok (w_tcp 700)" "tcp_ok (w_tcp 1000)" "tcp_later (w_tcp 700) (w_tcp 1000)"
    "printed (w_tcp 700) (w_srv 300 700)" "printed (w_tcp 1000) (w_srv 0 1000)"
    "client_conserves (w_instant 0 700 (w_srv 300 700)) (w_instant 3000000000 1000 (w_srv 0 1000)) w_cli (w_tcp 700) (w_tcp 1000)"
  by code_simp+

theorem echo_verdict_exact_witness:
  "vd_Class (wsEchoClassify (w_instant 0 700 (w_srv 300 700)) (w_instant 3000000000 1000 (w_srv 0 1000))) = verdictWedge"
  using echo_verdict_exact [OF _ _ w_tcp_ok(4,5,1-3) _ w_tcp_ok(6)]
  by (simp add: w_instant_def w_tcp_def wsEchoMinWrite_def wsEchoMinWindow_def time_sub_def)

theorem wedge_needs_evidence_witness:
  "\<exists>r0. vd_Class (wsEchoClassify (w_instant 0 700 (w_srv 300 700)) (w_instant 3000000000 1000 (w_srv 0 1000))) = verdictWedge
     \<and> ss_Int (Some (w_srv 300 700)) ''bytes_received'' = Some r0"
proof -
  have w: "vd_Class (wsEchoClassify (w_instant 0 700 (w_srv 300 700)) (w_instant 3000000000 1000 (w_srv 0 1000))) = verdictWedge"
    by code_simp
  from w wedge_needs_evidence [OF w] show ?thesis by (auto simp: w_instant_def)
qed

end
