(* ===== verification/Spec2Isabelle.thy ===== *)
theory Spec2Isabelle
  imports CellRun BenchTier Diff MatrixRun RfcScrape StressGuard StressJudge Shrinker EchoVerdict
begin

text \<open>
  \<^bold>\<open>The program.\<close> probatorium benchmarks and validates the HTTP engine celeris. It has two halves
  that share a results document:

  \<^item> the \<^emph>\<open>benchmark runner\<close> (\<open>src/cmd/runner\<close>) walks a matrix of scenarios (\<open>src/scenarios\<close>) and
    server adapters (\<open>src/servers\<close>) in the order of \<open>src/interleave\<close>, drives an external load
    generator against each cell, judges the answer, writes one file per cell and can resume; two
    runners on two architectures share one client host through a file lock;
  \<^item> the \<^emph>\<open>validator\<close> (\<open>src/cmd/validator\<close>, \<open>src/validation\<close>) runs reference applications under
    fault and protocol load for every engine, evaluates invariants once per second, writes the
    validation document of \<open>src/report/schema.go\<close>, and \<open>src/report/gate.go\<close> decides whether a
    release may pass.

  \<^bold>\<open>The theories\<close>, in import order, with the code they model:

  \<^item> \<open>Prelude\<close>: Go strings, maps as association lists, slice sorts, decimal rendering, 64-bit
    wrap-around. \<open>GoFloat\<close>: \<open>float64\<close> as correctly rounded rationals, \<open>%.nf\<close>, durations, \<open>%q\<close>.
    \<open>GoPath\<close>: \<open>path.Match\<close>.
  \<^item> \<open>Scenarios\<close> (\<open>src/scenarios/*.go\<close>) and \<open>Servers\<close> (\<open>src/servers/servers.go\<close>, \<open>baseline.go\<close>,
    \<open>start.go\<close>): registries, applicability, baseline columns. The registry contract is the locale
    \<open>named_registry\<close>, interpreted for both registries.
  \<^item> \<open>Interleave\<close> (\<open>src/interleave/schedule.go\<close>): the cell schedule and its reversal.
  \<^item> \<open>CellStatus\<close> (\<open>schema.go\<close>, \<open>aggregate.go\<close>, the results sink of \<open>main.go\<close>), \<open>RunResume\<close>
    (\<open>resume.go\<close>), \<open>RunPlan\<close> (globs, filters, \<open>run\<close> up to the loop), \<open>CellVerdict\<close>
    (\<open>classifyCompletedCell\<close>, \<open>probeSUT\<close>, rated passes), \<open>CellRun\<close> (\<open>executeCell\<close>, the loop of
    \<open>run\<close>, and \<open>run\<close> as a whole): one invocation of the runner from its flags to its exit status.
  \<^item> \<open>ClientLock\<close> (\<open>clientlock.go\<close>): the lock as a step relation over the kernel's flock table.
    \<open>ArchPlan\<close> (\<open>src/interleave/archplan.go\<close>) and \<open>ArchOverlap\<close> (\<open>src/report/archoverlap.go\<close>): the
    simulated both-arch run and the check of the recorded one.
  \<^item> \<open>ValidationCells\<close>, \<open>Gate\<close>, \<open>Diff\<close> (\<open>schema.go\<close>, \<open>gate.go\<close>, \<open>zero_witness.go\<close>, \<open>diff.go\<close>): the
    validation document, the absolute gate and the relative comparison.
  \<^item> \<open>MatrixPlan\<close>, \<open>MatrixRun\<close> (\<open>src/cmd/validator/matrix.go\<close>, \<open>resume.go\<close>, \<open>matrix_run.go\<close>): which
    validation cells run, what a resume inherits, the loop with its failure caps, the document
    and the exit status.
  \<^item> \<open>Properties\<close>, \<open>MemProperties\<close> (\<open>src/validation/properties\<close>): the invariants as predicates over a
    sample and its history, the slope fits among them. \<open>Evaluator\<close>
    (\<open>src/validation/checker/evaluator.go\<close>): streaks, persistence, declarations and the tally of a
    cell. \<open>PropertyLoop\<close> (\<open>src/validation/propertyloop.go\<close>, \<open>checker/poll.go\<close>, \<open>Tier1Summary\<close> in
    \<open>runner.go\<close>): from the decoded \<open>/debug/vars\<close> documents of one cell to its entry in the results
    document, which \<open>Gate\<close> reads. \<open>RfcScrape\<close> (\<open>src/validation/rfc_scrape.go\<close>): the raw-socket
    parser whose counts two of the predicates judge.
  \<^item> \<open>EchoVerdict\<close> (\<open>src/validation/ws_echo_verdict.go\<close>): the parser of \<open>ss\<close> and the verdict on a
    timed-out echo. \<open>Shrinker\<close> (\<open>src/validation/shrinker.go\<close>): the bisection of a failing seed.
  \<^item> \<open>StressGuard\<close> (\<open>src/tools/stresstally/guard.go\<close>): the guard in front of the cluster's concurrency
    group, with that group as a step relation. \<open>StressJudge\<close> (\<open>judge.go\<close> there): the verdict on the
    parsed logs of a stress run.
  \<^item> \<open>Budget\<close> (\<open>src/budget\<close>): the wall-clock of a profile. \<open>BenchTier\<close> (\<open>src/mage_tier.go\<close>,
    \<open>mage_bench_archexcl.go\<close>, the tables of \<open>benchmark-tier.yml\<close>): the gate before a benchmark run,
    which asks the runner of \<open>RunPlan\<close> for the size of its plan.

  \<^bold>\<open>What the lemmas show.\<close> Planning: every selected applicable cell is scheduled, once per run, in
  one order, unless a resume finds it final, and what is scheduled is the product of the selected
  rows and columns; the matrix has the size the budget assumes; the exit of a run is an error for
  exactly the reasons listed with it. One cell: the published status is the one
  the verdict means, a cell without an error carries a measurement. A run and its resume: the
  directory a run leaves makes the resume execute exactly the unfinished cells; the validation
  matrix interrupted anywhere and resumed reports every planned cell exactly once, and resumes
  make progress. Concurrency: two runners never load the client at the same time, in every
  interleaving; the simulated plan obeys the lock policy, and the overlap check, an optimised scan,
  equals the brute-force count. The gate: it passes exactly the clean documents, in a reading by
  quantifiers that is independent of its code, and a counter that should be zero and is not is
  reported whatever else is in the document. The property loop: the evaluator is exact for every
  predicate over every sequence of samples and failed polls, what it finds reaches the gate, a
  slope violation means growth, and nothing absolved is hidden. The wire: a response is judged exactly
  by its declared length or its chunks, and one broken response fails the release. Diagnosis: what
  \<open>ss\<close> printed is read back exactly, header, memory tuple and bare words included; the echo verdict is what the server application did, whatever the queues did; the shrinker closes in
  on the time a bug needs. The cluster: a stress run cancels only runs dispatched after its guard
  looked, and a stress case passes exactly when it is clean by a reading of its logs. The benchmark
  tier: no bench starts
  that does not fit its budget, and the counts it is gated on are those of the plan.

  \<^bold>\<open>How effects are modelled.\<close> State is passed explicitly; what the outside answers (the load
  generator, dials, clocks, directory listings, JSON decoding, the drain file, cancellation) is an
  input record or a function, with one field per question. Go's map iteration order is the order
  of an association list, and \<open>sort.Slice\<close>, which is not stable, is an argument with its contract
  (locale \<open>slice_sort\<close>) where ties are possible. Errors are values; messages are the code's strings
  where they are read back, and otherwise the arguments of the format string. \<open>float64\<close> arithmetic
  is rounded after every operation (no fused multiply-add, as the compiler does on amd64); the
  three functions of package math the scatter floor calls are parameters, and the theorems hold
  for any of them. The environment of a process is a function from names to values.

  \<^bold>\<open>Bounds.\<close> Integers are 64-bit and wrapped where a product or sum of configured values can leave
  the range (\<open>clientLockLimits\<close>, the gate's tallies, every time of the both-arch simulation); elsewhere
  counts and durations stay far below it and are unbounded. The theorems on the simulation assume
  that its times fit (\<open>plan_fits\<close>: both walks one after the other end within 292 years), which makes
  it equal to the simulation without wrap-around. No definition needs fuel: loops recurse over the schedule, the windows or a
  measure that decreases (the simulation, \<open>path.Match\<close>).

  \<^bold>\<open>Not modelled.\<close> The \<open>Workload\<close> methods, which fill a configuration of the external load
  generator; process, docker and ssh handling; the walkers of the validation tiers other than
  the response scraper, whose verdicts depend on socket timing; the input validation, the log
  scanner and the timing analysis of the stress tool; the side outputs of the property loop (series file, heap profile,
  periodic tally); report rendering; the mage targets that only compose command lines; the adapters
  and reference applications, which are the systems under test.
\<close>

end
